(* ===== verification/Flow_Prelude.thy ===== *)
theory Flow_Prelude
  imports
    Complex_Main
    "HOL-Library.Multiset"
    "HOL-Library.Char_ord"
    "HOL-Library.List_Lexorder"
    "HOL-Library.Product_Lexorder"
begin

text \<open>
  Shared vocabulary of the development: the errors the Python code raises, the
  error-or-value type with its sequencing combinators and their automation, the
  text and time values, Python's stable sort by key and insertion-ordered
  grouping, and \<open>itertools.combinations\<close>.

  Text is a list of 8-bit characters; white space is that of Python's
  \<open>str.strip\<close> on these characters and letter case is that of ASCII.  A date is its
  proleptic ordinal, an instant is a number of microseconds on the UTC time line,
  and a UUID is the number it denotes.
\<close>

named_theorems outcome_simps "rewriting the error-or-value combinators"

section \<open>Errors and outcomes\<close>

datatype py_error =
    ValueError string
  | TypeError string
  | RuntimeError string
  | RecordNotFoundError
  | PersistenceConflictError
  | InvalidStatusTransitionError
  | StorageQuotaExceededError
  | IntegrityError
  | APIError nat string
  | AttributeError string
  | KeyError string
  | StorageError string
  | IngestionError string
  | ResultExportError string
  | TokenValidationError
  | AIInferenceError string
  | AIInferenceDisabledError
  | AIInferenceResponseError
  | AIUsageLimitError string
  | TimeoutError
  | FileExistsError string
  | CsvError string
  | InvalidOperation
  | OverflowError string
  | JobCancelled
  | JobTimedOut

type_synonym 'a outcome = "py_error + 'a"

definition and_then :: "'a outcome \<Rightarrow> ('a \<Rightarrow> 'b outcome) \<Rightarrow> 'b outcome" where
  "and_then m k = (case m of Inl e \<Rightarrow> Inl e | Inr x \<Rightarrow> k x)"

definition guard_else :: "bool \<Rightarrow> py_error \<Rightarrow> unit outcome" where
  "guard_else c e = (if c then Inr () else Inl e)"

lemma and_then_simps [simp, outcome_simps]:
  "and_then (Inl e) k = Inl e"
  "and_then (Inr x) k = k x"
  by (simp_all add: and_then_def)

lemma guard_else_simps [simp, outcome_simps]:
  "guard_else True e = Inr ()"
  "guard_else False e = Inl e"
  by (simp_all add: guard_else_def)

lemma and_then_Inr_iff [outcome_simps]:
  "and_then m k = Inr y \<longleftrightarrow> (\<exists>x. m = Inr x \<and> k x = Inr y)"
  by (cases m) simp_all

lemma and_then_Inl_iff [outcome_simps]:
  "and_then m k = Inl e \<longleftrightarrow> m = Inl e \<or> (\<exists>x. m = Inr x \<and> k x = Inl e)"
  by (cases m) simp_all

lemma guard_else_Inr_iff [outcome_simps]: "guard_else c e = Inr u \<longleftrightarrow> c"
  by (cases c) simp_all

lemma guard_else_Inl_iff [outcome_simps]: "guard_else c e = Inl e' \<longleftrightarrow> \<not> c \<and> e = e'"
  by (cases c) auto

lemma and_then_assoc: "and_then (and_then m f) g = and_then m (\<lambda>x. and_then (f x) g)"
  by (cases m) simp_all

text \<open>A loop over a list whose body may raise: the first error stops it.\<close>

fun fold_err :: "('a \<Rightarrow> 's \<Rightarrow> 's outcome) \<Rightarrow> 'a list \<Rightarrow> 's \<Rightarrow> 's outcome" where
  "fold_err f [] s = Inr s"
| "fold_err f (x # xs) s = and_then (f x s) (fold_err f xs)"

lemma fold_err_append: "fold_err f (xs @ ys) s = and_then (fold_err f xs s) (fold_err f ys)"
  by (induction xs arbitrary: s) (simp_all add: and_then_def split: sum.split)

lemma fold_err_invariant:
  assumes "fold_err f xs s = Inr t" and "P s"
    and "\<And>x s t. x \<in> set xs \<Longrightarrow> P s \<Longrightarrow> f x s = Inr t \<Longrightarrow> P t"
  shows "P t"
  using assms
proof (induction xs arbitrary: s)
  case Nil
  then show ?case by simp
next
  case (Cons x xs)
  then obtain u where "f x s = Inr u" "fold_err f xs u = Inr t"
    by (auto simp: outcome_simps)
  with Cons show ?case by (meson list.set_intros)
qed

lemma fold_err_total:
  assumes "P s" and "\<And>x s. x \<in> set xs \<Longrightarrow> P s \<Longrightarrow> \<exists>t. f x s = Inr t \<and> P t"
  shows "\<exists>t. fold_err f xs s = Inr t \<and> P t"
  using assms
proof (induction xs arbitrary: s)
  case Nil
  then show ?case by simp
next
  case (Cons x xs)
  then obtain u where "f x s = Inr u" "P u" by fastforce
  with Cons show ?case by simp
qed

lemma fold_err_cong:
  assumes "\<And>x s. x \<in> set xs \<Longrightarrow> f x s = g x s"
  shows "fold_err f xs s = fold_err g xs s"
  using assms by (induction xs arbitrary: s) (auto simp: and_then_def split: sum.splits)

text \<open>\<open>[f(x) for x in xs]\<close> where \<open>f\<close> may raise.\<close>

fun map_err :: "('a \<Rightarrow> 'b outcome) \<Rightarrow> 'a list \<Rightarrow> 'b list outcome" where
  "map_err f [] = Inr []"
| "map_err f (x # xs) = and_then (f x) (\<lambda>y. and_then (map_err f xs) (\<lambda>ys. Inr (y # ys)))"

lemma map_err_Inr_iff: "map_err f xs = Inr ys \<longleftrightarrow> list_all2 (\<lambda>x y. f x = Inr y) xs ys"
  by (induction xs arbitrary: ys) (auto simp: outcome_simps list_all2_Cons1)

section \<open>Text\<close>

definition is_space :: "char \<Rightarrow> bool" where
  "is_space c = (let n = (of_char c :: nat) in
     9 \<le> n \<and> n \<le> 13 \<or> 28 \<le> n \<and> n \<le> 32 \<or> n = 133 \<or> n = 160)"

definition strip :: "string \<Rightarrow> string" where
  "strip s = rev (dropWhile is_space (rev (dropWhile is_space s)))"

definition is_upper :: "char \<Rightarrow> bool" where
  "is_upper c = (let n = (of_char c :: nat) in 65 \<le> n \<and> n \<le> 90)"

definition is_lower :: "char \<Rightarrow> bool" where
  "is_lower c = (let n = (of_char c :: nat) in 97 \<le> n \<and> n \<le> 122)"

definition is_digit :: "char \<Rightarrow> bool" where
  "is_digit c = (let n = (of_char c :: nat) in 48 \<le> n \<and> n \<le> 57)"

definition lower_char :: "char \<Rightarrow> char" where
  "lower_char c = (if is_upper c then char_of ((of_char c :: nat) + 32) else c)"

definition casefold :: "string \<Rightarrow> string" where
  "casefold s = map lower_char s"

text \<open>The operator \<open>needle in text\<close> on strings.\<close>

fun starts_with :: "'a list \<Rightarrow> 'a list \<Rightarrow> bool" where
  "starts_with [] ys = True"
| "starts_with (x # xs) [] = False"
| "starts_with (x # xs) (y # ys) = (x = y \<and> starts_with xs ys)"

fun occurs_in :: "'a list \<Rightarrow> 'a list \<Rightarrow> bool" where
  "occurs_in xs [] = (xs = [])"
| "occurs_in xs (y # ys) = (starts_with xs (y # ys) \<or> occurs_in xs ys)"

lemma starts_with_iff: "starts_with xs ys \<longleftrightarrow> (\<exists>zs. ys = xs @ zs)"
  by (induction xs ys rule: starts_with.induct) auto

lemma occurs_in_iff: "occurs_in xs ys \<longleftrightarrow> (\<exists>us vs. ys = us @ xs @ vs)"
proof (induction ys)
  case Nil
  then show ?case by simp
next
  case (Cons y ys)
  show ?case
  proof
    assume "occurs_in xs (y # ys)"
    then consider "starts_with xs (y # ys)" | "occurs_in xs ys" by auto
    then show "\<exists>us vs. y # ys = us @ xs @ vs"
    proof cases
      case 1
      then show ?thesis by (metis append_Nil starts_with_iff)
    next
      case 2
      then show ?thesis using Cons.IH by (metis append_Cons)
    qed
  next
    assume "\<exists>us vs. y # ys = us @ xs @ vs"
    then obtain us vs where eq: "y # ys = us @ xs @ vs" by blast
    show "occurs_in xs (y # ys)"
    proof (cases us)
      case Nil
      with eq have "starts_with xs (y # ys)" by (auto simp: starts_with_iff)
      then show ?thesis by simp
    next
      case (Cons u us')
      with eq have "ys = us' @ xs @ vs" by simp
      then show ?thesis using Cons.IH by auto
    qed
  qed
qed

lemma strip_fixed: "s \<noteq> [] \<Longrightarrow> \<not> is_space (hd s) \<Longrightarrow> \<not> is_space (last s) \<Longrightarrow> strip s = s"
proof -
  assume s: "s \<noteq> []" "\<not> is_space (hd s)" "\<not> is_space (last s)"
  then have "dropWhile is_space s = s" by (cases s) auto
  moreover from s have "dropWhile is_space (rev s) = rev s"
    by (cases s rule: rev_cases) auto
  ultimately show "strip s = s" by (simp add: strip_def)
qed

lemma strip_strip [simp]: "strip (strip s) = strip s"
proof (cases "strip s = []")
  case True
  have "strip [] = []" by (simp add: strip_def)
  with True show ?thesis by simp
next
  case False
  let ?t = "dropWhile is_space s"
  have ne: "dropWhile is_space (rev ?t) \<noteq> []" using False by (simp add: strip_def)
  then have "last (strip s) = hd (dropWhile is_space (rev ?t))"
    by (simp add: strip_def last_rev)
  then have l: "\<not> is_space (last (strip s))" using ne hd_dropWhile by metis
  have "?t \<noteq> []" using ne by (metis dropWhile.simps(1) rev.simps(1))
  then have t: "\<not> is_space (hd ?t)" using hd_dropWhile by metis
  obtain ws where ws: "rev ?t = ws @ dropWhile is_space (rev ?t)"
    using takeWhile_dropWhile_id by metis
  then have "?t = strip s @ rev ws" unfolding strip_def by (metis rev_append rev_rev_ident)
  then have "hd (strip s) = hd ?t" using False by (metis hd_append2)
  then show ?thesis using False l t by (intro strip_fixed) auto
qed

lemma strip_eq_Nil_iff: "strip s = [] \<longleftrightarrow> list_all is_space s"
  by (auto simp: strip_def list_all_iff dest: set_dropWhileD)
     (metis dropWhile_eq_Nil_conv set_rev takeWhile_dropWhile_id set_takeWhileD Un_iff set_append)

lemma strip_Cons_nonblank: "\<not> is_space c \<Longrightarrow> strip (c # cs) \<noteq> []"
  by (simp add: strip_eq_Nil_iff)

section \<open>Numbers as text\<close>

fun nat_digits :: "nat \<Rightarrow> string" where
  "nat_digits n =
     (if n < 10 then [char_of (48 + n)] else nat_digits (n div 10) @ [char_of (48 + n mod 10)])"

declare nat_digits.simps [simp del]

definition int_str :: "int \<Rightarrow> string" where
  "int_str i = (if i < 0 then CHR ''-'' # nat_digits (nat (- i)) else nat_digits (nat i))"

text \<open>The format \<open>{n:04d}\<close>.\<close>

definition zero_pad4 :: "nat \<Rightarrow> string" where
  "zero_pad4 n = replicate (4 - length (nat_digits n)) (CHR ''0'') @ nat_digits n"

fun digits_value :: "string \<Rightarrow> nat" where
  "digits_value cs = foldl (\<lambda>a c. 10 * a + (of_char c - 48)) 0 cs"

lemma nat_digits_nonempty [simp]: "nat_digits n \<noteq> []"
  by (subst nat_digits.simps) simp

lemma digits_value_snoc: "digits_value (cs @ [c]) = 10 * digits_value cs + (of_char c - 48)"
  by simp

lemma digit_char_value: "d < 10 \<Longrightarrow> of_char (char_of (48 + d :: nat)) - 48 = (d :: nat)"
  by (simp add: of_char_of)

lemma digits_value_nat_digits: "digits_value (nat_digits n) = n"
proof (induction n rule: nat_digits.induct)
  case (1 n)
  show ?case
  proof (cases "n < 10")
    case True
    then show ?thesis
      by (simp add: nat_digits.simps [of n] of_char_of)
  next
    case False
    then have "digits_value (nat_digits n) = 10 * (n div 10) + n mod 10"
      using 1 by (simp only: nat_digits.simps [of n] if_False digits_value_snoc) (simp add: of_char_of)
    then show ?thesis by simp
  qed
qed

lemma digits_value_replicate0: "digits_value (replicate k (CHR ''0'') @ cs) = digits_value cs"
  by (induction k) simp_all

lemma zero_pad4_inj: "zero_pad4 m = zero_pad4 n \<Longrightarrow> m = n"
  by (metis zero_pad4_def digits_value_nat_digits digits_value_replicate0)

section \<open>Time\<close>

type_synonym date = int
type_synonym instant = int
type_synonym uuid = nat

text \<open>
  A \<open>datetime\<close> is a wall-clock reading and, when it carries a time zone, the
  offset of that zone from UTC; both in microseconds.
\<close>

datatype datetime = DateTime (wall: int) (utc_offset: "int option")

definition seconds :: "int \<Rightarrow> int" where
  "seconds n = n * 1000000"

definition days :: "int \<Rightarrow> int" where
  "days n = seconds (n * 86400)"

section \<open>Stable sorting and grouping\<close>

text \<open>Python's \<open>sorted(xs, key=f)\<close> is stable, as is \<^const>\<open>sort_key\<close>.\<close>

lemma sort_key_mset_cong:
  fixes f :: "'a \<Rightarrow> 'k::linorder"
  assumes "mset xs = mset ys" and "inj_on f (set xs)"
  shows "sort_key f xs = sort_key f ys"
proof (rule properties_for_sort_key)
  show "mset (sort_key f ys) = mset xs" using assms(1) by simp
  show "sorted (map f (sort_key f ys))" by simp
next
  fix k
  assume k: "k \<in> set (sort_key f ys)"
  have set_eq: "set xs = set ys" using assms(1) by (metis set_mset_mset)
  have one: "\<And>zs. set zs \<subseteq> set ys \<Longrightarrow>
      filter (\<lambda>x. f k = f x) zs = replicate (count (mset zs) k) k"
  proof -
    fix zs :: "'a list"
    assume zs: "set zs \<subseteq> set ys"
    have "filter (\<lambda>x. f k = f x) zs = filter (\<lambda>x. k = x) zs"
      using zs k assms(2) set_eq by (intro filter_cong) (auto simp: inj_on_def)
    also have "\<dots> = replicate (count (mset zs) k) k"
      by (induction zs) auto
    finally show "filter (\<lambda>x. f k = f x) zs = replicate (count (mset zs) k) k" .
  qed
  show "filter (\<lambda>x. f k = f x) (sort_key f ys) = filter (\<lambda>x. f k = f x) xs"
    using one [of "sort_key f ys"] one [of xs] set_eq assms(1) by simp
qed

text \<open>
  \<open>defaultdict(list)\<close> filled by a loop: groups in the order their key was first
  seen, members in the order of the loop; keys are compared by the given equality.
\<close>

fun add_to_group ::
  "('k \<Rightarrow> 'k \<Rightarrow> bool) \<Rightarrow> 'k \<Rightarrow> 'a \<Rightarrow> ('k \<times> 'a list) list \<Rightarrow> ('k \<times> 'a list) list" where
  "add_to_group eq k x [] = [(k, [x])]"
| "add_to_group eq k x ((k', ys) # gs) =
     (if eq k k' then (k', ys @ [x]) # gs else (k', ys) # add_to_group eq k x gs)"

definition group_rows ::
  "('k \<Rightarrow> 'k \<Rightarrow> bool) \<Rightarrow> ('a \<Rightarrow> 'k) \<Rightarrow> 'a list \<Rightarrow> ('k \<times> 'a list) list" where
  "group_rows eq key xs = fold (\<lambda>x. add_to_group eq (key x) x) xs []"

lemma group_rows_invariant:
  assumes "P []" and "\<And>x gs. x \<in> set xs \<Longrightarrow> P gs \<Longrightarrow> P (add_to_group eq (key x) x gs)"
  shows "P (group_rows eq key xs)"
  unfolding group_rows_def
  by (rule fold_invariant [where Q = "\<lambda>x. x \<in> set xs"]) (use assms in auto)

lemma add_to_group_mset:
  "mset (concat (map snd (add_to_group eq k x gs))) = add_mset x (mset (concat (map snd gs)))"
  by (induction eq k x gs rule: add_to_group.induct) auto

lemma group_rows_mset: "mset (concat (map snd (group_rows eq key xs))) = mset xs"
proof -
  have "mset (concat (map snd (fold (\<lambda>x. add_to_group eq (key x) x) xs gs))) =
      mset (concat (map snd gs)) + mset xs" for gs
    by (induction xs arbitrary: gs) (simp_all add: add_to_group_mset)
  then show ?thesis by (simp add: group_rows_def)
qed

lemma add_to_group_nonempty:
  "\<forall>g \<in> set gs. snd g \<noteq> [] \<Longrightarrow> \<forall>g \<in> set (add_to_group eq k x gs). snd g \<noteq> []"
  by (induction eq k x gs rule: add_to_group.induct) auto

lemma group_rows_nonempty: "g \<in> set (group_rows eq key xs) \<Longrightarrow> snd g \<noteq> []"
  using group_rows_invariant [where P = "\<lambda>gs. \<forall>g \<in> set gs. snd g \<noteq> []" and eq = eq
      and key = key and xs = xs, OF _ add_to_group_nonempty]
  by auto

definition groups_keyed :: "('k \<Rightarrow> 'k \<Rightarrow> bool) \<Rightarrow> ('a \<Rightarrow> 'k) \<Rightarrow> ('k \<times> 'a list) list \<Rightarrow> bool" where
  "groups_keyed eq key gs \<longleftrightarrow> list_all (\<lambda>g. \<forall>y \<in> set (snd g). eq (key y) (fst g)) gs"

lemma add_to_group_keyed:
  "groups_keyed eq key gs \<Longrightarrow> eq (key x) (key x) \<Longrightarrow>
   groups_keyed eq key (add_to_group eq (key x) x gs)"
  by (induction gs) (auto simp: groups_keyed_def split: if_splits)

lemma group_rows_key:
  assumes "g \<in> set (group_rows eq key xs)" and "y \<in> set (snd g)" and "\<And>k. eq k k"
  shows "eq (key y) (fst g)"
  using group_rows_invariant [where P = "groups_keyed eq key" and eq = eq and key = key and xs = xs]
    add_to_group_keyed [of eq key] assms
  by (auto simp: groups_keyed_def list_all_iff)

lemma group_rows_subset: "g \<in> set (group_rows eq key xs) \<Longrightarrow> set (snd g) \<subseteq> set xs"
proof -
  assume g: "g \<in> set (group_rows eq key xs)"
  have "set (concat (map snd (group_rows eq key xs))) = set xs"
    by (metis group_rows_mset set_mset_mset)
  with g show "set (snd g) \<subseteq> set xs" by auto
qed

lemma add_to_group_keys:
  "map fst (add_to_group (=) k x gs) = (if k \<in> fst ` set gs then map fst gs else map fst gs @ [k])"
  by (induction gs) (auto split: if_splits)

lemma group_rows_distinct_keys: "distinct (map fst (group_rows (=) key xs))"
  using group_rows_invariant [where P = "\<lambda>gs. distinct (map fst gs)" and eq = "(=)" and key = key and xs = xs]
  by (simp add: add_to_group_keys)

text \<open>
  With an equivalence on keys the groups are the classes: each group is the sublist of the
  rows whose key is equivalent to the group's, and keys of different groups are not.
\<close>

definition classes_of ::
  "('k \<Rightarrow> 'k \<Rightarrow> bool) \<Rightarrow> ('a \<Rightarrow> 'k) \<Rightarrow> 'a list \<Rightarrow> ('k \<times> 'a list) list \<Rightarrow> bool" where
  "classes_of eq key xs gs \<longleftrightarrow>
     sorted_wrt (\<lambda>g h. \<not> eq (fst g) (fst h)) gs \<and>
     (\<forall>g \<in> set gs. snd g = filter (\<lambda>x. eq (key x) (fst g)) xs) \<and>
     (\<forall>x \<in> set xs. \<exists>g \<in> set gs. eq (key x) (fst g))"

lemma add_to_group_unfold:
  assumes "equivp eq" and "sorted_wrt (\<lambda>g h. \<not> eq (fst g) (fst h)) gs"
  shows "add_to_group eq k x gs =
    (if \<exists>g \<in> set gs. eq k (fst g)
     then map (\<lambda>g. if eq k (fst g) then (fst g, snd g @ [x]) else g) gs
     else gs @ [(k, [x])])"
  using assms(2)
proof (induction gs)
  case Nil
  then show ?case by simp
next
  case (Cons g gs)
  obtain k' ys where g: "g = (k', ys)" by (cases g)
  show ?case
  proof (cases "eq k k'")
    case True
    have "\<not> eq k (fst h)" if "h \<in> set gs" for h
      using that True Cons.prems assms(1) g by (auto dest: equivp_symp equivp_transp)
    then have "map (\<lambda>g. if eq k (fst g) then (fst g, snd g @ [x]) else g) gs = gs"
      by (intro map_idI) auto
    with True g show ?thesis by simp
  next
    case False
    with Cons g show ?thesis by auto
  qed
qed

lemma add_to_group_classes:
  assumes "equivp eq" and "classes_of eq key xs gs"
  shows "classes_of eq key (xs @ [x]) (add_to_group eq (key x) x gs)"
proof -
  have sorted: "sorted_wrt (\<lambda>g h. \<not> eq (fst g) (fst h)) gs"
    and rows: "\<And>g. g \<in> set gs \<Longrightarrow> snd g = filter (\<lambda>x. eq (key x) (fst g)) xs"
    and cover: "\<And>y. y \<in> set xs \<Longrightarrow> \<exists>g \<in> set gs. eq (key y) (fst g)"
    using assms(2) by (auto simp: classes_of_def)
  note unfold = add_to_group_unfold [OF assms(1) sorted, of "key x" x]
  show ?thesis
  proof (cases "\<exists>g \<in> set gs. eq (key x) (fst g)")
    case True
    let ?f = "\<lambda>g. if eq (key x) (fst g) then (fst g, snd g @ [x]) else g"
    have fst: "fst (?f g) = fst g" for g by simp
    have "sorted_wrt (\<lambda>g h. \<not> eq (fst g) (fst h)) (map ?f gs)"
      using sorted by (simp add: sorted_wrt_map fst)
    moreover have "\<forall>h \<in> set (map ?f gs). snd h = filter (\<lambda>x. eq (key x) (fst h)) (xs @ [x])"
      using rows by auto
    moreover have "\<forall>y \<in> set (xs @ [x]). \<exists>g \<in> set (map ?f gs). eq (key y) (fst g)"
    proof
      fix y
      assume "y \<in> set (xs @ [x])"
      then have "\<exists>g \<in> set gs. eq (key y) (fst g)" using True cover by auto
      then obtain g where "g \<in> set gs" "eq (key y) (fst g)" by blast
      then have "?f g \<in> set (map ?f gs)" and "eq (key y) (fst (?f g))" by (auto simp only: set_map fst)
      then show "\<exists>g \<in> set (map ?f gs). eq (key y) (fst g)" by blast
    qed
    ultimately show ?thesis using True by (simp only: unfold classes_of_def if_True)
  next
    case False
    then have ne: "\<not> eq (key x) (fst g)" if "g \<in> set gs" for g using that by auto
    then have ne': "\<not> eq (fst g) (key x)" if "g \<in> set gs" for g
      using that assms(1) equivp_symp by metis
    have "\<not> eq (key y) (key x)" if "y \<in> set xs" for y
      using cover [OF that] ne assms(1) by (metis equivp_symp equivp_transp)
    then have "filter (\<lambda>y. eq (key y) (key x)) xs = []" by (simp add: filter_empty_conv)
    with False ne ne' sorted rows cover equivp_reflp [OF assms(1)] show ?thesis
      by (auto simp: unfold classes_of_def sorted_wrt_append)
  qed
qed

lemma group_rows_classes:
  assumes "equivp eq"
  shows "classes_of eq key xs (group_rows eq key xs)"
proof (induction xs rule: rev_induct)
  case Nil
  then show ?case by (simp add: group_rows_def classes_of_def)
next
  case (snoc x xs)
  have "group_rows eq key (xs @ [x]) = add_to_group eq (key x) x (group_rows eq key xs)"
    by (simp add: group_rows_def)
  with snoc show ?case by (simp add: add_to_group_classes [OF assms])
qed

section \<open>Combinations\<close>

text \<open>\<open>itertools.combinations(xs, n)\<close>: the selections of \<open>n\<close> positions in lexicographic order.\<close>

fun combinations :: "'a list \<Rightarrow> nat \<Rightarrow> 'a list list" where
  "combinations xs 0 = [[]]"
| "combinations [] (Suc n) = []"
| "combinations (x # xs) (Suc n) = map (Cons x) (combinations xs n) @ combinations xs (Suc n)"

lemma combinations_length: "ys \<in> set (combinations xs n) \<Longrightarrow> length ys = n"
  by (induction xs n arbitrary: ys rule: combinations.induct) auto

lemma combinations_subseqs: "set (combinations xs n) = {ys \<in> set (subseqs xs). length ys = n}"
proof (induction xs n rule: combinations.induct)
  case (1 xs)
  then show ?case by (induction xs) (auto simp: Let_def)
qed (auto simp: Let_def)

lemma combinations_subset: "ys \<in> set (combinations xs n) \<Longrightarrow> set ys \<subseteq> set xs"
proof (induction xs n arbitrary: ys rule: combinations.induct)
  case (3 x xs n)
  then show ?case by fastforce
qed auto

lemma combinations_distinct_map:
  "ys \<in> set (combinations xs n) \<Longrightarrow> distinct (map f xs) \<Longrightarrow> distinct (map f ys)"
proof (induction xs n arbitrary: ys rule: combinations.induct)
  case (3 x xs n)
  from "3.prems" consider zs where "ys = x # zs" "zs \<in> set (combinations xs n)"
    | "ys \<in> set (combinations xs (Suc n))" by auto
  then show ?case
  proof cases
    case 1
    with 3 combinations_subset [of zs xs n] show ?thesis by auto
  next
    case 2
    with 3 show ?thesis by simp
  qed
qed auto

section \<open>Tasks: a state that outlives an error\<close>

text \<open>
  A task commits as it goes: what it wrote before an error stays written.  Sequencing stops at
  the first error; a handler runs on the state the error left.
\<close>

type_synonym ('s, 'a) task = "'s \<Rightarrow> 'a outcome \<times> 's"

definition and_also :: "('s, 'a) task \<Rightarrow> ('a \<Rightarrow> ('s, 'b) task) \<Rightarrow> ('s, 'b) task" where
  "and_also m k s = (case m s of (Inl e, s') \<Rightarrow> (Inl e, s') | (Inr x, s') \<Rightarrow> k x s')"

definition on_error :: "('s, 'a) task \<Rightarrow> (py_error \<Rightarrow> ('s, 'a) task) \<Rightarrow> ('s, 'a) task" where
  "on_error m h s = (case m s of (Inl e, s') \<Rightarrow> h e s' | (Inr x, s') \<Rightarrow> (Inr x, s'))"

definition give :: "'a \<Rightarrow> ('s, 'a) task" where
  "give x s = (Inr x, s)"

definition raising :: "py_error \<Rightarrow> ('s, 'a) task" where
  "raising e s = (Inl e, s)"

definition lift_outcome :: "'a outcome \<Rightarrow> ('s, 'a) task" where
  "lift_outcome m s = (m, s)"

text \<open>A relation every task of a sequence respects is respected by the sequence.\<close>

definition task_rel :: "('s \<Rightarrow> 's \<Rightarrow> bool) \<Rightarrow> ('s, 'a) task \<Rightarrow> bool" where
  "task_rel R m \<longleftrightarrow> (\<forall>s. R s (snd (m s)))"

lemma task_relD: "task_rel R m \<Longrightarrow> R s (snd (m s))"
  by (simp add: task_rel_def)

lemma task_rel_and_also:
  assumes "transp R" and "task_rel R m" and "\<And>x. task_rel R (k x)"
  shows "task_rel R (and_also m k)"
  unfolding task_rel_def
proof
  fix s
  have 1: "R s (snd (m s))" using assms(2) by (rule task_relD)
  show "R s (snd (and_also m k s))"
  proof (cases "m s")
    case (Pair o' s')
    with 1 assms(1) task_relD [OF assms(3)] show ?thesis
      by (cases o') (auto simp: and_also_def elim: transpE)
  qed
qed

lemma task_rel_on_error:
  assumes "transp R" and "task_rel R m" and "\<And>e. task_rel R (h e)"
  shows "task_rel R (on_error m h)"
  unfolding task_rel_def
proof
  fix s
  have 1: "R s (snd (m s))" using assms(2) by (rule task_relD)
  show "R s (snd (on_error m h s))"
  proof (cases "m s")
    case (Pair o' s')
    with 1 assms(1) task_relD [OF assms(3)] show ?thesis
      by (cases o') (auto simp: on_error_def elim: transpE)
  qed
qed

lemma task_rel_simple:
  "reflp R \<Longrightarrow> task_rel R (give x)" "reflp R \<Longrightarrow> task_rel R (raising e)" "reflp R \<Longrightarrow> task_rel R (lift_outcome m)"
  by (simp_all add: task_rel_def give_def raising_def lift_outcome_def reflpD)

lemma and_also_Inr:
  assumes "and_also m k s = (Inr y, s2)"
  obtains x s1 where "m s = (Inr x, s1)" "k x s1 = (Inr y, s2)"
  using assms by (auto simp: and_also_def split: prod.splits sum.splits)

section \<open>The text of a UUID\<close>

definition hex_digit :: "nat \<Rightarrow> char" where
  "hex_digit d = ''0123456789abcdef'' ! d"

fun hex_digits :: "nat \<Rightarrow> nat \<Rightarrow> string" where
  "hex_digits 0 n = []"
| "hex_digits (Suc k) n = hex_digits k (n div 16) @ [hex_digit (n mod 16)]"

text \<open>\<open>str(id)\<close>: 32 hexadecimal digits in groups of 8, 4, 4, 4 and 12.\<close>

definition uuid_text :: "uuid \<Rightarrow> string" where
  "uuid_text i =
     (let h = hex_digits 32 i in
      take 8 h @ ''-'' @ take 4 (drop 8 h) @ ''-'' @ take 4 (drop 12 h) @ ''-'' @ take 4 (drop 16 h) @ ''-'' @ drop 20 h)"

lemma hex_digits_length [simp]: "length (hex_digits k n) = k"
  by (induction k arbitrary: n) simp_all

lemma hex_digit_inj: "a < 16 \<Longrightarrow> b < 16 \<Longrightarrow> hex_digit a = hex_digit b \<Longrightarrow> a = b"
proof -
  have "distinct ''0123456789abcdef''" by simp
  then show "a < 16 \<Longrightarrow> b < 16 \<Longrightarrow> hex_digit a = hex_digit b \<Longrightarrow> a = b"
    by (simp add: hex_digit_def nth_eq_iff_index_eq)
qed

lemma hex_digits_inj: "m < 16 ^ k \<Longrightarrow> n < 16 ^ k \<Longrightarrow> hex_digits k m = hex_digits k n \<Longrightarrow> m = n"
proof (induction k arbitrary: m n)
  case (Suc k)
  then have "m div 16 = n div 16" by (intro Suc.IH) (auto simp: less_mult_imp_div_less mult.commute)
  moreover have "m mod 16 = n mod 16" using Suc.prems(3) hex_digit_inj by auto
  ultimately show ?case by (metis div_mult_mod_eq)
qed simp

text \<open>Distinct 128-bit identifiers have distinct texts.\<close>

lemma chunks: "take 8 h @ take 4 (drop 8 h) @ take 4 (drop 12 h) @ take 4 (drop 16 h) @ drop 20 h = h"
  using append_take_drop_id [of 8 h] append_take_drop_id [of 4 "drop 8 h"]
    append_take_drop_id [of 4 "drop 12 h"] append_take_drop_id [of 4 "drop 16 h"]
  by (simp add: drop_drop)

lemma uuid_text_inj:
  assumes "m < 2 ^ 128" "n < 2 ^ 128" and eq: "uuid_text m = uuid_text n"
  shows "m = n"
proof -
  define h k where "h = hex_digits 32 m" and "k = hex_digits 32 n"
  have "length h = 32" "length k = 32" by (simp_all only: h_def k_def hex_digits_length)
  then have "take 8 h = take 8 k \<and> take 4 (drop 8 h) = take 4 (drop 8 k) \<and>
      take 4 (drop 12 h) = take 4 (drop 12 k) \<and> take 4 (drop 16 h) = take 4 (drop 16 k) \<and> drop 20 h = drop 20 k"
    using eq unfolding uuid_text_def Let_def h_def [symmetric] k_def [symmetric] by simp
  then have "h = k" using chunks [of h] chunks [of k] by metis
  moreover have "(2 :: nat) ^ 128 = 16 ^ 32" by simp
  ultimately show ?thesis using hex_digits_inj [of m 32 n] assms(1,2) unfolding h_def k_def by metis
qed

lemma find_snoc: "(\<And>x. x \<in> set xs \<Longrightarrow> \<not> P x) \<Longrightarrow> P y \<Longrightarrow> find P (xs @ [y]) = Some y"
  by (induction xs) auto

end
