(* ===== verification/Decimals.thy ===== *)
theory Decimals
  imports Flow_Prelude
begin

text \<open>
  Finite values of Python's \<open>decimal.Decimal\<close> under the default context, which the
  program never changes: 28 significant digits, rounding half to even.  A value is
  a coefficient and an exponent, as in the standard library, so that the text of an
  amount is determined; comparisons are numeric and exact, arithmetic is exact and
  then rounded to the context.  Not modelled: signed zeros and the exponent limits of
  the context (one million digits).
\<close>

datatype decimal = Dec (coeff: int) (expo: int)

section \<open>Rounding to the context\<close>

fun num_digits :: "nat \<Rightarrow> nat" where
  "num_digits n = (if n < 10 then 1 else Suc (num_digits (n div 10)))"

declare num_digits.simps [simp del]

definition half_even :: "nat \<Rightarrow> nat \<Rightarrow> nat" where
  "half_even n d = (let q = n div d; r = n mod d in
     if 2 * r < d \<or> 2 * r = d \<and> even q then q else Suc q)"

definition context_precision :: nat where
  "context_precision = 28"

definition dec_fix :: "decimal \<Rightarrow> decimal" where
  "dec_fix x = (let m = nat \<bar>coeff x\<bar>; n = num_digits m in
     if n \<le> context_precision then x
     else let k = n - context_precision; q = half_even m (10 ^ k) in
       if context_precision < num_digits q
       then Dec (sgn (coeff x) * int (q div 10)) (expo x + int k + 1)
       else Dec (sgn (coeff x) * int q) (expo x + int k))"

section \<open>Arithmetic and comparison\<close>

definition coeff_at :: "int \<Rightarrow> decimal \<Rightarrow> int" where
  "coeff_at e x = coeff x * 10 ^ nat (expo x - e)"

definition dec_eq :: "decimal \<Rightarrow> decimal \<Rightarrow> bool" where
  "dec_eq x y = (let e = min (expo x) (expo y) in coeff_at e x = coeff_at e y)"

definition dec_add :: "decimal \<Rightarrow> decimal \<Rightarrow> decimal" where
  "dec_add x y = (let e = min (expo x) (expo y) in
     dec_fix (Dec (coeff_at e x + coeff_at e y) e))"

definition dec_sub :: "decimal \<Rightarrow> decimal \<Rightarrow> decimal" where
  "dec_sub x y = (let e = min (expo x) (expo y) in
     dec_fix (Dec (coeff_at e x - coeff_at e y) e))"

definition dec_mul :: "decimal \<Rightarrow> decimal \<Rightarrow> decimal" where
  "dec_mul x y = dec_fix (Dec (coeff x * coeff y) (expo x + expo y))"

definition dec_abs :: "decimal \<Rightarrow> decimal" where
  "dec_abs x = dec_fix (Dec \<bar>coeff x\<bar> (expo x))"

text \<open>The numeric order is a preorder: \<open>1.0\<close> and \<open>1.00\<close> are two values that compare equal.\<close>

definition dec_zero :: decimal where
  "dec_zero = Dec 0 0"

definition dec_val :: "decimal \<Rightarrow> rat" where
  "dec_val x = of_int (coeff x) * 10 powi expo x"

lemma powi_split: "(e::int) \<le> i \<Longrightarrow> (10::rat) powi i = 10 ^ nat (i - e) * 10 powi e"
proof -
  assume "e \<le> i"
  then have i: "i = int (nat (i - e)) + e" by simp
  have "(10::rat) powi (int (nat (i - e)) + e) = 10 powi (int (nat (i - e))) * 10 powi e"
    by (rule power_int_add) simp
  then show ?thesis using i by (metis power_int_of_nat)
qed

lemma powi_pos: "0 < (10::rat) powi e"
  by (simp add: zero_less_power_int)

lemma dec_val_at: "e \<le> expo x \<Longrightarrow> dec_val x = of_int (coeff_at e x) * 10 powi e"
  by (simp add: dec_val_def coeff_at_def powi_split [of e "expo x"] algebra_simps)

lemma dec_eq_iff: "dec_eq x y \<longleftrightarrow> dec_val x = dec_val y"
proof -
  let ?e = "min (expo x) (expo y)"
  have "dec_val x = of_int (coeff_at ?e x) * 10 powi ?e"
    and "dec_val y = of_int (coeff_at ?e y) * 10 powi ?e"
    by (rule dec_val_at, simp)+
  then show ?thesis using powi_pos [of ?e] by (simp add: dec_eq_def Let_def)
qed

instantiation decimal :: preorder
begin

definition less_eq_decimal :: "decimal \<Rightarrow> decimal \<Rightarrow> bool" where
  "x \<le> y = (let e = min (expo x) (expo y) in coeff_at e x \<le> coeff_at e y)"

definition less_decimal :: "decimal \<Rightarrow> decimal \<Rightarrow> bool" where
  "x < y = (let e = min (expo x) (expo y) in coeff_at e x < coeff_at e y)"

lemma dec_le_iff: "x \<le> y \<longleftrightarrow> dec_val x \<le> dec_val y"
proof -
  let ?e = "min (expo x) (expo y)"
  have "dec_val x = of_int (coeff_at ?e x) * 10 powi ?e"
    and "dec_val y = of_int (coeff_at ?e y) * 10 powi ?e"
    by (rule dec_val_at, simp)+
  then show ?thesis using powi_pos [of ?e] by (simp add: less_eq_decimal_def Let_def)
qed

lemma dec_less_iff: "x < y \<longleftrightarrow> dec_val x < dec_val y"
proof -
  let ?e = "min (expo x) (expo y)"
  have "dec_val x = of_int (coeff_at ?e x) * 10 powi ?e"
    and "dec_val y = of_int (coeff_at ?e y) * 10 powi ?e"
    by (rule dec_val_at, simp)+
  then show ?thesis using powi_pos [of ?e] by (simp add: less_decimal_def Let_def)
qed

instance
  by standard (auto simp: dec_le_iff dec_less_iff)

end

lemma dec_eq_refl [simp]: "dec_eq x x"
  by (simp add: dec_eq_iff)

lemma dec_val_zero [simp]: "dec_val dec_zero = 0" "dec_val (Dec 0 e) = 0"
  by (simp_all add: dec_zero_def dec_val_def)

section \<open>How far rounding can move a value\<close>

lemma num_digits_upper: "n < 10 ^ num_digits n"
proof (induction n rule: num_digits.induct)
  case (1 n)
  show ?case
  proof (cases "n < 10")
    case True
    then show ?thesis by (simp add: num_digits.simps [of n])
  next
    case False
    then have "n div 10 < 10 ^ num_digits (n div 10)" by (rule "1.IH")
    then have "n < 10 * 10 ^ num_digits (n div 10)" by linarith
    with False show ?thesis by (simp add: num_digits.simps [of n])
  qed
qed

lemma num_digits_lower: "0 < n \<Longrightarrow> 10 ^ (num_digits n - 1) \<le> n"
proof (induction n rule: num_digits.induct)
  case (1 n)
  show ?case
  proof (cases "n < 10")
    case True
    with 1 show ?thesis by (simp add: num_digits.simps [of n])
  next
    case False
    then have "10 ^ (num_digits (n div 10) - 1) \<le> n div 10" using 1 by simp
    then have "10 * 10 ^ (num_digits (n div 10) - 1) \<le> n" by linarith
    moreover have "0 < num_digits (n div 10)" by (subst num_digits.simps) simp
    ultimately have "10 ^ num_digits (n div 10) \<le> n"
      by (metis Suc_diff_1 power_Suc)
    with False show ?thesis by (simp add: num_digits.simps [of n])
  qed
qed

lemma num_digits_le_iff: "0 < k \<Longrightarrow> num_digits n \<le> k \<longleftrightarrow> n < 10 ^ k"
proof
  assume "num_digits n \<le> k"
  then have "(10::nat) ^ num_digits n \<le> 10 ^ k" by (rule power_increasing) simp
  then show "n < 10 ^ k" using num_digits_upper [of n] by linarith
next
  assume k: "0 < k" and n: "n < 10 ^ k"
  show "num_digits n \<le> k"
  proof (cases "n = 0")
    case True
    with k show ?thesis by (simp add: num_digits.simps [of 0])
  next
    case False
    then have "(10::nat) ^ (num_digits n - 1) < 10 ^ k" using num_digits_lower [of n] n by linarith
    then show ?thesis using k by (simp add: power_strict_increasing_iff)
  qed
qed

lemma dec_fix_exact: "\<bar>coeff x\<bar> < 10 ^ 28 \<Longrightarrow> dec_fix x = x"
proof -
  assume "\<bar>coeff x\<bar> < 10 ^ 28"
  then have "nat \<bar>coeff x\<bar> < 10 ^ 28" by (simp add: nat_less_iff)
  then have "num_digits (nat \<bar>coeff x\<bar>) \<le> 28" by (subst num_digits_le_iff) simp_all
  then show ?thesis by (simp add: dec_fix_def Let_def context_precision_def)
qed

lemma half_even_cases:
  assumes "0 < d"
  obtains "half_even n d = n div d" "2 * (n mod d) \<le> d"
    | "half_even n d = Suc (n div d)" "d \<le> 2 * (n mod d)"
  by (cases "2 * (n mod d) < d \<or> 2 * (n mod d) = d \<and> even (n div d)")
     (auto simp: half_even_def Let_def)

lemma half_even_bounds:
  assumes "0 < d"
  shows "2 * (half_even n d * d) \<le> 2 * n + d \<and> 2 * n \<le> 2 * (half_even n d * d) + d"
  using assms
proof (cases rule: half_even_cases [of d n])
  case 1
  have "n = n div d * d + n mod d" by simp
  moreover have "half_even n d * d = n div d * d" using 1 by simp
  ultimately show ?thesis using 1(2) by linarith
next
  case 2
  have "n = n div d * d + n mod d" and "n mod d < d" using assms by simp_all
  moreover have "half_even n d * d = n div d * d + d" using 2 by simp
  ultimately show ?thesis using 2(2) by linarith
qed

lemma half_even_le:
  assumes "0 < d" and "n < b * d"
  shows "half_even n d \<le> b"
proof -
  have "n div d < b" using assms by (simp add: less_mult_imp_div_less)
  then show ?thesis using half_even_cases [OF assms(1), of n] by (metis Suc_leI less_imp_le)
qed

text \<open>
  Rounding keeps 28 digits: the value moves by at most half a unit of the last
  place kept, whatever branch is taken.
\<close>

lemma dec_fix_value:
  obtains k q where "dec_val (dec_fix x) = of_int (sgn (coeff x) * int (q * 10 ^ k)) * 10 powi expo x"
    and "2 * (q * 10 ^ k) \<le> 2 * nat \<bar>coeff x\<bar> + (if k = 0 then 0 else 10 ^ k)"
    and "2 * nat \<bar>coeff x\<bar> \<le> 2 * (q * 10 ^ k) + (if k = 0 then 0 else 10 ^ k)"
    and "k = 0 \<or> 10 ^ (27 + k) \<le> nat \<bar>coeff x\<bar>"
proof (cases "num_digits (nat \<bar>coeff x\<bar>) \<le> 28")
  case True
  then have "dec_fix x = x" by (simp add: dec_fix_def context_precision_def)
  then show ?thesis
    using that [of "nat \<bar>coeff x\<bar>" 0] by (simp add: dec_val_def sgn_mult_abs)
next
  case False
  define m where "m = nat \<bar>coeff x\<bar>"
  define k where "k = num_digits m - 28"
  define q where "q = half_even m (10 ^ k)"
  have k: "num_digits m = 28 + k" "0 < k" using False by (simp_all add: k_def m_def)
  have "0 < m" using False by (auto simp: m_def num_digits.simps [of 0] intro: ccontr)
  then have low: "10 ^ (27 + k) \<le> m" using num_digits_lower [of m] k by simp
  have "m < 10 ^ 28 * 10 ^ k" using num_digits_upper [of m] k by (simp add: power_add)
  then have q28: "q \<le> 10 ^ 28" unfolding q_def by (intro half_even_le) simp_all
  have val: "dec_val (dec_fix x) = of_int (sgn (coeff x) * int (q * 10 ^ k)) * 10 powi expo x"
  proof (cases "28 < num_digits q")
    case True
    then have "\<not> num_digits q \<le> 28" by simp
    then have "q = 10 ^ 28" using q28 num_digits_le_iff [of 28 q] by simp
    moreover have "dec_fix x = Dec (sgn (coeff x) * int (q div 10)) (expo x + int k + 1)"
      using True False by (simp add: dec_fix_def context_precision_def Let_def m_def k_def q_def)
    ultimately show ?thesis
      by (simp add: dec_val_def powi_split [of "expo x" "expo x + int k + 1"] nat_add_distrib)
  next
    case False
    then have "dec_fix x = Dec (sgn (coeff x) * int q) (expo x + int k)"
      using \<open>\<not> num_digits (nat \<bar>coeff x\<bar>) \<le> 28\<close>
      by (simp add: dec_fix_def context_precision_def Let_def m_def k_def q_def)
    then show ?thesis
      by (simp add: dec_val_def powi_split [of "expo x" "expo x + int k"])
  qed
  show ?thesis
    using that [of q k, OF val] half_even_bounds [of "10 ^ k" m] low k(2) by (simp add: q_def m_def)
qed

lemma dec_fix_split:
  obtains n where "dec_val (dec_fix x) = of_int (sgn (coeff x)) * of_nat n * 10 powi expo x"
    and "coeff x \<noteq> 0 \<Longrightarrow> 0 < n"
proof -
  obtain k q where v: "dec_val (dec_fix x) = of_int (sgn (coeff x) * int (q * 10 ^ k)) * 10 powi expo x"
    and le: "2 * nat \<bar>coeff x\<bar> \<le> 2 * (q * 10 ^ k) + (if k = 0 then 0 else 10 ^ k)"
    and big: "k = 0 \<or> 10 ^ (27 + k) \<le> nat \<bar>coeff x\<bar>"
    by (rule dec_fix_value)
  define n where "n = q * 10 ^ k"
  define m where "m = nat \<bar>coeff x\<bar>"
  have m: "coeff x \<noteq> 0 \<Longrightarrow> 0 < m" by (simp add: m_def)
  have "0 < n" if "0 < m"
  proof (cases "k = 0")
    case True
    with le that show ?thesis unfolding n_def [symmetric] m_def [symmetric] by simp
  next
    case False
    then have "2 * m \<le> 2 * n + 10 ^ k" "10 ^ (27 + k) \<le> m"
      using le big unfolding n_def m_def by simp_all
    moreover have "(10::nat) ^ k < 10 ^ (27 + k)" by (rule power_strict_increasing) simp_all
    ultimately show ?thesis by linarith
  qed
  then have "coeff x \<noteq> 0 \<Longrightarrow> 0 < n" using m by blast
  moreover have "dec_val (dec_fix x) = of_int (sgn (coeff x)) * of_nat n * 10 powi expo x"
    using v by (simp only: n_def of_int_mult of_int_of_nat_eq)
  ultimately show ?thesis using that by blast
qed

lemma dec_fix_sign:
  "0 < dec_val (dec_fix x) \<longleftrightarrow> 0 < dec_val x"
  "dec_val (dec_fix x) = 0 \<longleftrightarrow> dec_val x = 0"
proof -
  obtain n where v: "dec_val (dec_fix x) = of_int (sgn (coeff x)) * of_nat n * 10 powi expo x"
    and n: "coeff x \<noteq> 0 \<Longrightarrow> 0 < n"
    using dec_fix_split [of x] by blast
  have p: "0 < (10::rat) powi expo x" by (rule powi_pos)
  consider "coeff x = 0" | "0 < coeff x" | "coeff x < 0" by linarith
  then have "(0 < dec_val (dec_fix x) \<longleftrightarrow> 0 < dec_val x) \<and> (dec_val (dec_fix x) = 0 \<longleftrightarrow> dec_val x = 0)"
  proof cases
    case 1
    then show ?thesis by (simp add: v) (simp add: dec_val_def)
  next
    case 2
    then have "0 < dec_val (dec_fix x)" "0 < dec_val x"
      using n p by (simp_all add: v) (simp_all add: dec_val_def)
    then show ?thesis by simp
  next
    case 3
    then have "dec_val (dec_fix x) < 0" "dec_val x < 0"
      using n p by (simp_all add: v) (simp_all add: dec_val_def mult_neg_pos)
    then show ?thesis by simp
  qed
  then show "0 < dec_val (dec_fix x) \<longleftrightarrow> 0 < dec_val x"
    and "dec_val (dec_fix x) = 0 \<longleftrightarrow> dec_val x = 0" by simp_all
qed

lemma dec_fix_error: "\<bar>dec_val (dec_fix x) - dec_val x\<bar> * (2 * 10 ^ 27) \<le> \<bar>dec_val x\<bar>"
proof -
  obtain k q where v: "dec_val (dec_fix x) = of_int (sgn (coeff x) * int (q * 10 ^ k)) * 10 powi expo x"
    and up: "2 * (q * 10 ^ k) \<le> 2 * nat \<bar>coeff x\<bar> + (if k = 0 then 0 else 10 ^ k)"
    and le: "2 * nat \<bar>coeff x\<bar> \<le> 2 * (q * 10 ^ k) + (if k = 0 then 0 else 10 ^ k)"
    and big: "k = 0 \<or> 10 ^ (27 + k) \<le> nat \<bar>coeff x\<bar>"
    by (rule dec_fix_value [of x])
  define n where "n = q * 10 ^ k"
  define m where "m = nat \<bar>coeff x\<bar>"
  define u where "u = (if k = 0 then 0 else (10::nat) ^ k)"
  have p: "0 < (10::rat) powi expo x" by (rule powi_pos)
  have u: "10 ^ 27 * u \<le> m" using big by (auto simp: u_def m_def power_add)
  have nm: "2 * n \<le> 2 * m + u" "2 * m \<le> 2 * n + u"
    using up le unfolding n_def m_def u_def by simp_all
  then have "2 * int n \<le> 2 * int m + int u" "2 * int m \<le> 2 * int n + int u" by linarith+
  then have "\<bar>int n - int m\<bar> * 2 \<le> int u" by (simp add: abs_if)
  then have "\<bar>int n - int m\<bar> * 2 * 10 ^ 27 \<le> int u * 10 ^ 27" by (rule mult_right_mono) simp
  moreover have "int u * 10 ^ 27 = int (10 ^ 27 * u)" by simp
  moreover have "int (10 ^ 27 * u) \<le> int m" using u by (simp only: of_nat_le_iff)
  ultimately have "\<bar>int n - int m\<bar> * (2 * 10 ^ 27) \<le> int m" by (simp only: mult.assoc)
  then have "of_int (\<bar>int n - int m\<bar> * (2 * 10 ^ 27)) \<le> (of_int (int m) :: rat)"
    by (simp only: of_int_le_iff)
  then have d: "\<bar>of_nat n - of_nat m\<bar> * (2 * 10 ^ 27) \<le> (of_nat m :: rat)" by simp
  have c: "coeff x = sgn (coeff x) * int m" by (simp add: m_def sgn_mult_abs)
  have x: "dec_val x = of_int (sgn (coeff x)) * of_nat m * 10 powi expo x"
    using arg_cong [OF c, of "of_int :: int \<Rightarrow> rat"] by (simp add: dec_val_def)
  have f: "dec_val (dec_fix x) = of_int (sgn (coeff x)) * of_nat n * 10 powi expo x"
    using v by (simp only: n_def of_int_mult of_int_of_nat_eq)
  have diff: "dec_val (dec_fix x) - dec_val x = of_int (sgn (coeff x)) * (of_nat n - of_nat m) * 10 powi expo x"
    unfolding x f by (simp add: algebra_simps)
  have a: "\<bar>dec_val (dec_fix x) - dec_val x\<bar> =
      \<bar>of_int (sgn (coeff x))\<bar> * \<bar>of_nat n - of_nat m\<bar> * 10 powi expo x"
    using p by (simp only: diff abs_mult abs_of_pos)
  have b: "\<bar>dec_val x\<bar> = \<bar>of_int (sgn (coeff x))\<bar> * of_nat m * 10 powi expo x"
    using p by (simp only: x abs_mult abs_of_pos abs_of_nat)
  have "0 \<le> \<bar>of_int (sgn (coeff x))\<bar> * (10::rat) powi expo x" using p by simp
  from mult_left_mono [OF d this] show ?thesis
    unfolding a b by (simp only: mult_ac)
qed

text \<open>Comparing a rounded difference with zero decides the comparison itself.\<close>

lemma dec_val_diff:
  "dec_val (let e = min (expo x) (expo y) in Dec (coeff_at e x - coeff_at e y) e) = dec_val x - dec_val y"
proof -
  let ?e = "min (expo x) (expo y)"
  have "dec_val x = of_int (coeff_at ?e x) * 10 powi ?e"
    and "dec_val y = of_int (coeff_at ?e y) * 10 powi ?e"
    by (rule dec_val_at, simp)+
  then show ?thesis by (simp add: dec_val_def [of "Dec _ _"] Let_def algebra_simps)
qed

lemma dec_val_plus:
  "dec_val (let e = min (expo x) (expo y) in Dec (coeff_at e x + coeff_at e y) e) = dec_val x + dec_val y"
proof -
  let ?e = "min (expo x) (expo y)"
  have "dec_val x = of_int (coeff_at ?e x) * 10 powi ?e"
    and "dec_val y = of_int (coeff_at ?e y) * 10 powi ?e"
    by (rule dec_val_at, simp)+
  then show ?thesis by (simp add: dec_val_def [of "Dec _ _"] Let_def algebra_simps)
qed

lemma dec_sub_sign:
  "0 < dec_val (dec_sub x y) \<longleftrightarrow> dec_val y < dec_val x"
  "dec_val (dec_sub x y) = 0 \<longleftrightarrow> dec_val x = dec_val y"
  using dec_fix_sign [of "let e = min (expo x) (expo y) in Dec (coeff_at e x - coeff_at e y) e"]
  unfolding dec_val_diff by (simp_all add: dec_sub_def Let_def)

lemma dec_sub_error:
  "\<bar>dec_val (dec_sub x y) - (dec_val x - dec_val y)\<bar> * (2 * 10 ^ 27) \<le> \<bar>dec_val x - dec_val y\<bar>"
  using dec_fix_error [of "let e = min (expo x) (expo y) in Dec (coeff_at e x - coeff_at e y) e"]
  unfolding dec_val_diff by (simp add: dec_sub_def Let_def)

lemma dec_abs_sign:
  "0 \<le> dec_val (dec_abs x)"
  "0 < dec_val (dec_abs x) \<longleftrightarrow> dec_val x \<noteq> 0"
proof -
  have p: "0 < (10::rat) powi expo x" by (rule powi_pos)
  have "0 < dec_val (dec_abs x) \<longleftrightarrow> coeff x \<noteq> 0"
    and "dec_val (dec_abs x) = 0 \<longleftrightarrow> coeff x = 0"
    using p dec_fix_sign [of "Dec \<bar>coeff x\<bar> (expo x)"]
    by (simp_all add: dec_abs_def dec_val_def zero_less_mult_iff)
  moreover have "dec_val x \<noteq> 0 \<longleftrightarrow> coeff x \<noteq> 0" using p by (simp add: dec_val_def)
  ultimately show "0 \<le> dec_val (dec_abs x)" and "0 < dec_val (dec_abs x) \<longleftrightarrow> dec_val x \<noteq> 0"
    by (auto simp: le_less)
qed

lemma dec_abs_fixed: "\<bar>coeff x\<bar> < 10 ^ 28 \<Longrightarrow> dec_val (dec_abs x) = \<bar>dec_val x\<bar>"
  using powi_pos [of "expo x"] by (simp add: dec_abs_def dec_fix_exact dec_val_def abs_mult)

section \<open>Sums\<close>

text \<open>\<open>sum(values, Decimal("0"))\<close>.\<close>

definition dec_sum :: "decimal list \<Rightarrow> decimal" where
  "dec_sum xs = foldl dec_add dec_zero xs"

lemma coeff_at_split:
  "e \<le> e' \<Longrightarrow> e' \<le> expo x \<Longrightarrow> coeff_at e x = coeff_at e' x * 10 ^ nat (e' - e)"
  by (simp add: coeff_at_def mult.assoc power_add [symmetric] nat_add_distrib [symmetric])

lemma coeff_at_mono: "e \<le> e' \<Longrightarrow> e' \<le> expo x \<Longrightarrow> \<bar>coeff_at e' x\<bar> \<le> \<bar>coeff_at e x\<bar>"
  using mult_left_mono [of 1 "10 ^ nat (e' - e)" "\<bar>coeff_at e' x\<bar>"]
  by (simp add: coeff_at_split abs_mult)

lemma dec_add_exact:
  assumes "e \<le> expo x" and "e \<le> expo y" and "\<bar>coeff_at e x\<bar> + \<bar>coeff_at e y\<bar> < 10 ^ 28"
  shows "dec_val (dec_add x y) = dec_val x + dec_val y"
    and "e \<le> expo (dec_add x y)"
    and "\<bar>coeff_at e (dec_add x y)\<bar> \<le> \<bar>coeff_at e x\<bar> + \<bar>coeff_at e y\<bar>"
proof -
  define e' where "e' = min (expo x) (expo y)"
  have le: "e \<le> e'" "e' \<le> expo x" "e' \<le> expo y" using assms by (auto simp: e'_def)
  have "\<bar>coeff_at e' x + coeff_at e' y\<bar> < 10 ^ 28"
    using coeff_at_mono [OF le(1,2)] coeff_at_mono [OF le(1,3)] assms(3) by linarith
  then have *: "dec_add x y = Dec (coeff_at e' x + coeff_at e' y) e'"
    by (simp add: dec_add_def e'_def [symmetric] dec_fix_exact)
  then show "dec_val (dec_add x y) = dec_val x + dec_val y"
    using dec_val_plus [of x y] by (simp add: e'_def Let_def)
  show "e \<le> expo (dec_add x y)" using le by (simp add: *)
  have "coeff_at e (dec_add x y) = coeff_at e x + coeff_at e y"
    using le by (simp add: * coeff_at_split [of e e' x] coeff_at_split [of e e' y] algebra_simps)
      (simp add: coeff_at_def algebra_simps)
  then show "\<bar>coeff_at e (dec_add x y)\<bar> \<le> \<bar>coeff_at e x\<bar> + \<bar>coeff_at e y\<bar>" by linarith
qed

lemma dec_sum_exact:
  assumes "\<And>x. x \<in> set xs \<Longrightarrow> e \<le> expo x" and "e \<le> 0"
    and "(\<Sum>x\<leftarrow>xs. \<bar>coeff_at e x\<bar>) < 10 ^ 28"
  shows "dec_val (dec_sum xs) = (\<Sum>x\<leftarrow>xs. dec_val x)"
proof -
  have "dec_val (foldl dec_add a xs) = dec_val a + (\<Sum>x\<leftarrow>xs. dec_val x)"
    if "e \<le> expo a" "\<bar>coeff_at e a\<bar> + (\<Sum>x\<leftarrow>xs. \<bar>coeff_at e x\<bar>) < 10 ^ 28" for a
    using that assms(1)
  proof (induction xs arbitrary: a)
    case Nil
    then show ?case by simp
  next
    case (Cons x xs)
    have nn: "0 \<le> (\<Sum>x\<leftarrow>xs. \<bar>coeff_at e x\<bar>)" by (induction xs) auto
    have ex: "e \<le> expo x" using Cons.prems(3) by simp
    have "\<bar>coeff_at e a\<bar> + \<bar>coeff_at e x\<bar> < 10 ^ 28" using Cons.prems(2) nn by simp
    note add = dec_add_exact [OF Cons.prems(1) ex this]
    have "\<bar>coeff_at e (dec_add a x)\<bar> + (\<Sum>x\<leftarrow>xs. \<bar>coeff_at e x\<bar>) < 10 ^ 28"
      using add(3) Cons.prems(2) by simp
    with Cons.IH [of "dec_add a x"] add(2) Cons.prems(3)
    have "dec_val (foldl dec_add (dec_add a x) xs) = dec_val (dec_add a x) + (\<Sum>x\<leftarrow>xs. dec_val x)"
      by simp
    then show ?case by (simp add: add(1))
  qed
  from this [of dec_zero] assms(2,3) show ?thesis
    by (simp add: dec_sum_def) (simp add: dec_zero_def coeff_at_def)
qed

section \<open>Text of a value\<close>

text \<open>The digits with the point after the first \<open>dot\<close> of them, as \<open>Decimal.__str__\<close> lays them out.\<close>

definition place_point :: "string \<Rightarrow> int \<Rightarrow> string" where
  "place_point ds dot =
     (if dot \<le> 0 then ''0.'' @ replicate (nat (- dot)) (CHR ''0'') @ ds
      else if int (length ds) \<le> dot then ds @ replicate (nat dot - length ds) (CHR ''0'')
      else take (nat dot) ds @ ''.'' @ drop (nat dot) ds)"

definition dec_str :: "decimal \<Rightarrow> string" where
  "dec_str x = (let ds = nat_digits (nat \<bar>coeff x\<bar>);
       left = expo x + int (length ds);
       dot = (if expo x \<le> 0 \<and> - 6 < left then left else 1);
       e = left - dot
     in (if coeff x < 0 then ''-'' else '''') @ place_point ds dot @
        (if e = 0 then '''' else ''E'' @ (if 0 < e then ''+'' else '''') @ int_str e))"

text \<open>\<open>format(value, "f")\<close>.\<close>

definition dec_fixed :: "decimal \<Rightarrow> string" where
  "dec_fixed x = (let y = (if 0 < expo x then Dec (coeff_at 0 x) 0 else x);
       ds = nat_digits (nat \<bar>coeff y\<bar>)
     in (if coeff y < 0 then ''-'' else '''') @ place_point ds (expo y + int (length ds)))"

end
