(* ===== verification/Domain_Models.thy ===== *)
theory Domain_Models
  imports Decimals
begin

text \<open>
  The normalized records of \<open>models/\<close>: bank transactions, gateway settlement
  entries, ERP invoices and their lines, with the validation their
  \<open>__post_init__\<close> runs.  A record is polymorphic in the type of its amounts: the
  constructor's arguments carry any \<open>Decimal\<close>, infinities and NaN included, a
  constructed object carries finite values.  Arguments are of the annotated types, so
  the \<open>isinstance\<close> checks that raise \<open>TypeError\<close> have no branch.  \<open>valid_\<close> predicates state
  what a constructed object satisfies; the lemmas show that construction establishes
  them and that constructing again from a valid object's own fields changes nothing.
\<close>

section \<open>Vocabulary of \<open>enums.py\<close>\<close>

datatype credit_debit_indicator = CREDIT | DEBIT

datatype bank_transaction_status = BOOKED | PENDING | REVERSED | CANCELLED

datatype invoice_type = INVOICE | CREDIT_NOTE | DEBIT_NOTE | PROFORMA

datatype invoice_status = DRAFT | OPEN | PARTIALLY_PAID | PAID | VOID | OVERDUE

datatype gateway_transaction_type = PAYMENT | REFUND | CHARGEBACK | FEE | ADJUSTMENT | RESERVE

datatype gateway_status =
  GATEWAY_PENDING | GATEWAY_AVAILABLE | GATEWAY_PAID | GATEWAY_FAILED | GATEWAY_REVERSED

datatype reconciliation_status =
    EXACT_MATCH
  | SETTLEMENT_MATCH
  | TOLERANCE_MATCH
  | MANY_TO_ONE_MATCH
  | ONE_TO_MANY_MATCH
  | DUPLICATE
  | REQUIRES_REVIEW

section \<open>Field checks of \<open>common.py\<close>\<close>

datatype pydecimal = Finite decimal | Infinity | NotANumber

fun finite_value :: "pydecimal \<Rightarrow> decimal" where
  "finite_value (Finite d) = d"
| "finite_value _ = dec_zero"

text \<open>
  JSON values, for the fields and the columns of the database that hold any.  The ISO text of an instant is kept as the
  instant it denotes, and a finite float as the decimal its shortest representation denotes.
\<close>

datatype json =
    JText string
  | JInt int
  | JBool bool
  | JNull
  | JDecimal decimal
  | JFloat decimal
  | JTime instant
  | JList "json list"
  | JObject "(string \<times> json) list"
  | JOther

type_synonym extra_data = "(string \<times> json) list"

definition require_text :: "string \<Rightarrow> string \<Rightarrow> string outcome" where
  "require_text value field_name =
     (if strip value = [] then Inl (ValueError (field_name @ '' must be a non-empty string''))
      else Inr (strip value))"

fun optional_text :: "string option \<Rightarrow> string \<Rightarrow> string option outcome" where
  "optional_text None field_name = Inr None"
| "optional_text (Some value) field_name =
     and_then (require_text value field_name) (\<lambda>t. Inr (Some t))"

definition is_ascii :: "char \<Rightarrow> bool" where
  "is_ascii c = ((of_char c :: nat) < 128)"

definition is_alpha :: "char \<Rightarrow> bool" where
  "is_alpha c = (is_upper c \<or> is_lower c)"

text \<open>\<open>str.isdigit\<close> also accepts the superscript digits of Latin-1.\<close>

definition py_isdigit :: "char \<Rightarrow> bool" where
  "py_isdigit c = (is_digit c \<or> (of_char c :: nat) \<in> {178, 179, 185})"

definition require_currency :: "string \<Rightarrow> string \<Rightarrow> string outcome" where
  "require_currency value field_name =
     and_then (require_text value field_name) (\<lambda>currency.
       if length currency \<noteq> 3 \<or> \<not> list_all is_ascii currency \<or> \<not> list_all is_alpha currency
          \<or> \<not> list_all is_upper currency
       then Inl (ValueError (field_name @ '' must be a three-letter uppercase ISO 4217 code''))
       else Inr currency)"

definition require_decimal :: "pydecimal \<Rightarrow> string \<Rightarrow> bool \<Rightarrow> bool \<Rightarrow> unit outcome" where
  "require_decimal value field_name allow_negative allow_zero =
     (case value of
        Finite d \<Rightarrow>
          if \<not> allow_negative \<and> d < dec_zero
          then Inl (ValueError (field_name @ '' cannot be negative''))
          else if \<not> allow_zero \<and> dec_eq d dec_zero
          then Inl (ValueError (field_name @ '' must be greater than zero''))
          else Inr ()
      | _ \<Rightarrow> Inl (ValueError (field_name @ '' must be finite'')))"

definition require_aware_datetime :: "datetime \<Rightarrow> string \<Rightarrow> unit outcome" where
  "require_aware_datetime value field_name =
     guard_else (utc_offset value \<noteq> None) (ValueError (field_name @ '' must include timezone information''))"

text \<open>\<open>if value is not None: check(value)\<close>.\<close>

fun when_some :: "'a option \<Rightarrow> ('a \<Rightarrow> unit outcome) \<Rightarrow> unit outcome" where
  "when_some None check = Inr ()"
| "when_some (Some v) check = check v"

text \<open>\<open>for name in names: check(getattr(self, name), name)\<close>.\<close>

fun check_each :: "('a \<Rightarrow> string \<Rightarrow> unit outcome) \<Rightarrow> (string \<times> 'a) list \<Rightarrow> unit outcome" where
  "check_each check [] = Inr ()"
| "check_each check ((name, v) # vs) = and_then (check v name) (\<lambda>_. check_each check vs)"


section \<open>Bank transactions\<close>

record 'd bank_transaction =
  bank_source_system :: string
  bank_source_record_id :: string
  bank_transaction_id :: string
  bank_account_id :: string
  bank_booking_date :: date
  bank_amount :: "'d"
  bank_currency :: string
  bank_credit_debit_indicator :: credit_debit_indicator
  bank_status :: bank_transaction_status
  bank_description :: string
  bank_ingested_at :: datetime
  bank_statement_id :: "string option"
  bank_entry_reference :: "string option"
  bank_account_servicer_reference :: "string option"
  bank_end_to_end_id :: "string option"
  bank_instruction_id :: "string option"
  bank_mandate_id :: "string option"
  bank_check_number :: "string option"
  bank_value_date :: "date option"
  bank_authorized_date :: "date option"
  bank_booking_datetime :: "datetime option"
  bank_authorized_datetime :: "datetime option"
  bank_account_currency :: "string option"
  bank_account_amount :: "'d option"
  bank_exchange_rate :: "'d option"
  bank_transaction_code :: "string option"
  bank_payment_channel :: "string option"
  bank_category :: "string option"
  bank_subcategory :: "string option"
  bank_original_description :: "string option"
  bank_remittance_information :: "string option"
  bank_merchant_name :: "string option"
  bank_merchant_category_code :: "string option"
  bank_counterparty_name :: "string option"
  bank_counterparty_account_id :: "string option"
  bank_counterparty_iban_masked :: "string option"
  bank_counterparty_bic :: "string option"
  bank_counterparty_country :: "string option"
  bank_debtor_name :: "string option"
  bank_creditor_name :: "string option"
  bank_invoice_reference :: "string option"
  bank_customer_reference :: "string option"
  bank_bank_reference :: "string option"
  bank_balance_after_transaction :: "'d option"
  bank_branch_id :: "string option"
  bank_location_country :: "string option"
  bank_location_city :: "string option"
  bank_is_fee :: bool
  bank_is_reversal :: bool
  bank_reversal_of_transaction_id :: "string option"
  bank_extra_data :: extra_data

definition map_bank_transaction :: "('a \<Rightarrow> 'b) \<Rightarrow> 'a bank_transaction \<Rightarrow> 'b bank_transaction" where
  "map_bank_transaction f x = \<lparr>
     bank_source_system = bank_source_system x,
     bank_source_record_id = bank_source_record_id x,
     bank_transaction_id = bank_transaction_id x,
     bank_account_id = bank_account_id x,
     bank_booking_date = bank_booking_date x,
     bank_amount = f (bank_amount x),
     bank_currency = bank_currency x,
     bank_credit_debit_indicator = bank_credit_debit_indicator x,
     bank_status = bank_status x,
     bank_description = bank_description x,
     bank_ingested_at = bank_ingested_at x,
     bank_statement_id = bank_statement_id x,
     bank_entry_reference = bank_entry_reference x,
     bank_account_servicer_reference = bank_account_servicer_reference x,
     bank_end_to_end_id = bank_end_to_end_id x,
     bank_instruction_id = bank_instruction_id x,
     bank_mandate_id = bank_mandate_id x,
     bank_check_number = bank_check_number x,
     bank_value_date = bank_value_date x,
     bank_authorized_date = bank_authorized_date x,
     bank_booking_datetime = bank_booking_datetime x,
     bank_authorized_datetime = bank_authorized_datetime x,
     bank_account_currency = bank_account_currency x,
     bank_account_amount = map_option f (bank_account_amount x),
     bank_exchange_rate = map_option f (bank_exchange_rate x),
     bank_transaction_code = bank_transaction_code x,
     bank_payment_channel = bank_payment_channel x,
     bank_category = bank_category x,
     bank_subcategory = bank_subcategory x,
     bank_original_description = bank_original_description x,
     bank_remittance_information = bank_remittance_information x,
     bank_merchant_name = bank_merchant_name x,
     bank_merchant_category_code = bank_merchant_category_code x,
     bank_counterparty_name = bank_counterparty_name x,
     bank_counterparty_account_id = bank_counterparty_account_id x,
     bank_counterparty_iban_masked = bank_counterparty_iban_masked x,
     bank_counterparty_bic = bank_counterparty_bic x,
     bank_counterparty_country = bank_counterparty_country x,
     bank_debtor_name = bank_debtor_name x,
     bank_creditor_name = bank_creditor_name x,
     bank_invoice_reference = bank_invoice_reference x,
     bank_customer_reference = bank_customer_reference x,
     bank_bank_reference = bank_bank_reference x,
     bank_balance_after_transaction = map_option f (bank_balance_after_transaction x),
     bank_branch_id = bank_branch_id x,
     bank_location_country = bank_location_country x,
     bank_location_city = bank_location_city x,
     bank_is_fee = bank_is_fee x,
     bank_is_reversal = bank_is_reversal x,
     bank_reversal_of_transaction_id = bank_reversal_of_transaction_id x,
     bank_extra_data = bank_extra_data x\<rparr>"

definition bank_post_init :: "pydecimal bank_transaction \<Rightarrow> decimal bank_transaction outcome" where
  "bank_post_init b =
     and_then (require_text (bank_source_system b) ''source_system'') (\<lambda>source_system.
     and_then (require_text (bank_source_record_id b) ''source_record_id'') (\<lambda>source_record_id.
     and_then (require_text (bank_transaction_id b) ''transaction_id'') (\<lambda>transaction_id.
     and_then (require_text (bank_account_id b) ''account_id'') (\<lambda>account_id.
     and_then (require_text (bank_description b) ''description'') (\<lambda>description.
     and_then (require_currency (bank_currency b) ''currency'') (\<lambda>currency.
     and_then (require_decimal (bank_amount b) ''amount'' False False) (\<lambda>_.
     and_then (require_aware_datetime (bank_ingested_at b) ''ingested_at'') (\<lambda>_.
     and_then (when_some (bank_booking_datetime b) (\<lambda>v. require_aware_datetime v ''booking_datetime'')) (\<lambda>_.
     and_then (when_some (bank_authorized_datetime b)
         (\<lambda>v. require_aware_datetime v ''authorized_datetime'')) (\<lambda>_.
     and_then (when_some (bank_account_amount b) (\<lambda>v. require_decimal v ''account_amount'' False True)) (\<lambda>_.
     and_then (when_some (bank_exchange_rate b) (\<lambda>v. require_decimal v ''exchange_rate'' False False)) (\<lambda>_.
     and_then (when_some (bank_balance_after_transaction b)
         (\<lambda>v. require_decimal v ''balance_after_transaction'' True True)) (\<lambda>_.
     and_then (case bank_account_currency b of None \<Rightarrow> Inr None
         | Some v \<Rightarrow> and_then (require_currency v ''account_currency'') (\<lambda>t. Inr (Some t))) (\<lambda>account_currency.
     and_then (guard_else (\<not> (bank_is_reversal b \<and> bank_reversal_of_transaction_id b = None))
         (ValueError ''reversal_of_transaction_id is required for a reversal'')) (\<lambda>_.
     and_then (optional_text (bank_reversal_of_transaction_id b) ''reversal_of_transaction_id'') (\<lambda>reversal.
     Inr (map_bank_transaction finite_value
       (b \<lparr> bank_source_system := source_system, bank_source_record_id := source_record_id,
            bank_transaction_id := transaction_id, bank_account_id := account_id,
            bank_description := description, bank_currency := currency,
            bank_account_currency := account_currency,
            bank_reversal_of_transaction_id := reversal \<rparr>))))))))))))))))))"

section \<open>Gateway settlement entries\<close>

record 'd gateway_entry =
  gw_source_system :: string
  gw_source_record_id :: string
  gw_settlement_id :: string
  gw_gateway_payment_id :: string
  gw_merchant_account_id :: string
  gw_transaction_type :: gateway_transaction_type
  gw_status :: gateway_status
  gw_created_at :: datetime
  gw_settlement_date :: date
  gw_gross_amount :: "'d"
  gw_fee_amount :: "'d"
  gw_tax_on_fee_amount :: "'d"
  gw_refund_amount :: "'d"
  gw_chargeback_amount :: "'d"
  gw_adjustment_amount :: "'d"
  gw_net_amount :: "'d"
  gw_currency :: string
  gw_settlement_currency :: string
  gw_ingested_at :: datetime
  gw_available_on :: "date option"
  gw_exchange_rate :: "'d option"
  gw_customer_id :: "string option"
  gw_customer_name :: "string option"
  gw_invoice_reference :: "string option"
  gw_order_reference :: "string option"
  gw_gateway_reference :: "string option"
  gw_bank_reference :: "string option"
  gw_payment_method_type :: "string option"
  gw_card_brand :: "string option"
  gw_card_last4 :: "string option"
  gw_description :: "string option"
  gw_extra_data :: extra_data

definition map_gateway_entry :: "('a \<Rightarrow> 'b) \<Rightarrow> 'a gateway_entry \<Rightarrow> 'b gateway_entry" where
  "map_gateway_entry f x = \<lparr>
     gw_source_system = gw_source_system x,
     gw_source_record_id = gw_source_record_id x,
     gw_settlement_id = gw_settlement_id x,
     gw_gateway_payment_id = gw_gateway_payment_id x,
     gw_merchant_account_id = gw_merchant_account_id x,
     gw_transaction_type = gw_transaction_type x,
     gw_status = gw_status x,
     gw_created_at = gw_created_at x,
     gw_settlement_date = gw_settlement_date x,
     gw_gross_amount = f (gw_gross_amount x),
     gw_fee_amount = f (gw_fee_amount x),
     gw_tax_on_fee_amount = f (gw_tax_on_fee_amount x),
     gw_refund_amount = f (gw_refund_amount x),
     gw_chargeback_amount = f (gw_chargeback_amount x),
     gw_adjustment_amount = f (gw_adjustment_amount x),
     gw_net_amount = f (gw_net_amount x),
     gw_currency = gw_currency x,
     gw_settlement_currency = gw_settlement_currency x,
     gw_ingested_at = gw_ingested_at x,
     gw_available_on = gw_available_on x,
     gw_exchange_rate = map_option f (gw_exchange_rate x),
     gw_customer_id = gw_customer_id x,
     gw_customer_name = gw_customer_name x,
     gw_invoice_reference = gw_invoice_reference x,
     gw_order_reference = gw_order_reference x,
     gw_gateway_reference = gw_gateway_reference x,
     gw_bank_reference = gw_bank_reference x,
     gw_payment_method_type = gw_payment_method_type x,
     gw_card_brand = gw_card_brand x,
     gw_card_last4 = gw_card_last4 x,
     gw_description = gw_description x,
     gw_extra_data = gw_extra_data x\<rparr>"

definition calculated_net :: "decimal gateway_entry \<Rightarrow> decimal" where
  "calculated_net g =
     dec_add (dec_sub (dec_sub (dec_sub (dec_sub (gw_gross_amount g) (gw_fee_amount g))
       (gw_tax_on_fee_amount g)) (gw_refund_amount g)) (gw_chargeback_amount g)) (gw_adjustment_amount g)"

definition gateway_post_init :: "pydecimal gateway_entry \<Rightarrow> decimal gateway_entry outcome" where
  "gateway_post_init g =
     and_then (require_text (gw_source_system g) ''source_system'') (\<lambda>source_system.
     and_then (require_text (gw_source_record_id g) ''source_record_id'') (\<lambda>source_record_id.
     and_then (require_text (gw_settlement_id g) ''settlement_id'') (\<lambda>settlement_id.
     and_then (require_text (gw_gateway_payment_id g) ''gateway_payment_id'') (\<lambda>gateway_payment_id.
     and_then (require_text (gw_merchant_account_id g) ''merchant_account_id'') (\<lambda>merchant_account_id.
     and_then (require_currency (gw_currency g) ''currency'') (\<lambda>currency.
     and_then (require_currency (gw_settlement_currency g) ''settlement_currency'') (\<lambda>settlement_currency.
     and_then (require_aware_datetime (gw_created_at g) ''created_at'') (\<lambda>_.
     and_then (require_aware_datetime (gw_ingested_at g) ''ingested_at'') (\<lambda>_.
     and_then (check_each (\<lambda>v name. require_decimal v name False True)
         [(''gross_amount'', gw_gross_amount g), (''fee_amount'', gw_fee_amount g),
          (''tax_on_fee_amount'', gw_tax_on_fee_amount g), (''refund_amount'', gw_refund_amount g),
          (''chargeback_amount'', gw_chargeback_amount g)]) (\<lambda>_.
     and_then (require_decimal (gw_adjustment_amount g) ''adjustment_amount'' True True) (\<lambda>_.
     and_then (require_decimal (gw_net_amount g) ''net_amount'' True True) (\<lambda>_.
     and_then (when_some (gw_exchange_rate g) (\<lambda>v. require_decimal v ''exchange_rate'' False False)) (\<lambda>_.
     let f = map_gateway_entry finite_value
       (g \<lparr> gw_source_system := source_system, gw_source_record_id := source_record_id,
            gw_settlement_id := settlement_id, gw_gateway_payment_id := gateway_payment_id,
            gw_merchant_account_id := merchant_account_id, gw_currency := currency,
            gw_settlement_currency := settlement_currency \<rparr>) in
     and_then (guard_else (dec_eq (gw_net_amount f) (calculated_net f))
         (ValueError ''net_amount is inconsistent with gross, fees, refunds, chargebacks, and adjustment'')) (\<lambda>_.
     and_then (guard_else (\<not> (gw_currency f \<noteq> gw_settlement_currency f \<and> gw_exchange_rate f = None))
         (ValueError ''exchange_rate is required for cross-currency settlements'')) (\<lambda>_.
     and_then (when_some (gw_card_last4 f) (\<lambda>v. guard_else (length v = 4 \<and> list_all py_isdigit v)
         (ValueError ''card_last4 must contain exactly four digits''))) (\<lambda>_.
     Inr f))))))))))))))))"

section \<open>ERP invoices\<close>

record 'd invoice_line =
  ln_line_id :: string
  ln_line_number :: int
  ln_item_description :: string
  ln_quantity :: "'d"
  ln_unit_price :: "'d"
  ln_line_net_amount :: "'d"
  ln_tax_rate :: "'d"
  ln_tax_amount :: "'d"
  ln_line_gross_amount :: "'d"
  ln_item_id :: "string option"
  ln_unit_code :: "string option"
  ln_line_discount_amount :: "'d"
  ln_line_charge_amount :: "'d"
  ln_tax_category :: "string option"
  ln_extra_data :: extra_data

definition map_invoice_line :: "('a \<Rightarrow> 'b) \<Rightarrow> 'a invoice_line \<Rightarrow> 'b invoice_line" where
  "map_invoice_line f x = \<lparr>
     ln_line_id = ln_line_id x,
     ln_line_number = ln_line_number x,
     ln_item_description = ln_item_description x,
     ln_quantity = f (ln_quantity x),
     ln_unit_price = f (ln_unit_price x),
     ln_line_net_amount = f (ln_line_net_amount x),
     ln_tax_rate = f (ln_tax_rate x),
     ln_tax_amount = f (ln_tax_amount x),
     ln_line_gross_amount = f (ln_line_gross_amount x),
     ln_item_id = ln_item_id x,
     ln_unit_code = ln_unit_code x,
     ln_line_discount_amount = f (ln_line_discount_amount x),
     ln_line_charge_amount = f (ln_line_charge_amount x),
     ln_tax_category = ln_tax_category x,
     ln_extra_data = ln_extra_data x\<rparr>"

definition line_post_init :: "pydecimal invoice_line \<Rightarrow> decimal invoice_line outcome" where
  "line_post_init l =
     and_then (require_text (ln_line_id l) ''line_id'') (\<lambda>line_id.
     and_then (require_text (ln_item_description l) ''item_description'') (\<lambda>item_description.
     and_then (guard_else (1 \<le> ln_line_number l) (ValueError ''line_number must be a positive integer'')) (\<lambda>_.
     and_then (check_each (\<lambda>v name. require_decimal v name False True)
         [(''quantity'', ln_quantity l), (''unit_price'', ln_unit_price l),
          (''line_net_amount'', ln_line_net_amount l), (''tax_rate'', ln_tax_rate l),
          (''tax_amount'', ln_tax_amount l), (''line_gross_amount'', ln_line_gross_amount l),
          (''line_discount_amount'', ln_line_discount_amount l),
          (''line_charge_amount'', ln_line_charge_amount l)]) (\<lambda>_.
     let f = map_invoice_line finite_value
       (l \<lparr> ln_line_id := line_id, ln_item_description := item_description \<rparr>) in
     and_then (guard_else (\<not> dec_eq (ln_quantity f) dec_zero)
         (ValueError ''quantity must be greater than zero'')) (\<lambda>_.
     and_then (guard_else (dec_eq (ln_line_net_amount f)
           (dec_add (dec_sub (dec_mul (ln_quantity f) (ln_unit_price f)) (ln_line_discount_amount f))
              (ln_line_charge_amount f)))
         (ValueError ''line_net_amount does not equal quantity * unit_price - discount + charge'')) (\<lambda>_.
     and_then (guard_else (dec_eq (ln_line_gross_amount f) (dec_add (ln_line_net_amount f) (ln_tax_amount f)))
         (ValueError ''line_gross_amount does not equal line_net_amount + tax_amount'')) (\<lambda>_.
     Inr f)))))))"

record 'd erp_invoice =
  inv_source_system :: string
  inv_source_record_id :: string
  inv_invoice_id :: string
  inv_invoice_number :: string
  inv_invoice_type :: invoice_type
  inv_status :: invoice_status
  inv_issue_date :: date
  inv_currency :: string
  inv_supplier_id :: string
  inv_supplier_name :: string
  inv_customer_id :: string
  inv_customer_name :: string
  inv_document_subtotal :: "'d"
  inv_document_discount_amount :: "'d"
  inv_document_charge_amount :: "'d"
  inv_document_tax_amount :: "'d"
  inv_document_total_amount :: "'d"
  inv_prepaid_amount :: "'d"
  inv_paid_amount :: "'d"
  inv_amount_due :: "'d"
  inv_lines :: "decimal invoice_line list"
  inv_ingested_at :: datetime
  inv_due_date :: "date option"
  inv_service_start_date :: "date option"
  inv_service_end_date :: "date option"
  inv_posting_date :: "date option"
  inv_accounting_period :: "string option"
  inv_tax_currency :: "string option"
  inv_exchange_rate :: "'d option"
  inv_purchase_order_reference :: "string option"
  inv_sales_order_reference :: "string option"
  inv_contract_reference :: "string option"
  inv_project_reference :: "string option"
  inv_payment_reference :: "string option"
  inv_supplier_tax_id :: "string option"
  inv_supplier_country :: "string option"
  inv_customer_tax_id :: "string option"
  inv_customer_email :: "string option"
  inv_customer_country :: "string option"
  inv_billing_address_line1 :: "string option"
  inv_billing_city :: "string option"
  inv_billing_region :: "string option"
  inv_billing_postal_code :: "string option"
  inv_billing_country :: "string option"
  inv_delivery_address_line1 :: "string option"
  inv_delivery_city :: "string option"
  inv_delivery_country :: "string option"
  inv_payment_terms_code :: "string option"
  inv_payment_terms_description :: "string option"
  inv_payment_method :: "string option"
  inv_payment_account_reference :: "string option"
  inv_last_payment_date :: "date option"
  inv_notes :: "string option"
  inv_created_at :: "datetime option"
  inv_updated_at :: "datetime option"
  inv_extra_data :: extra_data

definition map_erp_invoice :: "('a \<Rightarrow> 'b) \<Rightarrow> 'a erp_invoice \<Rightarrow> 'b erp_invoice" where
  "map_erp_invoice f x = \<lparr>
     inv_source_system = inv_source_system x,
     inv_source_record_id = inv_source_record_id x,
     inv_invoice_id = inv_invoice_id x,
     inv_invoice_number = inv_invoice_number x,
     inv_invoice_type = inv_invoice_type x,
     inv_status = inv_status x,
     inv_issue_date = inv_issue_date x,
     inv_currency = inv_currency x,
     inv_supplier_id = inv_supplier_id x,
     inv_supplier_name = inv_supplier_name x,
     inv_customer_id = inv_customer_id x,
     inv_customer_name = inv_customer_name x,
     inv_document_subtotal = f (inv_document_subtotal x),
     inv_document_discount_amount = f (inv_document_discount_amount x),
     inv_document_charge_amount = f (inv_document_charge_amount x),
     inv_document_tax_amount = f (inv_document_tax_amount x),
     inv_document_total_amount = f (inv_document_total_amount x),
     inv_prepaid_amount = f (inv_prepaid_amount x),
     inv_paid_amount = f (inv_paid_amount x),
     inv_amount_due = f (inv_amount_due x),
     inv_lines = inv_lines x,
     inv_ingested_at = inv_ingested_at x,
     inv_due_date = inv_due_date x,
     inv_service_start_date = inv_service_start_date x,
     inv_service_end_date = inv_service_end_date x,
     inv_posting_date = inv_posting_date x,
     inv_accounting_period = inv_accounting_period x,
     inv_tax_currency = inv_tax_currency x,
     inv_exchange_rate = map_option f (inv_exchange_rate x),
     inv_purchase_order_reference = inv_purchase_order_reference x,
     inv_sales_order_reference = inv_sales_order_reference x,
     inv_contract_reference = inv_contract_reference x,
     inv_project_reference = inv_project_reference x,
     inv_payment_reference = inv_payment_reference x,
     inv_supplier_tax_id = inv_supplier_tax_id x,
     inv_supplier_country = inv_supplier_country x,
     inv_customer_tax_id = inv_customer_tax_id x,
     inv_customer_email = inv_customer_email x,
     inv_customer_country = inv_customer_country x,
     inv_billing_address_line1 = inv_billing_address_line1 x,
     inv_billing_city = inv_billing_city x,
     inv_billing_region = inv_billing_region x,
     inv_billing_postal_code = inv_billing_postal_code x,
     inv_billing_country = inv_billing_country x,
     inv_delivery_address_line1 = inv_delivery_address_line1 x,
     inv_delivery_city = inv_delivery_city x,
     inv_delivery_country = inv_delivery_country x,
     inv_payment_terms_code = inv_payment_terms_code x,
     inv_payment_terms_description = inv_payment_terms_description x,
     inv_payment_method = inv_payment_method x,
     inv_payment_account_reference = inv_payment_account_reference x,
     inv_last_payment_date = inv_last_payment_date x,
     inv_notes = inv_notes x,
     inv_created_at = inv_created_at x,
     inv_updated_at = inv_updated_at x,
     inv_extra_data = inv_extra_data x\<rparr>"

text \<open>The lines an invoice is built from are constructed objects already.\<close>

definition invoice_post_init :: "pydecimal erp_invoice \<Rightarrow> decimal erp_invoice outcome" where
  "invoice_post_init i =
     and_then (require_text (inv_source_system i) ''source_system'') (\<lambda>source_system.
     and_then (require_text (inv_source_record_id i) ''source_record_id'') (\<lambda>source_record_id.
     and_then (require_text (inv_invoice_id i) ''invoice_id'') (\<lambda>invoice_id.
     and_then (require_text (inv_invoice_number i) ''invoice_number'') (\<lambda>invoice_number.
     and_then (require_text (inv_supplier_id i) ''supplier_id'') (\<lambda>supplier_id.
     and_then (require_text (inv_supplier_name i) ''supplier_name'') (\<lambda>supplier_name.
     and_then (require_text (inv_customer_id i) ''customer_id'') (\<lambda>customer_id.
     and_then (require_text (inv_customer_name i) ''customer_name'') (\<lambda>customer_name.
     and_then (require_currency (inv_currency i) ''currency'') (\<lambda>currency.
     and_then (case inv_tax_currency i of None \<Rightarrow> Inr None
         | Some v \<Rightarrow> and_then (require_currency v ''tax_currency'') (\<lambda>t. Inr (Some t))) (\<lambda>tax_currency.
     and_then (require_aware_datetime (inv_ingested_at i) ''ingested_at'') (\<lambda>_.
     and_then (when_some (inv_created_at i) (\<lambda>v. require_aware_datetime v ''created_at'')) (\<lambda>_.
     and_then (when_some (inv_updated_at i) (\<lambda>v. require_aware_datetime v ''updated_at'')) (\<lambda>_.
     and_then (check_each (\<lambda>v name. require_decimal v name False True)
         [(''document_subtotal'', inv_document_subtotal i),
          (''document_discount_amount'', inv_document_discount_amount i),
          (''document_charge_amount'', inv_document_charge_amount i),
          (''document_tax_amount'', inv_document_tax_amount i),
          (''document_total_amount'', inv_document_total_amount i),
          (''prepaid_amount'', inv_prepaid_amount i), (''paid_amount'', inv_paid_amount i),
          (''amount_due'', inv_amount_due i)]) (\<lambda>_.
     and_then (when_some (inv_exchange_rate i) (\<lambda>v. require_decimal v ''exchange_rate'' False False)) (\<lambda>_.
     and_then (guard_else (inv_lines i \<noteq> [])
         (ValueError ''lines must be a non-empty tuple of InvoiceLine values'')) (\<lambda>_.
     and_then (guard_else (card (set (map ln_line_id (inv_lines i))) = length (inv_lines i))
         (ValueError ''invoice line IDs must be unique'')) (\<lambda>_.
     let f = map_erp_invoice finite_value
       (i \<lparr> inv_source_system := source_system, inv_source_record_id := source_record_id,
            inv_invoice_id := invoice_id, inv_invoice_number := invoice_number,
            inv_supplier_id := supplier_id, inv_supplier_name := supplier_name,
            inv_customer_id := customer_id, inv_customer_name := customer_name,
            inv_currency := currency, inv_tax_currency := tax_currency \<rparr>) in
     and_then (guard_else (dec_eq (dec_sum (map ln_line_net_amount (inv_lines f))) (inv_document_subtotal f))
         (ValueError ''document_subtotal does not equal the sum of invoice line net amounts'')) (\<lambda>_.
     and_then (guard_else (dec_eq (dec_sum (map ln_tax_amount (inv_lines f))) (inv_document_tax_amount f))
         (ValueError ''document_tax_amount does not equal the sum of invoice line tax amounts'')) (\<lambda>_.
     and_then (guard_else (dec_eq (inv_document_total_amount f)
           (dec_add (dec_add (dec_sub (inv_document_subtotal f) (inv_document_discount_amount f))
              (inv_document_charge_amount f)) (inv_document_tax_amount f)))
         (ValueError ''document_total_amount is inconsistent with subtotal, discounts, charges, and tax'')) (\<lambda>_.
     and_then (guard_else (dec_eq (inv_amount_due f)
           (dec_sub (dec_sub (inv_document_total_amount f) (inv_prepaid_amount f)) (inv_paid_amount f)))
         (ValueError ''amount_due is inconsistent with total, prepaid, and paid amounts'')) (\<lambda>_.
     Inr f)))))))))))))))))))))"

section \<open>What construction establishes\<close>

definition normal_text :: "string \<Rightarrow> bool" where
  "normal_text t \<longleftrightarrow> t \<noteq> [] \<and> strip t = t"

definition currency_code :: "string \<Rightarrow> bool" where
  "currency_code c \<longleftrightarrow> length c = 3 \<and> list_all is_upper c"

definition aware :: "datetime \<Rightarrow> bool" where
  "aware d \<longleftrightarrow> utc_offset d \<noteq> None"

definition nonnegative :: "decimal \<Rightarrow> bool" where
  "nonnegative d \<longleftrightarrow> dec_zero \<le> d"

definition positive :: "decimal \<Rightarrow> bool" where
  "positive d \<longleftrightarrow> dec_zero < d"

lemma nonnegative_iff: "nonnegative d \<longleftrightarrow> 0 \<le> dec_val d"
  by (simp add: nonnegative_def dec_le_iff)

lemma positive_iff: "positive d \<longleftrightarrow> 0 < dec_val d"
  by (simp add: positive_def dec_less_iff)

lemma is_upper_ascii [simp]: "is_upper c \<Longrightarrow> is_ascii c" "is_upper c \<Longrightarrow> is_alpha c"
    "is_upper c \<Longrightarrow> \<not> is_space c"
  by (auto simp: is_upper_def is_ascii_def is_alpha_def is_space_def Let_def)

lemma pred_option_iff: "pred_option P v \<longleftrightarrow> (\<forall>x. v = Some x \<longrightarrow> P x)"
  by (cases v) auto

lemma require_text_Inr_iff [outcome_simps]:
  "require_text v n = Inr t \<longleftrightarrow> t = strip v \<and> t \<noteq> []"
  by (auto simp: require_text_def)

lemma require_text_normal [simp]: "normal_text t \<Longrightarrow> require_text t n = Inr t"
  by (auto simp: require_text_def normal_text_def)

lemma normal_text_strip: "strip v \<noteq> [] \<Longrightarrow> normal_text (strip v)"
  by (simp add: normal_text_def)

lemma currency_code_normal: "currency_code c \<Longrightarrow> normal_text c"
proof -
  assume c: "currency_code c"
  then have "c \<noteq> []" by (auto simp: currency_code_def)
  moreover from this c have "is_upper (hd c)" "is_upper (last c)"
    by (auto simp: currency_code_def list_all_iff)
  ultimately show ?thesis by (simp add: normal_text_def strip_fixed)
qed

lemma require_currency_Inr_iff [outcome_simps]:
  "require_currency v n = Inr t \<longleftrightarrow> t = strip v \<and> currency_code t"
proof -
  have "list_all is_upper c \<Longrightarrow> list_all is_ascii c \<and> list_all is_alpha c" for c
    by (auto simp: list_all_iff)
  then show ?thesis by (auto simp: require_currency_def outcome_simps currency_code_def)
qed

lemma require_currency_code [simp]: "currency_code c \<Longrightarrow> require_currency c n = Inr c"
  by (simp add: require_currency_Inr_iff) (metis currency_code_normal normal_text_def)

lemma require_decimal_Inr_iff [outcome_simps]:
  "require_decimal v n neg zero = Inr u \<longleftrightarrow>
     (\<exists>d. v = Finite d \<and> (neg \<or> nonnegative d) \<and> (zero \<or> dec_val d \<noteq> 0))"
  by (cases v) (auto simp: require_decimal_def nonnegative_iff dec_less_iff dec_eq_iff)

lemma require_aware_datetime_Inr_iff [outcome_simps]:
  "require_aware_datetime v n = Inr u \<longleftrightarrow> aware v"
  by (simp add: require_aware_datetime_def aware_def guard_else_Inr_iff)

lemma when_some_Inr_iff [outcome_simps]:
  "when_some v f = Inr u \<longleftrightarrow> (\<forall>x. v = Some x \<longrightarrow> f x = Inr ())"
  by (cases v) auto

lemma check_each_Inr_iff [outcome_simps]:
  "check_each f vs = Inr u \<longleftrightarrow> (\<forall>(n, v) \<in> set vs. f v n = Inr ())"
  by (induction f vs rule: check_each.induct) (auto simp: outcome_simps)

lemma optional_currency_Inr_iff [outcome_simps]:
  "(case v of None \<Rightarrow> Inr None | Some c \<Rightarrow> and_then (require_currency c n) (\<lambda>t. Inr (Some t))) = Inr w \<longleftrightarrow>
   w = map_option strip v \<and> pred_option currency_code w"
  by (cases v) (auto simp: outcome_simps)

lemma optional_text_Inr_iff [outcome_simps]:
  "optional_text v n = Inr w \<longleftrightarrow> w = map_option strip v \<and> pred_option normal_text w"
  by (cases v) (auto simp: outcome_simps normal_text_def)

lemma require_decimal_Finite [simp]:
  "nonnegative d \<Longrightarrow> require_decimal (Finite d) n neg True = Inr ()"
  "positive d \<Longrightarrow> require_decimal (Finite d) n neg zero = Inr ()"
  "require_decimal (Finite d) n True True = Inr ()"
  by (auto simp: require_decimal_Inr_iff positive_iff nonnegative_iff)

lemma require_aware_datetime_aware [simp]: "aware d \<Longrightarrow> require_aware_datetime d n = Inr ()"
  by (simp add: require_aware_datetime_Inr_iff)

lemma when_some_valid [simp]:
  "pred_option aware v \<Longrightarrow> when_some v (\<lambda>x. require_aware_datetime x n) = Inr ()"
  "pred_option nonnegative w \<Longrightarrow>
     when_some (map_option Finite w) (\<lambda>x. require_decimal x n neg True) = Inr ()"
  "pred_option positive w \<Longrightarrow>
     when_some (map_option Finite w) (\<lambda>x. require_decimal x n neg zero) = Inr ()"
  "when_some (map_option Finite w) (\<lambda>x. require_decimal x n True True) = Inr ()"
  by (auto simp: when_some_Inr_iff pred_option_iff)

lemma when_some_guard: "pred_option P v \<Longrightarrow> when_some v (\<lambda>x. guard_else (P x) e) = Inr ()"
  by (cases v) simp_all

lemma optional_currency_code [simp]:
  "pred_option currency_code c \<Longrightarrow>
   (case c of None \<Rightarrow> Inr None | Some v \<Rightarrow> and_then (require_currency v n) (\<lambda>t. Inr (Some t))) = Inr c"
  by (cases c) simp_all

lemma optional_text_normal [simp]: "pred_option normal_text t \<Longrightarrow> optional_text t n = Inr t"
  by (cases t) simp_all

lemma finite_value_map [simp]: "map_option finite_value (map_option Finite v) = v"
  by (cases v) simp_all

definition valid_bank :: "decimal bank_transaction \<Rightarrow> bool" where
  "valid_bank b \<longleftrightarrow>
     list_all normal_text [bank_source_system b, bank_source_record_id b, bank_transaction_id b,
       bank_account_id b, bank_description b] \<and>
     currency_code (bank_currency b) \<and> pred_option currency_code (bank_account_currency b) \<and>
     positive (bank_amount b) \<and> pred_option nonnegative (bank_account_amount b) \<and>
     pred_option positive (bank_exchange_rate b) \<and>
     aware (bank_ingested_at b) \<and> pred_option aware (bank_booking_datetime b) \<and>
     pred_option aware (bank_authorized_datetime b) \<and>
     (bank_is_reversal b \<longrightarrow> bank_reversal_of_transaction_id b \<noteq> None) \<and>
     pred_option normal_text (bank_reversal_of_transaction_id b)"


lemma nonneg_positive: "nonnegative d \<Longrightarrow> dec_val d \<noteq> 0 \<Longrightarrow> positive d"
  by (simp add: nonnegative_iff positive_iff)

lemma positive_nonneg: "positive d \<Longrightarrow> nonnegative d \<and> dec_val d \<noteq> 0"
  by (simp add: nonnegative_iff positive_iff)

lemma bank_post_init_valid: "bank_post_init b = Inr t \<Longrightarrow> valid_bank t"
  unfolding bank_post_init_def
  by (auto simp: outcome_simps valid_bank_def map_bank_transaction_def normal_text_strip
      pred_option_iff nonneg_positive)

lemma bank_post_init_fixed:
  "valid_bank t \<Longrightarrow> bank_post_init (map_bank_transaction Finite t) = Inr t"
  unfolding bank_post_init_def valid_bank_def
  by (cases t) (simp add: map_bank_transaction_def)

definition valid_gateway :: "decimal gateway_entry \<Rightarrow> bool" where
  "valid_gateway g \<longleftrightarrow>
     list_all normal_text [gw_source_system g, gw_source_record_id g, gw_settlement_id g,
       gw_gateway_payment_id g, gw_merchant_account_id g] \<and>
     currency_code (gw_currency g) \<and> currency_code (gw_settlement_currency g) \<and>
     aware (gw_created_at g) \<and> aware (gw_ingested_at g) \<and>
     list_all nonnegative [gw_gross_amount g, gw_fee_amount g, gw_tax_on_fee_amount g,
       gw_refund_amount g, gw_chargeback_amount g] \<and>
     pred_option positive (gw_exchange_rate g) \<and>
     dec_val (gw_net_amount g) = dec_val (calculated_net g) \<and>
     (gw_currency g \<noteq> gw_settlement_currency g \<longrightarrow> gw_exchange_rate g \<noteq> None) \<and>
     pred_option (\<lambda>v. length v = 4 \<and> list_all py_isdigit v) (gw_card_last4 g)"

lemma gateway_post_init_valid: "gateway_post_init g = Inr t \<Longrightarrow> valid_gateway t"
  unfolding gateway_post_init_def Let_def
  by (auto simp: outcome_simps valid_gateway_def map_gateway_entry_def normal_text_strip
      pred_option_iff nonneg_positive dec_eq_iff calculated_net_def)

lemma gateway_post_init_fixed:
  "valid_gateway t \<Longrightarrow> gateway_post_init (map_gateway_entry Finite t) = Inr t"
  unfolding gateway_post_init_def valid_gateway_def Let_def
  by (cases t) (auto simp add: map_gateway_entry_def calculated_net_def dec_eq_iff when_some_guard)

definition valid_line :: "decimal invoice_line \<Rightarrow> bool" where
  "valid_line l \<longleftrightarrow>
     normal_text (ln_line_id l) \<and> normal_text (ln_item_description l) \<and> 1 \<le> ln_line_number l \<and>
     positive (ln_quantity l) \<and>
     list_all nonnegative [ln_unit_price l, ln_line_net_amount l, ln_tax_rate l, ln_tax_amount l,
       ln_line_gross_amount l, ln_line_discount_amount l, ln_line_charge_amount l] \<and>
     dec_val (ln_line_net_amount l) =
       dec_val (dec_add (dec_sub (dec_mul (ln_quantity l) (ln_unit_price l)) (ln_line_discount_amount l))
         (ln_line_charge_amount l)) \<and>
     dec_val (ln_line_gross_amount l) = dec_val (dec_add (ln_line_net_amount l) (ln_tax_amount l))"

lemma line_post_init_valid: "line_post_init l = Inr t \<Longrightarrow> valid_line t"
  unfolding line_post_init_def Let_def
  by (auto simp: outcome_simps valid_line_def map_invoice_line_def normal_text_strip
      nonneg_positive dec_eq_iff)

lemma line_post_init_fixed: "valid_line t \<Longrightarrow> line_post_init (map_invoice_line Finite t) = Inr t"
  unfolding line_post_init_def valid_line_def Let_def
  by (cases t) (auto simp add: map_invoice_line_def dec_eq_iff positive_iff)

definition valid_invoice :: "decimal erp_invoice \<Rightarrow> bool" where
  "valid_invoice i \<longleftrightarrow>
     list_all normal_text [inv_source_system i, inv_source_record_id i, inv_invoice_id i,
       inv_invoice_number i, inv_supplier_id i, inv_supplier_name i, inv_customer_id i,
       inv_customer_name i] \<and>
     currency_code (inv_currency i) \<and> pred_option currency_code (inv_tax_currency i) \<and>
     aware (inv_ingested_at i) \<and> pred_option aware (inv_created_at i) \<and> pred_option aware (inv_updated_at i) \<and>
     list_all nonnegative [inv_document_subtotal i, inv_document_discount_amount i,
       inv_document_charge_amount i, inv_document_tax_amount i, inv_document_total_amount i,
       inv_prepaid_amount i, inv_paid_amount i, inv_amount_due i] \<and>
     pred_option positive (inv_exchange_rate i) \<and>
     inv_lines i \<noteq> [] \<and> distinct (map ln_line_id (inv_lines i)) \<and>
     dec_val (inv_document_subtotal i) = dec_val (dec_sum (map ln_line_net_amount (inv_lines i))) \<and>
     dec_val (inv_document_tax_amount i) = dec_val (dec_sum (map ln_tax_amount (inv_lines i))) \<and>
     dec_val (inv_document_total_amount i) =
       dec_val (dec_add (dec_add (dec_sub (inv_document_subtotal i) (inv_document_discount_amount i))
         (inv_document_charge_amount i)) (inv_document_tax_amount i)) \<and>
     dec_val (inv_amount_due i) =
       dec_val (dec_sub (dec_sub (inv_document_total_amount i) (inv_prepaid_amount i)) (inv_paid_amount i))"

lemma card_distinct_map: "card (set (map f xs)) = length xs \<longleftrightarrow> distinct (map f xs)"
  by (metis card_distinct distinct_card length_map)

lemma invoice_post_init_valid: "invoice_post_init i = Inr t \<Longrightarrow> valid_invoice t"
  unfolding invoice_post_init_def Let_def card_distinct_map
  by (auto simp: outcome_simps valid_invoice_def map_erp_invoice_def normal_text_strip
      pred_option_iff nonneg_positive dec_eq_iff)

lemma invoice_post_init_fixed:
  "valid_invoice t \<Longrightarrow> invoice_post_init (map_erp_invoice Finite t) = Inr t"
  unfolding invoice_post_init_def valid_invoice_def Let_def card_distinct_map
  by (cases t) (simp add: map_erp_invoice_def dec_eq_iff)

text \<open>
  The bank transactions the constructor can return are exactly the valid ones: every
  accepted record has stripped non-empty identifying text, a three-letter currency, a
  positive finite amount, aware instants and a target for a reversal; and no valid record is
  refused or altered.
\<close>

theorem bank_constructible: "(\<exists>b. bank_post_init b = Inr t) \<longleftrightarrow> valid_bank t"
  using bank_post_init_valid bank_post_init_fixed by blast


text \<open>
  The invoices the constructor can return are exactly the valid ones; in particular the
  lines have distinct identifiers, subtotal and tax are the sums over the lines, and total and
  amount due follow from them.
\<close>

theorem invoice_constructible: "(\<exists>i. invoice_post_init i = Inr t) \<longleftrightarrow> valid_invoice t"
  using invoice_post_init_valid invoice_post_init_fixed by blast

end
