(* ===== verification/Engine.thy ===== *)
theory Engine
  imports Domain_Models
begin

text \<open>
  The reconciliation engine of \<open>reconciliation/\<close>: its configuration, its results, and
  the eight rules of \<open>ReconciliationEngine.reconcile\<close> as passes over a state that holds
  the three sets of consumed identifiers and the results so far.  Every result is built by
  \<^verbatim>\<open>add\<close>, which runs the validation of \<open>ReconciliationResult\<close>, so a pass is a loop whose body
  may raise.  The second half proves what the reader of a report relies on: the run raises
  only on duplicate identifiers, accounts for every input once, and each result states a
  fact of the inputs.
\<close>

section \<open>Configuration and results\<close>

type_synonym bank = "decimal bank_transaction"
type_synonym invoice = "decimal erp_invoice"
type_synonym gateway = "decimal gateway_entry"

record config =
  amount_tolerance :: decimal
  date_tolerance_days :: int
  maximum_group_size :: int

definition config_post_init :: "config \<Rightarrow> config outcome" where
  "config_post_init c =
     (if amount_tolerance c < dec_zero then Inl (ValueError ''amount_tolerance cannot be negative'')
      else if date_tolerance_days c < 0
      then Inl (ValueError ''date_tolerance_days must be a non-negative integer'')
      else if \<not> (2 \<le> maximum_group_size c \<and> maximum_group_size c \<le> 10)
      then Inl (ValueError ''maximum_group_size must be between 2 and 10'')
      else Inr c)"

definition default_config :: config where
  "default_config = \<lparr> amount_tolerance = Dec 100 (- 2), date_tolerance_days = 14, maximum_group_size = 5 \<rparr>"

record reconciliation_result =
  res_result_id :: string
  res_status :: reconciliation_status
  res_rule :: string
  res_bank_ids :: "string list"
  res_invoice_ids :: "string list"
  res_gateway_ids :: "string list"
  res_expected_amount :: "decimal option"
  res_actual_amount :: "decimal option"
  res_amount_difference :: "decimal option"
  res_currency :: "string option"
  res_explanation :: string
  res_requires_review :: bool

definition result_post_init :: "reconciliation_result \<Rightarrow> reconciliation_result outcome" where
  "result_post_init r =
     and_then (guard_else (\<not> (strip (res_result_id r) = [] \<or> strip (res_rule r) = []
         \<or> strip (res_explanation r) = []))
       (ValueError ''result_id, rule, and explanation cannot be blank'')) (\<lambda>_.
     and_then (guard_else (\<not> (case res_amount_difference r of Some d \<Rightarrow> d < dec_zero | None \<Rightarrow> False))
       (ValueError ''amount_difference cannot be negative'')) (\<lambda>_. Inr r))"

section \<open>Matching predicates\<close>

definition references :: "bank \<Rightarrow> string list" where
  "references b =
     map casefold (filter (\<lambda>v. v \<noteq> [])
       (concat (map (\<lambda>v. case v of Some t \<Rightarrow> [t] | None \<Rightarrow> [])
         [bank_invoice_reference b, bank_customer_reference b, bank_end_to_end_id b,
          bank_remittance_information b, Some (bank_description b)])))"

definition mentions :: "bank \<Rightarrow> invoice \<Rightarrow> bool" where
  "mentions b i =
     (let needles = [casefold (inv_invoice_id i), casefold (inv_invoice_number i)] @
        (case inv_payment_reference i of Some p \<Rightarrow> if p \<noteq> [] then [casefold p] else [] | None \<Rightarrow> [])
      in list_ex (\<lambda>needle. list_ex (\<lambda>reference. occurs_in needle reference) (references b)) needles)"

definition eligible :: "bank \<Rightarrow> bool" where
  "eligible b \<longleftrightarrow> bank_status b = BOOKED \<and> bank_credit_debit_indicator b = CREDIT \<and> \<not> bank_is_reversal b"

definition within_days :: "bank \<Rightarrow> invoice \<Rightarrow> int \<Rightarrow> bool" where
  "within_days b i n =
     (let comparison_date = (case inv_due_date i of Some d \<Rightarrow> d | None \<Rightarrow> inv_issue_date i)
      in \<bar>bank_booking_date b - comparison_date\<bar> \<le> n)"

text \<open>\<open>entry.invoice_reference in {invoice_id, invoice_number, payment_reference}\<close>; the set may hold \<open>None\<close>.\<close>

definition gateway_names :: "gateway \<Rightarrow> invoice \<Rightarrow> bool" where
  "gateway_names g i \<longleftrightarrow>
     gw_invoice_reference g \<in> {Some (inv_invoice_id i), Some (inv_invoice_number i), inv_payment_reference i}"

section \<open>State of a run\<close>

record engine_state =
  used_banks :: "string set"
  used_invoices :: "string set"
  used_gateways :: "string set"
  results :: "reconciliation_result list"

definition initial_state :: engine_state where
  "initial_state = \<lparr> used_banks = {}, used_invoices = {}, used_gateways = {}, results = [] \<rparr>"

definition result_id :: "nat \<Rightarrow> string" where
  "result_id n = ''RESULT-'' @ zero_pad4 n"

definition add_result :: "(string \<Rightarrow> reconciliation_result) \<Rightarrow> engine_state \<Rightarrow> engine_state outcome" where
  "add_result values s =
     and_then (result_post_init (values (result_id (length (results s) + 1)))) (\<lambda>r.
       Inr (s \<lparr> results := results s @ [r] \<rparr>))"

abbreviation bank_ids :: "bank list \<Rightarrow> string list" where
  "bank_ids bs \<equiv> map bank_source_record_id bs"

abbreviation invoice_ids :: "invoice list \<Rightarrow> string list" where
  "invoice_ids is \<equiv> map inv_invoice_id is"

abbreviation gateway_ids :: "gateway list \<Rightarrow> string list" where
  "gateway_ids gs \<equiv> map gw_source_record_id gs"

definition use :: "string list \<Rightarrow> string list \<Rightarrow> string list \<Rightarrow> engine_state \<Rightarrow> engine_state" where
  "use bs is gs s =
     s \<lparr> used_banks := used_banks s \<union> set bs, used_invoices := used_invoices s \<union> set is,
         used_gateways := used_gateways s \<union> set gs \<rparr>"

section \<open>The rules\<close>

text \<open>Rule 1: duplicates are quarantined before any payment can be consumed.\<close>

type_synonym fingerprint = "string \<times> string option \<times> date \<times> string \<times> decimal"

definition fingerprint :: "bank \<Rightarrow> fingerprint" where
  "fingerprint b = (bank_transaction_id b, bank_bank_reference b, bank_booking_date b, bank_currency b,
     bank_amount b)"

fun same_fingerprint :: "fingerprint \<Rightarrow> fingerprint \<Rightarrow> bool" where
  "same_fingerprint (t, r, d, c, a) (t', r', d', c', a') \<longleftrightarrow>
     t = t' \<and> r = r' \<and> d = d' \<and> c = c' \<and> dec_eq a a'"

definition duplicate_groups :: "bank list \<Rightarrow> bank list list" where
  "duplicate_groups banks =
     sort_key (\<lambda>members. bank_source_record_id (hd members))
       (map snd (group_rows same_fingerprint fingerprint banks))"

definition duplicate_step ::
  "config \<Rightarrow> invoice list \<Rightarrow> bank list \<Rightarrow> engine_state \<Rightarrow> engine_state outcome" where
  "duplicate_step cfg erp members s =
     (if length members < 2 then Inr s
      else let linked = filter (\<lambda>i. inv_invoice_id i \<notin> used_invoices s \<and>
               list_ex (\<lambda>b. mentions b i \<and> within_days b i (date_tolerance_days cfg)) members) erp
        in add_result (\<lambda>rid.
             \<lparr> res_result_id = rid, res_status = DUPLICATE, res_rule = ''DUPLICATE_BANK_FINGERPRINT'',
               res_bank_ids = bank_ids members, res_invoice_ids = invoice_ids linked, res_gateway_ids = [],
               res_expected_amount = Some (bank_amount (hd members)),
               res_actual_amount = Some (bank_amount (hd members)),
               res_amount_difference = Some dec_zero, res_currency = Some (bank_currency (hd members)),
               res_explanation = ''Bank entries share the same transaction ID, bank reference, booking date, currency, and amount.'',
               res_requires_review = True \<rparr>)
           (use (bank_ids members) (invoice_ids linked) [] s))"

text \<open>Rule 2: exact invoice-to-bank matches.\<close>

definition referenced :: "config \<Rightarrow> engine_state \<Rightarrow> bank \<Rightarrow> invoice \<Rightarrow> bool" where
  "referenced cfg s b i \<longleftrightarrow>
     bank_source_record_id b \<notin> used_banks s \<and> eligible b \<and> bank_currency b = inv_currency i \<and>
     mentions b i \<and> within_days b i (date_tolerance_days cfg)"

definition exact_step ::
  "config \<Rightarrow> bank list \<Rightarrow> invoice \<Rightarrow> engine_state \<Rightarrow> engine_state outcome" where
  "exact_step cfg banks i s =
     (if inv_invoice_id i \<in> used_invoices s then Inr s
      else case filter (\<lambda>b. referenced cfg s b i \<and> dec_eq (bank_amount b) (inv_amount_due i)) banks of
        [b] \<Rightarrow> add_result (\<lambda>rid.
             \<lparr> res_result_id = rid, res_status = EXACT_MATCH, res_rule = ''EXACT_REFERENCE_AMOUNT_CURRENCY'',
               res_bank_ids = [bank_source_record_id b], res_invoice_ids = [inv_invoice_id i],
               res_gateway_ids = [], res_expected_amount = Some (inv_amount_due i),
               res_actual_amount = Some (bank_amount b), res_amount_difference = Some dec_zero,
               res_currency = Some (inv_currency i),
               res_explanation = ''Invoice reference, currency, and amount match exactly.'',
               res_requires_review = False \<rparr>)
           (use [bank_source_record_id b] [inv_invoice_id i] [] s)
      | _ \<Rightarrow> Inr s)"

text \<open>Rule 3: gateway net payouts match bank deposits while gross links the invoice.\<close>

definition settlement_groups :: "engine_state \<Rightarrow> gateway list \<Rightarrow> gateway list list" where
  "settlement_groups s gateways =
     map snd (sort_key fst
       (group_rows (=) gw_settlement_id (filter (\<lambda>g. gw_source_record_id g \<notin> used_gateways s) gateways)))"

definition pays_out :: "config \<Rightarrow> bank \<Rightarrow> gateway \<Rightarrow> bool" where
  "pays_out cfg b g \<longleftrightarrow>
     (case gw_bank_reference g of None \<Rightarrow> False | Some r \<Rightarrow> r \<noteq> [] \<and> bank_bank_reference b = Some r) \<and>
     \<bar>bank_booking_date b - gw_settlement_date g\<bar> \<le> date_tolerance_days cfg"

definition settlement_step ::
  "config \<Rightarrow> bank list \<Rightarrow> invoice list \<Rightarrow> gateway list \<Rightarrow> engine_state \<Rightarrow> engine_state outcome" where
  "settlement_step cfg banks erp members s =
     (let net = dec_sum (map gw_net_amount members);
          gross = dec_sum (map gw_gross_amount members);
          currency = gw_settlement_currency (hd members)
      in case filter (\<lambda>b. bank_source_record_id b \<notin> used_banks s \<and> eligible b \<and> bank_currency b = currency \<and>
               dec_eq (bank_amount b) net \<and> list_ex (pays_out cfg b) members) banks of
        [b] \<Rightarrow>
          let linked = filter (\<lambda>i. inv_invoice_id i \<notin> used_invoices s \<and>
                inv_currency i = gw_currency (hd members) \<and> dec_eq (inv_amount_due i) gross \<and>
                list_ex (\<lambda>g. gateway_names g i) members) erp;
              fees = dec_sub gross net
          in add_result (\<lambda>rid.
               \<lparr> res_result_id = rid, res_status = SETTLEMENT_MATCH, res_rule = ''GATEWAY_NET_TO_BANK'',
                 res_bank_ids = [bank_source_record_id b], res_invoice_ids = invoice_ids linked,
                 res_gateway_ids = gateway_ids members, res_expected_amount = Some net,
                 res_actual_amount = Some (bank_amount b),
                 res_amount_difference = Some (dec_abs (dec_sub (bank_amount b) net)),
                 res_currency = Some currency,
                 res_explanation = ''Gateway gross amount '' @ dec_str gross @
                   '' less fees/refunds/adjustments of '' @ dec_str fees @
                   '' equals bank payout '' @ dec_str net @ ''.'',
                 res_requires_review = False \<rparr>)
             (use [bank_source_record_id b] (invoice_ids linked) (gateway_ids members) s)
      | _ \<Rightarrow> Inr s)"

text \<open>Rule 4: referenced payments inside the configured tolerance.\<close>

definition amount_gap :: "bank \<Rightarrow> invoice \<Rightarrow> decimal" where
  "amount_gap b i = dec_abs (dec_sub (bank_amount b) (inv_amount_due i))"

definition tolerance_step ::
  "config \<Rightarrow> bank list \<Rightarrow> invoice \<Rightarrow> engine_state \<Rightarrow> engine_state outcome" where
  "tolerance_step cfg banks i s =
     (if inv_invoice_id i \<in> used_invoices s then Inr s
      else case filter (\<lambda>b. referenced cfg s b i \<and> dec_zero < amount_gap b i \<and>
               amount_gap b i \<le> amount_tolerance cfg) banks of
        [b] \<Rightarrow> add_result (\<lambda>rid.
             \<lparr> res_result_id = rid, res_status = TOLERANCE_MATCH, res_rule = ''REFERENCE_AMOUNT_TOLERANCE'',
               res_bank_ids = [bank_source_record_id b], res_invoice_ids = [inv_invoice_id i],
               res_gateway_ids = [], res_expected_amount = Some (inv_amount_due i),
               res_actual_amount = Some (bank_amount b), res_amount_difference = Some (amount_gap b i),
               res_currency = Some (inv_currency i),
               res_explanation = ''Reference and currency match; amount difference '' @
                 dec_str (amount_gap b i) @ '' is within tolerance '' @
                 dec_str (amount_tolerance cfg) @ ''.'',
               res_requires_review = False \<rparr>)
           (use [bank_source_record_id b] [inv_invoice_id i] [] s)
      | _ \<Rightarrow> Inr s)"

text \<open>
  The search of rules 5 and 6: the first size from two up to the configured maximum at
  which exactly one selection adds up to the target.
\<close>

fun first_unique :: "('a list \<Rightarrow> bool) \<Rightarrow> 'a list \<Rightarrow> nat list \<Rightarrow> 'a list" where
  "first_unique good xs [] = []"
| "first_unique good xs (n # ns) =
     (case filter good (combinations xs n) of [members] \<Rightarrow> members | _ \<Rightarrow> first_unique good xs ns)"

definition group_sizes :: "config \<Rightarrow> nat \<Rightarrow> nat list" where
  "group_sizes cfg n = [2 ..< nat (min (int n) (maximum_group_size cfg)) + 1]"

definition matching_combination :: "config \<Rightarrow> invoice list \<Rightarrow> decimal \<Rightarrow> invoice list" where
  "matching_combination cfg is target =
     first_unique (\<lambda>members. dec_eq (dec_sum (map inv_amount_due members)) target) is
       (group_sizes cfg (length is))"

definition matching_bank_combination :: "config \<Rightarrow> bank list \<Rightarrow> decimal \<Rightarrow> bank list" where
  "matching_bank_combination cfg banks target =
     first_unique (\<lambda>members. dec_eq (dec_sum (map bank_amount members)) target) banks
       (group_sizes cfg (length banks))"

text \<open>Rule 5: multiple explicitly referenced invoices paid by one bank entry.\<close>

definition many_to_one_step ::
  "config \<Rightarrow> invoice list \<Rightarrow> bank \<Rightarrow> engine_state \<Rightarrow> engine_state outcome" where
  "many_to_one_step cfg erp b s =
     (if bank_source_record_id b \<in> used_banks s \<or> \<not> eligible b then Inr s
      else let candidates = filter (\<lambda>i. inv_invoice_id i \<notin> used_invoices s \<and>
                 inv_currency i = bank_currency b \<and> mentions b i \<and>
                 within_days b i (date_tolerance_days cfg)) erp;
               chosen = matching_combination cfg candidates (bank_amount b)
        in if chosen = [] then Inr s
           else add_result (\<lambda>rid.
             \<lparr> res_result_id = rid, res_status = MANY_TO_ONE_MATCH, res_rule = ''MULTIPLE_INVOICES_TO_BANK'',
               res_bank_ids = [bank_source_record_id b], res_invoice_ids = invoice_ids chosen,
               res_gateway_ids = [],
               res_expected_amount = Some (dec_sum (map inv_amount_due chosen)),
               res_actual_amount = Some (bank_amount b), res_amount_difference = Some dec_zero,
               res_currency = Some (bank_currency b),
               res_explanation = ''Multiple referenced invoices total the single bank payment exactly.'',
               res_requires_review = False \<rparr>)
           (use [bank_source_record_id b] (invoice_ids chosen) [] s))"

text \<open>Rule 6: one invoice paid by multiple explicitly referenced bank entries.\<close>

definition one_to_many_step ::
  "config \<Rightarrow> bank list \<Rightarrow> invoice \<Rightarrow> engine_state \<Rightarrow> engine_state outcome" where
  "one_to_many_step cfg banks i s =
     (if inv_invoice_id i \<in> used_invoices s then Inr s
      else let candidates = filter (\<lambda>b. referenced cfg s b i) banks;
               chosen = matching_bank_combination cfg candidates (inv_amount_due i)
        in if chosen = [] then Inr s
           else add_result (\<lambda>rid.
             \<lparr> res_result_id = rid, res_status = ONE_TO_MANY_MATCH,
               res_rule = ''INVOICE_TO_MULTIPLE_BANK_PAYMENTS'',
               res_bank_ids = bank_ids chosen, res_invoice_ids = [inv_invoice_id i],
               res_gateway_ids = [], res_expected_amount = Some (inv_amount_due i),
               res_actual_amount = Some (dec_sum (map bank_amount chosen)),
               res_amount_difference = Some dec_zero, res_currency = Some (inv_currency i),
               res_explanation = ''Multiple referenced bank payments total the invoice amount exactly.'',
               res_requires_review = False \<rparr>)
           (use (bank_ids chosen) [inv_invoice_id i] [] s))"

text \<open>Rule 7: gateway funds without a booked bank payout require review.\<close>

definition awaiting_step ::
  "invoice list \<Rightarrow> gateway list \<Rightarrow> engine_state \<Rightarrow> engine_state outcome" where
  "awaiting_step erp members s =
     (let remaining = filter (\<lambda>g. gw_source_record_id g \<notin> used_gateways s) members
      in if remaining = [] then Inr s
         else let linked = filter (\<lambda>i. inv_invoice_id i \<notin> used_invoices s \<and>
                    list_ex (\<lambda>g. gateway_names g i) remaining) erp
           in add_result (\<lambda>rid.
             \<lparr> res_result_id = rid, res_status = REQUIRES_REVIEW,
               res_rule = ''GATEWAY_AWAITING_BANK_SETTLEMENT'', res_bank_ids = [],
               res_invoice_ids = invoice_ids linked, res_gateway_ids = gateway_ids remaining,
               res_expected_amount = Some (dec_sum (map gw_net_amount remaining)),
               res_actual_amount = None, res_amount_difference = None,
               res_currency = Some (gw_settlement_currency (hd remaining)),
               res_explanation = ''Gateway funds are available or paid, but no corresponding booked bank payout was found.'',
               res_requires_review = True \<rparr>)
           (use [] (invoice_ids linked) (gateway_ids remaining) s))"

text \<open>Rule 8: anything left remains visible rather than silently disappearing.\<close>

definition unmatched_bank_step :: "bank \<Rightarrow> engine_state \<Rightarrow> engine_state outcome" where
  "unmatched_bank_step b s =
     (if bank_source_record_id b \<in> used_banks s then Inr s
      else add_result (\<lambda>rid.
        \<lparr> res_result_id = rid, res_status = REQUIRES_REVIEW, res_rule = ''UNMATCHED_BANK_TRANSACTION'',
          res_bank_ids = [bank_source_record_id b], res_invoice_ids = [], res_gateway_ids = [],
          res_expected_amount = None, res_actual_amount = Some (bank_amount b),
          res_amount_difference = None, res_currency = Some (bank_currency b),
          res_explanation = ''No eligible invoice or gateway settlement matched this bank transaction.'',
          res_requires_review = True \<rparr>) s)"

definition unmatched_invoice_step :: "invoice \<Rightarrow> engine_state \<Rightarrow> engine_state outcome" where
  "unmatched_invoice_step i s =
     (if inv_invoice_id i \<in> used_invoices s then Inr s
      else add_result (\<lambda>rid.
        \<lparr> res_result_id = rid, res_status = REQUIRES_REVIEW, res_rule = ''UNMATCHED_ERP_INVOICE'',
          res_bank_ids = [], res_invoice_ids = [inv_invoice_id i], res_gateway_ids = [],
          res_expected_amount = Some (inv_amount_due i), res_actual_amount = None,
          res_amount_difference = None, res_currency = Some (inv_currency i),
          res_explanation = ''No eligible bank payment or gateway settlement matched this invoice.'',
          res_requires_review = True \<rparr>) s)"

section \<open>The run\<close>

definition unique_ids :: "string \<Rightarrow> string list \<Rightarrow> unit outcome" where
  "unique_ids label identifiers =
     guard_else (length identifiers = card (set identifiers))
       (ValueError (label @ '' input contains duplicate canonical source IDs''))"

definition validate_unique_source_ids ::
  "bank list \<Rightarrow> invoice list \<Rightarrow> gateway list \<Rightarrow> unit outcome" where
  "validate_unique_source_ids banks erp gateways =
     and_then (unique_ids ''bank'' (bank_ids banks)) (\<lambda>_.
     and_then (unique_ids ''invoice'' (invoice_ids erp)) (\<lambda>_.
     unique_ids ''gateway'' (gateway_ids gateways)))"

definition sorted_banks :: "bank list \<Rightarrow> bank list" where
  "sorted_banks = sort_key (\<lambda>b. (bank_booking_date b, bank_source_record_id b))"

definition sorted_invoices :: "invoice list \<Rightarrow> invoice list" where
  "sorted_invoices = sort_key (\<lambda>i. (inv_issue_date i, inv_invoice_id i))"

definition sorted_gateways :: "gateway list \<Rightarrow> gateway list" where
  "sorted_gateways = sort_key (\<lambda>g. (gw_settlement_date g, gw_source_record_id g))"

definition apply_rules ::
  "config \<Rightarrow> bank list \<Rightarrow> invoice list \<Rightarrow> gateway list \<Rightarrow> engine_state \<Rightarrow> engine_state outcome" where
  "apply_rules cfg banks erp gateways s0 =
     and_then (fold_err (duplicate_step cfg erp) (duplicate_groups banks) s0) (\<lambda>s1.
     and_then (fold_err (exact_step cfg banks) erp s1) (\<lambda>s2.
     let groups = settlement_groups s2 gateways in
     and_then (fold_err (settlement_step cfg banks erp) groups s2) (\<lambda>s3.
     and_then (fold_err (tolerance_step cfg banks) erp s3) (\<lambda>s4.
     and_then (fold_err (many_to_one_step cfg erp) banks s4) (\<lambda>s5.
     and_then (fold_err (one_to_many_step cfg banks) erp s5) (\<lambda>s6.
     fold_err (awaiting_step erp) groups s6))))))"

definition report_unmatched ::
  "bank list \<Rightarrow> invoice list \<Rightarrow> engine_state \<Rightarrow> engine_state outcome" where
  "report_unmatched banks erp s =
     and_then (fold_err unmatched_bank_step banks s) (fold_err unmatched_invoice_step erp)"

definition reconcile ::
  "config \<Rightarrow> bank list \<Rightarrow> invoice list \<Rightarrow> gateway list \<Rightarrow> reconciliation_result list outcome" where
  "reconcile cfg bank_transactions invoices gateway_entries =
     (let banks = sorted_banks bank_transactions;
          erp = sorted_invoices invoices;
          gateways = sorted_gateways gateway_entries
      in and_then (validate_unique_source_ids banks erp gateways) (\<lambda>_.
         and_then (apply_rules cfg banks erp gateways initial_state) (\<lambda>s.
         and_then (report_unmatched banks erp s) (\<lambda>t. Inr (results t)))))"

section \<open>What a result states\<close>

text \<open>
  The facts of the inputs that a result of each status stands for.  Amounts are compared
  as numbers; sums are those the code computes.
\<close>

definition linked_pair :: "config \<Rightarrow> bank \<Rightarrow> invoice \<Rightarrow> bool" where
  "linked_pair cfg b i \<longleftrightarrow>
     eligible b \<and> bank_currency b = inv_currency i \<and> mentions b i \<and>
     within_days b i (date_tolerance_days cfg)"

definition names_only ::
  "reconciliation_result \<Rightarrow> bank list \<Rightarrow> invoice list \<Rightarrow> gateway list \<Rightarrow> bool" where
  "names_only r bs is gs \<longleftrightarrow>
     res_bank_ids r = bank_ids bs \<and> res_invoice_ids r = invoice_ids is \<and> res_gateway_ids r = gateway_ids gs"

definition sound_exact where
  "sound_exact cfg banks erp r \<longleftrightarrow>
     (\<exists>b \<in> set banks. \<exists>i \<in> set erp. names_only r [b] [i] [] \<and> linked_pair cfg b i \<and>
        dec_val (bank_amount b) = dec_val (inv_amount_due i))"

definition sound_tolerance where
  "sound_tolerance cfg banks erp r \<longleftrightarrow>
     (\<exists>b \<in> set banks. \<exists>i \<in> set erp. names_only r [b] [i] [] \<and> linked_pair cfg b i \<and>
        dec_val (bank_amount b) \<noteq> dec_val (inv_amount_due i) \<and>
        res_amount_difference r = Some (amount_gap b i) \<and>
        dec_val (amount_gap b i) \<le> dec_val (amount_tolerance cfg))"

definition sound_settlement where
  "sound_settlement cfg banks erp gateways r \<longleftrightarrow>
     (\<exists>b \<in> set banks. \<exists>is. \<exists>g \<in> set gateways.
        let whole = filter (\<lambda>h. gw_settlement_id h = gw_settlement_id g) gateways in
        names_only r [b] is whole \<and> eligible b \<and>
        bank_currency b = gw_settlement_currency (hd whole) \<and>
        dec_val (bank_amount b) = dec_val (dec_sum (map gw_net_amount whole)) \<and>
        (\<exists>h \<in> set whole. pays_out cfg b h) \<and>
        (\<forall>i \<in> set is. i \<in> set erp \<and> inv_currency i = gw_currency (hd whole) \<and>
           dec_val (inv_amount_due i) = dec_val (dec_sum (map gw_gross_amount whole)) \<and>
           (\<exists>h \<in> set whole. gateway_names h i)))"

definition group_size_ok :: "config \<Rightarrow> 'a list \<Rightarrow> bool" where
  "group_size_ok cfg xs \<longleftrightarrow> 2 \<le> length xs \<and> int (length xs) \<le> maximum_group_size cfg"

definition sound_many_to_one where
  "sound_many_to_one cfg banks erp r \<longleftrightarrow>
     (\<exists>b \<in> set banks. \<exists>is. set is \<subseteq> set erp \<and> group_size_ok cfg is \<and> names_only r [b] is [] \<and>
        (\<forall>i \<in> set is. linked_pair cfg b i) \<and>
        dec_val (dec_sum (map inv_amount_due is)) = dec_val (bank_amount b))"

definition sound_one_to_many where
  "sound_one_to_many cfg banks erp r \<longleftrightarrow>
     (\<exists>i \<in> set erp. \<exists>bs. set bs \<subseteq> set banks \<and> group_size_ok cfg bs \<and> names_only r bs [i] [] \<and>
        (\<forall>b \<in> set bs. linked_pair cfg b i) \<and>
        dec_val (dec_sum (map bank_amount bs)) = dec_val (inv_amount_due i))"

definition sound_duplicate where
  "sound_duplicate cfg banks erp r \<longleftrightarrow>
     (\<exists>b \<in> set banks. \<exists>is.
        let same = filter (\<lambda>b'. same_fingerprint (fingerprint b') (fingerprint b)) banks in
        names_only r same is [] \<and> 2 \<le> length same \<and>
        (\<forall>i \<in> set is. i \<in> set erp \<and>
           (\<exists>b' \<in> set same. mentions b' i \<and> within_days b' i (date_tolerance_days cfg))))"

definition sound_review where
  "sound_review banks erp gateways r \<longleftrightarrow>
     (\<exists>gs is. gs \<noteq> [] \<and> set gs \<subseteq> set gateways \<and> set is \<subseteq> set erp \<and> names_only r [] is gs) \<or>
     (\<exists>b \<in> set banks. names_only r [b] [] []) \<or>
     (\<exists>i \<in> set erp. names_only r [] [i] [])"

definition sound_result ::
  "config \<Rightarrow> bank list \<Rightarrow> invoice list \<Rightarrow> gateway list \<Rightarrow> reconciliation_result \<Rightarrow> bool" where
  "sound_result cfg banks erp gateways r \<longleftrightarrow>
     (res_requires_review r \<longleftrightarrow> res_status r \<in> {DUPLICATE, REQUIRES_REVIEW}) \<and>
     (case res_status r of
        EXACT_MATCH \<Rightarrow> sound_exact cfg banks erp r
      | SETTLEMENT_MATCH \<Rightarrow> sound_settlement cfg banks erp gateways r
      | TOLERANCE_MATCH \<Rightarrow> sound_tolerance cfg banks erp r
      | MANY_TO_ONE_MATCH \<Rightarrow> sound_many_to_one cfg banks erp r
      | ONE_TO_MANY_MATCH \<Rightarrow> sound_one_to_many cfg banks erp r
      | DUPLICATE \<Rightarrow> sound_duplicate cfg banks erp r
      | REQUIRES_REVIEW \<Rightarrow> sound_review banks erp gateways r)"

section \<open>Passes as sequences of postings\<close>

definition fresh_ids :: "string list \<Rightarrow> string set \<Rightarrow> bool" where
  "fresh_ids xs used \<longleftrightarrow> distinct xs \<and> set xs \<inter> used = {}"

definition posts ::
  "(reconciliation_result \<Rightarrow> bool) \<Rightarrow> engine_state \<Rightarrow> engine_state \<Rightarrow> bool" where
  "posts P s t \<longleftrightarrow>
     (\<exists>r. P r \<and> res_result_id r = result_id (length (results s) + 1) \<and>
        fresh_ids (res_bank_ids r) (used_banks s) \<and> fresh_ids (res_invoice_ids r) (used_invoices s) \<and>
        fresh_ids (res_gateway_ids r) (used_gateways s) \<and>
        t = (use (res_bank_ids r) (res_invoice_ids r) (res_gateway_ids r) s) \<lparr> results := results s @ [r] \<rparr>)"

inductive posted ::
  "(reconciliation_result \<Rightarrow> bool) \<Rightarrow> engine_state \<Rightarrow> engine_state \<Rightarrow> bool" for P where
  posted_refl: "posted P s s"
| posted_step: "posted P s t \<Longrightarrow> posts P t u \<Longrightarrow> posted P s u"

lemma posts_mono: "posts P s t \<Longrightarrow> (\<And>r. P r \<Longrightarrow> Q r) \<Longrightarrow> posts Q s t"
  by (auto simp: posts_def)

lemma posted_mono: "posted P s t \<Longrightarrow> (\<And>r. P r \<Longrightarrow> Q r) \<Longrightarrow> posted Q s t"
  by (induction rule: posted.induct) (auto intro: posted.intros posts_mono)

lemma posted_trans: "posted P t u \<Longrightarrow> posted P s t \<Longrightarrow> posted P s u"
  by (induction rule: posted.induct) (auto intro: posted.intros)

lemma posted_single: "posts P s t \<Longrightarrow> posted P s t"
  using posted_step [OF posted_refl] .

definition balanced :: "engine_state \<Rightarrow> bool" where
  "balanced s \<longleftrightarrow>
     (let ids = (\<lambda>f. concat (map f (results s))) in
      distinct (ids res_bank_ids) \<and> set (ids res_bank_ids) = used_banks s \<and>
      distinct (ids res_invoice_ids) \<and> set (ids res_invoice_ids) = used_invoices s \<and>
      distinct (ids res_gateway_ids) \<and> set (ids res_gateway_ids) = used_gateways s \<and>
      map res_result_id (results s) = map result_id [1 ..< length (results s) + 1])"

lemma balanced_initial: "balanced initial_state"
  by (simp add: balanced_def initial_state_def)

lemma concat_snoc_fresh:
  "distinct (concat xss) \<Longrightarrow> set (concat xss) = used \<Longrightarrow> fresh_ids ys used \<Longrightarrow>
   distinct (concat (xss @ [ys])) \<and> set (concat (xss @ [ys])) = used \<union> set ys"
  by (simp add: fresh_ids_def Int_commute del: set_concat)

lemma posts_balanced:
  assumes "posts P s t" and "balanced s"
  shows "balanced t"
proof -
  obtain r where r: "res_result_id r = result_id (length (results s) + 1)"
    "fresh_ids (res_bank_ids r) (used_banks s)" "fresh_ids (res_invoice_ids r) (used_invoices s)"
    "fresh_ids (res_gateway_ids r) (used_gateways s)"
    and t: "t = (use (res_bank_ids r) (res_invoice_ids r) (res_gateway_ids r) s) \<lparr> results := results s @ [r] \<rparr>"
    using assms(1) by (auto simp: posts_def)
  have ids: "map f (results t) = map f (results s) @ [f r]" for f :: "reconciliation_result \<Rightarrow> 'b"
    by (simp add: t)
  have s: "distinct (concat (map res_bank_ids (results s)))" "set (concat (map res_bank_ids (results s))) = used_banks s"
    "distinct (concat (map res_invoice_ids (results s)))" "set (concat (map res_invoice_ids (results s))) = used_invoices s"
    "distinct (concat (map res_gateway_ids (results s)))" "set (concat (map res_gateway_ids (results s))) = used_gateways s"
    "map res_result_id (results s) = map result_id [1 ..< length (results s) + 1]"
    using assms(2) unfolding balanced_def Let_def by blast+
  have "map res_result_id (results t) = map result_id [1 ..< length (results t) + 1]"
    unfolding ids by (simp add: s(7) r(1) t)
  with concat_snoc_fresh [OF s(1,2) r(2)] concat_snoc_fresh [OF s(3,4) r(3)] concat_snoc_fresh [OF s(5,6) r(4)]
  show ?thesis unfolding balanced_def Let_def ids by (simp only: t use_def) simp
qed
lemma posted_balanced: "posted P s t \<Longrightarrow> balanced s \<Longrightarrow> balanced t"
  by (induction rule: posted.induct) (auto intro: posts_balanced)

lemma posted_all: "posted P s t \<Longrightarrow> list_all P (results s) \<Longrightarrow> list_all P (results t)"
  by (induction rule: posted.induct) (auto simp: posts_def)

lemma posted_grows:
  "posted P s t \<Longrightarrow>
     used_banks s \<subseteq> used_banks t \<and> used_invoices s \<subseteq> used_invoices t \<and> used_gateways s \<subseteq> used_gateways t"
  by (induction rule: posted.induct) (auto simp: posts_def use_def)

lemma posted_results: "posted P s t \<Longrightarrow> set (results s) \<subseteq> set (results t)"
  by (induction rule: posted.induct) (auto simp: posts_def)

lemma posted_used_banks:
  "posted P s t \<Longrightarrow> x \<in> used_banks t \<Longrightarrow>
     x \<in> used_banks s \<or> (\<exists>r \<in> set (results t). P r \<and> x \<in> set (res_bank_ids r))"
  by (induction rule: posted.induct) (auto simp: posts_def use_def)

lemma posted_used_invoices:
  "posted P s t \<Longrightarrow> x \<in> used_invoices t \<Longrightarrow>
     x \<in> used_invoices s \<or> (\<exists>r \<in> set (results t). P r \<and> x \<in> set (res_invoice_ids r))"
  by (induction rule: posted.induct) (auto simp: posts_def use_def)

lemma posted_no_gateways:
  "posted P s t \<Longrightarrow> (\<And>r. P r \<Longrightarrow> res_gateway_ids r = []) \<Longrightarrow> used_gateways t = used_gateways s"
  by (induction rule: posted.induct) (auto simp: posts_def use_def)

text \<open>Validation never refuses what the rules build.\<close>

definition well_formed_result :: "reconciliation_result \<Rightarrow> bool" where
  "well_formed_result r \<longleftrightarrow>
     strip (res_result_id r) \<noteq> [] \<and> strip (res_rule r) \<noteq> [] \<and> strip (res_explanation r) \<noteq> [] \<and>
     pred_option nonnegative (res_amount_difference r)"

lemma result_post_init_ok: "result_post_init r = Inr r \<longleftrightarrow> well_formed_result r"
  by (auto simp: result_post_init_def well_formed_result_def outcome_simps nonnegative_iff dec_less_iff
      split: option.splits)

lemma result_id_nonblank [simp]: "strip (result_id n) \<noteq> []"
  by (simp add: result_id_def strip_Cons_nonblank is_space_def)

lemma nonnegative_results [simp]: "nonnegative dec_zero" "nonnegative (dec_abs d)" "nonnegative (amount_gap b i)"
  by (simp_all add: nonnegative_iff amount_gap_def dec_abs_sign)

lemma add_result_posts:
  assumes "well_formed_result (values (result_id (length (results s) + 1)))"
    and "P (values (result_id (length (results s) + 1)))"
    and "\<And>rid. res_result_id (values rid) = rid"
    and "\<And>rid. res_bank_ids (values rid) = bs" and "\<And>rid. res_invoice_ids (values rid) = is"
    and "\<And>rid. res_gateway_ids (values rid) = gs"
    and "fresh_ids bs (used_banks s)" "fresh_ids is (used_invoices s)" "fresh_ids gs (used_gateways s)"
  shows "\<exists>t. add_result values (use bs is gs s) = Inr t \<and> posts P s t"
proof -
  let ?r = "values (result_id (length (results s) + 1))"
  have "results (use bs is gs s) = results s" by (simp add: use_def)
  moreover have "result_post_init ?r = Inr ?r" using assms(1) by (simp only: result_post_init_ok)
  ultimately have "add_result values (use bs is gs s) = Inr ((use bs is gs s) \<lparr> results := results s @ [?r] \<rparr>)"
    by (simp add: add_result_def)
  moreover have "posts P s ((use bs is gs s) \<lparr> results := results s @ [?r] \<rparr>)"
    unfolding posts_def by (rule exI [of _ ?r]) (use assms in simp)
  ultimately show ?thesis by blast
qed

text \<open>
  The contract of a rule: on the items still to come it raises nothing and either leaves
  the state alone or posts one result of its kind.
\<close>

locale matching_rule =
  fixes step :: "'a \<Rightarrow> engine_state \<Rightarrow> engine_state outcome"
    and ready :: "'a list \<Rightarrow> engine_state \<Rightarrow> bool"
    and sound :: "reconciliation_result \<Rightarrow> bool"
  assumes step_law: "ready (x # xs) s \<Longrightarrow>
      \<exists>t. step x s = Inr t \<and> ready xs t \<and> (t = s \<or> posts sound s t)"
begin

lemma pass: "ready xs s \<Longrightarrow> \<exists>t. fold_err step xs s = Inr t \<and> posted sound s t"
proof (induction xs arbitrary: s)
  case Nil
  then show ?case by (auto intro: posted_refl)
next
  case (Cons x xs)
  then obtain u where u: "step x s = Inr u" "ready xs u" "u = s \<or> posts sound s u"
    using step_law by blast
  then obtain t where "fold_err step xs u = Inr t" "posted sound u t" using Cons.IH by blast
  with u show ?case by (auto intro: posted_trans posted_single posted_refl)
qed

end

section \<open>Each rule keeps the contract\<close>

lemma referenced_linked: "referenced cfg s b i \<Longrightarrow> linked_pair cfg b i \<and> bank_source_record_id b \<notin> used_banks s"
  by (simp add: referenced_def linked_pair_def)

lemma filter_singletonD: "filter P xs = [x] \<Longrightarrow> x \<in> set xs \<and> P x"
  using set_filter [of P xs] by auto

lemma fresh_ids_single [simp]: "fresh_ids [x] used \<longleftrightarrow> x \<notin> used" "fresh_ids [] used"
  by (simp_all add: fresh_ids_def)

lemma fresh_ids_filter:
  "distinct (map f xs) \<Longrightarrow> (\<And>x. P x \<Longrightarrow> f x \<notin> used) \<Longrightarrow> fresh_ids (map f (filter P xs)) used"
  by (auto simp: fresh_ids_def distinct_map_filter)

lemma fresh_ids_sub: "distinct (map f xs) \<Longrightarrow> (\<And>x. x \<in> set xs \<Longrightarrow> f x \<notin> used) \<Longrightarrow> fresh_ids (map f xs) used"
  by (auto simp: fresh_ids_def)

lemma nonblank_texts [simp]:
  "strip (CHR ''B'' # s) \<noteq> []" "strip (CHR ''D'' # s) \<noteq> []" "strip (CHR ''E'' # s) \<noteq> []"
  "strip (CHR ''G'' # s) \<noteq> []" "strip (CHR ''I'' # s) \<noteq> []" "strip (CHR ''M'' # s) \<noteq> []"
  "strip (CHR ''N'' # s) \<noteq> []" "strip (CHR ''R'' # s) \<noteq> []" "strip (CHR ''U'' # s) \<noteq> []"
  by (simp_all add: strip_Cons_nonblank is_space_def)

definition rule_sound :: "config \<Rightarrow> bank list \<Rightarrow> invoice list \<Rightarrow> gateway list \<Rightarrow> reconciliation_status \<Rightarrow>
    reconciliation_result \<Rightarrow> bool" where
  "rule_sound cfg banks erp gateways status r \<longleftrightarrow>
     res_status r = status \<and> sound_result cfg banks erp gateways r"

lemmas posting_rules = well_formed_result_def rule_sound_def sound_result_def names_only_def

definition among :: "'a list \<Rightarrow> 'a list \<Rightarrow> engine_state \<Rightarrow> bool" where
  "among universe xs s \<longleftrightarrow> set xs \<subseteq> set universe"

interpretation exact: matching_rule "exact_step cfg banks" "among erp"
    "rule_sound cfg banks erp gateways EXACT_MATCH" for cfg banks erp gateways
proof
  fix i js s
  assume "among erp (i # js) s"
  then have i: "i \<in> set erp" and rest: "among erp js t" for t by (auto simp: among_def)
  let ?c = "filter (\<lambda>b. referenced cfg s b i \<and> dec_eq (bank_amount b) (inv_amount_due i)) banks"
  show "\<exists>t. exact_step cfg banks i s = Inr t \<and> among erp js t \<and>
      (t = s \<or> posts (rule_sound cfg banks erp gateways EXACT_MATCH) s t)"
  proof (cases "inv_invoice_id i \<notin> used_invoices s \<and> (\<exists>b. ?c = [b])")
    case True
    then obtain b where c: "?c = [b]" by blast
    from filter_singletonD [OF c] have b: "b \<in> set banks" "linked_pair cfg b i"
      "bank_source_record_id b \<notin> used_banks s" "dec_val (bank_amount b) = dec_val (inv_amount_due i)"
      by (auto dest: referenced_linked simp: dec_eq_iff)
    then have "sound_exact cfg banks erp r" if "names_only r [b] [i] []" for r
      using that i by (auto simp: sound_exact_def)
    then have "\<exists>t. exact_step cfg banks i s = Inr t \<and> posts (rule_sound cfg banks erp gateways EXACT_MATCH) s t"
      using True c b unfolding exact_step_def
      by (simp only: if_False list.case) (rule add_result_posts; simp add: posting_rules)
    with rest show ?thesis by blast
  next
    case False
    then have "exact_step cfg banks i s = Inr s"
      by (auto simp: exact_step_def split: list.split)
    with rest show ?thesis by blast
  qed
qed

interpretation tolerance: matching_rule "tolerance_step cfg banks" "among erp"
    "rule_sound cfg banks erp gateways TOLERANCE_MATCH" for cfg banks erp gateways
proof
  fix i js s
  assume "among erp (i # js) s"
  then have i: "i \<in> set erp" and rest: "among erp js t" for t by (auto simp: among_def)
  let ?c = "filter (\<lambda>b. referenced cfg s b i \<and> dec_zero < amount_gap b i \<and>
               amount_gap b i \<le> amount_tolerance cfg) banks"
  show "\<exists>t. tolerance_step cfg banks i s = Inr t \<and> among erp js t \<and>
      (t = s \<or> posts (rule_sound cfg banks erp gateways TOLERANCE_MATCH) s t)"
  proof (cases "inv_invoice_id i \<notin> used_invoices s \<and> (\<exists>b. ?c = [b])")
    case True
    then obtain b where c: "?c = [b]" by blast
    from filter_singletonD [OF c] have b: "b \<in> set banks" "linked_pair cfg b i"
      "bank_source_record_id b \<notin> used_banks s" "dec_val (bank_amount b) \<noteq> dec_val (inv_amount_due i)"
      "dec_val (amount_gap b i) \<le> dec_val (amount_tolerance cfg)"
      by (auto dest: referenced_linked simp: dec_less_iff dec_le_iff amount_gap_def dec_abs_sign dec_sub_sign)
    then have "sound_tolerance cfg banks erp r"
      if "names_only r [b] [i] []" "res_amount_difference r = Some (amount_gap b i)" for r
      using that i by (auto simp: sound_tolerance_def)
    then have "\<exists>t. tolerance_step cfg banks i s = Inr t \<and> posts (rule_sound cfg banks erp gateways TOLERANCE_MATCH) s t"
      using True c b unfolding tolerance_step_def
      by (simp only: if_False list.case) (rule add_result_posts; simp add: posting_rules)
    with rest show ?thesis by blast
  next
    case False
    then have "tolerance_step cfg banks i s = Inr s"
      by (auto simp: tolerance_step_def split: list.split)
    with rest show ?thesis by blast
  qed
qed

lemma first_uniqueD:
  "first_unique good xs ns = g \<Longrightarrow> g \<noteq> [] \<Longrightarrow> \<exists>n \<in> set ns. filter good (combinations xs n) = [g]"
  by (induction good xs ns rule: first_unique.induct) (auto split: list.splits)

lemma group_sizes_iff: "n \<in> set (group_sizes cfg k) \<longleftrightarrow> 2 \<le> n \<and> n \<le> k \<and> int n \<le> maximum_group_size cfg"
  by (auto simp: group_sizes_def less_Suc_eq_le le_nat_iff)

lemma chosen_group:
  assumes "first_unique good xs (group_sizes cfg k) = g" and "g \<noteq> []"
  shows "good g" and "set g \<subseteq> set xs" and "group_size_ok cfg g" and "distinct (map f xs) \<Longrightarrow> distinct (map f g)"
proof -
  from first_uniqueD [OF assms] obtain n where n: "n \<in> set (group_sizes cfg k)"
    and g: "filter good (combinations xs n) = [g]" by blast
  from filter_singletonD [OF g] have c: "g \<in> set (combinations xs n)" and "good g" by auto
  then show "good g" by simp
  show "set g \<subseteq> set xs" by (rule combinations_subset [OF c])
  show "group_size_ok cfg g" using combinations_length [OF c] n by (simp add: group_size_ok_def group_sizes_iff)
  show "distinct (map f xs) \<Longrightarrow> distinct (map f g)" by (rule combinations_distinct_map [OF c])
qed

interpretation many_to_one: matching_rule "many_to_one_step cfg erp"
    "\<lambda>bs s. among banks bs s \<and> distinct (invoice_ids erp)"
    "rule_sound cfg banks erp gateways MANY_TO_ONE_MATCH" for cfg banks erp gateways
proof
  fix b bs s
  assume "among banks (b # bs) s \<and> distinct (invoice_ids erp)"
  then have b: "b \<in> set banks" and d: "distinct (invoice_ids erp)" and rest: "among banks bs t" for t
    by (auto simp: among_def)
  define c where "c = filter (\<lambda>i. inv_invoice_id i \<notin> used_invoices s \<and> inv_currency i = bank_currency b \<and>
      mentions b i \<and> within_days b i (date_tolerance_days cfg)) erp"
  define g where "g = matching_combination cfg c (bank_amount b)"
  show "\<exists>t. many_to_one_step cfg erp b s = Inr t \<and> (among banks bs t \<and> distinct (invoice_ids erp)) \<and>
      (t = s \<or> posts (rule_sound cfg banks erp gateways MANY_TO_ONE_MATCH) s t)"
  proof (cases "bank_source_record_id b \<notin> used_banks s \<and> eligible b \<and> g \<noteq> []")
    case True
    note chosen = chosen_group [OF g_def [unfolded matching_combination_def, symmetric]]
    have g: "dec_val (dec_sum (map inv_amount_due g)) = dec_val (bank_amount b)" "set g \<subseteq> set c"
      "group_size_ok cfg g"
      using chosen True by (auto simp: dec_eq_iff)
    have "distinct (invoice_ids c)" using d by (simp add: c_def distinct_map_filter)
    then have "distinct (invoice_ids g)" using chosen(4) True by blast
    then have fresh: "fresh_ids (invoice_ids g) (used_invoices s)"
      using g(2) by (intro fresh_ids_sub) (auto simp: c_def)
    have sound: "sound_many_to_one cfg banks erp r" if "names_only r [b] g []" for r
      unfolding sound_many_to_one_def using that g True b
      by (intro bexI [of _ b] exI [of _ g]) (auto simp: c_def linked_pair_def)
    have "\<exists>t. many_to_one_step cfg erp b s = Inr t \<and> posts (rule_sound cfg banks erp gateways MANY_TO_ONE_MATCH) s t"
      using True sound fresh
      unfolding many_to_one_step_def c_def [symmetric] g_def [symmetric] Let_def
      by simp (rule add_result_posts; simp add: posting_rules)
    with rest d show ?thesis by blast
  next
    case False
    then have "many_to_one_step cfg erp b s = Inr s"
      unfolding many_to_one_step_def c_def [symmetric] g_def [symmetric] Let_def by auto
    with rest d show ?thesis by blast
  qed
qed

interpretation one_to_many: matching_rule "one_to_many_step cfg banks"
    "\<lambda>js s. among erp js s \<and> distinct (bank_ids banks)"
    "rule_sound cfg banks erp gateways ONE_TO_MANY_MATCH" for cfg banks erp gateways
proof
  fix i js s
  assume "among erp (i # js) s \<and> distinct (bank_ids banks)"
  then have i: "i \<in> set erp" and d: "distinct (bank_ids banks)" and rest: "among erp js t" for t
    by (auto simp: among_def)
  define c where "c = filter (\<lambda>b. referenced cfg s b i) banks"
  define g where "g = matching_bank_combination cfg c (inv_amount_due i)"
  show "\<exists>t. one_to_many_step cfg banks i s = Inr t \<and> (among erp js t \<and> distinct (bank_ids banks)) \<and>
      (t = s \<or> posts (rule_sound cfg banks erp gateways ONE_TO_MANY_MATCH) s t)"
  proof (cases "inv_invoice_id i \<notin> used_invoices s \<and> g \<noteq> []")
    case True
    note chosen = chosen_group [OF g_def [unfolded matching_bank_combination_def, symmetric]]
    have g: "dec_val (dec_sum (map bank_amount g)) = dec_val (inv_amount_due i)" "set g \<subseteq> set c"
      "group_size_ok cfg g"
      using chosen True by (auto simp: dec_eq_iff)
    have "distinct (bank_ids c)" using d by (simp add: c_def distinct_map_filter)
    then have "distinct (bank_ids g)" using chosen(4) True by blast
    then have fresh: "fresh_ids (bank_ids g) (used_banks s)"
      using g(2) by (intro fresh_ids_sub) (auto simp: c_def dest: referenced_linked)
    have sound: "sound_one_to_many cfg banks erp r" if "names_only r g [i] []" for r
      unfolding sound_one_to_many_def using that g i
      by (intro bexI [of _ i] exI [of _ g]) (auto simp: c_def dest: referenced_linked)
    have "\<exists>t. one_to_many_step cfg banks i s = Inr t \<and> posts (rule_sound cfg banks erp gateways ONE_TO_MANY_MATCH) s t"
      using True sound fresh
      unfolding one_to_many_step_def c_def [symmetric] g_def [symmetric] Let_def
      by simp (rule add_result_posts; simp add: posting_rules)
    with rest d show ?thesis by blast
  next
    case False
    then have "one_to_many_step cfg banks i s = Inr s"
      unfolding one_to_many_step_def c_def [symmetric] g_def [symmetric] Let_def by auto
    with rest d show ?thesis by blast
  qed
qed

text \<open>Rules over groups: the groups still to come share no identifier with what is consumed.\<close>

definition settlement_ready ::
  "invoice list \<Rightarrow> gateway list \<Rightarrow> gateway list list \<Rightarrow> engine_state \<Rightarrow> bool" where
  "settlement_ready erp gateways gs s \<longleftrightarrow>
     distinct (invoice_ids erp) \<and>
     (\<forall>g \<in> set gs. \<exists>h \<in> set gateways. g = filter (\<lambda>k. gw_settlement_id k = gw_settlement_id h) gateways) \<and>
     fresh_ids (gateway_ids (concat gs)) (used_gateways s)"

lemma fresh_ids_append:
  "fresh_ids (xs @ ys) used \<longleftrightarrow> fresh_ids xs used \<and> fresh_ids ys (used \<union> set xs)"
  by (auto simp: fresh_ids_def)

lemma fresh_ids_union: "fresh_ids xs (u \<union> v) \<Longrightarrow> fresh_ids xs u"
  by (auto simp: fresh_ids_def)

lemma posts_used:
  "posts P s t \<Longrightarrow> (\<And>r. P r \<Longrightarrow> res_bank_ids r = bs) \<Longrightarrow> used_banks t = used_banks s \<union> set bs"
  "posts P s t \<Longrightarrow> (\<And>r. P r \<Longrightarrow> res_gateway_ids r = gs) \<Longrightarrow> used_gateways t = used_gateways s \<union> set gs"
  by (auto simp: posts_def use_def)

interpretation settlement: matching_rule "settlement_step cfg banks erp" "settlement_ready erp gateways"
    "rule_sound cfg banks erp gateways SETTLEMENT_MATCH" for cfg banks erp gateways
proof
  fix g gs s
  assume ready: "settlement_ready erp gateways (g # gs) s"
  then obtain h where h: "h \<in> set gateways"
    and g: "g = filter (\<lambda>k. gw_settlement_id k = gw_settlement_id h) gateways"
    and d: "distinct (invoice_ids erp)" and fresh: "fresh_ids (gateway_ids g) (used_gateways s)"
    and later: "fresh_ids (gateway_ids (concat gs)) (used_gateways s \<union> set (gateway_ids g))"
    by (auto simp: settlement_ready_def fresh_ids_append)
  have skip: "settlement_ready erp gateways gs s"
    using ready fresh_ids_union [OF later] by (simp add: settlement_ready_def)
  define net where "net = dec_sum (map gw_net_amount g)"
  define gross where "gross = dec_sum (map gw_gross_amount g)"
  let ?c = "filter (\<lambda>b. bank_source_record_id b \<notin> used_banks s \<and> eligible b \<and>
      bank_currency b = gw_settlement_currency (hd g) \<and> dec_eq (bank_amount b) net \<and>
      list_ex (pays_out cfg b) g) banks"
  let ?P = "rule_sound cfg banks erp gateways SETTLEMENT_MATCH"
  show "\<exists>t. settlement_step cfg banks erp g s = Inr t \<and> settlement_ready erp gateways gs t \<and>
      (t = s \<or> posts ?P s t)"
  proof (cases "\<exists>b. ?c = [b]")
    case True
    then obtain b where c: "?c = [b]" by blast
    from filter_singletonD [OF c] have b: "b \<in> set banks" "eligible b"
      "bank_source_record_id b \<notin> used_banks s" "dec_val (bank_amount b) = dec_val net"
      "bank_currency b = gw_settlement_currency (hd g)" "\<exists>k \<in> set g. pays_out cfg b k"
      by (auto simp: dec_eq_iff list_ex_iff)
    define l where "l = filter (\<lambda>i. inv_invoice_id i \<notin> used_invoices s \<and>
                inv_currency i = gw_currency (hd g) \<and> dec_eq (inv_amount_due i) gross \<and>
                list_ex (\<lambda>g. gateway_names g i) g) erp"
    have l: "fresh_ids (invoice_ids l) (used_invoices s)"
      unfolding l_def by (rule fresh_ids_filter [OF d]) simp
    have sound: "sound_settlement cfg banks erp gateways r" if "names_only r [b] l g" for r
      unfolding sound_settlement_def Let_def using that b h
      by (intro bexI [of _ b] exI [of _ l] bexI [of _ h])
         (auto simp: g [symmetric] net_def gross_def l_def dec_eq_iff list_ex_iff)
    have "\<exists>t. settlement_step cfg banks erp g s = Inr t \<and>
        posts (\<lambda>r. ?P r \<and> res_gateway_ids r = gateway_ids g) s t"
      using c b l fresh sound
      unfolding settlement_step_def net_def [symmetric] gross_def [symmetric] l_def [symmetric] Let_def
      by (simp only: list.case) (rule add_result_posts; simp add: posting_rules)
    then obtain t where t: "settlement_step cfg banks erp g s = Inr t"
      "posts (\<lambda>r. ?P r \<and> res_gateway_ids r = gateway_ids g) s t" by blast
    have "used_gateways t = used_gateways s \<union> set (gateway_ids g)"
      by (rule posts_used(2) [OF t(2)]) simp
    with later ready have "settlement_ready erp gateways gs t"
      by (simp add: settlement_ready_def)
    moreover have "posts ?P s t" by (rule posts_mono [OF t(2)]) simp
    ultimately show ?thesis using t(1) by blast
  next
    case False
    then have "settlement_step cfg banks erp g s = Inr s"
      unfolding settlement_step_def net_def [symmetric] gross_def [symmetric] Let_def
      by (auto split: list.split)
    with skip show ?thesis by blast
  qed
qed

definition awaiting_ready ::
  "invoice list \<Rightarrow> gateway list \<Rightarrow> gateway list list \<Rightarrow> engine_state \<Rightarrow> bool" where
  "awaiting_ready erp gateways gs s \<longleftrightarrow>
     distinct (invoice_ids erp) \<and> distinct (gateway_ids gateways) \<and>
     (\<forall>g \<in> set gs. \<exists>P. g = filter P gateways)"

lemma awaiting_step_law:
  assumes "distinct (invoice_ids erp)" and "distinct (gateway_ids gateways)" and "g = filter P gateways"
  shows "\<exists>t. awaiting_step erp g s = Inr t \<and> set (gateway_ids g) \<subseteq> used_gateways t \<and>
    (t = s \<or> posts (rule_sound cfg banks erp gateways REQUIRES_REVIEW) s t)"
proof -
  let ?P = "rule_sound cfg banks erp gateways REQUIRES_REVIEW"
  define r where "r = filter (\<lambda>g. gw_source_record_id g \<notin> used_gateways s) g"
  have d: "distinct (gateway_ids g)" using assms(2,3) by (simp add: distinct_map_filter)
  have fresh: "fresh_ids (gateway_ids r) (used_gateways s)"
    unfolding r_def by (rule fresh_ids_filter [OF d]) simp
  have all: "set (gateway_ids g) \<subseteq> used_gateways s \<union> set (gateway_ids r)" by (auto simp: r_def)
  show ?thesis
  proof (cases "r = []")
    case True
    then have "awaiting_step erp g s = Inr s" by (simp add: awaiting_step_def r_def Let_def)
    with True all show ?thesis by simp
  next
    case False
    define l where "l = filter (\<lambda>i. inv_invoice_id i \<notin> used_invoices s \<and>
                    list_ex (\<lambda>g. gateway_names g i) r) erp"
    have l: "fresh_ids (invoice_ids l) (used_invoices s)"
      unfolding l_def by (rule fresh_ids_filter [OF assms(1)]) simp
    have "set r \<subseteq> set gateways" "set l \<subseteq> set erp" using assms(3) by (auto simp: r_def l_def)
    with False have sound: "sound_review banks erp gateways x" if "names_only x [] l r" for x
      unfolding sound_review_def using that by blast
    have "\<exists>t. awaiting_step erp g s = Inr t \<and> posts (\<lambda>x. ?P x \<and> res_gateway_ids x = gateway_ids r) s t"
      using False l fresh sound
      unfolding awaiting_step_def r_def [symmetric] l_def [symmetric] Let_def
      by (simp only: if_False) (rule add_result_posts; simp add: posting_rules)
    then obtain t where t: "awaiting_step erp g s = Inr t"
      "posts (\<lambda>x. ?P x \<and> res_gateway_ids x = gateway_ids r) s t" by blast
    have "used_gateways t = used_gateways s \<union> set (gateway_ids r)"
      by (rule posts_used(2) [OF t(2)]) simp
    moreover have "posts ?P s t" by (rule posts_mono [OF t(2)]) simp
    ultimately show ?thesis using t(1) all by blast
  qed
qed

interpretation awaiting: matching_rule "awaiting_step erp" "awaiting_ready erp gateways"
    "rule_sound cfg banks erp gateways REQUIRES_REVIEW" for cfg banks erp gateways
proof
  fix g gs s
  assume ready: "awaiting_ready erp gateways (g # gs) s"
  then obtain P where "distinct (invoice_ids erp)" "distinct (gateway_ids gateways)" "g = filter P gateways"
    by (auto simp: awaiting_ready_def)
  from awaiting_step_law [OF this] ready
  show "\<exists>t. awaiting_step erp g s = Inr t \<and> awaiting_ready erp gateways gs t \<and>
      (t = s \<or> posts (rule_sound cfg banks erp gateways REQUIRES_REVIEW) s t)"
    by (fastforce simp: awaiting_ready_def)
qed

definition duplicate_ready ::
  "bank list \<Rightarrow> invoice list \<Rightarrow> bank list list \<Rightarrow> engine_state \<Rightarrow> bool" where
  "duplicate_ready banks erp gs s \<longleftrightarrow>
     distinct (invoice_ids erp) \<and>
     (\<forall>g \<in> set gs. \<exists>b \<in> set banks. g = filter (\<lambda>c. same_fingerprint (fingerprint c) (fingerprint b)) banks) \<and>
     fresh_ids (bank_ids (concat gs)) (used_banks s)"

interpretation duplicate: matching_rule "duplicate_step cfg erp" "duplicate_ready banks erp"
    "rule_sound cfg banks erp gateways DUPLICATE" for cfg banks erp gateways
proof
  fix g gs s
  assume ready: "duplicate_ready banks erp (g # gs) s"
  then obtain b where b: "b \<in> set banks"
    and g: "g = filter (\<lambda>c. same_fingerprint (fingerprint c) (fingerprint b)) banks"
    and d: "distinct (invoice_ids erp)" and fresh: "fresh_ids (bank_ids g) (used_banks s)"
    and later: "fresh_ids (bank_ids (concat gs)) (used_banks s \<union> set (bank_ids g))"
    by (auto simp: duplicate_ready_def fresh_ids_append)
  have skip: "duplicate_ready banks erp gs s"
    using ready fresh_ids_union [OF later] by (simp add: duplicate_ready_def)
  let ?P = "rule_sound cfg banks erp gateways DUPLICATE"
  show "\<exists>t. duplicate_step cfg erp g s = Inr t \<and> duplicate_ready banks erp gs t \<and> (t = s \<or> posts ?P s t)"
  proof (cases "length g < 2")
    case True
    then have "duplicate_step cfg erp g s = Inr s" by (simp add: duplicate_step_def)
    with skip show ?thesis by blast
  next
    case False
    define l where "l = filter (\<lambda>i. inv_invoice_id i \<notin> used_invoices s \<and>
               list_ex (\<lambda>b. mentions b i \<and> within_days b i (date_tolerance_days cfg)) g) erp"
    have l: "fresh_ids (invoice_ids l) (used_invoices s)"
      unfolding l_def by (rule fresh_ids_filter [OF d]) simp
    have sound: "sound_duplicate cfg banks erp r" if "names_only r g l []" for r
      unfolding sound_duplicate_def Let_def using that b False
      by (intro bexI [of _ b] exI [of _ l]) (auto simp: g [symmetric] l_def list_ex_iff)
    have "\<exists>t. duplicate_step cfg erp g s = Inr t \<and> posts (\<lambda>r. ?P r \<and> res_bank_ids r = bank_ids g) s t"
      using False l fresh sound
      unfolding duplicate_step_def l_def [symmetric] Let_def
      by (simp only: if_False) (rule add_result_posts; simp add: posting_rules)
    then obtain t where t: "duplicate_step cfg erp g s = Inr t"
      "posts (\<lambda>r. ?P r \<and> res_bank_ids r = bank_ids g) s t" by blast
    have "used_banks t = used_banks s \<union> set (bank_ids g)"
      by (rule posts_used(1) [OF t(2)]) simp
    with later ready have "duplicate_ready banks erp gs t"
      by (simp add: duplicate_ready_def)
    moreover have "posts ?P s t" by (rule posts_mono [OF t(2)]) simp
    ultimately show ?thesis using t(1) by blast
  qed
qed

section \<open>The rules together\<close>

lemma same_fingerprint_equivp: "equivp same_fingerprint"
proof (rule equivpI)
  show "reflp same_fingerprint" by (auto intro: reflpI)
  show "symp same_fingerprint" by (rule sympI) (auto simp: dec_eq_iff)
  show "transp same_fingerprint"
  proof (rule transpI)
    fix x y z
    assume "same_fingerprint x y" "same_fingerprint y z"
    then show "same_fingerprint x z" by (cases x; cases y; cases z) (simp add: dec_eq_iff)
  qed
qed

lemma mset_concat_cong: "mset xss = mset yss \<Longrightarrow> mset (concat xss) = mset (concat yss)"
  by (simp add: mset_concat) (metis mset_map sum_mset_sum_list)

lemma group_rows_class:
  assumes "equivp eq" and "g \<in> set (group_rows eq key xs)"
  shows "\<exists>x \<in> set xs. snd g = filter (\<lambda>y. eq (key y) (key x)) xs"
proof -
  have g: "snd g = filter (\<lambda>y. eq (key y) (fst g)) xs"
    using group_rows_classes [OF assms(1)] assms(2) by (auto simp: classes_of_def)
  moreover have "snd g \<noteq> []" using assms(2) by (rule group_rows_nonempty)
  ultimately obtain x where x: "x \<in> set xs" "eq (key x) (fst g)" by (metis filter_empty_conv)
  then have "eq k (fst g) \<longleftrightarrow> eq k (key x)" for k
    using assms(1) by (meson equivp_symp equivp_transp)
  with g x show ?thesis by auto
qed

lemma group_rows_ids: "distinct (map f xs) \<Longrightarrow> distinct (map f (concat (map snd (group_rows eq key xs))))"
proof -
  assume "distinct (map f xs)"
  moreover have "mset (map f (concat (map snd (group_rows eq key xs)))) = mset (map f xs)"
    unfolding mset_map group_rows_mset ..
  ultimately show ?thesis by (metis mset_eq_imp_distinct_iff)
qed

lemma distinct_concat_cong:
  "mset xss = mset yss \<Longrightarrow> distinct (map f (concat yss)) \<Longrightarrow> distinct (map f (concat xss))"
  by (metis mset_concat_cong mset_map mset_eq_imp_distinct_iff)

lemma duplicate_groups_ready:
  assumes "distinct (bank_ids banks)" and "distinct (invoice_ids erp)" and "used_banks s = {}"
  shows "duplicate_ready banks erp (duplicate_groups banks) s"
proof -
  have "distinct (bank_ids (concat (duplicate_groups banks)))"
    by (rule distinct_concat_cong [OF _ group_rows_ids [OF assms(1)]]) (simp add: duplicate_groups_def)
  with assms show ?thesis
    by (auto simp: duplicate_ready_def fresh_ids_def duplicate_groups_def
        dest!: group_rows_class [OF same_fingerprint_equivp])
qed

lemma settlement_groups_class:
  assumes "used_gateways s = {}" and "g \<in> set (settlement_groups s gateways)"
  shows "\<exists>h \<in> set gateways. g = filter (\<lambda>k. gw_settlement_id k = gw_settlement_id h) gateways"
  using assms group_rows_class [OF identity_equivp] by (fastforce simp: settlement_groups_def)

lemma settlement_groups_ids:
  assumes "distinct (gateway_ids gateways)" and "used_gateways s = {}"
  shows "distinct (gateway_ids (concat (settlement_groups s gateways)))"
proof (rule distinct_concat_cong [OF _ group_rows_ids [OF assms(1), of "(=)" gw_settlement_id]])
  show "mset (settlement_groups s gateways) = mset (map snd (group_rows (=) gw_settlement_id gateways))"
    using assms(2) by (simp add: settlement_groups_def)
qed

lemma settlement_groups_all:
  assumes "used_gateways s = {}"
  shows "set (concat (settlement_groups s gateways)) = set gateways"
proof -
  have "mset (concat (settlement_groups s gateways)) =
      mset (concat (map snd (group_rows (=) gw_settlement_id gateways)))"
    using assms by (intro mset_concat_cong) (simp add: settlement_groups_def)
  then show ?thesis by (metis group_rows_mset set_mset_mset)
qed

lemma awaiting_covers:
  assumes "awaiting_ready erp gateways gs s" and "fold_err (awaiting_step erp) gs s = Inr t"
  shows "set (gateway_ids (concat gs)) \<subseteq> used_gateways t"
  using assms
proof (induction gs arbitrary: s)
  case Nil
  then show ?case by simp
next
  case (Cons g gs)
  from Cons.prems(1) obtain P where P: "distinct (invoice_ids erp)" "distinct (gateway_ids gateways)"
    "g = filter P gateways" and rest: "awaiting_ready erp gateways gs u" for u
    by (auto simp: awaiting_ready_def)
  from awaiting_step_law [OF P] obtain u where u: "awaiting_step erp g s = Inr u"
    "set (gateway_ids g) \<subseteq> used_gateways u" by blast
  with Cons.prems(2) have f: "fold_err (awaiting_step erp) gs u = Inr t" by simp
  then obtain t' where "fold_err (awaiting_step erp) gs u = Inr t'"
    "posted (rule_sound undefined [] erp gateways REQUIRES_REVIEW) u t'"
    using awaiting.pass [OF rest] by blast
  with f have "used_gateways u \<subseteq> used_gateways t" using posted_grows by fastforce
  with u(2) Cons.IH [OF rest f] show ?case by auto
qed

lemma apply_rules_posted:
  assumes "distinct (bank_ids banks)" and "distinct (invoice_ids erp)" and "distinct (gateway_ids gateways)"
  shows "\<exists>s. apply_rules cfg banks erp gateways initial_state = Inr s \<and>
    posted (sound_result cfg banks erp gateways) initial_state s \<and>
    set (gateway_ids gateways) \<subseteq> used_gateways s \<and>
    (\<exists>s1 s2. posted (rule_sound cfg banks erp gateways DUPLICATE) initial_state s1 \<and>
       fold_err (exact_step cfg banks) erp s1 = Inr s2 \<and> set (results s2) \<subseteq> set (results s))"
proof -
  let ?S = "rule_sound cfg banks erp gateways"
  have mono: "posted (?S st) s t \<Longrightarrow> posted (sound_result cfg banks erp gateways) s t" for st s t
    by (erule posted_mono) (simp add: rule_sound_def)
  have erp: "among erp erp s" and bk: "among banks banks s" for s by (simp_all add: among_def)
  have "used_banks initial_state = {}" by (simp add: initial_state_def)
  from duplicate.pass [OF duplicate_groups_ready [OF assms(1,2) this], of cfg gateways]
  obtain s1 where s1: "fold_err (duplicate_step cfg erp) (duplicate_groups banks) initial_state = Inr s1"
    "posted (?S DUPLICATE) initial_state s1" by blast
  from exact.pass [OF erp, of cfg banks s1 gateways]
  obtain s2 where s2: "fold_err (exact_step cfg banks) erp s1 = Inr s2" "posted (?S EXACT_MATCH) s1 s2" by blast
  have "used_gateways s1 = used_gateways initial_state"
    by (rule posted_no_gateways [OF s1(2)])
       (auto simp: rule_sound_def sound_result_def sound_duplicate_def Let_def names_only_def)
  moreover have "used_gateways s2 = used_gateways s1"
    by (rule posted_no_gateways [OF s2(2)])
       (auto simp: rule_sound_def sound_result_def sound_exact_def names_only_def)
  ultimately have none: "used_gateways s2 = {}" by (simp add: initial_state_def)
  define gs where "gs = settlement_groups s2 gateways"
  have "settlement_ready erp gateways gs s2"
    using settlement_groups_class [OF none] settlement_groups_ids [OF assms(3) none] assms(2) none
    by (auto simp: settlement_ready_def gs_def fresh_ids_def)
  from settlement.pass [OF this, of cfg banks]
  obtain s3 where s3: "fold_err (settlement_step cfg banks erp) gs s2 = Inr s3"
    "posted (?S SETTLEMENT_MATCH) s2 s3" by blast
  from tolerance.pass [OF erp, of cfg banks s3 gateways]
  obtain s4 where s4: "fold_err (tolerance_step cfg banks) erp s3 = Inr s4" "posted (?S TOLERANCE_MATCH) s3 s4"
    by blast
  from many_to_one.pass [OF conjI [OF bk assms(2)], of cfg s4 gateways]
  obtain s5 where s5: "fold_err (many_to_one_step cfg erp) banks s4 = Inr s5" "posted (?S MANY_TO_ONE_MATCH) s4 s5"
    by blast
  from one_to_many.pass [OF conjI [OF erp assms(1)], of cfg s5 gateways]
  obtain s6 where s6: "fold_err (one_to_many_step cfg banks) erp s5 = Inr s6" "posted (?S ONE_TO_MANY_MATCH) s5 s6"
    by blast
  have aw: "awaiting_ready erp gateways gs s6"
    using settlement_groups_class [OF none] assms(2,3) by (auto simp: awaiting_ready_def gs_def)
  from awaiting.pass [OF aw, of cfg banks]
  obtain s7 where s7: "fold_err (awaiting_step erp) gs s6 = Inr s7" "posted (?S REQUIRES_REVIEW) s6 s7" by blast
  have "set (gateway_ids gateways) \<subseteq> used_gateways s7"
    using awaiting_covers [OF aw s7(1)] settlement_groups_all [OF none] by (simp add: gs_def)
  moreover have "apply_rules cfg banks erp gateways initial_state = Inr s7"
    using s1(1) s2(1) s3(1) s4(1) s5(1) s6(1) s7(1) by (simp add: apply_rules_def gs_def [symmetric] Let_def)
  moreover have "posted (sound_result cfg banks erp gateways) initial_state s7"
    using s1(2) s2(2) s3(2) s4(2) s5(2) s6(2) s7(2) by (meson mono posted_trans)
  moreover have "set (results s2) \<subseteq> set (results s7)"
    using s3(2) s4(2) s5(2) s6(2) s7(2) by (meson posted_results order_trans)
  ultimately show ?thesis using s1(2) s2(1) by blast
qed

section \<open>The report of what is left\<close>

definition next_ids :: "nat \<Rightarrow> reconciliation_result list \<Rightarrow> bool" where
  "next_ids n rs \<longleftrightarrow> map res_result_id rs = map result_id [n + 1 ..< n + length rs + 1]"

lemma next_ids_append: "next_ids n rs \<Longrightarrow> next_ids (n + length rs) qs \<Longrightarrow> next_ids n (rs @ qs)"
proof -
  assume "next_ids n rs" "next_ids (n + length rs) qs"
  moreover have "[n + 1 ..< n + length (rs @ qs) + 1] =
      [n + 1 ..< n + length rs + 1] @ [n + length rs + 1 ..< n + length rs + length qs + 1]"
    using upt_add_eq_append [of "n + 1" "n + length rs + 1" "length qs"] by (simp add: add.commute add.left_commute)
  ultimately show ?thesis unfolding next_ids_def by (simp only: map_append)
qed

lemma add_result_plain:
  "well_formed_result (values (result_id (length (results s) + 1))) \<Longrightarrow>
   add_result values s = Inr (s \<lparr> results := results s @ [values (result_id (length (results s) + 1))] \<rparr>)"
  by (simp add: add_result_def outcome_simps flip: result_post_init_ok)

locale reporting_rule =
  fixes step :: "'a \<Rightarrow> engine_state \<Rightarrow> engine_state outcome"
    and left_over :: "'a \<Rightarrow> engine_state \<Rightarrow> bool"
    and reports :: "reconciliation_result \<Rightarrow> 'a \<Rightarrow> bool"
    and items :: "'a set"
  assumes left_over_results: "left_over x (s \<lparr> results := rs \<rparr>) \<longleftrightarrow> left_over x s"
    and skip: "\<not> left_over x s \<Longrightarrow> step x s = Inr s"
    and report: "x \<in> items \<Longrightarrow> left_over x s \<Longrightarrow>
      \<exists>r. step x s = Inr (s \<lparr> results := results s @ [r] \<rparr>) \<and> reports r x \<and>
          res_result_id r = result_id (length (results s) + 1)"
begin

lemma pass:
  "set xs \<subseteq> items \<Longrightarrow>
     \<exists>rs. fold_err step xs s = Inr (s \<lparr> results := results s @ rs \<rparr>) \<and>
          next_ids (length (results s)) rs \<and> list_all2 reports rs (filter (\<lambda>x. left_over x s) xs)"
proof (induction xs arbitrary: s)
  case Nil
  then show ?case by (auto simp: next_ids_def)
next
  case (Cons x xs)
  have xs: "set xs \<subseteq> items" using Cons.prems by simp
  show ?case
  proof (cases "left_over x s")
    case True
    then obtain r where r: "step x s = Inr (s \<lparr> results := results s @ [r] \<rparr>)" "reports r x"
      "res_result_id r = result_id (length (results s) + 1)"
      using report Cons.prems by fastforce
    let ?t = "s \<lparr> results := results s @ [r] \<rparr>"
    obtain rs where rs: "fold_err step xs ?t = Inr (?t \<lparr> results := results ?t @ rs \<rparr>)"
      "next_ids (length (results ?t)) rs" "list_all2 reports rs (filter (\<lambda>x. left_over x ?t) xs)"
      using Cons.IH [OF xs] by blast
    have "next_ids (length (results s)) ([r] @ rs)"
      by (rule next_ids_append) (use r(3) rs(2) in \<open>simp_all add: next_ids_def\<close>)
    with r rs True left_over_results show ?thesis by (intro exI [of _ "r # rs"]) simp
  next
    case False
    with Cons.IH [OF xs] skip show ?thesis by simp
  qed
qed

end

interpretation unmatched_bank: reporting_rule unmatched_bank_step
    "\<lambda>b s. bank_source_record_id b \<notin> used_banks s"
    "\<lambda>r b. names_only r [b] [] [] \<and> sound_result cfg banks erp gateways r" "set banks"
    for cfg banks erp gateways
proof
  fix b and s :: engine_state
  assume b: "b \<in> set banks" and left: "bank_source_record_id b \<notin> used_banks s"
  have "sound_review banks erp gateways x" if "names_only x [b] [] []" for x
    unfolding sound_review_def using that b by blast
  then show "\<exists>r. unmatched_bank_step b s = Inr (s \<lparr> results := results s @ [r] \<rparr>) \<and>
      (names_only r [b] [] [] \<and> sound_result cfg banks erp gateways r) \<and>
      res_result_id r = result_id (length (results s) + 1)"
    using left unfolding unmatched_bank_step_def
    by (simp only: if_False) (subst add_result_plain; fastforce simp: posting_rules)
qed (simp_all add: unmatched_bank_step_def)

interpretation unmatched_invoice: reporting_rule unmatched_invoice_step
    "\<lambda>i s. inv_invoice_id i \<notin> used_invoices s"
    "\<lambda>r i. names_only r [] [i] [] \<and> sound_result cfg banks erp gateways r" "set erp"
    for cfg banks erp gateways
proof
  fix i and s :: engine_state
  assume i: "i \<in> set erp" and left: "inv_invoice_id i \<notin> used_invoices s"
  have "sound_review banks erp gateways x" if "names_only x [] [i] []" for x
    unfolding sound_review_def using that i by blast
  then show "\<exists>r. unmatched_invoice_step i s = Inr (s \<lparr> results := results s @ [r] \<rparr>) \<and>
      (names_only r [] [i] [] \<and> sound_result cfg banks erp gateways r) \<and>
      res_result_id r = result_id (length (results s) + 1)"
    using left unfolding unmatched_invoice_step_def
    by (simp only: if_False) (subst add_result_plain; fastforce simp: posting_rules)
qed (simp_all add: unmatched_invoice_step_def)

section \<open>What a run guarantees\<close>

lemma sorted_inputs [simp]:
  "mset (sorted_banks bs) = mset bs" "mset (sorted_invoices js) = mset js" "mset (sorted_gateways gs) = mset gs"
  "set (sorted_banks bs) = set bs" "set (sorted_invoices js) = set js" "set (sorted_gateways gs) = set gs"
  by (simp_all add: sorted_banks_def sorted_invoices_def sorted_gateways_def)

lemma sorted_ids [simp]:
  "mset (bank_ids (sorted_banks bs)) = mset (bank_ids bs)"
  "mset (invoice_ids (sorted_invoices js)) = mset (invoice_ids js)"
  "mset (gateway_ids (sorted_gateways gs)) = mset (gateway_ids gs)"
  by (simp_all only: mset_map sorted_inputs)

lemma sorted_distinct [simp]:
  "distinct (bank_ids (sorted_banks bs)) = distinct (bank_ids bs)"
  "distinct (invoice_ids (sorted_invoices js)) = distinct (invoice_ids js)"
  "distinct (gateway_ids (sorted_gateways gs)) = distinct (gateway_ids gs)"
  by (rule mset_eq_imp_distinct_iff, simp)+

lemma card_eq_distinct: "card (set xs) = length xs \<longleftrightarrow> distinct xs"
  by (metis card_distinct distinct_card)

lemma unique_ids_eq: "unique_ids l xs =
    (if distinct xs then Inr () else Inl (ValueError (l @ '' input contains duplicate canonical source IDs'')))"
  by (cases "distinct xs") (simp_all add: unique_ids_def eq_commute [of "length xs"]
      guard_else_def card_eq_distinct)

definition ids_among ::
  "bank list \<Rightarrow> invoice list \<Rightarrow> gateway list \<Rightarrow> reconciliation_result \<Rightarrow> bool" where
  "ids_among banks erp gateways r \<longleftrightarrow>
     set (res_bank_ids r) \<subseteq> set (bank_ids banks) \<and> set (res_invoice_ids r) \<subseteq> set (invoice_ids erp) \<and>
     set (res_gateway_ids r) \<subseteq> set (gateway_ids gateways)"

lemma ids_amongI:
  "names_only r bs js gs \<Longrightarrow> set bs \<subseteq> set banks \<Longrightarrow> set js \<subseteq> set erp \<Longrightarrow> set gs \<subseteq> set gateways \<Longrightarrow>
   ids_among banks erp gateways r"
  by (simp add: ids_among_def names_only_def image_mono)

lemma sound_result_ids:
  assumes "sound_result cfg banks erp gateways r"
  shows "ids_among banks erp gateways r"
proof (cases "res_status r")
  case EXACT_MATCH
  with assms show ?thesis by (auto simp: sound_result_def sound_exact_def intro: ids_amongI)
next
  case SETTLEMENT_MATCH
  with assms obtain b js P where "b \<in> set banks" "names_only r [b] js (filter P gateways)" "\<forall>i \<in> set js. i \<in> set erp"
    by (auto simp: sound_result_def sound_settlement_def Let_def)
  then show ?thesis by (intro ids_amongI) auto
next
  case TOLERANCE_MATCH
  with assms show ?thesis by (auto simp: sound_result_def sound_tolerance_def intro: ids_amongI)
next
  case MANY_TO_ONE_MATCH
  with assms show ?thesis by (auto simp: sound_result_def sound_many_to_one_def intro: ids_amongI)
next
  case ONE_TO_MANY_MATCH
  with assms show ?thesis by (auto simp: sound_result_def sound_one_to_many_def intro: ids_amongI)
next
  case DUPLICATE
  with assms obtain js P where "names_only r (filter P banks) js []" "\<forall>i \<in> set js. i \<in> set erp"
    by (auto simp: sound_result_def sound_duplicate_def Let_def)
  then show ?thesis by (intro ids_amongI) auto
next
  case REQUIRES_REVIEW
  with assms show ?thesis by (auto simp: sound_result_def sound_review_def intro: ids_amongI)
qed

lemma reconcile_run:
  assumes "distinct (bank_ids bs)" and "distinct (invoice_ids js)" and "distinct (gateway_ids gs)"
  obtains s rs qs where
    "reconcile cfg bs js gs = Inr (results s @ rs @ qs)"
    "balanced s"
    "list_all (sound_result cfg (sorted_banks bs) (sorted_invoices js) (sorted_gateways gs)) (results s @ rs @ qs)"
    "set (gateway_ids gs) \<subseteq> used_gateways s"
    "list_all2 (\<lambda>r b. names_only r [b] [] []) rs
       (filter (\<lambda>b. bank_source_record_id b \<notin> used_banks s) (sorted_banks bs))"
    "list_all2 (\<lambda>r i. names_only r [] [i] []) qs
       (filter (\<lambda>i. inv_invoice_id i \<notin> used_invoices s) (sorted_invoices js))"
    "next_ids 0 (results s @ rs @ qs)"
    "\<exists>s1 s2. posted (rule_sound cfg (sorted_banks bs) (sorted_invoices js) (sorted_gateways gs) DUPLICATE)
         initial_state s1 \<and>
       fold_err (exact_step cfg (sorted_banks bs)) (sorted_invoices js) s1 = Inr s2 \<and>
       set (results s2) \<subseteq> set (results s)"
proof -
  let ?B = "sorted_banks bs" and ?I = "sorted_invoices js" and ?G = "sorted_gateways gs"
  let ?S = "sound_result cfg ?B ?I ?G"
  obtain s where s: "apply_rules cfg ?B ?I ?G initial_state = Inr s" "posted ?S initial_state s"
    "set (gateway_ids ?G) \<subseteq> used_gateways s"
    and early: "\<exists>s1 s2. posted (rule_sound cfg ?B ?I ?G DUPLICATE) initial_state s1 \<and>
       fold_err (exact_step cfg ?B) ?I s1 = Inr s2 \<and> set (results s2) \<subseteq> set (results s)"
    using apply_rules_posted [of ?B ?I ?G cfg] assms by (simp only: sorted_distinct) blast
  obtain rs where rs: "fold_err unmatched_bank_step ?B s = Inr (s \<lparr> results := results s @ rs \<rparr>)"
    "next_ids (length (results s)) rs"
    "list_all2 (\<lambda>r b. names_only r [b] [] [] \<and> ?S r) rs (filter (\<lambda>b. bank_source_record_id b \<notin> used_banks s) ?B)"
    using unmatched_bank.pass [of ?B ?B s cfg ?I ?G] by auto
  let ?t = "s \<lparr> results := results s @ rs \<rparr>"
  obtain qs where qs: "fold_err unmatched_invoice_step ?I ?t = Inr (?t \<lparr> results := results ?t @ qs \<rparr>)"
    "next_ids (length (results ?t)) qs"
    "list_all2 (\<lambda>r i. names_only r [] [i] [] \<and> ?S r) qs (filter (\<lambda>i. inv_invoice_id i \<notin> used_invoices ?t) ?I)"
    using unmatched_invoice.pass [of ?I ?I ?t cfg ?B ?G] by auto
  show ?thesis
  proof (rule that [of s rs qs])
    show "reconcile cfg bs js gs = Inr (results s @ rs @ qs)"
      using assms s(1) rs(1) qs(1)
      by (simp add: reconcile_def validate_unique_source_ids_def unique_ids_eq report_unmatched_def)
    show "balanced s" by (rule posted_balanced [OF s(2) balanced_initial])
    have "list_all ?S (results s)" by (rule posted_all [OF s(2)]) (simp add: initial_state_def)
    moreover have "list_all ?S rs" "list_all ?S qs"
      using rs(3) qs(3) by (auto simp: list_all2_conv_all_nth list_all_length)
    ultimately show "list_all ?S (results s @ rs @ qs)" by simp
    show "set (gateway_ids gs) \<subseteq> used_gateways s" using s(3) by simp
    show "list_all2 (\<lambda>r b. names_only r [b] [] []) rs (filter (\<lambda>b. bank_source_record_id b \<notin> used_banks s) ?B)"
      by (rule list_all2_mono [OF rs(3)]) simp
    show "list_all2 (\<lambda>r i. names_only r [] [i] []) qs (filter (\<lambda>i. inv_invoice_id i \<notin> used_invoices s) ?I)"
      using list_all2_mono [OF qs(3)] by simp
    have "next_ids 0 (results s)" using \<open>balanced s\<close> by (simp add: balanced_def next_ids_def Let_def)
    with rs(2) qs(2) show "next_ids 0 (results s @ rs @ qs)"
      by (intro next_ids_append) simp_all
  qed (rule early)
qed

text \<open>
  A run raises exactly when one of its inputs repeats a source identifier, and then it
  names the first such input; on every other input it returns a report.
\<close>

theorem reconcile_raises:
  "reconcile cfg bs js gs = Inl e \<longleftrightarrow>
     (\<exists>label. e = ValueError (label @ '' input contains duplicate canonical source IDs'') \<and>
        (if \<not> distinct (bank_ids bs) then label = ''bank''
         else if \<not> distinct (invoice_ids js) then label = ''invoice''
         else label = ''gateway'' \<and> \<not> distinct (gateway_ids gs)))"
proof (cases "distinct (bank_ids bs) \<and> distinct (invoice_ids js) \<and> distinct (gateway_ids gs)")
  case True
  then obtain rs where "reconcile cfg bs js gs = Inr rs" by (metis reconcile_run)
  with True show ?thesis by simp
next
  case False
  then show ?thesis
    by (auto simp: reconcile_def Let_def validate_unique_source_ids_def unique_ids_eq)
qed

section \<open>Sample records\<close>

text \<open>Records that the witnesses apply the theorems to.\<close>

definition sample_bank :: "string \<Rightarrow> string \<Rightarrow> decimal \<Rightarrow> bank" where
  "sample_bank rid description amount =
   \<lparr> bank_source_system = ''x'', bank_source_record_id = rid, bank_transaction_id = ''T'' @ rid,
     bank_account_id = ''x'', bank_booking_date = 739000, bank_amount = amount, bank_currency =
     ''EUR'', bank_credit_debit_indicator = CREDIT, bank_status = BOOKED, bank_description =
     description, bank_ingested_at = DateTime 0 (Some 0), bank_statement_id = None,
     bank_entry_reference = None, bank_account_servicer_reference = None, bank_end_to_end_id = None,
     bank_instruction_id = None, bank_mandate_id = None, bank_check_number = None, bank_value_date =
     None, bank_authorized_date = None, bank_booking_datetime = None, bank_authorized_datetime =
     None, bank_account_currency = None, bank_account_amount = None, bank_exchange_rate = None,
     bank_transaction_code = None, bank_payment_channel = None, bank_category = None,
     bank_subcategory = None, bank_original_description = None, bank_remittance_information = None,
     bank_merchant_name = None, bank_merchant_category_code = None, bank_counterparty_name = None,
     bank_counterparty_account_id = None, bank_counterparty_iban_masked = None,
     bank_counterparty_bic = None, bank_counterparty_country = None, bank_debtor_name = None,
     bank_creditor_name = None, bank_invoice_reference = None, bank_customer_reference = None,
     bank_bank_reference = None, bank_balance_after_transaction = None, bank_branch_id = None,
     bank_location_country = None, bank_location_city = None, bank_is_fee = False, bank_is_reversal
     = False, bank_reversal_of_transaction_id = None, bank_extra_data = [] \<rparr>"

definition sample_invoice :: "string \<Rightarrow> decimal \<Rightarrow> invoice" where
  "sample_invoice iid amount =
   \<lparr> inv_source_system = ''x'', inv_source_record_id = iid, inv_invoice_id = iid, inv_invoice_number
     = ''N'' @ iid, inv_invoice_type = INVOICE, inv_status = OPEN, inv_issue_date = 739000,
     inv_currency = ''EUR'', inv_supplier_id = ''x'', inv_supplier_name = ''x'', inv_customer_id =
     ''x'', inv_customer_name = ''x'', inv_document_subtotal = dec_zero,
     inv_document_discount_amount = dec_zero, inv_document_charge_amount = dec_zero,
     inv_document_tax_amount = dec_zero, inv_document_total_amount = amount, inv_prepaid_amount =
     dec_zero, inv_paid_amount = dec_zero, inv_amount_due = amount, inv_lines = [], inv_ingested_at
     = DateTime 0 (Some 0), inv_due_date = None, inv_service_start_date = None, inv_service_end_date
     = None, inv_posting_date = None, inv_accounting_period = None, inv_tax_currency = None,
     inv_exchange_rate = None, inv_purchase_order_reference = None, inv_sales_order_reference =
     None, inv_contract_reference = None, inv_project_reference = None, inv_payment_reference =
     None, inv_supplier_tax_id = None, inv_supplier_country = None, inv_customer_tax_id = None,
     inv_customer_email = None, inv_customer_country = None, inv_billing_address_line1 = None,
     inv_billing_city = None, inv_billing_region = None, inv_billing_postal_code = None,
     inv_billing_country = None, inv_delivery_address_line1 = None, inv_delivery_city = None,
     inv_delivery_country = None, inv_payment_terms_code = None, inv_payment_terms_description =
     None, inv_payment_method = None, inv_payment_account_reference = None, inv_last_payment_date =
     None, inv_notes = None, inv_created_at = None, inv_updated_at = None, inv_extra_data = [] \<rparr>"

definition sample_gateway :: "string \<Rightarrow> decimal \<Rightarrow> string option \<Rightarrow> gateway" where
  "sample_gateway rid amount reference =
   \<lparr> gw_source_system = ''x'', gw_source_record_id = rid, gw_settlement_id = ''S'',
     gw_gateway_payment_id = ''x'', gw_merchant_account_id = ''x'', gw_transaction_type = PAYMENT,
     gw_status = GATEWAY_PAID, gw_created_at = DateTime 0 (Some 0), gw_settlement_date = 739000,
     gw_gross_amount = amount, gw_fee_amount = dec_zero, gw_tax_on_fee_amount = dec_zero,
     gw_refund_amount = dec_zero, gw_chargeback_amount = dec_zero, gw_adjustment_amount = dec_zero,
     gw_net_amount = amount, gw_currency = ''EUR'', gw_settlement_currency = ''EUR'', gw_ingested_at
     = DateTime 0 (Some 0), gw_available_on = None, gw_exchange_rate = None, gw_customer_id = None,
     gw_customer_name = None, gw_invoice_reference = reference, gw_order_reference = None,
     gw_gateway_reference = None, gw_bank_reference = None, gw_payment_method_type = None,
     gw_card_brand = None, gw_card_last4 = None, gw_description = None, gw_extra_data = [] \<rparr>"

section \<open>Properties of a run\<close>

lemma used_union_left:
  assumes "distinct (map f xs)" and "distinct us" and "set us \<subseteq> set (map f xs)"
  shows "mset us + mset (map f (filter (\<lambda>x. f x \<notin> set us) xs)) = mset (map f xs)"
proof -
  let ?l = "map f (filter (\<lambda>x. f x \<notin> set us) xs)"
  have "distinct (us @ ?l)" using assms by (auto simp: distinct_map_filter)
  moreover have "set (us @ ?l) = set (map f xs)" using assms(3) by auto
  ultimately have "mset (us @ ?l) = mset (map f xs)" using assms(1) by (metis set_eq_iff_mset_eq_distinct)
  then show ?thesis by simp
qed

lemma names_concat:
  "list_all2 (\<lambda>r b. names_only r [b] [] []) rs bs \<Longrightarrow>
     concat (map res_bank_ids rs) = bank_ids bs \<and> concat (map res_invoice_ids rs) = [] \<and>
     concat (map res_gateway_ids rs) = []"
  "list_all2 (\<lambda>r i. names_only r [] [i] []) rs js \<Longrightarrow>
     concat (map res_bank_ids rs) = [] \<and> concat (map res_invoice_ids rs) = invoice_ids js \<and>
     concat (map res_gateway_ids rs) = []"
  by (induction rs bs rule: list_all2_induct; simp add: names_only_def)
     (induction rs js rule: list_all2_induct; simp add: names_only_def)

text \<open>
  C1: nothing disappears and nothing is counted twice: over the whole report every bank
  transaction, every invoice and every gateway entry of the inputs is named exactly once.
\<close>

theorem reconcile_accounts_for_everything:
  assumes "distinct (bank_ids bs)" and "distinct (invoice_ids js)" and "distinct (gateway_ids gs)"
  shows "\<exists>rs. reconcile cfg bs js gs = Inr rs \<and>
     mset (concat (map res_bank_ids rs)) = mset (bank_ids bs) \<and>
     mset (concat (map res_invoice_ids rs)) = mset (invoice_ids js) \<and>
     mset (concat (map res_gateway_ids rs)) = mset (gateway_ids gs)"
proof -
  obtain s rs qs where run: "reconcile cfg bs js gs = Inr (results s @ rs @ qs)" and bal: "balanced s"
    and sound: "list_all (sound_result cfg (sorted_banks bs) (sorted_invoices js) (sorted_gateways gs)) (results s @ rs @ qs)"
    and gw: "set (gateway_ids gs) \<subseteq> used_gateways s"
    and rs: "list_all2 (\<lambda>r b. names_only r [b] [] []) rs
       (filter (\<lambda>b. bank_source_record_id b \<notin> used_banks s) (sorted_banks bs))"
    and qs: "list_all2 (\<lambda>r i. names_only r [] [i] []) qs
       (filter (\<lambda>i. inv_invoice_id i \<notin> used_invoices s) (sorted_invoices js))"
    using reconcile_run [OF assms] by metis
  have ids: "ids_among (sorted_banks bs) (sorted_invoices js) (sorted_gateways gs) r" if "r \<in> set (results s)" for r
    using sound that by (auto simp: list_all_iff intro: sound_result_ids)
  define ub ui ug where "ub = concat (map res_bank_ids (results s))"
    and "ui = concat (map res_invoice_ids (results s))" and "ug = concat (map res_gateway_ids (results s))"
  have u: "distinct ub" "set ub = used_banks s" "distinct ui" "set ui = used_invoices s"
    "distinct ug" "set ug = used_gateways s"
    using bal unfolding balanced_def Let_def ub_def ui_def ug_def by blast+
  have sub: "set ub \<subseteq> set (bank_ids (sorted_banks bs))" "set ui \<subseteq> set (invoice_ids (sorted_invoices js))"
    "set ug \<subseteq> set (gateway_ids (sorted_gateways gs))"
    using ids unfolding ub_def ui_def ug_def ids_among_def set_concat set_map by blast+
  have "mset ub + mset (concat (map res_bank_ids rs)) = mset (bank_ids bs)"
    using used_union_left [OF _ u(1) sub(1)] names_concat(1) [OF rs] assms(1) u(2) by simp
  moreover have "mset ui + mset (concat (map res_invoice_ids qs)) = mset (invoice_ids js)"
    using used_union_left [OF _ u(3) sub(2)] names_concat(2) [OF qs] assms(2) u(4) by simp
  moreover have "mset ug = mset (gateway_ids gs)"
  proof -
    have "set ug = set (gateway_ids gs)" using gw sub(3) u(6) by auto
    then show ?thesis using u(5) assms(3) by (metis set_eq_iff_mset_eq_distinct)
  qed
  ultimately show ?thesis
    using names_concat(1) [OF rs] names_concat(2) [OF qs] run
    by (intro exI [of _ "results s @ rs @ qs"])
       (simp only: map_append concat_append mset_append ub_def ui_def ug_def mset.simps add_0_right add_0 simp_thms)
qed

theorem reconcile_accounts_for_everything_witness:
  "\<exists>rs. reconcile default_config [sample_bank ''B1'' ''pays I1'' (Dec 100 0), sample_bank ''B2'' ''x'' (Dec 7 0)]
      [sample_invoice ''I1'' (Dec 100 0)] [sample_gateway ''G1'' (Dec 5 0) None] = Inr rs \<and>
     mset (concat (map res_bank_ids rs)) = {#''B1'', ''B2''#} \<and>
     mset (concat (map res_invoice_ids rs)) = {#''I1''#} \<and>
     mset (concat (map res_gateway_ids rs)) = {#''G1''#}"
  using reconcile_accounts_for_everything [of "[sample_bank ''B1'' ''pays I1'' (Dec 100 0), sample_bank ''B2'' ''x'' (Dec 7 0)]"
      "[sample_invoice ''I1'' (Dec 100 0)]" "[sample_gateway ''G1'' (Dec 5 0) None]" default_config]
  by (simp add: sample_bank_def sample_invoice_def sample_gateway_def)



text \<open>
  Results are numbered in the order they were produced, RESULT-0001 first, so that no two
  results of a run share an identifier.
\<close>

theorem reconcile_numbers_results:
  assumes "distinct (bank_ids bs)" and "distinct (invoice_ids js)" and "distinct (gateway_ids gs)"
  shows "\<exists>rs. reconcile cfg bs js gs = Inr rs \<and>
     map res_result_id rs = map result_id [1 ..< length rs + 1] \<and> distinct (map res_result_id rs)"
proof -
  obtain rs where rs: "reconcile cfg bs js gs = Inr rs" "next_ids 0 rs"
    using reconcile_run [OF assms, of cfg] by metis
  have "inj result_id" by (auto intro!: injI dest: zero_pad4_inj simp: result_id_def)
  then have "distinct (map result_id [1 ..< length rs + 1])"
    by (simp add: distinct_map inj_on_def)
  with rs show ?thesis by (auto simp: next_ids_def)
qed

theorem reconcile_numbers_results_witness:
  "\<exists>rs. reconcile default_config [sample_bank ''B1'' ''x'' (Dec 100 0)] [] [] = Inr rs \<and>
     map res_result_id rs = map result_id [1 ..< length rs + 1] \<and> distinct (map res_result_id rs)"
  using reconcile_numbers_results [of "[sample_bank ''B1'' ''x'' (Dec 100 0)]" "[]" "[]" default_config]
  by simp

lemma inj_on_key: "distinct (map f xs) \<Longrightarrow> inj_on (\<lambda>x. (g x, f x)) (set xs)"
  by (auto simp: distinct_map inj_on_def)

text \<open>
  C29: the report does not depend on the order in which the inputs are given: any
  rearrangement of the three inputs gives the same report, or the same error.
\<close>

theorem reconcile_order_independent:
  assumes "mset bs = mset bs'" and "mset js = mset js'" and "mset gs = mset gs'"
  shows "reconcile cfg bs js gs = reconcile cfg bs' js' gs'"
proof -
  have d: "distinct (bank_ids bs) \<longleftrightarrow> distinct (bank_ids bs')" "distinct (invoice_ids js) \<longleftrightarrow> distinct (invoice_ids js')"
    "distinct (gateway_ids gs) \<longleftrightarrow> distinct (gateway_ids gs')"
    using assms by (metis mset_eq_imp_distinct_iff mset_map)+
  show ?thesis
  proof (cases "distinct (bank_ids bs) \<and> distinct (invoice_ids js) \<and> distinct (gateway_ids gs)")
    case True
    then have "sorted_banks bs = sorted_banks bs'" "sorted_invoices js = sorted_invoices js'"
      "sorted_gateways gs = sorted_gateways gs'"
      unfolding sorted_banks_def sorted_invoices_def sorted_gateways_def
      using assms by (auto intro: sort_key_mset_cong inj_on_key)
    then show ?thesis by (simp add: reconcile_def)
  next
    case False
    then show ?thesis
      using d by (auto simp: reconcile_def Let_def validate_unique_source_ids_def unique_ids_eq)
  qed
qed

theorem reconcile_order_independent_witness:
  "reconcile default_config [sample_bank ''B1'' ''x'' (Dec 1 0), sample_bank ''B2'' ''x'' (Dec 2 0)] [] [] =
   reconcile default_config [sample_bank ''B2'' ''x'' (Dec 2 0), sample_bank ''B1'' ''x'' (Dec 1 0)] [] []"
  by (rule reconcile_order_independent) simp_all

text \<open>
  An exact candidate that is unambiguous on both sides and untouched by duplicates is found.
\<close>

definition exact_pair :: "config \<Rightarrow> bank \<Rightarrow> invoice \<Rightarrow> bool" where
  "exact_pair cfg b i \<longleftrightarrow> linked_pair cfg b i \<and> dec_eq (bank_amount b) (inv_amount_due i)"

definition only_exact_pair :: "config \<Rightarrow> bank list \<Rightarrow> invoice list \<Rightarrow> bank \<Rightarrow> invoice \<Rightarrow> bool" where
  "only_exact_pair cfg bs js b i \<longleftrightarrow>
     b \<in> set bs \<and> i \<in> set js \<and> exact_pair cfg b i \<and>
     (\<forall>c \<in> set bs. exact_pair cfg c i \<longrightarrow> c = b) \<and> (\<forall>j \<in> set js. exact_pair cfg b j \<longrightarrow> j = i)"

definition repeated :: "bank list \<Rightarrow> bank \<Rightarrow> bool" where
  "repeated bs c \<longleftrightarrow> 2 \<le> length (filter (\<lambda>d. same_fingerprint (fingerprint d) (fingerprint c)) bs)"

definition untouched_by_duplicates :: "config \<Rightarrow> bank list \<Rightarrow> bank \<Rightarrow> invoice \<Rightarrow> bool" where
  "untouched_by_duplicates cfg bs b i \<longleftrightarrow>
     \<not> repeated bs b \<and>
     (\<forall>c \<in> set bs. repeated bs c \<longrightarrow> \<not> (mentions c i \<and> within_days c i (date_tolerance_days cfg)))"

lemma same_fingerprint_class:
  "same_fingerprint x y \<Longrightarrow> same_fingerprint z x \<longleftrightarrow> same_fingerprint z y"
  using same_fingerprint_equivp by (meson equivp_symp equivp_transp)

lemma repeated_class:
  "same_fingerprint (fingerprint c) (fingerprint b) \<Longrightarrow> repeated bs c \<longleftrightarrow> repeated bs b"
  by (simp add: repeated_def same_fingerprint_class)

lemma duplicates_spare:
  assumes "posted (rule_sound cfg banks erp gateways DUPLICATE) initial_state s"
    and "untouched_by_duplicates cfg banks b i" and "b \<in> set banks" and "i \<in> set erp"
    and "distinct (bank_ids banks)" and "distinct (invoice_ids erp)"
  shows "bank_source_record_id b \<notin> used_banks s" "inv_invoice_id i \<notin> used_invoices s"
proof -
  have dup: "\<exists>c \<in> set banks. \<exists>is. names_only r (filter (\<lambda>d. same_fingerprint (fingerprint d) (fingerprint c)) banks) is [] \<and>
      repeated banks c \<and> (\<forall>j \<in> set is. j \<in> set erp \<and> (\<exists>d \<in> set banks. repeated banks d \<and>
        mentions d j \<and> within_days d j (date_tolerance_days cfg)))"
    if r: "rule_sound cfg banks erp gateways DUPLICATE r" for r
  proof -
    from r obtain c js where "c \<in> set banks"
      "names_only r (filter (\<lambda>d. same_fingerprint (fingerprint d) (fingerprint c)) banks) js []" "repeated banks c"
      "\<forall>j \<in> set js. j \<in> set erp \<and> (\<exists>d \<in> set (filter (\<lambda>d. same_fingerprint (fingerprint d) (fingerprint c)) banks).
         mentions d j \<and> within_days d j (date_tolerance_days cfg))"
      unfolding rule_sound_def sound_result_def sound_duplicate_def Let_def repeated_def by auto
    moreover from this(3) have "repeated banks d" if "same_fingerprint (fingerprint d) (fingerprint c)" for d
      using that by (simp add: repeated_class)
    ultimately show ?thesis by (intro bexI [of _ c] exI [of _ js]) auto
  qed
  show "bank_source_record_id b \<notin> used_banks s"
  proof
    assume "bank_source_record_id b \<in> used_banks s"
    then obtain r where r: "rule_sound cfg banks erp gateways DUPLICATE r" "bank_source_record_id b \<in> set (res_bank_ids r)"
      using posted_used_banks [OF assms(1)] by (auto simp: initial_state_def)
    from dup [OF r(1)] r(2) obtain c d where "repeated banks c" "d \<in> set banks"
      "bank_source_record_id d = bank_source_record_id b" "same_fingerprint (fingerprint d) (fingerprint c)"
      by (auto simp: names_only_def)
    with assms(2,3,5) show False by (metis inj_onD distinct_map repeated_class untouched_by_duplicates_def)
  qed
  show "inv_invoice_id i \<notin> used_invoices s"
  proof
    assume "inv_invoice_id i \<in> used_invoices s"
    then obtain r where r: "rule_sound cfg banks erp gateways DUPLICATE r" "inv_invoice_id i \<in> set (res_invoice_ids r)"
      using posted_used_invoices [OF assms(1)] by (auto simp: initial_state_def)
    from dup [OF r(1)] r(2) obtain j d where "j \<in> set erp" "inv_invoice_id j = inv_invoice_id i" "d \<in> set banks"
      "repeated banks d" "mentions d j" "within_days d j (date_tolerance_days cfg)"
      unfolding names_only_def by fastforce
    with assms(2,4,6) show False by (metis inj_onD distinct_map untouched_by_duplicates_def)
  qed
qed

lemma posted_exact_split:
  assumes "only_exact_pair cfg banks erp b i" and "distinct (bank_ids banks)" and "distinct (invoice_ids erp)"
    and "posted (rule_sound cfg banks erp gateways EXACT_MATCH) s t"
    and "bank_source_record_id b \<notin> used_banks s" and "inv_invoice_id i \<notin> used_invoices s"
  shows "(\<exists>r \<in> set (results t). res_status r = EXACT_MATCH \<and> names_only r [b] [i] []) \<or>
    bank_source_record_id b \<notin> used_banks t \<and> inv_invoice_id i \<notin> used_invoices t"
proof -
  have pair: "b \<in> set banks" "i \<in> set erp" "\<And>c. c \<in> set banks \<Longrightarrow> exact_pair cfg c i \<Longrightarrow> c = b"
    "\<And>j. j \<in> set erp \<Longrightarrow> exact_pair cfg b j \<Longrightarrow> j = i"
    using assms(1) by (auto simp: only_exact_pair_def)
  have b: "c = b" if "c \<in> set banks" "bank_source_record_id c = bank_source_record_id b" for c
    using that pair(1) assms(2) by (metis inj_onD distinct_map)
  have i: "j = i" if "j \<in> set erp" "inv_invoice_id j = inv_invoice_id i" for j
    using that pair(2) assms(3) by (metis inj_onD distinct_map)
  have one: "res_status r = EXACT_MATCH \<and> names_only r [b] [i] []"
    if r: "rule_sound cfg banks erp gateways EXACT_MATCH r"
      and hit: "bank_source_record_id b \<in> set (res_bank_ids r) \<or> inv_invoice_id i \<in> set (res_invoice_ids r)" for r
  proof -
    from r have st: "res_status r = EXACT_MATCH" and "sound_exact cfg banks erp r"
      by (auto simp: rule_sound_def sound_result_def)
    then obtain c j where cj: "c \<in> set banks" "j \<in> set erp" "names_only r [c] [j] []" "exact_pair cfg c j"
      unfolding sound_exact_def exact_pair_def dec_eq_iff by blast
    with hit b i have "c = b \<or> j = i" by (auto simp: names_only_def)
    with cj pair have "c = b \<and> j = i" by blast
    with cj st show ?thesis by simp
  qed
  show ?thesis
    using posted_used_banks [OF assms(4)] posted_used_invoices [OF assms(4)] assms(5,6) one by blast
qed

lemma filter_eq_single: "distinct xs \<Longrightarrow> x \<in> set xs \<Longrightarrow> filter (\<lambda>y. y = x) xs = [x]"
  by (induction xs) (auto simp: filter_empty_conv)

lemma exact_pass_finds:
  assumes pair: "only_exact_pair cfg banks erp b i" and d: "distinct (bank_ids banks)" "distinct (invoice_ids erp)"
    and free: "bank_source_record_id b \<notin> used_banks s" "inv_invoice_id i \<notin> used_invoices s"
    and run: "fold_err (exact_step cfg banks) erp s = Inr t"
  shows "\<exists>r \<in> set (results t). res_status r = EXACT_MATCH \<and> names_only r [b] [i] []"
proof -
  have i: "i \<in> set erp" and b: "b \<in> set banks" "exact_pair cfg b i"
    and only: "\<And>c. c \<in> set banks \<Longrightarrow> exact_pair cfg c i \<Longrightarrow> c = b"
    using pair unfolding only_exact_pair_def by blast+
  from split_list [OF i] obtain us vs where erp: "erp = us @ i # vs" by blast
  let ?P = "rule_sound cfg banks erp [] EXACT_MATCH"
  have am: "among erp us u" "among erp [i] u" "among erp vs u" for u by (auto simp: among_def erp)
  obtain s1 where s1: "fold_err (exact_step cfg banks) us s = Inr s1" "posted ?P s s1"
    using exact.pass [OF am(1)] by blast
  obtain s2 where s2: "exact_step cfg banks i s1 = Inr s2" "posted ?P s1 s2"
    using exact.pass [OF am(2), of cfg banks s1 "[]"] by (auto simp: and_then_Inr_iff)
  obtain s3 where s3: "fold_err (exact_step cfg banks) vs s2 = Inr s3" "posted ?P s2 s3"
    using exact.pass [OF am(3)] by blast
  have "fold_err (exact_step cfg banks) erp s = Inr s3"
    unfolding erp using s1(1) s2(1) s3(1) by (simp add: fold_err_append)
  then have t: "t = s3" using run by simp
  have grow: "set (results s1) \<subseteq> set (results s2)" "set (results s2) \<subseteq> set (results s3)"
    using posted_results [OF s2(2)] posted_results [OF s3(2)] by auto
  from posted_exact_split [OF pair d s1(2) free]
  consider "\<exists>r \<in> set (results s1). res_status r = EXACT_MATCH \<and> names_only r [b] [i] []"
    | "bank_source_record_id b \<notin> used_banks s1" "inv_invoice_id i \<notin> used_invoices s1" by blast
  then show ?thesis
  proof cases
    case 1
    with t grow show ?thesis by blast
  next
    case 2
    have ref: "referenced cfg s1 c i \<and> dec_eq (bank_amount c) (inv_amount_due i) \<longleftrightarrow>
        bank_source_record_id c \<notin> used_banks s1 \<and> exact_pair cfg c i" for c
      by (simp only: exact_pair_def linked_pair_def referenced_def) blast
    have "referenced cfg s1 c i \<and> dec_eq (bank_amount c) (inv_amount_due i) \<longleftrightarrow> c = b" if "c \<in> set banks" for c
      unfolding ref using only [OF that] b(2) 2(1) by blast
    then have "filter (\<lambda>c. referenced cfg s1 c i \<and> dec_eq (bank_amount c) (inv_amount_due i)) banks = filter (\<lambda>c. c = b) banks"
      by (rule filter_cong [OF refl])
    also have "\<dots> = [b]"
      using b(1) d(1) by (intro filter_eq_single) (simp_all add: distinct_map)
    finally have "inv_invoice_id i \<in> used_invoices s2"
      using 2(2) s2(1) unfolding exact_step_def
      by (simp only: if_False list.case add_result_def and_then_Inr_iff) (auto simp: use_def)
    with posted_exact_split [OF pair d s2(2) 2] t grow show ?thesis by blast
  qed
qed

text \<open>
  C28: an unambiguous exact payment is always recognised: when a bank transaction and an
  invoice are each other's only exact candidate and no repeated bank entry touches them, the
  report has an exact match of just these two.
\<close>

theorem reconcile_finds_exact:
  assumes "distinct (bank_ids bs)" and "distinct (invoice_ids js)" and "distinct (gateway_ids gs)"
    and "only_exact_pair cfg bs js b i" and "untouched_by_duplicates cfg bs b i"
  shows "\<exists>rs. reconcile cfg bs js gs = Inr rs \<and>
     list_ex (\<lambda>r. res_status r = EXACT_MATCH \<and> names_only r [b] [i] []) rs"
proof -
  let ?B = "sorted_banks bs" and ?I = "sorted_invoices js"
  have len: "length (filter P ?B) = length (filter P bs)" for P
    by (metis mset_filter size_mset sorted_inputs(1))
  have pair: "only_exact_pair cfg ?B ?I b i" using assms(4) by (simp add: only_exact_pair_def)
  have free: "untouched_by_duplicates cfg ?B b i"
    using assms(5) by (simp add: untouched_by_duplicates_def repeated_def len)
  have d: "distinct (bank_ids ?B)" "distinct (invoice_ids ?I)" using assms(1,2) by simp_all
  have "\<exists>(s :: engine_state) qs s1 s2. reconcile cfg bs js gs = Inr (results s @ qs) \<and>
       posted (rule_sound cfg ?B ?I (sorted_gateways gs) DUPLICATE) initial_state s1 \<and>
       fold_err (exact_step cfg ?B) ?I s1 = Inr s2 \<and> set (results s2) \<subseteq> set (results s)"
  proof (rule reconcile_run [OF assms(1-3), of cfg])
    fix s :: engine_state and rs qs
    assume "reconcile cfg bs js gs = Inr (results s @ rs @ qs)"
      and "\<exists>s1 s2. posted (rule_sound cfg ?B ?I (sorted_gateways gs) DUPLICATE) initial_state s1 \<and>
         fold_err (exact_step cfg ?B) ?I s1 = Inr s2 \<and> set (results s2) \<subseteq> set (results s)"
    then show ?thesis by blast
  qed
  then obtain s :: engine_state and qs s1 s2 where run: "reconcile cfg bs js gs = Inr (results s @ qs)"
    and s1: "posted (rule_sound cfg ?B ?I (sorted_gateways gs) DUPLICATE) initial_state s1"
    and s2: "fold_err (exact_step cfg ?B) ?I s1 = Inr s2" "set (results s2) \<subseteq> set (results s)"
    by blast
  have "b \<in> set ?B" "i \<in> set ?I" using assms(4) by (simp_all add: only_exact_pair_def)
  from exact_pass_finds [OF pair d duplicates_spare [OF s1 free this d] s2(1)] s2(2)
  have "\<exists>r \<in> set (results s @ qs). res_status r = EXACT_MATCH \<and> names_only r [b] [i] []" by auto
  with run show ?thesis by (simp add: list_ex_iff)
qed

theorem reconcile_finds_exact_witness:
  "\<exists>rs. reconcile default_config [sample_bank ''B1'' ''pays I1'' (Dec 100 0), sample_bank ''B2'' ''x'' (Dec 7 0)]
      [sample_invoice ''I1'' (Dec 10000 (- 2))] [] = Inr rs \<and>
     list_ex (\<lambda>r. res_status r = EXACT_MATCH \<and>
       names_only r [sample_bank ''B1'' ''pays I1'' (Dec 100 0)] [sample_invoice ''I1'' (Dec 10000 (- 2))] []) rs"
proof -
  let ?b = "sample_bank ''B1'' ''pays I1'' (Dec 100 0)" and ?c = "sample_bank ''B2'' ''x'' (Dec 7 0)"
    and ?i = "sample_invoice ''I1'' (Dec 10000 (- 2))"
  have "exact_pair default_config ?b ?i" "\<not> exact_pair default_config ?c ?i"
    "\<not> repeated [?b, ?c] ?b" "\<not> repeated [?b, ?c] ?c"
    by code_simp+
  then have "only_exact_pair default_config [?b, ?c] [?i] ?b ?i"
    "untouched_by_duplicates default_config [?b, ?c] ?b ?i"
    by (auto simp: only_exact_pair_def untouched_by_duplicates_def)
  moreover have "distinct (bank_ids [?b, ?c])" by (simp add: sample_bank_def)
  ultimately show ?thesis using reconcile_finds_exact [of "[?b, ?c]" "[?i]" "[]" default_config ?b ?i] by simp
qed



end
