(* ===== verification/Schema.thy ===== *)
theory Schema
  imports Engine
begin

text \<open>
  The database of \<open>persistence/models.py\<close>: one record type per table, the check
  constraints of a table as a predicate on its rows, and the database as the lists of rows of
  its tables.  Uniqueness and check constraints are enforced where a row is written, as the
  flush of the session does; the error is \<open>IntegrityError\<close>, which the unit of work turns
  into \<open>PersistenceConflictError\<close>.  Columns kept by the database alone (\<open>updated_at\<close>) and the
  lengths of text columns are not modelled.  Instants are stored in UTC.
\<close>

section \<open>Enumerations\<close>

datatype run_status = RUN_PENDING | RUN_RUNNING | RUN_SUCCEEDED | RUN_FAILED

datatype source_type = BANK_TRANSACTIONS | ERP_INVOICES | GATEWAY_SETTLEMENTS

datatype membership_role = OWNER | ADMIN | ANALYST | VIEWER

datatype job_status = QUEUED | RUNNING | SUCCEEDED | FAILED | CANCEL_REQUESTED | CANCELLED

datatype job_priority = LOW | NORMAL | HIGH

datatype job_event_type =
    JOB_QUEUED
  | JOB_CLAIMED
  | JOB_PROGRESS_UPDATED
  | JOB_RETRY_SCHEDULED
  | JOB_MANUAL_RETRY_REQUESTED
  | JOB_CANCELLATION_REQUESTED
  | JOB_CANCELLED
  | JOB_TIMED_OUT
  | JOB_SUCCEEDED
  | JOB_FAILED
  | JOB_RECOVERED

datatype worker_status = WORKER_RUNNING | WORKER_STOPPED

datatype suggestion_status =
  SUGGESTION_PENDING | SUGGESTION_ACCEPTED | SUGGESTION_REJECTED | SUGGESTION_EXPIRED

datatype usage_status = USAGE_RESERVED | USAGE_FINALIZED | USAGE_RELEASED

datatype inference_outcome =
    INFERENCE_REQUESTED
  | INFERENCE_SUCCEEDED
  | INFERENCE_FAILED
  | INFERENCE_TIMED_OUT
  | INFERENCE_DISABLED
  | INFERENCE_QUOTA_REJECTED

section \<open>Rows\<close>

record organization =
  org_id :: uuid
  org_name :: string
  org_slug :: string
  org_is_active :: bool
  org_storage_quota_bytes :: "int option"
  org_storage_used_bytes :: int
  org_hosted_ai_enabled :: bool
  org_ai_daily_request_limit :: int
  org_ai_monthly_request_limit :: int
  org_ai_daily_token_limit :: int
  org_ai_monthly_token_limit :: int
  org_created_at :: instant

definition organization_row_ok :: "organization \<Rightarrow> bool" where
  "organization_row_ok r \<longleftrightarrow>
     strip (org_name r) \<noteq> [] \<and> strip (org_slug r) \<noteq> [] \<and>
     org_slug r = casefold (org_slug r) \<and> CHR '' '' \<notin> set (org_slug r) \<and>
     (case org_storage_quota_bytes r of None \<Rightarrow> True | Some q \<Rightarrow> 0 \<le> q) \<and>
     0 \<le> org_storage_used_bytes r \<and>
     0 \<le> org_ai_daily_request_limit r \<and> 0 \<le> org_ai_monthly_request_limit r \<and>
     0 \<le> org_ai_daily_token_limit r \<and> 0 \<le> org_ai_monthly_token_limit r"

record user =
  user_id :: uuid
  user_email :: string
  user_password_hash :: string
  user_display_name :: "string option"
  user_is_active :: bool
  user_failed_login_attempts :: int
  user_locked_until :: "instant option"
  user_created_at :: instant

text \<open>\<open>email LIKE '_%@_%'\<close>: an at sign with a character before and after it.\<close>

definition has_inner_at :: "string \<Rightarrow> bool" where
  "has_inner_at e \<longleftrightarrow> list_ex (\<lambda>n. e ! n = CHR ''@'') [1 ..< length e - 1]"

definition user_row_ok :: "user \<Rightarrow> bool" where
  "user_row_ok r \<longleftrightarrow>
     3 < length (strip (user_email r)) \<and> user_email r = casefold (strip (user_email r)) \<and>
     has_inner_at (user_email r) \<and> strip (user_password_hash r) \<noteq> [] \<and>
     0 \<le> user_failed_login_attempts r"

record membership =
  mem_id :: uuid
  mem_organization_id :: uuid
  mem_user_id :: uuid
  mem_role :: membership_role
  mem_is_active :: bool
  mem_created_at :: instant

record refresh_token =
  tok_id :: uuid
  tok_user_id :: uuid
  tok_family_id :: uuid
  tok_token_hash :: string
  tok_expires_at :: instant
  tok_revoked_at :: "instant option"
  tok_replaced_by_id :: "uuid option"
  tok_created_at :: instant

definition refresh_token_row_ok :: "refresh_token \<Rightarrow> bool" where
  "refresh_token_row_ok r \<longleftrightarrow> length (tok_token_hash r) = 64 \<and> tok_created_at r < tok_expires_at r"

record run =
  run_id :: uuid
  run_organization_id :: uuid
  run_status :: run_status
  run_started_at :: "instant option"
  run_finished_at :: "instant option"
  run_error_code :: "string option"
  run_error_message :: "string option"
  run_created_at :: instant

text \<open>In SQL a comparison with \<open>NULL\<close> is unknown and an unknown check passes.\<close>

definition run_row_ok :: "run \<Rightarrow> bool" where
  "run_row_ok r \<longleftrightarrow>
     (case (run_started_at r, run_finished_at r) of (Some s, Some f) \<Rightarrow> s \<le> f | _ \<Rightarrow> True)"

record job =
  job_id :: uuid
  job_organization_id :: uuid
  job_run_id :: uuid
  job_status :: job_status
  job_priority :: job_priority
  job_progress_percentage :: int
  job_status_message :: "string option"
  job_attempt_count :: int
  job_total_attempt_count :: int
  job_manual_retry_count :: int
  job_max_attempts :: int
  job_timeout_seconds :: int
  job_deadline_at :: "instant option"
  job_last_manual_retry_at :: "instant option"
  job_scheduled_at :: instant
  job_started_at :: "instant option"
  job_completed_at :: "instant option"
  job_cancellation_requested_at :: "instant option"
  job_retry_at :: "instant option"
  job_claimed_by :: "string option"
  job_heartbeat_at :: "instant option"
  job_failure_code :: "string option"
  job_failure_message :: "string option"
  job_created_at :: instant

definition job_row_ok :: "job \<Rightarrow> bool" where
  "job_row_ok r \<longleftrightarrow>
     0 \<le> job_progress_percentage r \<and> job_progress_percentage r \<le> 100 \<and>
     0 \<le> job_attempt_count r \<and> 0 \<le> job_total_attempt_count r \<and> 0 \<le> job_manual_retry_count r \<and>
     1 \<le> job_max_attempts r \<and> 30 \<le> job_timeout_seconds r \<and>
     job_attempt_count r \<le> job_max_attempts r \<and>
     (case (job_completed_at r, job_started_at r) of (Some c, Some s) \<Rightarrow> s \<le> c | _ \<Rightarrow> True)"

record job_event =
  ev_id :: uuid
  ev_organization_id :: uuid
  ev_job_id :: uuid
  ev_sequence_number :: int
  ev_event_type :: job_event_type
  ev_occurred_at :: instant
  ev_details :: "(string \<times> json) list"

record worker =
  wk_worker_id :: string
  wk_status :: worker_status
  wk_started_at :: instant
  wk_heartbeat_at :: instant
  wk_stopped_at :: "instant option"

record source_file =
  file_id :: uuid
  file_run_id :: uuid
  file_source_type :: source_type
  file_original_filename :: string
  file_content_type :: "string option"
  file_checksum_sha256 :: string
  file_size_bytes :: int
  file_row_count :: "int option"
  file_storage_key :: "string option"
  file_created_at :: instant

definition source_file_row_ok :: "source_file \<Rightarrow> bool" where
  "source_file_row_ok r \<longleftrightarrow>
     0 \<le> file_size_bytes r \<and> (case file_row_count r of None \<Rightarrow> True | Some n \<Rightarrow> 0 \<le> n)"

record configuration =
  cfg_id :: uuid
  cfg_run_id :: uuid
  cfg_amount_tolerance :: decimal
  cfg_date_tolerance_days :: int
  cfg_settings :: "(string \<times> json) list"
  cfg_created_at :: instant

definition configuration_row_ok :: "configuration \<Rightarrow> bool" where
  "configuration_row_ok r \<longleftrightarrow> dec_zero \<le> cfg_amount_tolerance r \<and> 0 \<le> cfg_date_tolerance_days r"

record suggestion =
  sug_id :: uuid
  sug_organization_id :: uuid
  sug_run_id :: uuid
  sug_status :: suggestion_status
  sug_confidence_score :: decimal
  sug_candidate_fingerprint :: string
  sug_bank_record_ids :: "string list"
  sug_erp_invoice_ids :: "string list"
  sug_gateway_record_ids :: "string list"
  sug_explanation :: "(string \<times> json) list"
  sug_features :: "(string \<times> json) list"
  sug_provider :: string
  sug_model_version :: string
  sug_prompt_template_version :: string
  sug_inference_config_version :: string
  sug_reviewed_by_user_id :: "uuid option"
  sug_reviewed_at :: "instant option"
  sug_expires_at :: "instant option"
  sug_created_at :: instant

definition suggestion_row_ok :: "suggestion \<Rightarrow> bool" where
  "suggestion_row_ok r \<longleftrightarrow>
     dec_zero \<le> sug_confidence_score r \<and> sug_confidence_score r \<le> Dec 1 0 \<and>
     length (sug_candidate_fingerprint r) = 64 \<and>
     strip (sug_provider r) \<noteq> [] \<and> strip (sug_model_version r) \<noteq> [] \<and>
     strip (sug_prompt_template_version r) \<noteq> [] \<and> strip (sug_inference_config_version r) \<noteq> [] \<and>
     (case sug_expires_at r of None \<Rightarrow> True | Some e \<Rightarrow> sug_created_at r < e) \<and>
     (sug_reviewed_by_user_id r = None \<longleftrightarrow> sug_reviewed_at r = None) \<and>
     (sug_status r \<in> {SUGGESTION_ACCEPTED, SUGGESTION_REJECTED} \<longrightarrow> sug_reviewed_by_user_id r \<noteq> None)"

record ai_usage =
  use_id :: uuid
  use_organization_id :: uuid
  use_run_id :: uuid
  use_status :: usage_status
  use_provider :: string
  use_model_version :: string
  use_reserved_requests :: int
  use_reserved_tokens :: int
  use_input_tokens :: int
  use_output_tokens :: int
  use_candidate_count :: int
  use_expires_at :: instant
  use_finalized_at :: "instant option"
  use_released_at :: "instant option"
  use_created_at :: instant

definition ai_usage_row_ok :: "ai_usage \<Rightarrow> bool" where
  "ai_usage_row_ok r \<longleftrightarrow>
     use_reserved_requests r = 1 \<and> 0 \<le> use_reserved_tokens r \<and> 0 \<le> use_input_tokens r \<and>
     0 \<le> use_output_tokens r \<and> 0 \<le> use_candidate_count r"

record inference_event =
  inf_id :: uuid
  inf_organization_id :: uuid
  inf_run_id :: uuid
  inf_outcome :: inference_outcome
  inf_provider :: string
  inf_model_version :: string
  inf_prompt_version :: string
  inf_inference_config_version :: string
  inf_candidate_count :: int
  inf_suggestion_count :: int
  inf_input_tokens :: int
  inf_output_tokens :: int
  inf_duration_ms :: "int option"
  inf_error_code :: "string option"
  inf_completed_at :: "instant option"
  inf_created_at :: instant

definition inference_event_row_ok :: "inference_event \<Rightarrow> bool" where
  "inference_event_row_ok r \<longleftrightarrow>
     0 \<le> inf_candidate_count r \<and> 0 \<le> inf_suggestion_count r \<and> 0 \<le> inf_input_tokens r \<and>
     0 \<le> inf_output_tokens r \<and> (case inf_duration_ms r of None \<Rightarrow> True | Some d \<Rightarrow> 0 \<le> d)"

record result_row =
  rr_id :: uuid
  rr_run_id :: uuid
  rr_result :: reconciliation_result
  rr_created_at :: instant

definition result_row_ok :: "result_row \<Rightarrow> bool" where
  "result_row_ok r \<longleftrightarrow>
     (case res_amount_difference (rr_result r) of None \<Rightarrow> True | Some d \<Rightarrow> dec_zero \<le> d) \<and>
     (case res_currency (rr_result r) of None \<Rightarrow> True | Some c \<Rightarrow> length c = 3)"

record audit_row =
  aud_id :: uuid
  aud_run_id :: uuid
  aud_sequence_number :: int
  aud_event_type :: string
  aud_occurred_at :: instant
  aud_details :: "(string \<times> json) list"

record security_event =
  sec_id :: uuid
  sec_organization_id :: uuid
  sec_actor_user_id :: uuid
  sec_event_type :: string
  sec_occurred_at :: instant
  sec_details :: "(string \<times> json) list"

record db =
  organizations :: "organization list"
  users :: "user list"
  memberships :: "membership list"
  refresh_tokens :: "refresh_token list"
  runs :: "run list"
  jobs :: "job list"
  job_events :: "job_event list"
  workers :: "worker list"
  source_files :: "source_file list"
  configurations :: "configuration list"
  suggestions :: "suggestion list"
  ai_usages :: "ai_usage list"
  inference_events :: "inference_event list"
  result_rows :: "result_row list"
  audit_rows :: "audit_row list"
  security_events :: "security_event list"

definition empty_db :: db where
  "empty_db =
   \<lparr> organizations = [], users = [], memberships = [], refresh_tokens = [], runs = [], jobs = [],
     job_events = [], workers = [], source_files = [], configurations = [], suggestions = [],
     ai_usages = [], inference_events = [], result_rows = [], audit_rows = [], security_events = [] \<rparr>"

section \<open>Reading and writing rows\<close>

type_synonym 'a db_action = "db \<Rightarrow> ('a \<times> db) outcome"

definition put_row :: "('r \<Rightarrow> 'k) \<Rightarrow> 'r \<Rightarrow> 'r list \<Rightarrow> 'r list" where
  "put_row key r rows = map (\<lambda>x. if key x = key r then r else x) rows"

text \<open>A lookup restricted to one tenant; rows of other tenants are not found.\<close>

definition scoped_get :: "('r \<Rightarrow> uuid) \<Rightarrow> ('r \<Rightarrow> uuid) \<Rightarrow> uuid \<Rightarrow> uuid \<Rightarrow> 'r list \<Rightarrow> 'r outcome" where
  "scoped_get key org i t rows =
     (case find (\<lambda>r. key r = i \<and> org r = t) rows of
        None \<Rightarrow> Inl RecordNotFoundError
      | Some r \<Rightarrow> Inr r)"

text \<open>\<open>persistence.repositories._utc\<close>, and its use on an optional timestamp.\<close>

definition utc :: "datetime \<Rightarrow> instant outcome" where
  "utc d = (case utc_offset d of
     None \<Rightarrow> Inl (ValueError ''timestamps must include timezone information'')
   | Some o' \<Rightarrow> Inr (wall d - o'))"

definition utc_or :: "instant \<Rightarrow> datetime option \<Rightarrow> instant outcome" where
  "utc_or now at_time = (case at_time of None \<Rightarrow> Inr now | Some d \<Rightarrow> utc d)"

text \<open>\<open>Page\<close>: validated offset pagination.\<close>

record page =
  page_limit :: int
  page_offset :: int

definition page_post_init :: "page \<Rightarrow> page outcome" where
  "page_post_init p =
     (if \<not> (1 \<le> page_limit p \<and> page_limit p \<le> 100) then Inl (ValueError ''limit must be between 1 and 100'')
      else if page_offset p < 0 then Inl (ValueError ''offset must be a non-negative integer'')
      else Inr p)"

definition paginate :: "page \<Rightarrow> 'r list \<Rightarrow> 'r list" where
  "paginate p rows = take (nat (page_limit p)) (drop (nat (page_offset p)) rows)"

text \<open>
  \<open>PersistenceUnitOfWork\<close>: the body's changes are committed together when it returns; any
  exception rolls all of them back, and a violated constraint surfaces as a conflict.
\<close>

definition unit_of_work :: "'a db_action \<Rightarrow> db \<Rightarrow> 'a outcome \<times> db" where
  "unit_of_work body db =
     (case body db of
        Inr (x, db') \<Rightarrow> (Inr x, db')
      | Inl IntegrityError \<Rightarrow> (Inl PersistenceConflictError, db)
      | Inl e \<Rightarrow> (Inl e, db))"

section \<open>Facts about rows\<close>

lemma put_row_keys [simp]: "map key (put_row key r rows) = map key rows"
  by (simp add: put_row_def comp_def)

lemma put_row_length [simp]: "length (put_row key r rows) = length rows"
  by (simp add: put_row_def)

lemma set_put_row: "set (put_row key r rows) \<subseteq> insert r (set rows)"
  by (auto simp: put_row_def)

lemma in_put_row:
  "x \<in> set (put_row key r rows) \<Longrightarrow> x = r \<and> (\<exists>y \<in> set rows. key y = key r) \<or> x \<in> set rows \<and> key x \<noteq> key r"
  by (auto simp: put_row_def split: if_splits)

lemma put_row_member: "y \<in> set rows \<Longrightarrow> key y = key r \<Longrightarrow> r \<in> set (put_row key r rows)"
  by (auto simp: put_row_def)

lemma put_row_other:
  "x \<in> set rows \<Longrightarrow> key x \<noteq> key r \<Longrightarrow> x \<in> set (put_row key r rows)"
  by (auto simp: put_row_def)

lemma put_row_filter:
  assumes "\<And>x. x \<in> set rows \<Longrightarrow> key x = key r \<Longrightarrow> \<not> P x" and "\<not> P r"
  shows "filter P (put_row key r rows) = filter P rows"
  using assms by (induction rows) (auto simp: put_row_def)

lemma scoped_get_Inr:
  "scoped_get key org i t rows = Inr r \<Longrightarrow> r \<in> set rows \<and> key r = i \<and> org r = t"
  by (auto simp: scoped_get_def find_Some_iff split: option.splits)

lemma scoped_get_Inl:
  "scoped_get key org i t rows = Inl e \<longleftrightarrow> e = RecordNotFoundError \<and> (\<forall>r \<in> set rows. key r = i \<longrightarrow> org r \<noteq> t)"
  by (auto simp: scoped_get_def find_None_iff split: option.splits) (auto simp: find_Some_iff)

lemma scoped_get_unique:
  assumes "distinct (map key rows)" and "r \<in> set rows"
  shows "scoped_get key org (key r) t rows = (if org r = t then Inr r else Inl RecordNotFoundError)"
proof -
  have "x = r" if "x \<in> set rows" "key x = key r" for x
    using that assms by (metis distinct_map inj_onD)
  then show ?thesis using assms(2)
    by (cases "scoped_get key org (key r) t rows")
       (auto dest: scoped_get_Inr simp: scoped_get_Inl)
qed

lemma unit_of_work_cases:
  obtains x db' where "body db = Inr (x, db')" "unit_of_work body db = (Inr x, db')"
    | e e' where "body db = Inl e" "unit_of_work body db = (Inl e', db)"
proof (cases "body db")
  case (Inl e)
  then obtain e' where "unit_of_work body db = (Inl e', db)"
    by (cases e) (simp_all add: unit_of_work_def)
  with Inl show ?thesis by (rule that(2))
next
  case (Inr p)
  then show ?thesis using that(1) by (cases p) (simp add: unit_of_work_def)
qed

lemma unit_of_work_error_keeps: "fst (unit_of_work body db) = Inl e \<Longrightarrow> snd (unit_of_work body db) = db"
  by (rule unit_of_work_cases [of body db]) auto

lemma unit_of_work_ok: "fst (unit_of_work body db) = Inr x \<Longrightarrow> body db = Inr (x, snd (unit_of_work body db))"
  by (rule unit_of_work_cases [of body db]) auto

lemma unit_of_work_committed: "unit_of_work body db = (Inr x, db') \<Longrightarrow> body db = Inr (x, db')"
  using unit_of_work_ok [of body db x] by simp

lemma unit_of_work_failed: "unit_of_work body db = (Inl e, s) \<Longrightarrow> s = db"
  using unit_of_work_error_keeps by (metis fst_conv snd_conv)

lemma unit_of_work_preserves:
  "P db \<Longrightarrow> (\<And>x db'. body db = Inr (x, db') \<Longrightarrow> P db') \<Longrightarrow> P (snd (unit_of_work body db))"
  by (rule unit_of_work_cases [of body db]) auto

text \<open>
  A table whose rows belong to tenants: writing back a row found under one tenant, with its
  key and tenant unchanged, leaves the rows of every other tenant as they were.
\<close>

locale tenant_table =
  fixes rows :: "db \<Rightarrow> 'r list" and with_rows :: "'r list \<Rightarrow> db \<Rightarrow> db"
    and key :: "'r \<Rightarrow> uuid" and tenant :: "'r \<Rightarrow> uuid"
  assumes rows_with: "rows (with_rows rs db) = rs"
begin

lemma others_kept:
  assumes "distinct (map key (rows db))" and "scoped_get key tenant i t (rows db) = Inr r"
    and "key r' = key r" and "tenant r' = tenant r"
  shows "filter (\<lambda>x. tenant x \<noteq> t) (rows (with_rows (put_row key r' (rows db)) db)) =
    filter (\<lambda>x. tenant x \<noteq> t) (rows db)"
proof -
  from assms(2) have r: "r \<in> set (rows db)" "key r = i" "tenant r = t" by (auto dest: scoped_get_Inr)
  have "x = r" if "x \<in> set (rows db)" "key x = key r'" for x
    using that r assms(1,3) by (metis distinct_map inj_onD)
  with r assms(4) have "filter (\<lambda>x. tenant x \<noteq> t) (put_row key r' (rows db)) = filter (\<lambda>x. tenant x \<noteq> t) (rows db)"
    by (intro put_row_filter) auto
  then show ?thesis by (simp add: rows_with)
qed

lemma foreign_not_found:
  assumes "distinct (map key (rows db))" and "r \<in> set (rows db)" and "tenant r \<noteq> t"
  shows "scoped_get key tenant (key r) t (rows db) = Inl RecordNotFoundError"
  using scoped_get_unique [OF assms(1,2)] assms(3) by simp

end

interpretation job_table: tenant_table jobs "\<lambda>rs db. db \<lparr> jobs := rs \<rparr>" job_id job_organization_id
  by unfold_locales simp

interpretation suggestion_table:
  tenant_table suggestions "\<lambda>rs db. db \<lparr> suggestions := rs \<rparr>" sug_id sug_organization_id
  by unfold_locales simp

interpretation usage_table: tenant_table ai_usages "\<lambda>rs db. db \<lparr> ai_usages := rs \<rparr>" use_id use_organization_id
  by unfold_locales simp

interpretation membership_table:
  tenant_table memberships "\<lambda>rs db. db \<lparr> memberships := rs \<rparr>" mem_id mem_organization_id
  by unfold_locales simp

interpretation run_table: tenant_table runs "\<lambda>rs db. db \<lparr> runs := rs \<rparr>" run_id run_organization_id
  by unfold_locales simp

end
