(* ===== verification/Identifiers.thy ===== *)
theory Identifiers
  imports Schema
begin

text \<open>
  Identifiers as text: \<open>uuid.UUID(text)\<close> of the standard library, which reads the
  \<open>X-Organization-ID\<close> header and the claims of a token, and its inverse \<open>str(id)\<close>.
\<close>

definition hex_value :: "char \<Rightarrow> nat option" where
  "hex_value c =
     (let n = of_char c :: nat in
      if is_digit c then Some (n - 48)
      else if 97 \<le> n \<and> n \<le> 102 then Some (n - 87)
      else if 65 \<le> n \<and> n \<le> 70 then Some (n - 55)
      else None)"

text \<open>Digits of \<open>int(text, 16)\<close>: single underscores may stand between two of them.\<close>

fun hex_run :: "bool \<Rightarrow> nat \<Rightarrow> string \<Rightarrow> nat option" where
  "hex_run after_digit acc [] = (if after_digit then Some acc else None)"
| "hex_run after_digit acc (c # cs) =
     (if c = CHR ''_'' then (if after_digit then hex_run False acc cs else None)
      else case hex_value c of None \<Rightarrow> None | Some d \<Rightarrow> hex_run True (16 * acc + d) cs)"

text \<open>\<open>int(text, 16)\<close> of a text without a minus sign.\<close>

definition hex_int :: "string \<Rightarrow> nat option" where
  "hex_int s =
     (let t = strip s;
          body = (if starts_with ''+'' t then tl t else t)
      in if starts_with ''0x'' body \<or> starts_with ''0X'' body
         then (if starts_with ''_'' (drop 2 body) then hex_run False 0 (drop 3 body) else hex_run False 0 (drop 2 body))
         else hex_run False 0 body)"

text \<open>\<open>text.replace(old, "")\<close>.\<close>

fun remove_all :: "string \<Rightarrow> string \<Rightarrow> string" where
  "remove_all old [] = []"
| "remove_all old (c # cs) =
     (if old \<noteq> [] \<and> starts_with old (c # cs) then remove_all old (drop (length old - 1) cs)
      else c # remove_all old cs)"

definition strip_chars :: "string \<Rightarrow> string \<Rightarrow> string" where
  "strip_chars cs s =
     rev (dropWhile (\<lambda>c. c \<in> set cs) (rev (dropWhile (\<lambda>c. c \<in> set cs) s)))"

definition uuid_of_text :: "string \<Rightarrow> uuid outcome" where
  "uuid_of_text s =
     (let h = remove_all ''-'' (strip_chars ''{}'' (remove_all ''uuid:'' (remove_all ''urn:'' s))) in
      if length h \<noteq> 32 then Inl (ValueError ''badly formed hexadecimal UUID string'')
      else case hex_int h of
          None \<Rightarrow> Inl (ValueError ''invalid literal for int() with base 16'')
        | Some n \<Rightarrow> Inr n)"

section \<open>The text of an identifier is read back\<close>

definition is_hex :: "char \<Rightarrow> bool" where
  "is_hex c \<longleftrightarrow> c \<in> set ''0123456789abcdef''"

lemma all_below_16: "(\<And>d. d \<in> set [0 ..< 16] \<Longrightarrow> P d) \<Longrightarrow> d < 16 \<Longrightarrow> P (d :: nat)"
  by simp

lemma hex_digit_facts:
  assumes "d < 16"
  shows "is_hex (hex_digit d)" and "hex_value (hex_digit d) = Some d"
proof -
  have "list_all (\<lambda>d. is_hex (hex_digit d) \<and> hex_value (hex_digit d) = Some d) [0 ..< 16]"
    by code_simp
  with assms show "is_hex (hex_digit d)" and "hex_value (hex_digit d) = Some d"
    by (auto simp: list_all_iff)
qed

lemma hex_digits_hex: "c \<in> set (hex_digits k n) \<Longrightarrow> is_hex c"
  by (induction k arbitrary: n) (auto simp: hex_digit_facts)

lemma is_hexD:
  assumes "is_hex c"
  shows "\<not> is_space c" "c \<noteq> CHR ''-''" "c \<noteq> CHR ''+''" "c \<noteq> CHR ''_''" "c \<noteq> CHR ''x''" "c \<noteq> CHR ''X''"
    "c \<noteq> CHR ''u''" "c \<noteq> CHR ''{''" "c \<noteq> CHR ''}''"
  using assms by (auto simp: is_hex_def is_space_def Let_def)

lemma remove_all_id: "hd old \<notin> set s \<Longrightarrow> old \<noteq> [] \<Longrightarrow> remove_all old s = s"
proof (induction old s rule: remove_all.induct)
  case (2 old c cs)
  then have "\<not> starts_with old (c # cs)" by (cases old) auto
  with 2 show ?case by simp
qed simp

lemma remove_char: "remove_all [c] s = filter (\<lambda>x. x \<noteq> c) s"
  by (induction s) auto

lemma strip_chars_id: "(\<And>c. c \<in> set s \<Longrightarrow> c \<notin> set cs) \<Longrightarrow> strip_chars cs s = s"
proof -
  assume *: "\<And>c. c \<in> set s \<Longrightarrow> c \<notin> set cs"
  have keep: "dropWhile (\<lambda>c. c \<in> set cs) t = t" if "set t \<subseteq> set s" for t
    using that * by (cases t) auto
  show ?thesis by (simp add: strip_chars_def keep)
qed

lemma hex_run_digits: "hex_run True acc (hex_digits k n) = Some (acc * 16 ^ k + n mod 16 ^ k)"
  and hex_run_append: "hex_run True acc (hex_digits k n @ s) = hex_run True (acc * 16 ^ k + n mod 16 ^ k) s"
proof -
  have step: "hex_run True acc (hex_digits k n @ s) = hex_run True (acc * 16 ^ k + n mod 16 ^ k) s" for acc k n s
  proof (induction k arbitrary: n s)
    case (Suc k)
    have "hex_digit (n mod 16) \<noteq> CHR ''_''" using is_hexD [OF hex_digit_facts(1) [of "n mod 16"]] by simp
    moreover have "16 * (acc * 16 ^ k + n div 16 mod 16 ^ k) + n mod 16 = acc * 16 ^ Suc k + n mod 16 ^ Suc k"
      by (simp add: mod_mult2_eq algebra_simps)
    moreover have "hex_value (hex_digit (n mod 16)) = Some (n mod 16)" by (simp add: hex_digit_facts)
    ultimately show ?case
      by (simp only: hex_digits.simps append.simps append_assoc Suc.IH hex_run.simps(2) if_False option.case)
  qed simp
  show "hex_run True acc (hex_digits k n @ s) = hex_run True (acc * 16 ^ k + n mod 16 ^ k) s" by (rule step)
  show "hex_run True acc (hex_digits k n) = Some (acc * 16 ^ k + n mod 16 ^ k)"
    using step [of acc k n "[]"] by simp
qed

lemma hex_run_start: "s \<noteq> [] \<Longrightarrow> (\<And>c. c \<in> set s \<Longrightarrow> c \<noteq> CHR ''_'') \<Longrightarrow> hex_run False acc s = hex_run True acc s"
  by (cases s) auto

lemma hex_int_digits:
  assumes "0 < k" and "n < 16 ^ k"
  shows "hex_int (hex_digits k n) = Some n"
proof -
  let ?s = "hex_digits k n"
  have ne: "?s \<noteq> []" using assms(1) by (metis hex_digits_length list.size(3) less_irrefl)
  have hex: "is_hex c" if "c \<in> set ?s" for c using that by (rule hex_digits_hex)
  have keep: "dropWhile is_space t = t" if "set t \<subseteq> set ?s" for t
    using that hex is_hexD(1) by (cases t) auto
  have strip: "strip ?s = ?s" by (simp add: strip_def keep)
  have plus: "\<not> starts_with ''+'' ?s" using ne hex is_hexD(3) by (cases ?s) auto
  have prefix: "\<not> starts_with ''0x'' ?s" "\<not> starts_with ''0X'' ?s"
    using hex is_hexD(5,6) by (cases ?s; cases "tl ?s"; force)+
  have "hex_run False 0 ?s = hex_run True 0 ?s"
    using ne hex is_hexD(4) by (intro hex_run_start) blast+
  also have "\<dots> = Some n" using assms(2) by (simp add: hex_run_digits)
  finally show ?thesis using strip plus prefix by (simp add: hex_int_def Let_def)
qed

lemma uuid_text_chars: "c \<in> set (uuid_text i) \<Longrightarrow> is_hex c \<or> c = CHR ''-''"
  unfolding uuid_text_def Let_def
  by (auto dest!: in_set_takeD in_set_dropD intro: hex_digits_hex)

lemma uuid_text_digits: "filter (\<lambda>x. x \<noteq> CHR ''-'') (uuid_text i) = hex_digits 32 i"
proof -
  let ?h = "hex_digits 32 i"
  have keep: "filter (\<lambda>x. x \<noteq> CHR ''-'') t = t" if "set t \<subseteq> set ?h" for t
    using that hex_digits_hex is_hexD(2) by (intro filter_True) blast
  have sub: "set (take a (drop b ?h)) \<subseteq> set ?h" "set (take a ?h) \<subseteq> set ?h" "set (drop b ?h) \<subseteq> set ?h" for a b
    by (meson set_take_subset set_drop_subset subset_trans)+
  have "filter (\<lambda>x. x \<noteq> CHR ''-'') (uuid_text i) =
      take 8 ?h @ take 4 (drop 8 ?h) @ take 4 (drop 12 ?h) @ take 4 (drop 16 ?h) @ drop 20 ?h"
    by (simp only: uuid_text_def Let_def filter_append keep sub) simp
  then show ?thesis by (simp only: chunks)
qed

lemma uuid_of_text_uuid_text: "i < 2 ^ 128 \<Longrightarrow> uuid_of_text (uuid_text i) = Inr i"
proof -
  assume i: "i < 2 ^ 128"
  have no: "c \<notin> set (uuid_text i)" if "c \<in> {CHR ''u'', CHR ''{'', CHR ''}''}" for c
    using that uuid_text_chars [of c i] is_hexD(7-9) [of c] by fastforce
  have "remove_all ''urn:'' (uuid_text i) = uuid_text i" "remove_all ''uuid:'' (uuid_text i) = uuid_text i"
    using no by (simp_all add: remove_all_id)
  moreover have "strip_chars ''{}'' (uuid_text i) = uuid_text i"
    using no by (intro strip_chars_id) auto
  moreover have "(2 :: nat) ^ 128 = 16 ^ 32" by simp
  ultimately show ?thesis
    using i hex_int_digits [of 32 i] by (simp only: uuid_of_text_def Let_def remove_char uuid_text_digits hex_digits_length) simp
qed

end
