(* ===== verification/Tenancy.thy ===== *)
theory Tenancy
  imports Identifiers
begin

text \<open>
  Organizations, users, memberships and the security trail of \<open>persistence/repositories.py\<close>,
  the tenant context of \<open>api/auth_dependencies.py\<close> and the routes that manage an organization
  and its members.  Identifiers drawn by \<open>uuid4\<close> and the time of a flush are arguments.  A
  route is a task on the database: its checks may raise before a unit of work starts, and a
  unit of work commits or rolls back as a whole.
\<close>

section \<open>\<open>OrganizationRepository\<close>\<close>

definition insert_organization :: "organization \<Rightarrow> organization db_action" where
  "insert_organization r db =
     (if organization_row_ok r \<and> org_id r \<notin> set (map org_id (organizations db)) \<and>
         org_slug r \<notin> set (map org_slug (organizations db))
      then Inr (r, db \<lparr> organizations := organizations db @ [r] \<rparr>)
      else Inl IntegrityError)"

definition create_organization ::
  "instant \<Rightarrow> uuid \<Rightarrow> string \<Rightarrow> string \<Rightarrow> int option \<Rightarrow> organization db_action" where
  "create_organization now oid name slug quota =
     insert_organization
       \<lparr> org_id = oid, org_name = strip name, org_slug = slug, org_is_active = True,
         org_storage_quota_bytes = quota, org_storage_used_bytes = 0,
         org_hosted_ai_enabled = False, org_ai_daily_request_limit = 100,
         org_ai_monthly_request_limit = 1000, org_ai_daily_token_limit = 100000,
         org_ai_monthly_token_limit = 1000000, org_created_at = now \<rparr>"

definition slug_exists :: "string \<Rightarrow> db \<Rightarrow> bool" where
  "slug_exists slug db \<longleftrightarrow> list_ex (\<lambda>r. org_slug r = slug) (organizations db)"

definition get_organization :: "uuid \<Rightarrow> db \<Rightarrow> organization outcome" where
  "get_organization oid db =
     (case find (\<lambda>r. org_id r = oid) (organizations db) of
        None \<Rightarrow> Inl RecordNotFoundError | Some r \<Rightarrow> Inr r)"

definition save_organization :: "organization \<Rightarrow> organization db_action" where
  "save_organization r db =
     (if organization_row_ok r
      then Inr (r, db \<lparr> organizations := put_row org_id r (organizations db) \<rparr>)
      else Inl IntegrityError)"

definition update_name :: "organization \<Rightarrow> string \<Rightarrow> organization db_action" where
  "update_name r name = save_organization (r \<lparr> org_name := strip name \<rparr>)"

definition update_storage_quota :: "organization \<Rightarrow> int option \<Rightarrow> organization db_action" where
  "update_storage_quota r quota db =
     and_then (guard_else (case quota of None \<Rightarrow> True | Some q \<Rightarrow> org_storage_used_bytes r \<le> q)
       StorageQuotaExceededError) (\<lambda>_.
     save_organization (r \<lparr> org_storage_quota_bytes := quota \<rparr>) db)"

definition apply_storage_delta :: "uuid \<Rightarrow> int \<Rightarrow> organization db_action" where
  "apply_storage_delta oid delta db =
     and_then (get_organization oid db) (\<lambda>r.
     let updated = max 0 (org_storage_used_bytes r + delta) in
     and_then (guard_else (case org_storage_quota_bytes r of None \<Rightarrow> True | Some q \<Rightarrow> updated \<le> q)
       StorageQuotaExceededError) (\<lambda>_.
     save_organization (r \<lparr> org_storage_used_bytes := updated \<rparr>) db))"

definition list_ids :: "db \<Rightarrow> uuid list" where
  "list_ids db = map org_id (organizations db)"

section \<open>\<open>UserRepository\<close>\<close>

definition insert_user :: "user \<Rightarrow> user db_action" where
  "insert_user r db =
     (if user_row_ok r \<and> user_id r \<notin> set (map user_id (users db)) \<and>
         user_email r \<notin> set (map user_email (users db))
      then Inr (r, db \<lparr> users := users db @ [r] \<rparr>)
      else Inl IntegrityError)"

definition create_user :: "instant \<Rightarrow> uuid \<Rightarrow> string \<Rightarrow> string \<Rightarrow> string option \<Rightarrow> user db_action" where
  "create_user now uid email password_hash display_name =
     insert_user
       \<lparr> user_id = uid, user_email = email, user_password_hash = password_hash,
         user_display_name = (case display_name of
             None \<Rightarrow> None | Some d \<Rightarrow> if d = [] then None else Some (strip d)),
         user_is_active = True, user_failed_login_attempts = 0, user_locked_until = None,
         user_created_at = now \<rparr>"

definition get_by_email :: "string \<Rightarrow> db \<Rightarrow> user option" where
  "get_by_email email db = find (\<lambda>r. user_email r = email) (users db)"

definition get_user :: "uuid \<Rightarrow> db \<Rightarrow> user option" where
  "get_user uid db = find (\<lambda>r. user_id r = uid) (users db)"

definition email_exists :: "string \<Rightarrow> db \<Rightarrow> bool" where
  "email_exists email db \<longleftrightarrow> list_ex (\<lambda>r. user_email r = email) (users db)"

definition save_user :: "user \<Rightarrow> user db_action" where
  "save_user r db =
     (if user_row_ok r then Inr (r, db \<lparr> users := put_row user_id r (users db) \<rparr>) else Inl IntegrityError)"

definition update_password :: "user \<Rightarrow> string \<Rightarrow> user db_action" where
  "update_password r password_hash = save_user (r \<lparr> user_password_hash := password_hash \<rparr>)"

text \<open>The answer says whether the account is now locked; the row is handed back with it.\<close>

definition record_failed_login :: "user \<Rightarrow> int \<Rightarrow> datetime \<Rightarrow> (bool \<times> user) db_action" where
  "record_failed_login r threshold locked_until db =
     (let r1 = r \<lparr> user_failed_login_attempts := user_failed_login_attempts r + 1 \<rparr>;
          newly_locked = threshold \<le> user_failed_login_attempts r1
      in and_then (if newly_locked then and_then (utc locked_until) (\<lambda>t. Inr (r1 \<lparr> user_locked_until := Some t \<rparr>))
           else Inr r1) (\<lambda>r2.
         and_then (save_user r2 db) (\<lambda>(r3, db'). Inr ((newly_locked, r3), db'))))"

definition reset_login_protection :: "user \<Rightarrow> user db_action" where
  "reset_login_protection r db =
     (if user_failed_login_attempts r \<noteq> 0 \<or> user_locked_until r \<noteq> None
      then save_user (r \<lparr> user_failed_login_attempts := 0, user_locked_until := None \<rparr>) db
      else Inr (r, db))"

section \<open>\<open>OrganizationMembershipRepository\<close>\<close>

definition insert_membership :: "membership \<Rightarrow> membership db_action" where
  "insert_membership r db =
     (if mem_id r \<notin> set (map mem_id (memberships db)) \<and>
         (mem_organization_id r, mem_user_id r) \<notin>
           set (map (\<lambda>m. (mem_organization_id m, mem_user_id m)) (memberships db)) \<and>
         mem_organization_id r \<in> set (map org_id (organizations db)) \<and>
         mem_user_id r \<in> set (map user_id (users db))
      then Inr (r, db \<lparr> memberships := memberships db @ [r] \<rparr>)
      else Inl IntegrityError)"

definition create_membership :: "instant \<Rightarrow> uuid \<Rightarrow> uuid \<Rightarrow> uuid \<Rightarrow> membership_role \<Rightarrow> membership db_action" where
  "create_membership now mid oid uid role =
     insert_membership
       \<lparr> mem_id = mid, mem_organization_id = oid, mem_user_id = uid, mem_role = role,
         mem_is_active = True, mem_created_at = now \<rparr>"

definition by_creation :: "membership list \<Rightarrow> membership list" where
  "by_creation = sort_key (\<lambda>m. (mem_created_at m, mem_id m))"

definition list_for_user :: "uuid \<Rightarrow> db \<Rightarrow> membership list" where
  "list_for_user uid db = by_creation (filter (\<lambda>m. mem_user_id m = uid) (memberships db))"

text \<open>\<open>membership.organization.is_active\<close>; the foreign key guarantees the organization.\<close>

definition organization_active :: "uuid \<Rightarrow> db \<Rightarrow> bool" where
  "organization_active oid db \<longleftrightarrow> list_ex (\<lambda>r. org_id r = oid \<and> org_is_active r) (organizations db)"

definition get_active :: "uuid \<Rightarrow> uuid \<Rightarrow> db \<Rightarrow> membership option" where
  "get_active oid uid db =
     find (\<lambda>m. mem_organization_id m = oid \<and> mem_user_id m = uid \<and> mem_is_active m \<and>
               organization_active (mem_organization_id m) db) (memberships db)"

definition get_membership :: "uuid \<Rightarrow> uuid \<Rightarrow> db \<Rightarrow> membership outcome" where
  "get_membership mid oid db = scoped_get mem_id mem_organization_id mid oid (memberships db)"

definition get_for_user :: "uuid \<Rightarrow> uuid \<Rightarrow> db \<Rightarrow> membership option" where
  "get_for_user oid uid db =
     find (\<lambda>m. mem_organization_id m = oid \<and> mem_user_id m = uid) (memberships db)"

definition list_for_organization :: "uuid \<Rightarrow> db \<Rightarrow> membership list" where
  "list_for_organization oid db = by_creation (filter (\<lambda>m. mem_organization_id m = oid) (memberships db))"

definition active_owner :: "uuid \<Rightarrow> membership \<Rightarrow> bool" where
  "active_owner oid m \<longleftrightarrow> mem_organization_id m = oid \<and> mem_role m = OWNER \<and> mem_is_active m"

definition count_active_owners :: "uuid \<Rightarrow> db \<Rightarrow> nat" where
  "count_active_owners oid db = length (filter (active_owner oid) (memberships db))"

definition save_membership :: "membership \<Rightarrow> db \<Rightarrow> db" where
  "save_membership r db = db \<lparr> memberships := put_row mem_id r (memberships db) \<rparr>"

definition set_role :: "membership \<Rightarrow> membership_role \<Rightarrow> db \<Rightarrow> membership \<times> db" where
  "set_role r role db = (let r' = r \<lparr> mem_role := role \<rparr> in (r', save_membership r' db))"

definition deactivate :: "membership \<Rightarrow> db \<Rightarrow> membership \<times> db" where
  "deactivate r db = (let r' = r \<lparr> mem_is_active := False \<rparr> in (r', save_membership r' db))"

section \<open>\<open>SecurityAuditEventRepository\<close>\<close>

definition append_security_event ::
  "instant \<Rightarrow> uuid \<Rightarrow> uuid \<Rightarrow> uuid \<Rightarrow> string \<Rightarrow> (string \<times> json) list \<Rightarrow> security_event db_action" where
  "append_security_event now eid oid actor event_type details db =
     (let r = \<lparr> sec_id = eid, sec_organization_id = oid, sec_actor_user_id = actor,
                sec_event_type = event_type, sec_occurred_at = now, sec_details = details \<rparr>
      in if eid \<notin> set (map sec_id (security_events db)) \<and> oid \<in> set (map org_id (organizations db)) \<and>
            actor \<in> set (map user_id (users db))
         then Inr (r, db \<lparr> security_events := security_events db @ [r] \<rparr>)
         else Inl IntegrityError)"

definition list_security_events :: "uuid \<Rightarrow> page \<Rightarrow> db \<Rightarrow> security_event list" where
  "list_security_events oid p db =
     paginate p (rev (sort_key (\<lambda>e. (sec_occurred_at e, sec_id e))
       (filter (\<lambda>e. sec_organization_id e = oid) (security_events db))))"

definition count_security_events :: "uuid \<Rightarrow> db \<Rightarrow> nat" where
  "count_security_events oid db = length (filter (\<lambda>e. sec_organization_id e = oid) (security_events db))"

section \<open>The tenant of a request: \<open>api/auth_dependencies.py\<close>\<close>

record tenant_context =
  tc_organization_id :: uuid
  tc_user_id :: uuid
  tc_role :: membership_role

definition get_tenant_context :: "user \<Rightarrow> string option \<Rightarrow> db \<Rightarrow> tenant_context outcome" where
  "get_tenant_context user header db =
     (case header of
        None \<Rightarrow> Inl (APIError 400 ''ORGANIZATION_REQUIRED'')
      | Some text \<Rightarrow>
          (case uuid_of_text text of
             Inl e \<Rightarrow> Inl (APIError 400 ''INVALID_ORGANIZATION'')
           | Inr oid \<Rightarrow>
               (case get_active oid (user_id user) db of
                  None \<Rightarrow> Inl (APIError 403 ''ORGANIZATION_ACCESS_DENIED'')
                | Some m \<Rightarrow> Inr \<lparr> tc_organization_id = oid, tc_user_id = user_id user, tc_role = mem_role m \<rparr>)))"

definition get_reconciliation_operator :: "tenant_context \<Rightarrow> tenant_context outcome" where
  "get_reconciliation_operator t =
     (if tc_role t \<notin> {OWNER, ADMIN, ANALYST} then Inl (APIError 403 ''INSUFFICIENT_ROLE'') else Inr t)"

definition get_membership_manager :: "tenant_context \<Rightarrow> tenant_context outcome" where
  "get_membership_manager t =
     (if tc_role t \<notin> {OWNER, ADMIN} then Inl (APIError 403 ''INSUFFICIENT_ROLE'') else Inr t)"

text \<open>The response an exception becomes: \<open>api/errors.py\<close>.\<close>

fun error_response :: "py_error \<Rightarrow> nat \<times> string" where
  "error_response (APIError s c) = (s, c)"
| "error_response RecordNotFoundError = (404, ''RESOURCE_NOT_FOUND'')"
| "error_response PersistenceConflictError = (409, ''PERSISTENCE_CONFLICT'')"
| "error_response _ = (500, ''INTERNAL_SERVER_ERROR'')"

section \<open>Routes of an organization: \<open>api/routes/organizations.py\<close>\<close>

definition ensure_selected :: "uuid \<Rightarrow> uuid \<Rightarrow> unit outcome" where
  "ensure_selected oid selected = guard_else (oid = selected) (APIError 403 ''ORGANIZATION_ACCESS_DENIED'')"

text \<open>The checks before a unit of work, then the unit of work.\<close>

definition checked_unit :: "unit outcome \<Rightarrow> 'a db_action \<Rightarrow> (db, 'a) task" where
  "checked_unit check body = and_also (lift_outcome check) (\<lambda>_. unit_of_work body)"

record profile =
  pr_id :: uuid
  pr_name :: string
  pr_slug :: string
  pr_is_active :: bool
  pr_current_user_role :: membership_role
  pr_created_at :: instant

definition profile_of :: "organization \<Rightarrow> membership_role \<Rightarrow> profile" where
  "profile_of r role =
     \<lparr> pr_id = org_id r, pr_name = org_name r, pr_slug = org_slug r, pr_is_active = org_is_active r,
       pr_current_user_role = role, pr_created_at = org_created_at r \<rparr>"

definition active_memberships :: "uuid \<Rightarrow> db \<Rightarrow> membership list" where
  "active_memberships uid db =
     filter (\<lambda>m. mem_is_active m \<and> organization_active (mem_organization_id m) db) (list_for_user uid db)"

record organization_item =
  oi_id :: uuid
  oi_name :: string
  oi_slug :: string
  oi_role :: membership_role

definition list_organizations :: "user \<Rightarrow> db \<Rightarrow> (organization_item list \<times> nat) outcome" where
  "list_organizations user db =
     and_then (map_err (\<lambda>m. and_then (get_organization (mem_organization_id m) db) (\<lambda>r.
         Inr \<lparr> oi_id = org_id r, oi_name = org_name r, oi_slug = org_slug r, oi_role = mem_role m \<rparr>))
       (active_memberships (user_id user) db)) (\<lambda>items.
     Inr (items, length items))"

definition get_organization_profile :: "uuid \<Rightarrow> tenant_context \<Rightarrow> db \<Rightarrow> profile outcome" where
  "get_organization_profile oid tenant db =
     and_then (ensure_selected oid (tc_organization_id tenant)) (\<lambda>_.
     and_then (get_organization oid db) (\<lambda>r. Inr (profile_of r (tc_role tenant))))"

definition update_organization ::
  "instant \<Rightarrow> uuid \<Rightarrow> uuid \<Rightarrow> string \<Rightarrow> tenant_context \<Rightarrow> (db, profile) task" where
  "update_organization now eid oid name manager =
     checked_unit (ensure_selected oid (tc_organization_id manager)) (\<lambda>(db :: db).
       and_then (get_organization oid db) (\<lambda>r.
       and_then (update_name r name db) (\<lambda>(r', db1).
       and_then (append_security_event now eid oid (tc_user_id manager) ''ORGANIZATION_PROFILE_UPDATED''
           [(''previous_name'', JText (org_name r)), (''new_name'', JText (org_name r'))] db1) (\<lambda>(_, db2).
       Inr (profile_of r' (tc_role manager), db2)))))"

text \<open>The utilization is the exact quotient; the response rounds it to a float.\<close>

record storage_usage =
  su_organization_id :: uuid
  su_used_bytes :: int
  su_quota_bytes :: "int option"
  su_remaining_bytes :: "int option"
  su_utilization_percent :: "rat option"

definition storage_usage_of :: "organization \<Rightarrow> storage_usage" where
  "storage_usage_of r =
     \<lparr> su_organization_id = org_id r, su_used_bytes = org_storage_used_bytes r,
       su_quota_bytes = org_storage_quota_bytes r,
       su_remaining_bytes = map_option (\<lambda>q. max (q - org_storage_used_bytes r) 0) (org_storage_quota_bytes r),
       su_utilization_percent =
         map_option (\<lambda>q. if q = 0 then 100 else min 100 (of_int (org_storage_used_bytes r * 100) / of_int q))
           (org_storage_quota_bytes r) \<rparr>"

definition get_storage_usage :: "uuid \<Rightarrow> tenant_context \<Rightarrow> db \<Rightarrow> storage_usage outcome" where
  "get_storage_usage oid tenant db =
     and_then (ensure_selected oid (tc_organization_id tenant)) (\<lambda>_.
     and_then (get_organization oid db) (\<lambda>r. Inr (storage_usage_of r)))"

definition quota_json :: "int option \<Rightarrow> json" where
  "quota_json q = (case q of None \<Rightarrow> JNull | Some n \<Rightarrow> JInt n)"

definition change_storage_quota ::
  "instant \<Rightarrow> uuid \<Rightarrow> uuid \<Rightarrow> int option \<Rightarrow> tenant_context \<Rightarrow> (db, storage_usage) task" where
  "change_storage_quota now eid oid quota manager =
     and_also (lift_outcome (ensure_selected oid (tc_organization_id manager))) (\<lambda>_.
     on_error (unit_of_work (\<lambda>(db :: db).
       and_then (get_organization oid db) (\<lambda>r.
       and_then (update_storage_quota r quota db) (\<lambda>(r', db1).
       and_then (append_security_event now eid oid (tc_user_id manager) ''ORGANIZATION_STORAGE_QUOTA_UPDATED''
           [(''previous_quota_bytes'', quota_json (org_storage_quota_bytes r)),
            (''new_quota_bytes'', quota_json (org_storage_quota_bytes r'))] db1) (\<lambda>(_, db2).
       Inr (storage_usage_of r', db2))))))
     (\<lambda>e. if e = StorageQuotaExceededError then raising (APIError 409 ''STORAGE_QUOTA_BELOW_USAGE'')
          else raising e))"

text \<open>
  \<open>OrganizationRepository\<close> has no \<open>update_ai_usage_policy\<close>: looking the method up raises
  once the organization is loaded.
\<close>

record ai_policy =
  pol_hosted_ai_enabled :: bool
  pol_daily_request_limit :: int
  pol_monthly_request_limit :: int
  pol_daily_token_limit :: int
  pol_monthly_token_limit :: int

definition ai_policy_of :: "organization \<Rightarrow> ai_policy" where
  "ai_policy_of r =
     \<lparr> pol_hosted_ai_enabled = org_hosted_ai_enabled r,
       pol_daily_request_limit = org_ai_daily_request_limit r,
       pol_monthly_request_limit = org_ai_monthly_request_limit r,
       pol_daily_token_limit = org_ai_daily_token_limit r,
       pol_monthly_token_limit = org_ai_monthly_token_limit r \<rparr>"

definition update_ai_usage_policy :: "uuid \<Rightarrow> ai_policy \<Rightarrow> tenant_context \<Rightarrow> (db, ai_policy) task" where
  "update_ai_usage_policy oid request manager =
     checked_unit (ensure_selected oid (tc_organization_id manager)) (\<lambda>(db :: db).
       and_then (get_organization oid db) (\<lambda>r.
       Inl (AttributeError ''update_ai_usage_policy'')))"

section \<open>Routes of the members: \<open>api/routes/memberships.py\<close>\<close>

record member_response =
  mr_id :: uuid
  mr_organization_id :: uuid
  mr_user_id :: uuid
  mr_user_email :: string
  mr_user_display_name :: "string option"
  mr_user_is_active :: bool
  mr_role :: membership_role
  mr_is_active :: bool
  mr_created_at :: instant

text \<open>\<open>record.user\<close> is loaded through the foreign key.\<close>

definition member_response_of :: "membership \<Rightarrow> db \<Rightarrow> member_response outcome" where
  "member_response_of m db =
     (case get_user (mem_user_id m) db of
        None \<Rightarrow> Inl (AttributeError ''id'')
      | Some u \<Rightarrow> Inr \<lparr> mr_id = mem_id m, mr_organization_id = mem_organization_id m,
          mr_user_id = user_id u, mr_user_email = user_email u,
          mr_user_display_name = user_display_name u, mr_user_is_active = user_is_active u,
          mr_role = mem_role m, mr_is_active = mem_is_active m, mr_created_at = mem_created_at m \<rparr>)"

definition ensure_admin_can_manage ::
  "tenant_context \<Rightarrow> membership_role \<Rightarrow> membership_role option \<Rightarrow> unit outcome" where
  "ensure_admin_can_manage manager target requested =
     guard_else (\<not> (tc_role manager = ADMIN \<and> (target = OWNER \<or> requested = Some OWNER)))
       (APIError 403 ''OWNER_ROLE_REQUIRED'')"

definition list_members :: "uuid \<Rightarrow> tenant_context \<Rightarrow> db \<Rightarrow> (member_response list \<times> nat) outcome" where
  "list_members oid manager db =
     and_then (ensure_selected oid (tc_organization_id manager)) (\<lambda>_.
     let records = list_for_organization oid db in
     and_then (map_err (\<lambda>m. member_response_of m db) records) (\<lambda>items. Inr (items, length records)))"

fun role_text :: "membership_role \<Rightarrow> string" where
  "role_text OWNER = ''OWNER''"
| "role_text ADMIN = ''ADMIN''"
| "role_text ANALYST = ''ANALYST''"
| "role_text VIEWER = ''VIEWER''"

definition respond_member :: "membership \<Rightarrow> (db, member_response) task" where
  "respond_member m db = (member_response_of m db, db)"

definition add_member ::
  "instant \<Rightarrow> uuid \<Rightarrow> uuid \<Rightarrow> uuid \<Rightarrow> string \<Rightarrow> membership_role \<Rightarrow> tenant_context \<Rightarrow> (db, member_response) task" where
  "add_member now mid eid oid email role manager =
     and_also (checked_unit
       (and_then (ensure_selected oid (tc_organization_id manager)) (\<lambda>_.
        ensure_admin_can_manage manager role (Some role))) (\<lambda>(db :: db).
       case get_by_email email db of
         None \<Rightarrow> Inl (APIError 404 ''USER_NOT_FOUND'')
       | Some user \<Rightarrow>
           and_then (guard_else (user_is_active user) (APIError 404 ''USER_NOT_FOUND'')) (\<lambda>_.
           and_then (guard_else (get_for_user oid (user_id user) db = None) PersistenceConflictError) (\<lambda>_.
           and_then (create_membership now mid oid (user_id user) role db) (\<lambda>(m, db1).
           and_then (append_security_event now eid oid (tc_user_id manager) ''MEMBERSHIP_CREATED''
               [(''membership_id'', JText (uuid_text (mem_id m))),
                (''subject_user_id'', JText (uuid_text (user_id user))),
                (''role'', JText (role_text (mem_role m)))] db1) (\<lambda>(_, db2).
           Inr (m, db2)))))))
     respond_member"

text \<open>
  The checks of a change and of a removal, made with the membership's row locked, and the
  writes that follow them.
\<close>

definition update_checks :: "uuid \<Rightarrow> uuid \<Rightarrow> membership_role \<Rightarrow> tenant_context \<Rightarrow> db \<Rightarrow> membership outcome" where
  "update_checks oid mid role manager db =
     and_then (get_membership mid oid db) (\<lambda>m.
     and_then (ensure_admin_can_manage manager (mem_role m) (Some role)) (\<lambda>_.
     and_then (guard_else (\<not> (mem_role m = OWNER \<and> role \<noteq> OWNER \<and> count_active_owners oid db \<le> 1))
       (APIError 409 ''FINAL_OWNER_REQUIRED'')) (\<lambda>_.
     Inr m)))"

definition update_writes ::
  "instant \<Rightarrow> uuid \<Rightarrow> uuid \<Rightarrow> membership_role \<Rightarrow> tenant_context \<Rightarrow> membership \<Rightarrow> membership db_action" where
  "update_writes now eid oid role manager m db =
     (let (m', db1) = set_role m role db in
      and_then (append_security_event now eid oid (tc_user_id manager) ''MEMBERSHIP_ROLE_CHANGED''
          [(''membership_id'', JText (uuid_text (mem_id m'))),
           (''subject_user_id'', JText (uuid_text (mem_user_id m'))),
           (''previous_role'', JText (role_text (mem_role m))),
           (''new_role'', JText (role_text (mem_role m')))] db1) (\<lambda>(_, db2).
      Inr (m', db2)))"

definition update_member ::
  "instant \<Rightarrow> uuid \<Rightarrow> uuid \<Rightarrow> uuid \<Rightarrow> membership_role \<Rightarrow> tenant_context \<Rightarrow> (db, member_response) task" where
  "update_member now eid oid mid role manager =
     and_also (checked_unit (ensure_selected oid (tc_organization_id manager)) (\<lambda>(db :: db).
       and_then (update_checks oid mid role manager db) (\<lambda>m. update_writes now eid oid role manager m db)))
     respond_member"

definition deactivate_checks :: "uuid \<Rightarrow> uuid \<Rightarrow> tenant_context \<Rightarrow> db \<Rightarrow> membership outcome" where
  "deactivate_checks oid mid manager db =
     and_then (get_membership mid oid db) (\<lambda>m.
     and_then (ensure_admin_can_manage manager (mem_role m) None) (\<lambda>_.
     and_then (guard_else (mem_is_active m) (APIError 409 ''MEMBERSHIP_INACTIVE'')) (\<lambda>_.
     and_then (guard_else (\<not> (mem_role m = OWNER \<and> count_active_owners oid db \<le> 1))
       (APIError 409 ''FINAL_OWNER_REQUIRED'')) (\<lambda>_.
     Inr m))))"

definition deactivate_member ::
  "instant \<Rightarrow> uuid \<Rightarrow> uuid \<Rightarrow> uuid \<Rightarrow> tenant_context \<Rightarrow> (db, unit) task" where
  "deactivate_member now eid oid mid manager =
     checked_unit (ensure_selected oid (tc_organization_id manager)) (\<lambda>(db :: db).
       and_then (deactivate_checks oid mid manager db) (\<lambda>m.
       let (m', db1) = deactivate m db in
       and_then (append_security_event now eid oid (tc_user_id manager) ''MEMBERSHIP_DEACTIVATED''
           [(''membership_id'', JText (uuid_text (mem_id m'))),
            (''subject_user_id'', JText (uuid_text (mem_user_id m'))),
            (''role'', JText (role_text (mem_role m')))] db1) (\<lambda>(_, db2).
       Inr ((), db2))))"

text \<open>\<open>api/routes/security_audit.py\<close>.\<close>

definition list_security_audit_events ::
  "uuid \<Rightarrow> tenant_context \<Rightarrow> page \<Rightarrow> db \<Rightarrow> (security_event list \<times> nat) outcome" where
  "list_security_audit_events oid manager p db =
     and_then (guard_else (oid = tc_organization_id manager) (APIError 403 ''ORGANIZATION_ACCESS_DENIED'')) (\<lambda>_.
     and_then (page_post_init p) (\<lambda>p'.
     Inr (list_security_events oid p' db, count_security_events oid db)))"

section \<open>What a change of the members may do\<close>

inductive member_change :: "tenant_context \<Rightarrow> db \<Rightarrow> db \<Rightarrow> bool" for manager where
  appended: "mem_organization_id m = tc_organization_id manager \<Longrightarrow>
    mem_id m \<notin> set (map mem_id (memberships db)) \<Longrightarrow>
    (tc_role manager = ADMIN \<Longrightarrow> mem_role m \<noteq> OWNER) \<Longrightarrow>
    sec_organization_id e = tc_organization_id manager \<Longrightarrow> sec_actor_user_id e = tc_user_id manager \<Longrightarrow>
    db' = db \<lparr> memberships := memberships db @ [m], security_events := security_events db @ [e] \<rparr> \<Longrightarrow>
    member_change manager db db'"
| replaced: "get_membership (mem_id m) (tc_organization_id manager) db = Inr m \<Longrightarrow>
    mem_id m' = mem_id m \<Longrightarrow> mem_organization_id m' = mem_organization_id m \<Longrightarrow>
    mem_user_id m' = mem_user_id m \<Longrightarrow>
    (tc_role manager = ADMIN \<Longrightarrow> mem_role m \<noteq> OWNER \<and> mem_role m' \<noteq> OWNER) \<Longrightarrow>
    (active_owner (tc_organization_id manager) m \<Longrightarrow> \<not> active_owner (tc_organization_id manager) m' \<Longrightarrow>
      1 < count_active_owners (tc_organization_id manager) db) \<Longrightarrow>
    sec_organization_id e = tc_organization_id manager \<Longrightarrow> sec_actor_user_id e = tc_user_id manager \<Longrightarrow>
    db' = db \<lparr> memberships := put_row mem_id m' (memberships db), security_events := security_events db @ [e] \<rparr> \<Longrightarrow>
    member_change manager db db'"

lemma checked_unit_ok:
  assumes "fst (checked_unit c body db) = Inr x"
  shows "c = Inr () \<and> body db = Inr (x, snd (checked_unit c body db))"
  using assms unit_of_work_ok [of body db x]
  by (auto simp: checked_unit_def and_also_def lift_outcome_def split: sum.splits)

lemma checked_unit_error: "fst (checked_unit c body db) = Inl e \<Longrightarrow> snd (checked_unit c body db) = db"
  using unit_of_work_error_keeps [of body db]
  by (auto simp: checked_unit_def and_also_def lift_outcome_def split: sum.splits)

lemma respond_member_snd [simp]: "snd (and_also m respond_member db) = snd (m db)"
  by (auto simp: and_also_def respond_member_def split: prod.splits sum.splits)

lemma append_security_Inr:
  assumes "append_security_event now eid oid actor t ds db = Inr (e, db')"
  shows "db' = db \<lparr> security_events := security_events db @ [e] \<rparr>" and "sec_organization_id e = oid"
    and "sec_actor_user_id e = actor" and "sec_event_type e = t"
  using assms by (auto simp: append_security_event_def Let_def split: if_splits)

lemma get_membership_Inr:
  "get_membership mid oid db = Inr m \<Longrightarrow> m \<in> set (memberships db) \<and> mem_id m = mid \<and> mem_organization_id m = oid"
  unfolding get_membership_def by (rule scoped_get_Inr)

lemma add_member_change:
  "snd (add_member now mid eid oid email role manager db) = db \<or>
   member_change manager db (snd (add_member now mid eid oid email role manager db))"
  (is "?s = db \<or> _")
proof -
  let ?c = "and_then (ensure_selected oid (tc_organization_id manager)) (\<lambda>_. ensure_admin_can_manage manager role (Some role))"
  define body where "body = (\<lambda>(db :: db).
       case get_by_email email db of
         None \<Rightarrow> Inl (APIError 404 ''USER_NOT_FOUND'')
       | Some user \<Rightarrow>
           and_then (guard_else (user_is_active user) (APIError 404 ''USER_NOT_FOUND'')) (\<lambda>_.
           and_then (guard_else (get_for_user oid (user_id user) db = None) PersistenceConflictError) (\<lambda>_.
           and_then (create_membership now mid oid (user_id user) role db) (\<lambda>(m, db1).
           and_then (append_security_event now eid oid (tc_user_id manager) ''MEMBERSHIP_CREATED''
               [(''membership_id'', JText (uuid_text (mem_id m))),
                (''subject_user_id'', JText (uuid_text (user_id user))),
                (''role'', JText (role_text (mem_role m)))] db1) (\<lambda>(_, db2).
           Inr (m, db2))))))"
  have s: "?s = snd (checked_unit ?c body db)" by (simp add: add_member_def body_def)
  show ?thesis
  proof (cases "fst (checked_unit ?c body db)")
    case (Inl e)
    then show ?thesis using checked_unit_error s by metis
  next
    case (Inr x)
    note ok = checked_unit_ok [OF this]
    then have org: "oid = tc_organization_id manager"
      and role: "tc_role manager = ADMIN \<Longrightarrow> role \<noteq> OWNER"
      by (auto simp: and_then_Inr_iff ensure_selected_def ensure_admin_can_manage_def guard_else_Inr_iff)
    from ok have "body db = Inr (x, ?s)" by (simp add: s)
    then obtain user :: user and db1 e where m: "create_membership now mid oid (user_id user) role db = Inr (x, db1)"
      and e: "append_security_event now eid oid (tc_user_id manager) ''MEMBERSHIP_CREATED''
               [(''membership_id'', JText (uuid_text (mem_id x))),
                (''subject_user_id'', JText (uuid_text (user_id user))),
                (''role'', JText (role_text (mem_role x)))] db1 = Inr (e, ?s)"
      by (auto simp: body_def and_then_Inr_iff split: option.splits prod.splits)
    from m have "db1 = db \<lparr> memberships := memberships db @ [x] \<rparr>" "mem_id x \<notin> set (map mem_id (memberships db))"
        "mem_role x = role" "mem_organization_id x = oid"
      by (auto simp: create_membership_def insert_membership_def split: if_splits)
    with append_security_Inr [OF e] org role
    show ?thesis by (intro disjI2 member_change.appended [where m = x and e = e]) auto
  qed
qed

text \<open>The writes that follow the checks of a change or a removal.\<close>

lemma replaced_change:
  assumes m: "get_membership mid oid db = Inr m" and org: "oid = tc_organization_id manager"
    and same: "mem_id m' = mem_id m" "mem_organization_id m' = mem_organization_id m" "mem_user_id m' = mem_user_id m"
    and admin: "tc_role manager = ADMIN \<Longrightarrow> mem_role m \<noteq> OWNER \<and> mem_role m' \<noteq> OWNER"
    and last: "active_owner oid m \<Longrightarrow> \<not> active_owner oid m' \<Longrightarrow> 1 < count_active_owners oid db"
    and e: "append_security_event now eid oid (tc_user_id manager) t ds (save_membership m' db) = Inr (e, db')"
  shows "member_change manager db db'"
  using append_security_Inr [OF e] get_membership_Inr [OF m] assms
  by (intro member_change.replaced [where m = m and m' = m' and e = e]) (auto simp: save_membership_def)

lemma update_checks_Inr:
  assumes "update_checks oid mid role manager db = Inr m"
  shows "get_membership mid oid db = Inr m" and "tc_role manager = ADMIN \<Longrightarrow> mem_role m \<noteq> OWNER \<and> role \<noteq> OWNER"
    and "mem_role m = OWNER \<Longrightarrow> role \<noteq> OWNER \<Longrightarrow> 1 < count_active_owners oid db"
  using assms
  by (auto simp: update_checks_def and_then_Inr_iff guard_else_Inr_iff ensure_admin_can_manage_def)

lemma deactivate_checks_Inr:
  assumes "deactivate_checks oid mid manager db = Inr m"
  shows "get_membership mid oid db = Inr m" and "tc_role manager = ADMIN \<Longrightarrow> mem_role m \<noteq> OWNER"
    and "mem_is_active m" and "mem_role m = OWNER \<Longrightarrow> 1 < count_active_owners oid db"
  using assms
  by (auto simp: deactivate_checks_def and_then_Inr_iff guard_else_Inr_iff ensure_admin_can_manage_def)

lemma update_member_change:
  "snd (update_member now eid oid mid role manager db) = db \<or>
   member_change manager db (snd (update_member now eid oid mid role manager db))"
  (is "?s = db \<or> _")
proof -
  let ?c = "ensure_selected oid (tc_organization_id manager)"
  let ?b = "\<lambda>(db :: db). and_then (update_checks oid mid role manager db) (\<lambda>m. update_writes now eid oid role manager m db)"
  have s: "?s = snd (checked_unit ?c ?b db)" by (simp add: update_member_def)
  show ?thesis
  proof (cases "fst (checked_unit ?c ?b db)")
    case (Inl e)
    then show ?thesis using checked_unit_error s by metis
  next
    case (Inr x)
    note ok = checked_unit_ok [OF this]
    then have org: "oid = tc_organization_id manager" by (simp add: ensure_selected_def guard_else_Inr_iff)
    from ok obtain m where m: "update_checks oid mid role manager db = Inr m"
      and w: "update_writes now eid oid role manager m db = Inr (x, ?s)" by (auto simp: s and_then_Inr_iff)
    from w obtain e ds where "append_security_event now eid oid (tc_user_id manager) ''MEMBERSHIP_ROLE_CHANGED'' ds
        (save_membership (m \<lparr> mem_role := role \<rparr>) db) = Inr (e, ?s)"
      by (auto simp: update_writes_def set_role_def Let_def and_then_Inr_iff)
    then show ?thesis
      using update_checks_Inr [OF m] org by (intro disjI2 replaced_change) (auto simp: active_owner_def)
  qed
qed

lemma deactivate_member_change:
  "snd (deactivate_member now eid oid mid manager db) = db \<or>
   member_change manager db (snd (deactivate_member now eid oid mid manager db))"
  (is "?s = db \<or> _")
proof -
  let ?c = "ensure_selected oid (tc_organization_id manager)"
  show ?thesis
  proof (cases "fst (deactivate_member now eid oid mid manager db)")
    case (Inl e)
    then show ?thesis unfolding deactivate_member_def by (intro disjI1 checked_unit_error)
  next
    case (Inr x)
    note ok = checked_unit_ok [OF this [unfolded deactivate_member_def]]
    then have org: "oid = tc_organization_id manager" by (simp add: ensure_selected_def guard_else_Inr_iff)
    from ok have "and_then (deactivate_checks oid mid manager db) (\<lambda>m.
       let (m', db1) = deactivate m db in
       and_then (append_security_event now eid oid (tc_user_id manager) ''MEMBERSHIP_DEACTIVATED''
           [(''membership_id'', JText (uuid_text (mem_id m'))),
            (''subject_user_id'', JText (uuid_text (mem_user_id m'))),
            (''role'', JText (role_text (mem_role m')))] db1) (\<lambda>(_, db2).
       Inr ((), db2))) = Inr (x, ?s)"
      by (simp add: deactivate_member_def)
    then obtain m :: membership and e ds where m: "deactivate_checks oid mid manager db = Inr m"
      and e: "append_security_event now eid oid (tc_user_id manager) ''MEMBERSHIP_DEACTIVATED'' ds
        (save_membership (m \<lparr> mem_is_active := False \<rparr>) db) = Inr (e, ?s)"
      by (auto simp: deactivate_def Let_def and_then_Inr_iff)
    show ?thesis
      using deactivate_checks_Inr [OF m] org
      by (intro disjI2 replaced_change [OF _ org _ _ _ _ _ e]) (auto simp: active_owner_def)
  qed
qed

text \<open>Membership identifiers are primary keys.\<close>

definition members_ok :: "db \<Rightarrow> bool" where
  "members_ok db \<longleftrightarrow> distinct (map mem_id (memberships db))"

lemma count_put_row:
  assumes "distinct (map key rows)" and "r \<in> set rows" and "key r' = key r"
  shows "length (filter P (put_row key r' rows)) + (if P r then 1 else 0) =
    length (filter P rows) + (if P r' then 1 else 0)"
  using assms
proof (induction rows)
  case (Cons x xs)
  show ?case
  proof (cases "x = r")
    case True
    with Cons.prems have "key r' \<notin> key ` set xs" by auto
    then have "put_row key r' xs = xs" by (auto simp: put_row_def image_iff intro!: map_idI)
    with True Cons.prems(3) show ?thesis by (simp add: put_row_def)
  next
    case False
    with Cons.prems have "key x \<noteq> key r'" by auto
    moreover have "length (filter P (put_row key r' xs)) + (if P r then 1 else 0) =
        length (filter P xs) + (if P r' then 1 else 0)"
      using False Cons.prems by (intro Cons.IH) auto
    moreover have "put_row key r' (x # xs) = (if key x = key r' then r' else x) # put_row key r' xs"
      by (simp add: put_row_def)
    ultimately show ?thesis by simp
  qed
qed simp

lemma member_change_ok: "member_change manager db db' \<Longrightarrow> members_ok db \<Longrightarrow> members_ok db'"
  by (induction rule: member_change.induct) (auto simp: members_ok_def)

lemma member_change_owners:
  assumes "member_change manager db db'" and "members_ok db" and "0 < count_active_owners oid db"
  shows "0 < count_active_owners oid db'"
  using assms
proof (cases rule: member_change.cases)
  case (appended m e)
  with assms(3) show ?thesis by (simp add: count_active_owners_def)
next
  case (replaced m m' e)
  have m: "m \<in> set (memberships db)" "mem_organization_id m = tc_organization_id manager"
    using get_membership_Inr [OF replaced(1)] by simp_all
  have count: "count_active_owners oid db' + (if active_owner oid m then 1 else 0) =
      count_active_owners oid db + (if active_owner oid m' then 1 else 0)"
    using count_put_row [OF assms(2) [unfolded members_ok_def] m(1) replaced(2), of "active_owner oid"] replaced(9)
    by (simp add: count_active_owners_def)
  show ?thesis
  proof (cases "active_owner oid m \<and> \<not> active_owner oid m'")
    case True
    then have "oid = tc_organization_id manager" using m(2) by (simp add: active_owner_def)
    with True replaced(6) count show ?thesis by simp
  next
    case False
    with count assms(3) show ?thesis by (auto split: if_splits)
  qed
qed

lemma member_change_admin:
  assumes "member_change manager db db'" and "members_ok db" and "tc_role manager = ADMIN"
  shows "filter (\<lambda>m. mem_role m = OWNER) (memberships db') = filter (\<lambda>m. mem_role m = OWNER) (memberships db)"
  using assms
proof (cases rule: member_change.cases)
  case (replaced m m' e)
  have m: "m \<in> set (memberships db)" using get_membership_Inr [OF replaced(1)] by simp
  have "x = m" if "x \<in> set (memberships db)" "mem_id x = mem_id m'" for x
    using that m assms(2) replaced(2) by (metis members_ok_def distinct_map inj_onD)
  then have "filter (\<lambda>m. mem_role m = OWNER) (put_row mem_id m' (memberships db)) =
      filter (\<lambda>m. mem_role m = OWNER) (memberships db)"
    using replaced(5) [OF assms(3)] by (intro put_row_filter) auto
  then show ?thesis unfolding replaced(9) by simp
qed simp

lemma member_change_others:
  assumes "member_change manager db db'" and "members_ok db"
  shows "filter (\<lambda>m. mem_organization_id m \<noteq> tc_organization_id manager) (memberships db') =
    filter (\<lambda>m. mem_organization_id m \<noteq> tc_organization_id manager) (memberships db)"
  using assms
proof (cases rule: member_change.cases)
  case (replaced m m' e)
  have "mem_organization_id m' = tc_organization_id manager"
    using get_membership_Inr [OF replaced(1)] replaced(3) by simp
  then show ?thesis
    using membership_table.others_kept [of db "mem_id m" "tc_organization_id manager" m m'] assms(2) replaced
    by (simp add: members_ok_def get_membership_def)
qed simp

lemma member_change_audited:
  "member_change manager db db' \<Longrightarrow> \<exists>e. security_events db' = security_events db @ [e] \<and>
     sec_organization_id e = tc_organization_id manager \<and> sec_actor_user_id e = tc_user_id manager \<and>
     organizations db' = organizations db \<and> users db' = users db"
  by (induction rule: member_change.induct) auto

text \<open>
  A request that changes members: it leaves the database alone or makes one such change.
\<close>

locale member_operation =
  fixes manager :: tenant_context and serve :: "db \<Rightarrow> db"
  assumes change: "serve db = db \<or> member_change manager db (serve db)"
begin

lemma keeps_ok: "members_ok db \<Longrightarrow> members_ok (serve db)"
  using change [of db] member_change_ok by auto

lemma keeps_an_owner: "members_ok db \<Longrightarrow> 0 < count_active_owners oid db \<Longrightarrow> 0 < count_active_owners oid (serve db)"
  using change [of db] member_change_owners by auto

lemma admin_keeps_owners:
  "members_ok db \<Longrightarrow> tc_role manager = ADMIN \<Longrightarrow>
   filter (\<lambda>m. mem_role m = OWNER) (memberships (serve db)) = filter (\<lambda>m. mem_role m = OWNER) (memberships db)"
  using change [of db] member_change_admin by auto

lemma keeps_other_tenants:
  "members_ok db \<Longrightarrow>
   filter (\<lambda>m. mem_organization_id m \<noteq> tc_organization_id manager) (memberships (serve db)) =
   filter (\<lambda>m. mem_organization_id m \<noteq> tc_organization_id manager) (memberships db)"
  using change [of db] member_change_others by auto

lemma leaves_trace:
  "memberships (serve db) \<noteq> memberships db \<Longrightarrow>
   \<exists>e. security_events (serve db) = security_events db @ [e] \<and>
     sec_organization_id e = tc_organization_id manager \<and> sec_actor_user_id e = tc_user_id manager"
  using change [of db] member_change_audited [of manager db "serve db"] by auto

end

interpretation adding: member_operation manager "\<lambda>db. snd (add_member now mid eid oid email role manager db)"
  for now mid eid oid email role manager
  by unfold_locales (rule add_member_change)

interpretation changing: member_operation manager "\<lambda>db. snd (update_member now eid oid mid role manager db)"
  for now eid oid mid role manager
  by unfold_locales (rule update_member_change)

interpretation removing: member_operation manager "\<lambda>db. snd (deactivate_member now eid oid mid manager db)"
  for now eid oid mid manager
  by unfold_locales (rule deactivate_member_change)

text \<open>Any request of the members' routes.\<close>

datatype member_request =
    AddMember instant uuid uuid uuid string membership_role
  | UpdateMember instant uuid uuid uuid membership_role
  | DeactivateMember instant uuid uuid uuid

fun serve_member :: "tenant_context \<times> member_request \<Rightarrow> db \<Rightarrow> db" where
  "serve_member (manager, AddMember now mid eid oid email role) db =
     snd (add_member now mid eid oid email role manager db)"
| "serve_member (manager, UpdateMember now eid oid mid role) db =
     snd (update_member now eid oid mid role manager db)"
| "serve_member (manager, DeactivateMember now eid oid mid) db =
     snd (deactivate_member now eid oid mid manager db)"

lemma serve_member_change: "serve_member (manager, q) db = db \<or> member_change manager db (serve_member (manager, q) db)"
  by (cases q) (simp_all add: adding.change changing.change removing.change)

interpretation any_request: member_operation manager "serve_member (manager, q)" for manager q
  by unfold_locales (rule serve_member_change)

section \<open>Storage of an organization\<close>

text \<open>A row of an organization that respects its quota.\<close>

definition organization_within_quota :: "organization \<Rightarrow> bool" where
  "organization_within_quota r \<longleftrightarrow>
     organization_row_ok r \<and> (case org_storage_quota_bytes r of None \<Rightarrow> True | Some q \<Rightarrow> org_storage_used_bytes r \<le> q)"

definition storage_ok :: "db \<Rightarrow> bool" where
  "storage_ok db \<longleftrightarrow> list_all organization_within_quota (organizations db)"

datatype storage_request =
    CreateOrganization instant uuid string string "int option"
  | RenameOrganization instant uuid uuid string tenant_context
  | ChangeQuota instant uuid uuid "int option" tenant_context
  | StorageDelta uuid int

fun serve_storage :: "storage_request \<Rightarrow> db \<Rightarrow> db" where
  "serve_storage (CreateOrganization now oid name slug quota) db =
     snd (unit_of_work (create_organization now oid name slug quota) db)"
| "serve_storage (RenameOrganization now eid oid name manager) db =
     snd (update_organization now eid oid name manager db)"
| "serve_storage (ChangeQuota now eid oid quota manager) db =
     snd (change_storage_quota now eid oid quota manager db)"
| "serve_storage (StorageDelta oid delta) db = snd (unit_of_work (apply_storage_delta oid delta) db)"

lemma get_organization_Inr: "get_organization oid db = Inr r \<Longrightarrow> r \<in> set (organizations db) \<and> org_id r = oid"
  by (auto simp: get_organization_def find_Some_iff split: option.splits)

lemma get_organization_within: "storage_ok db \<Longrightarrow> get_organization oid db = Inr r \<Longrightarrow> organization_within_quota r"
  by (auto simp: storage_ok_def list_all_iff dest: get_organization_Inr)

lemma save_organization_within:
  assumes "save_organization r db = Inr (r', db')" and "storage_ok db"
    and "organization_row_ok r \<Longrightarrow> organization_within_quota r"
  shows "storage_ok db'"
  using assms by (auto simp: save_organization_def storage_ok_def list_all_iff dest!: in_put_row split: if_splits)

lemma insert_organization_within:
  assumes "insert_organization r db = Inr (r', db')" and "storage_ok db"
    and "organization_row_ok r \<Longrightarrow> organization_within_quota r"
  shows "storage_ok db'"
  using assms by (auto simp: insert_organization_def storage_ok_def split: if_splits)

lemma append_security_storage_ok:
  "append_security_event now eid oid actor t ds db = Inr (e, db') \<Longrightarrow> storage_ok db' = storage_ok db"
  by (auto simp: storage_ok_def dest: append_security_Inr(1))

lemma create_organization_within:
  assumes "create_organization now oid name slug quota db = Inr (r, db')" and "storage_ok db"
  shows "storage_ok db'"
  using insert_organization_within [OF assms(1) [unfolded create_organization_def] assms(2)]
  by (auto simp: organization_within_quota_def organization_row_ok_def split: option.splits)

lemma apply_storage_delta_Inr:
  assumes "apply_storage_delta oid delta db = Inr (r', db')"
  obtains r where "get_organization oid db = Inr r"
    and "r' = r \<lparr> org_storage_used_bytes := max 0 (org_storage_used_bytes r + delta) \<rparr>"
    and "case org_storage_quota_bytes r of None \<Rightarrow> True
         | Some q \<Rightarrow> max 0 (org_storage_used_bytes r + delta) \<le> q"
    and "save_organization r' db = Inr (r', db')"
proof -
  from assms obtain r where "get_organization oid db = Inr r"
    and "case org_storage_quota_bytes r of None \<Rightarrow> True | Some q \<Rightarrow> max 0 (org_storage_used_bytes r + delta) \<le> q"
    and s: "save_organization (r \<lparr> org_storage_used_bytes := max 0 (org_storage_used_bytes r + delta) \<rparr>) db = Inr (r', db')"
    by (auto simp: apply_storage_delta_def and_then_Inr_iff guard_else_Inr_iff Let_def)
  moreover from s have "r' = r \<lparr> org_storage_used_bytes := max 0 (org_storage_used_bytes r + delta) \<rparr>"
    by (simp add: save_organization_def split: if_splits)
  ultimately show ?thesis using that by simp
qed

lemma serve_storage_ok: "storage_ok db \<Longrightarrow> storage_ok (serve_storage q db)"
proof (cases q)
  case (CreateOrganization now oid name slug quota)
  assume ok: "storage_ok db"
  have "storage_ok (snd (unit_of_work (create_organization now oid name slug quota) db))"
    by (rule unit_of_work_preserves [where P = storage_ok, OF ok]) (erule create_organization_within [OF _ ok])
  then show ?thesis by (simp add: CreateOrganization)
next
  case (RenameOrganization now eid oid name manager)
  assume ok: "storage_ok db"
  let ?body = "\<lambda>(db :: db). and_then (get_organization oid db) (\<lambda>r.
       and_then (update_name r name db) (\<lambda>(r', db1).
       and_then (append_security_event now eid oid (tc_user_id manager) ''ORGANIZATION_PROFILE_UPDATED''
           [(''previous_name'', JText (org_name r)), (''new_name'', JText (org_name r'))] db1) (\<lambda>(_, db2).
       Inr (profile_of r' (tc_role manager), db2))))"
  have "storage_ok db'" if b: "?body db = Inr (x, db')" for x db'
  proof -
    from b obtain r r' db1 e ds where r: "get_organization oid db = Inr r"
      and u: "update_name r name db = Inr (r', db1)"
      and e: "append_security_event now eid oid (tc_user_id manager) ''ORGANIZATION_PROFILE_UPDATED'' ds db1 = Inr (e, db')"
      by (auto simp: and_then_Inr_iff)
    have "organization_row_ok (r \<lparr> org_name := strip name \<rparr>) \<Longrightarrow> organization_within_quota (r \<lparr> org_name := strip name \<rparr>)"
      using get_organization_within [OF ok r] by (simp add: organization_within_quota_def split: option.splits)
    with u ok have "storage_ok db1" unfolding update_name_def by (rule save_organization_within)
    then show ?thesis using append_security_storage_ok [OF e] by simp
  qed
  then have "storage_ok (snd (unit_of_work ?body db))"
    by (rule unit_of_work_preserves [where P = storage_ok, OF ok])
  then show ?thesis
    using ok unfolding RenameOrganization serve_storage.simps update_organization_def checked_unit_def
    by (auto simp: and_also_def lift_outcome_def split: sum.splits)
next
  case (ChangeQuota now eid oid quota manager)
  assume ok: "storage_ok db"
  let ?body = "\<lambda>(db :: db). and_then (get_organization oid db) (\<lambda>r.
       and_then (update_storage_quota r quota db) (\<lambda>(r', db1).
       and_then (append_security_event now eid oid (tc_user_id manager) ''ORGANIZATION_STORAGE_QUOTA_UPDATED''
           [(''previous_quota_bytes'', quota_json (org_storage_quota_bytes r)),
            (''new_quota_bytes'', quota_json (org_storage_quota_bytes r'))] db1) (\<lambda>(_, db2).
       Inr (storage_usage_of r', db2))))"
  have "storage_ok db'" if b: "?body db = Inr (x, db')" for x db'
  proof -
    from b obtain r r' db1 e ds where r: "get_organization oid db = Inr r"
      and u: "update_storage_quota r quota db = Inr (r', db1)"
      and e: "append_security_event now eid oid (tc_user_id manager) ''ORGANIZATION_STORAGE_QUOTA_UPDATED'' ds db1 = Inr (e, db')"
      by (auto simp: and_then_Inr_iff)
    from u have "save_organization (r \<lparr> org_storage_quota_bytes := quota \<rparr>) db = Inr (r', db1)"
      and "case quota of None \<Rightarrow> True | Some q \<Rightarrow> org_storage_used_bytes r \<le> q"
      by (auto simp: update_storage_quota_def and_then_Inr_iff guard_else_Inr_iff)
    moreover from this(2) have "organization_row_ok (r \<lparr> org_storage_quota_bytes := quota \<rparr>) \<Longrightarrow>
        organization_within_quota (r \<lparr> org_storage_quota_bytes := quota \<rparr>)"
      by (simp add: organization_within_quota_def split: option.splits)
    ultimately have "storage_ok db1" using ok by (blast intro: save_organization_within)
    then show ?thesis using append_security_storage_ok [OF e] by simp
  qed
  then have "storage_ok (snd (unit_of_work ?body db))"
    by (rule unit_of_work_preserves [where P = storage_ok, OF ok])
  then show ?thesis
    using ok unfolding ChangeQuota serve_storage.simps change_storage_quota_def
    by (auto simp: and_also_def on_error_def lift_outcome_def raising_def split: sum.splits prod.splits)
next
  case (StorageDelta oid delta)
  assume ok: "storage_ok db"
  have "storage_ok db'" if d: "apply_storage_delta oid delta db = Inr (r', db')" for r' db'
  proof -
    from d obtain r where "get_organization oid db = Inr r"
      and r': "r' = r \<lparr> org_storage_used_bytes := max 0 (org_storage_used_bytes r + delta) \<rparr>"
      and q: "case org_storage_quota_bytes r of None \<Rightarrow> True | Some q \<Rightarrow> max 0 (org_storage_used_bytes r + delta) \<le> q"
      and s: "save_organization r' db = Inr (r', db')" by (rule apply_storage_delta_Inr)
    from q have "organization_row_ok r' \<Longrightarrow> organization_within_quota r'"
      by (simp add: r' organization_within_quota_def split: option.splits)
    with s ok show ?thesis by (rule save_organization_within)
  qed
  then have "storage_ok (snd (unit_of_work (apply_storage_delta oid delta) db))"
    by (rule unit_of_work_preserves [where P = storage_ok, OF ok])
  then show ?thesis by (simp add: StorageDelta)
qed

section \<open>A team to try the properties on\<close>

definition team_member :: "uuid \<Rightarrow> uuid \<Rightarrow> membership_role \<Rightarrow> membership" where
  "team_member mid uid role =
     \<lparr> mem_id = mid, mem_organization_id = 1, mem_user_id = uid, mem_role = role,
       mem_is_active = True, mem_created_at = 0 \<rparr>"

definition team_user :: "uuid \<Rightarrow> string \<Rightarrow> user" where
  "team_user uid email =
     \<lparr> user_id = uid, user_email = email, user_password_hash = ''hash'', user_display_name = None,
       user_is_active = True, user_failed_login_attempts = 0, user_locked_until = None,
       user_created_at = 0 \<rparr>"

definition team_organization :: organization where
  "team_organization =
     \<lparr> org_id = 1, org_name = ''Acme'', org_slug = ''acme'', org_is_active = True,
       org_storage_quota_bytes = Some 100, org_storage_used_bytes = 40,
       org_hosted_ai_enabled = False, org_ai_daily_request_limit = 100,
       org_ai_monthly_request_limit = 1000, org_ai_daily_token_limit = 100000,
       org_ai_monthly_token_limit = 1000000, org_created_at = 0 \<rparr>"

definition team_db :: db where
  "team_db = empty_db \<lparr> organizations := [team_organization],
     users := [team_user 21 ''ann@acme.io'', team_user 22 ''bob@acme.io'', team_user 23 ''eve@acme.io''],
     memberships := [team_member 11 21 OWNER, team_member 12 22 OWNER, team_member 13 23 ADMIN] \<rparr>"

definition team_context :: "uuid \<Rightarrow> membership_role \<Rightarrow> tenant_context" where
  "team_context uid role = \<lparr> tc_organization_id = 1, tc_user_id = uid, tc_role = role \<rparr>"

lemma team_members_ok: "members_ok team_db"
  by code_simp

lemma team_owners: "count_active_owners 1 team_db = 2"
  by code_simp

section \<open>Properties\<close>

text \<open>
  C37: Whatever requests the managers of any organizations make to add, change or remove
  members, in any order, an organization that has an active owner keeps one.
\<close>

theorem owners_survive:
  assumes "members_ok db" and "0 < count_active_owners oid db"
  shows "0 < count_active_owners oid (fold serve_member requests db)"
proof -
  have "members_ok (fold serve_member requests db) \<and> 0 < count_active_owners oid (fold serve_member requests db)"
    by (rule fold_invariant [where Q = "\<lambda>_. True"])
       (use assms any_request.keeps_ok any_request.keeps_an_owner in auto)
  then show ?thesis ..
qed

theorem owners_survive_witness:
  "0 < count_active_owners 1 (fold serve_member
     [(team_context 21 OWNER, DeactivateMember 5 31 1 12), (team_context 21 OWNER, DeactivateMember 6 32 1 11),
      (team_context 21 OWNER, UpdateMember 7 33 1 11 VIEWER)] team_db)"
  by (rule owners_survive [OF team_members_ok]) (simp only: team_owners zero_less_numeral)

text \<open>
  C38: A request of a manager who is not an owner leaves every owner membership as it is; no
  request touches the members of another organization; and a request that changes a membership
  appends exactly one security event, of that organization and with that manager as its actor.
\<close>

theorem member_requests_are_confined:
  assumes "members_ok db" and "db' = serve_member (manager, q) db"
  shows "(tc_role manager = ADMIN \<longrightarrow>
       filter (\<lambda>m. mem_role m = OWNER) (memberships db') = filter (\<lambda>m. mem_role m = OWNER) (memberships db)) \<and>
     filter (\<lambda>m. mem_organization_id m \<noteq> tc_organization_id manager) (memberships db') =
       filter (\<lambda>m. mem_organization_id m \<noteq> tc_organization_id manager) (memberships db) \<and>
     (memberships db' \<noteq> memberships db \<longrightarrow> (\<exists>e. security_events db' = security_events db @ [e] \<and>
        sec_organization_id e = tc_organization_id manager \<and> sec_actor_user_id e = tc_user_id manager))"
  unfolding assms(2)
  by (intro conjI impI any_request.admin_keeps_owners any_request.keeps_other_tenants any_request.leaves_trace assms(1))

theorem member_requests_are_confined_witness:
  "let db' = serve_member (team_context 23 ADMIN, DeactivateMember 5 31 1 11) team_db
   in filter (\<lambda>m. mem_role m = OWNER) (memberships db') = filter (\<lambda>m. mem_role m = OWNER) (memberships team_db)"
  using member_requests_are_confined [OF team_members_ok refl, of "team_context 23 ADMIN" "DeactivateMember 5 31 1 11"]
  by (simp add: team_context_def Let_def)

text \<open>
  The check for the final owner does not hold across two requests that run at the same
  time: each locks only the membership it changes, so in an organization with two owners both
  requests may read a count of two, both pass, and once both have written no active owner is left.
\<close>

theorem concurrent_demotions_lose_the_owners:
  assumes "members_ok db" and "m1 \<in> set (memberships db)" and "m2 \<in> set (memberships db)" and "m1 \<noteq> m2"
    and "active_owner oid m1" and "active_owner oid m2" and "count_active_owners oid db = 2"
    and "tc_role manager1 = OWNER" and "tc_role manager2 = OWNER" and "role \<noteq> OWNER"
  shows "update_checks oid (mem_id m1) role manager1 db = Inr m1 \<and>
    update_checks oid (mem_id m2) role manager2 db = Inr m2 \<and>
    count_active_owners oid (snd (set_role m2 role (snd (set_role m1 role db)))) = 0"
proof -
  have org: "mem_organization_id m1 = oid" "mem_organization_id m2 = oid"
    using assms(5,6) by (simp_all add: active_owner_def)
  have "get_membership (mem_id m) oid db = Inr m" if "m \<in> set (memberships db)" "mem_organization_id m = oid" for m
    using that scoped_get_unique [OF assms(1) [unfolded members_ok_def]] by (simp add: get_membership_def)
  then have checks: "update_checks oid (mem_id m1) role manager1 db = Inr m1"
    "update_checks oid (mem_id m2) role manager2 db = Inr m2"
    using assms(2,3,7-9) org by (simp_all add: update_checks_def ensure_admin_can_manage_def)
  let ?m1 = "m1 \<lparr> mem_role := role \<rparr>" and ?m2 = "m2 \<lparr> mem_role := role \<rparr>"
  let ?rows = "put_row mem_id ?m1 (memberships db)"
  have "length (filter (active_owner oid) ?rows) + 1 = 2"
    using count_put_row [of mem_id "memberships db" m1 ?m1 "active_owner oid"] assms
    by (simp add: members_ok_def count_active_owners_def active_owner_def)
  moreover have "mem_id m1 \<noteq> mem_id m2"
    using assms(1-4) by (metis members_ok_def distinct_map inj_onD)
  then have "m2 \<in> set ?rows" using assms(3) by (intro put_row_other) auto
  then have "length (filter (active_owner oid) (put_row mem_id ?m2 ?rows)) + 1 = length (filter (active_owner oid) ?rows)"
    using count_put_row [of mem_id ?rows m2 ?m2 "active_owner oid"] assms(1,6,10)
    by (simp add: members_ok_def active_owner_def)
  ultimately show ?thesis
    using checks by (simp add: set_role_def save_membership_def count_active_owners_def Let_def)
qed

theorem concurrent_demotions_lose_the_owners_witness:
  "update_checks 1 11 VIEWER (team_context 22 OWNER) team_db = Inr (team_member 11 21 OWNER) \<and>
   update_checks 1 12 VIEWER (team_context 21 OWNER) team_db = Inr (team_member 12 22 OWNER) \<and>
   count_active_owners 1 (snd (set_role (team_member 12 22 OWNER) VIEWER
     (snd (set_role (team_member 11 21 OWNER) VIEWER team_db)))) = 0"
  using concurrent_demotions_lose_the_owners [OF team_members_ok, of "team_member 11 21 OWNER" "team_member 12 22 OWNER" 1
      "team_context 22 OWNER" "team_context 21 OWNER" VIEWER] team_owners
  by (simp add: team_db_def team_member_def team_context_def active_owner_def)

text \<open>
  The header naming an organization by the text of its identifier is read back to that
  identifier, and it grants the context of exactly the active membership of the user in that
  active organization.
\<close>

theorem organization_header_round_trip:
  assumes "oid < 2 ^ 128"
  shows "get_tenant_context user (Some (uuid_text oid)) db =
    (case get_active oid (user_id user) db of
       None \<Rightarrow> Inl (APIError 403 ''ORGANIZATION_ACCESS_DENIED'')
     | Some m \<Rightarrow> Inr \<lparr> tc_organization_id = oid, tc_user_id = user_id user, tc_role = mem_role m \<rparr>)"
  using assms by (simp add: get_tenant_context_def uuid_of_text_uuid_text)

theorem organization_header_round_trip_witness:
  "get_tenant_context (team_user 23 ''eve@acme.io'') (Some (uuid_text 1)) team_db =
     Inr \<lparr> tc_organization_id = 1, tc_user_id = 23, tc_role = ADMIN \<rparr>"
proof -
  have "get_active 1 23 team_db = Some (team_member 13 23 ADMIN)" by code_simp
  then show ?thesis
    using organization_header_round_trip [of 1 "team_user 23 ''eve@acme.io''" team_db]
    by (simp add: team_user_def team_member_def)
qed

text \<open>
  Storage accounting keeps every organization within its quota: no sequence of
  registrations, renamings, quota changes and storage changes, accepted or refused, makes the
  bytes used negative or larger than the quota.
\<close>

theorem storage_stays_within_quota:
  assumes "storage_ok db" and "r \<in> set (organizations (fold serve_storage requests db))"
  shows "0 \<le> org_storage_used_bytes r \<and>
    (case org_storage_quota_bytes r of None \<Rightarrow> True | Some q \<Rightarrow> org_storage_used_bytes r \<le> q)"
proof -
  have "storage_ok (fold serve_storage requests db)"
    by (rule fold_invariant [where Q = "\<lambda>_. True"]) (use assms(1) serve_storage_ok in auto)
  then have "organization_within_quota r" using assms(2) by (simp add: storage_ok_def list_all_iff)
  then show ?thesis by (simp add: organization_within_quota_def organization_row_ok_def)
qed

theorem storage_stays_within_quota_witness:
  "\<exists>r. organizations (fold serve_storage [StorageDelta 1 50, StorageDelta 1 20] team_db) = [r] \<and>
     org_storage_used_bytes r = 90 \<and> 0 \<le> org_storage_used_bytes r \<and>
     (case org_storage_quota_bytes r of None \<Rightarrow> False | Some q \<Rightarrow> org_storage_used_bytes r \<le> q)"
proof -
  let ?db = "fold serve_storage [StorageDelta 1 50, StorageDelta 1 20] team_db"
  have ok: "storage_ok team_db" and used: "map org_storage_used_bytes (organizations ?db) = [90]"
    and quota: "map org_storage_quota_bytes (organizations ?db) = [Some 100]"
    by code_simp+
  from used obtain r where r: "organizations ?db = [r]" by auto
  have "r \<in> set (organizations ?db)" unfolding r by simp
  with ok have "0 \<le> org_storage_used_bytes r \<and>
    (case org_storage_quota_bytes r of None \<Rightarrow> True | Some q \<Rightarrow> org_storage_used_bytes r \<le> q)"
    by (rule storage_stays_within_quota)
  moreover have "org_storage_used_bytes r = 90" "org_storage_quota_bytes r = Some 100"
    using used quota unfolding r by simp_all
  ultimately show ?thesis using r by (intro exI [of _ r]) simp
qed

text \<open>The AI usage policy of an organization cannot be updated.\<close>

lemma update_ai_usage_policy_fails:
  "\<exists>e. update_ai_usage_policy oid request manager db = (Inl e, db)"
  by (auto simp: update_ai_usage_policy_def checked_unit_def and_also_def lift_outcome_def ensure_selected_def
      guard_else_def unit_of_work_def and_then_def get_organization_def split: option.splits)

end
