(* ===== verification/Tokens.thy ===== *)
theory Tokens
  imports Tenancy
begin

text \<open>
  Tokens and passwords: \<open>auth/tokens.py\<close>, \<open>auth/passwords.py\<close> and
  \<open>RefreshTokenRepository\<close>.  The JWT library, SHA-256 and the password hashing library are
  parameters; the type \<open>'tok\<close> is that of an encoded token.  Identifiers drawn by \<open>uuid4\<close> and
  clock readings are arguments.
\<close>

section \<open>\<open>auth/passwords.py\<close>\<close>

definition normalize_email :: "string \<Rightarrow> string" where
  "normalize_email email = casefold (strip email)"

text \<open>
  The hashing library: \<open>pl_hash\<close> takes the salt it draws, and \<open>pl_verify\<close> is \<open>None\<close> when it
  raises \<open>UnknownHashError\<close> or \<open>ValueError\<close>.
\<close>

record password_library =
  pl_hash :: "nat \<Rightarrow> string \<Rightarrow> string"
  pl_verify :: "string \<Rightarrow> string \<Rightarrow> bool option"

definition verify_password :: "password_library \<Rightarrow> string \<Rightarrow> string \<Rightarrow> bool" where
  "verify_password lib password password_hash =
     (case pl_verify lib password password_hash of None \<Rightarrow> False | Some b \<Rightarrow> b)"

section \<open>\<open>auth/tokens.py\<close>\<close>

datatype token_type = Access | Refresh

fun token_type_text :: "token_type \<Rightarrow> string" where
  "token_type_text Access = ''access''"
| "token_type_text Refresh = ''refresh''"

record token_claims =
  cl_subject :: uuid
  cl_token_id :: uuid
  cl_token_type :: token_type
  cl_expires_at :: instant

record 'tok issued_token =
  it_value :: 'tok
  it_token_id :: uuid
  it_expires_at :: instant

text \<open>
  \<open>jwt.encode\<close> with a secret; \<open>jwt.decode\<close> with the secret, issuer and audience at an
  instant, \<open>None\<close> when it raises \<open>InvalidTokenError\<close>; \<open>sha256(token).hexdigest()\<close>.
\<close>

type_synonym payload = "(string \<times> json) list"

record 'tok token_library =
  tl_encode :: "payload \<Rightarrow> string \<Rightarrow> 'tok"
  tl_decode :: "'tok \<Rightarrow> string \<Rightarrow> string \<Rightarrow> string \<Rightarrow> instant \<Rightarrow> payload option"
  tl_sha256 :: "'tok \<Rightarrow> string"

record token_manager =
  tm_secret :: string
  tm_issuer :: string
  tm_audience :: string
  tm_access_ttl :: int
  tm_refresh_ttl :: int

definition issue_token ::
  "'tok token_library \<Rightarrow> token_manager \<Rightarrow> instant \<Rightarrow> uuid \<Rightarrow> uuid \<Rightarrow> token_type \<Rightarrow> int \<Rightarrow> 'tok issued_token" where
  "issue_token lib tm now tid uid ty ttl =
     (let expires_at = now + ttl;
          payload = [(''sub'', JText (uuid_text uid)), (''jti'', JText (uuid_text tid)),
                     (''type'', JText (token_type_text ty)), (''iss'', JText (tm_issuer tm)),
                     (''aud'', JText (tm_audience tm)), (''iat'', JTime now), (''nbf'', JTime now),
                     (''exp'', JTime expires_at)]
      in \<lparr> it_value = tl_encode lib payload (tm_secret tm), it_token_id = tid, it_expires_at = expires_at \<rparr>)"

definition issue_access :: "'tok token_library \<Rightarrow> token_manager \<Rightarrow> instant \<Rightarrow> uuid \<Rightarrow> uuid \<Rightarrow> 'tok issued_token" where
  "issue_access lib tm now tid uid = issue_token lib tm now tid uid Access (tm_access_ttl tm)"

definition issue_refresh :: "'tok token_library \<Rightarrow> token_manager \<Rightarrow> instant \<Rightarrow> uuid \<Rightarrow> uuid \<Rightarrow> 'tok issued_token" where
  "issue_refresh lib tm now tid uid = issue_token lib tm now tid uid Refresh (tm_refresh_ttl tm)"

definition hash_refresh_token :: "'tok token_library \<Rightarrow> 'tok \<Rightarrow> string" where
  "hash_refresh_token lib token = tl_sha256 lib token"

text \<open>
  \<open>payload[key]\<close>, \<open>uuid.UUID(value)\<close> and \<open>datetime.fromtimestamp(value, UTC)\<close> on the
  values of a decoded payload.
\<close>

definition payload_item :: "payload \<Rightarrow> string \<Rightarrow> json outcome" where
  "payload_item p k = (case map_of p k of None \<Rightarrow> Inl (KeyError k) | Some v \<Rightarrow> Inr v)"

fun uuid_of_json :: "json \<Rightarrow> uuid outcome" where
  "uuid_of_json (JText s) = uuid_of_text s"
| "uuid_of_json JNull = Inl (TypeError ''one of the hex, bytes, bytes_le, fields, or int arguments must be given'')"
| "uuid_of_json _ = Inl (AttributeError ''replace'')"

fun instant_of_json :: "json \<Rightarrow> instant outcome" where
  "instant_of_json (JInt n) =
     (if - 62135596800 \<le> n \<and> n \<le> 253402300799 then Inr (n * 1000000) else Inl (ValueError ''year is out of range''))"
| "instant_of_json _ = Inl (TypeError ''an integer is required'')"

definition token_error :: "py_error \<Rightarrow> py_error" where
  "token_error e = (case e of
     KeyError k \<Rightarrow> TokenValidationError | TypeError m \<Rightarrow> TokenValidationError
   | ValueError m \<Rightarrow> TokenValidationError | _ \<Rightarrow> e)"

definition claims_of_payload :: "payload \<Rightarrow> token_type \<Rightarrow> token_claims outcome" where
  "claims_of_payload p expected =
     and_then (payload_item p ''type'') (\<lambda>t.
     and_then (guard_else (t = JText (token_type_text expected)) TokenValidationError) (\<lambda>_.
     and_then (payload_item p ''sub'') (\<lambda>s. and_then (uuid_of_json s) (\<lambda>subject.
     and_then (payload_item p ''jti'') (\<lambda>j. and_then (uuid_of_json j) (\<lambda>token_id.
     and_then (payload_item p ''exp'') (\<lambda>x. and_then (instant_of_json x) (\<lambda>expires_at.
     Inr \<lparr> cl_subject = subject, cl_token_id = token_id, cl_token_type = expected,
           cl_expires_at = expires_at \<rparr>))))))))"

definition decode_token ::
  "'tok token_library \<Rightarrow> token_manager \<Rightarrow> instant \<Rightarrow> 'tok \<Rightarrow> token_type \<Rightarrow> token_claims outcome" where
  "decode_token lib tm now token expected =
     (case tl_decode lib token (tm_secret tm) (tm_issuer tm) (tm_audience tm) now of
        None \<Rightarrow> Inl TokenValidationError
      | Some p \<Rightarrow> (case claims_of_payload p expected of Inl e \<Rightarrow> Inl (token_error e) | Inr c \<Rightarrow> Inr c))"

section \<open>\<open>RefreshTokenRepository\<close>\<close>

definition insert_refresh_token :: "refresh_token \<Rightarrow> refresh_token db_action" where
  "insert_refresh_token r db =
     (if refresh_token_row_ok r \<and> tok_id r \<notin> set (map tok_id (refresh_tokens db)) \<and>
         tok_token_hash r \<notin> set (map tok_token_hash (refresh_tokens db)) \<and>
         tok_user_id r \<in> set (map user_id (users db))
      then Inr (r, db \<lparr> refresh_tokens := refresh_tokens db @ [r] \<rparr>)
      else Inl IntegrityError)"

definition create_refresh_token ::
  "instant \<Rightarrow> uuid \<Rightarrow> uuid \<Rightarrow> uuid \<Rightarrow> string \<Rightarrow> datetime \<Rightarrow> refresh_token db_action" where
  "create_refresh_token now tid uid family token_hash expires_at db =
     and_then (utc expires_at) (\<lambda>expires.
     insert_refresh_token
       \<lparr> tok_id = tid, tok_user_id = uid, tok_family_id = family, tok_token_hash = token_hash,
         tok_expires_at = expires, tok_revoked_at = None, tok_replaced_by_id = None,
         tok_created_at = now \<rparr> db)"

definition get_by_hash :: "string \<Rightarrow> db \<Rightarrow> refresh_token option" where
  "get_by_hash token_hash db = find (\<lambda>r. tok_token_hash r = token_hash) (refresh_tokens db)"

definition save_refresh_token :: "refresh_token \<Rightarrow> db \<Rightarrow> db" where
  "save_refresh_token r db = db \<lparr> refresh_tokens := put_row tok_id r (refresh_tokens db) \<rparr>"

definition rotate_token ::
  "instant \<Rightarrow> refresh_token \<Rightarrow> uuid \<Rightarrow> string \<Rightarrow> datetime \<Rightarrow> datetime \<Rightarrow> refresh_token db_action" where
  "rotate_token now current replacement_id replacement_hash replacement_expires_at at_time db =
     and_then (create_refresh_token now replacement_id (tok_user_id current) (tok_family_id current)
       replacement_hash replacement_expires_at db) (\<lambda>(replacement, db1).
     and_then (utc at_time) (\<lambda>revoked_at.
     Inr (replacement, save_refresh_token
       (current \<lparr> tok_revoked_at := Some revoked_at, tok_replaced_by_id := Some (tok_id replacement) \<rparr>) db1)))"

definition revoke_token :: "refresh_token \<Rightarrow> datetime \<Rightarrow> unit db_action" where
  "revoke_token r at_time db =
     (if tok_revoked_at r = None
      then and_then (utc at_time) (\<lambda>t. Inr ((), save_refresh_token (r \<lparr> tok_revoked_at := Some t \<rparr>) db))
      else Inr ((), db))"

text \<open>Both bulk revocations: the live rows that are selected are stamped and counted.\<close>

definition revoke_where :: "(refresh_token \<Rightarrow> bool) \<Rightarrow> datetime \<Rightarrow> nat db_action" where
  "revoke_where P at_time db =
     and_then (utc at_time) (\<lambda>t.
     Inr (length (filter (\<lambda>r. P r \<and> tok_revoked_at r = None) (refresh_tokens db)),
       db \<lparr> refresh_tokens := map (\<lambda>r. if P r \<and> tok_revoked_at r = None
              then r \<lparr> tok_revoked_at := Some t \<rparr> else r) (refresh_tokens db) \<rparr>))"

definition revoke_family :: "uuid \<Rightarrow> datetime \<Rightarrow> nat db_action" where
  "revoke_family family = revoke_where (\<lambda>r. tok_family_id r = family)"

definition revoke_all_for_user :: "uuid \<Rightarrow> datetime \<Rightarrow> nat db_action" where
  "revoke_all_for_user uid = revoke_where (\<lambda>r. tok_user_id r = uid)"

section \<open>Tokens are read back as they were issued\<close>

text \<open>
  What the code relies on of the JWT library: a token decodes under the secret, issuer and
  audience it was encoded with, from \<open>nbf\<close> and \<open>iat\<close> until \<open>exp\<close>, to its payload with the
  date claims as whole seconds.
\<close>

fun numeric_date :: "json \<Rightarrow> json" where
  "numeric_date (JTime t) = JInt (t div 1000000)"
| "numeric_date v = v"

definition current_at :: "payload \<Rightarrow> instant \<Rightarrow> bool" where
  "current_at p now \<longleftrightarrow>
     (case (map_of p ''iat'', map_of p ''nbf'', map_of p ''exp'') of
        (Some (JTime i), Some (JTime n), Some (JTime e)) \<Rightarrow>
          i div 1000000 * 1000000 \<le> now \<and> n div 1000000 * 1000000 \<le> now \<and> now < e div 1000000 * 1000000
      | _ \<Rightarrow> False)"

definition jwt_round_trip :: "'tok token_library \<Rightarrow> bool" where
  "jwt_round_trip lib \<longleftrightarrow>
     (\<forall>p secret issuer audience now.
        map_of p ''iss'' = Some (JText issuer) \<longrightarrow> map_of p ''aud'' = Some (JText audience) \<longrightarrow> current_at p now \<longrightarrow>
        tl_decode lib (tl_encode lib p secret) secret issuer audience now = Some (map (\<lambda>(k, v). (k, numeric_date v)) p))"

lemma decode_issued:
  assumes "jwt_round_trip lib" and "tid < 2 ^ 128" and "uid < 2 ^ 128"
    and "now \<le> later" and "later < (now + ttl) div 1000000 * 1000000"
    and "- 62135596800 \<le> (now + ttl) div 1000000" and "(now + ttl) div 1000000 \<le> 253402300799"
  shows "decode_token lib tm later (it_value (issue_token lib tm now tid uid ty ttl)) expected =
    (if expected = ty
     then Inr \<lparr> cl_subject = uid, cl_token_id = tid, cl_token_type = ty,
                cl_expires_at = (now + ttl) div 1000000 * 1000000 \<rparr>
     else Inl TokenValidationError)"
proof -
  define p where "p = [(''sub'', JText (uuid_text uid)), (''jti'', JText (uuid_text tid)),
    (''type'', JText (token_type_text ty)), (''iss'', JText (tm_issuer tm)), (''aud'', JText (tm_audience tm)),
    (''iat'', JTime now), (''nbf'', JTime now), (''exp'', JTime (now + ttl))]"
  have start: "now div 1000000 * 1000000 \<le> later" using assms(4) by presburger
  have "current_at p later" using start assms(5) by (simp add: p_def current_at_def)
  then have decoded: "tl_decode lib (tl_encode lib p (tm_secret tm)) (tm_secret tm) (tm_issuer tm) (tm_audience tm) later =
      Some (map (\<lambda>(k, v). (k, numeric_date v)) p)"
    using assms(1) unfolding jwt_round_trip_def by (simp add: p_def)
  have same: "token_type_text ty = token_type_text expected \<longleftrightarrow> expected = ty"
    by (cases ty; cases expected) simp_all
  have "claims_of_payload (map (\<lambda>(k, v). (k, numeric_date v)) p) expected =
    (if expected = ty
     then Inr \<lparr> cl_subject = uid, cl_token_id = tid, cl_token_type = ty,
                cl_expires_at = (now + ttl) div 1000000 * 1000000 \<rparr>
     else Inl TokenValidationError)"
    using assms(2,3,6,7) same
    by (simp add: p_def claims_of_payload_def payload_item_def uuid_of_text_uuid_text)
  with decoded show ?thesis
    by (simp add: decode_token_def issue_token_def Let_def p_def token_error_def)
qed

text \<open>A library of the expected behaviour, for trying the properties.\<close>

definition plain_library :: "(payload \<times> string) token_library" where
  "plain_library =
     \<lparr> tl_encode = (\<lambda>p secret. (p, secret)),
       tl_decode = (\<lambda>(p, s) secret issuer audience now.
         if s = secret \<and> map_of p ''iss'' = Some (JText issuer) \<and> map_of p ''aud'' = Some (JText audience) \<and>
            current_at p now
         then Some (map (\<lambda>(k, v). (k, numeric_date v)) p) else None),
       tl_sha256 = (\<lambda>(p, s). case map_of p ''jti'' of
           Some (JText t) \<Rightarrow> t @ replicate (64 - length t) (CHR ''0'') | _ \<Rightarrow> replicate 64 (CHR ''f'')) \<rparr>"

lemma plain_round_trip: "jwt_round_trip plain_library"
  by (simp add: jwt_round_trip_def plain_library_def)

definition plain_manager :: token_manager where
  "plain_manager =
     \<lparr> tm_secret = ''secret'', tm_issuer = ''reconcileflow'', tm_audience = ''api'',
       tm_access_ttl = 900000000, tm_refresh_ttl = 2592000000000 \<rparr>"

text \<open>
  A token is accepted as exactly what it was issued as: until it expires it decodes, under
  its own type, to the user, the identifier and (to the second) the expiry it was issued with,
  and under the other type it is rejected, so a refresh token never serves as an access token.
\<close>

theorem issued_tokens_decode:
  assumes "jwt_round_trip lib" and "tid < 2 ^ 128" and "uid < 2 ^ 128"
    and "now \<le> later" and "later < (now + tm_refresh_ttl tm) div 1000000 * 1000000"
    and "- 62135596800 \<le> (now + tm_refresh_ttl tm) div 1000000" and "(now + tm_refresh_ttl tm) div 1000000 \<le> 253402300799"
  shows "decode_token lib tm later (it_value (issue_refresh lib tm now tid uid)) Refresh =
      Inr \<lparr> cl_subject = uid, cl_token_id = tid, cl_token_type = Refresh,
            cl_expires_at = (now + tm_refresh_ttl tm) div 1000000 * 1000000 \<rparr> \<and>
    decode_token lib tm later (it_value (issue_refresh lib tm now tid uid)) Access = Inl TokenValidationError"
  using decode_issued [OF assms] by (simp add: issue_refresh_def)

theorem issued_tokens_decode_witness:
  "decode_token plain_library plain_manager 1000000 (it_value (issue_refresh plain_library plain_manager 0 7 21)) Access =
     Inl TokenValidationError"
  using issued_tokens_decode [OF plain_round_trip, of 7 21 0 1000000 plain_manager] by (simp add: plain_manager_def)

section \<open>Effects of the repository\<close>

lemma insert_refresh_token_Inr:
  assumes "insert_refresh_token r db = Inr (r', db')"
  shows "r' = r" and "db' = db \<lparr> refresh_tokens := refresh_tokens db @ [r] \<rparr>"
    and "tok_id r \<notin> set (map tok_id (refresh_tokens db))"
    and "tok_token_hash r \<notin> set (map tok_token_hash (refresh_tokens db))"
  using assms by (auto simp: insert_refresh_token_def split: if_splits)

lemma revoke_where_Inr:
  assumes "revoke_where P at_time db = Inr (n, db')"
  obtains t where "utc at_time = Inr t"
    and "db' = db \<lparr> refresh_tokens := map (\<lambda>r. if P r \<and> tok_revoked_at r = None
              then r \<lparr> tok_revoked_at := Some t \<rparr> else r) (refresh_tokens db) \<rparr>"
  using assms by (auto simp: revoke_where_def and_then_Inr_iff)

end
