(* ===== verification/Accounts.thy ===== *)
theory Accounts
  imports Tokens
begin

text \<open>
  Registration, login and sessions: \<open>api/routes/auth.py\<close>, its request contracts of
  \<open>api/auth_schemas.py\<close> and \<open>get_current_user\<close>.  Random identifiers, salts and clock readings
  of a request are collected in a record of draws.
\<close>

section \<open>Request contracts\<close>

definition invalid_request :: py_error where
  "invalid_request = APIError 422 ''REQUEST_VALIDATION_ERROR''"

fun split_on :: "char \<Rightarrow> string \<Rightarrow> string list" where
  "split_on d [] = [[]]"
| "split_on d (c # cs) =
     (if c = d then [] # split_on d cs
      else case split_on d cs of [] \<Rightarrow> [[c]] | w # ws \<Rightarrow> (c # w) # ws)"

definition local_char :: "char \<Rightarrow> bool" where
  "local_char c \<longleftrightarrow> is_alpha c \<or> is_digit c \<or> c \<in> set ''.!#$%&*+/=?^_{|}~-'' \<or> c = CHR 0x27 \<or> c = CHR 0x60"

definition label_char :: "char \<Rightarrow> bool" where
  "label_char c \<longleftrightarrow> is_alpha c \<or> is_digit c \<or> c = CHR ''-''"

definition email_pattern :: "string \<Rightarrow> bool" where
  "email_pattern e \<longleftrightarrow>
     (let user_part = takeWhile (\<lambda>c. c \<noteq> CHR ''@'') e;
          domain = dropWhile (\<lambda>c. c \<noteq> CHR ''@'') e;
          labels = split_on (CHR ''.'') (tl domain)
      in user_part \<noteq> [] \<and> list_all local_char user_part \<and> domain \<noteq> [] \<and>
         2 \<le> length labels \<and> list_all (\<lambda>l. l \<noteq> [] \<and> list_all label_char l) labels)"

definition validate_email :: "string \<Rightarrow> string outcome" where
  "validate_email e =
     (let normalized = normalize_email e in
      if 5 \<le> length e \<and> length e \<le> 320 \<and> email_pattern normalized then Inr normalized else Inl invalid_request)"

definition validate_password :: "string \<Rightarrow> string outcome" where
  "validate_password p =
     (if 12 \<le> length p \<and> length p \<le> 128 \<and> strip p \<noteq> [] then Inr p else Inl invalid_request)"

definition validate_name :: "string \<Rightarrow> string outcome" where
  "validate_name n =
     (if 1 \<le> length n \<and> length n \<le> 150 \<and> strip n \<noteq> [] then Inr (strip n) else Inl invalid_request)"

record registration_request =
  rq_email :: string
  rq_password :: string
  rq_display_name :: "string option"
  rq_organization_name :: string

definition validate_registration :: "registration_request \<Rightarrow> registration_request outcome" where
  "validate_registration q =
     and_then (validate_email (rq_email q)) (\<lambda>email.
     and_then (validate_password (rq_password q)) (\<lambda>password.
     and_then (case rq_display_name q of None \<Rightarrow> Inr None
               | Some n \<Rightarrow> and_then (validate_name n) (\<lambda>n'. Inr (Some n'))) (\<lambda>display_name.
     and_then (validate_name (rq_organization_name q)) (\<lambda>organization_name.
     Inr \<lparr> rq_email = email, rq_password = password, rq_display_name = display_name,
           rq_organization_name = organization_name \<rparr>))))"

section \<open>Responses\<close>

record user_response =
  ur_id :: uuid
  ur_email :: string
  ur_display_name :: "string option"
  ur_is_active :: bool
  ur_created_at :: instant

definition user_response_of :: "user \<Rightarrow> user_response" where
  "user_response_of u =
     \<lparr> ur_id = user_id u, ur_email = user_email u, ur_display_name = user_display_name u,
       ur_is_active = user_is_active u, ur_created_at = user_created_at u \<rparr>"

record membership_response =
  mo_id :: uuid
  mo_name :: string
  mo_slug :: string
  mo_is_active :: bool
  mo_role :: membership_role
  mo_membership_is_active :: bool

definition membership_response_of :: "db \<Rightarrow> membership \<Rightarrow> membership_response outcome" where
  "membership_response_of db m =
     and_then (get_organization (mem_organization_id m) db) (\<lambda>r.
     Inr \<lparr> mo_id = org_id r, mo_name = org_name r, mo_slug = org_slug r, mo_is_active = org_is_active r,
           mo_role = mem_role m, mo_membership_is_active = mem_is_active m \<rparr>)"

section \<open>Registration\<close>

text \<open>\<open>re.sub("[^a-z0-9]+", "-", text)\<close>.\<close>

definition slug_char :: "char \<Rightarrow> bool" where
  "slug_char c \<longleftrightarrow> is_lower c \<or> is_digit c"

fun dash_runs :: "bool \<Rightarrow> string \<Rightarrow> string" where
  "dash_runs in_run [] = []"
| "dash_runs in_run (c # cs) =
     (if slug_char c then c # dash_runs False cs
      else if in_run then dash_runs True cs else CHR ''-'' # dash_runs True cs)"

definition slug_of :: "string \<Rightarrow> string" where
  "slug_of name =
     (let slug = take 80 (strip_chars ''-'' (dash_runs False (casefold name)))
      in if slug = [] then ''organization'' else slug)"

definition slug_candidate :: "string \<Rightarrow> uuid \<Rightarrow> string" where
  "slug_candidate base i = take 70 base @ ''-'' @ take 8 (hex_digits 32 i)"

text \<open>The loop that draws identifiers until the slug is unused; the number drawn is kept.\<close>

partial_function (option) unused_slug ::
  "string \<Rightarrow> (nat \<Rightarrow> uuid) \<Rightarrow> db \<Rightarrow> nat \<Rightarrow> string \<Rightarrow> (string \<times> nat) option" where
  "unused_slug base draws db k slug =
     (if slug_exists slug db then unused_slug base draws db (Suc k) (slug_candidate base (draws k))
      else Some (slug, k))"

record registration_draws =
  rd_now :: instant
  rd_salt :: nat
  rd_user :: uuid
  rd_organization :: uuid
  rd_membership :: uuid
  rd_event :: uuid
  rd_slugs :: "nat \<Rightarrow> uuid"

definition register_rows ::
  "registration_draws \<Rightarrow> int \<Rightarrow> string \<Rightarrow> registration_request \<Rightarrow> string \<Rightarrow> (user \<times> membership) db_action" where
  "register_rows d quota password_hash q slug db =
     and_then (create_user (rd_now d) (rd_user d) (rq_email q) password_hash (rq_display_name q) db) (\<lambda>(u, db1).
     and_then (create_organization (rd_now d) (rd_organization d) (rq_organization_name q) slug
       (if quota = 0 then None else Some quota) db1) (\<lambda>(r, db2).
     and_then (create_membership (rd_now d) (rd_membership d) (org_id r) (user_id u) OWNER db2) (\<lambda>(m, db3).
     and_then (append_security_event (rd_now d) (rd_event d) (org_id r) (user_id u) ''USER_REGISTERED''
       [(''membership_role'', JText ''OWNER'')] db3) (\<lambda>(_, db4).
     Inr ((u, m), db4)))))"

text \<open>\<open>None\<close> when the loop for the slug does not end.\<close>

definition register ::
  "password_library \<Rightarrow> int \<Rightarrow> registration_draws \<Rightarrow> registration_request \<Rightarrow> db \<Rightarrow>
   ((user_response \<times> membership_response) outcome \<times> db) option" where
  "register lib quota d q db =
     (if email_exists (rq_email q) db then Some (Inl (APIError 409 ''EMAIL_ALREADY_REGISTERED''), db)
      else map_option (\<lambda>(slug, _).
        and_also (unit_of_work (register_rows d quota (pl_hash lib (rd_salt d) (rq_password q)) q slug))
          (\<lambda>(u, m) db'. (and_then (membership_response_of db' m) (\<lambda>mr. Inr (user_response_of u, mr)), db')) db)
        (unused_slug (slug_of (rq_organization_name q)) (rd_slugs d) db 0 (slug_of (rq_organization_name q))))"

section \<open>The security trail of a session\<close>

text \<open>The events a request appends, in order, with the identifiers it draws for them.\<close>

definition record_events ::
  "instant \<Rightarrow> (nat \<Rightarrow> uuid) \<Rightarrow> uuid \<Rightarrow> (uuid \<times> string \<times> (string \<times> json) list) list \<Rightarrow> db \<Rightarrow> db outcome" where
  "record_events now ids actor events =
     fold_err (\<lambda>(k, oid, event_type, details) db.
       and_then (append_security_event now (ids k) oid actor event_type details db) (\<lambda>(_, db'). Inr db'))
     (zip [0 ..< length events] events)"

definition for_each_membership ::
  "membership list \<Rightarrow> (string \<times> (string \<times> json) list) list \<Rightarrow> (uuid \<times> string \<times> (string \<times> json) list) list" where
  "for_each_membership ms events = concat (map (\<lambda>m. map (\<lambda>e. (mem_organization_id m, e)) events) ms)"

section \<open>Login\<close>

record session_settings =
  ss_max_failed_attempts :: int
  ss_lockout_minutes :: int

record session_draws =
  sd_now :: instant
  sd_database_now :: instant
  sd_access_now :: instant
  sd_refresh_now :: instant
  sd_end_now :: instant
  sd_access_id :: uuid
  sd_refresh_id :: uuid
  sd_family :: uuid
  sd_salt :: nat
  sd_events :: "nat \<Rightarrow> uuid"

text \<open>\<open>int(delta.total_seconds())\<close> truncates toward zero.\<close>

definition whole_seconds :: "int \<Rightarrow> int" where
  "whole_seconds d = (if 0 \<le> d then d div 1000000 else - (- d div 1000000))"

definition utc_datetime :: "instant \<Rightarrow> datetime" where
  "utc_datetime t = DateTime t (Some 0)"

definition lock_active :: "instant \<Rightarrow> user \<Rightarrow> bool" where
  "lock_active now u \<longleftrightarrow> (case user_locked_until u of None \<Rightarrow> False | Some t \<Rightarrow> now < t)"

definition failed_login :: "session_settings \<Rightarrow> session_draws \<Rightarrow> user \<Rightarrow> membership list \<Rightarrow> db \<Rightarrow> db outcome" where
  "failed_login st d u ms db =
     and_then (if user_locked_until u \<noteq> None then reset_login_protection u db else Inr (u, db)) (\<lambda>(u1, db1).
     and_then (record_failed_login u1 (ss_max_failed_attempts st)
       (utc_datetime (sd_now d + ss_lockout_minutes st * 60000000)) db1) (\<lambda>((newly_locked, u2), db2).
     record_events (sd_database_now d) (sd_events d) (user_id u2)
       (for_each_membership ms
         ((''LOGIN_FAILED'', [(''failed_attempts'', JInt (user_failed_login_attempts u2))]) #
          (if newly_locked
           then [(''ACCOUNT_TEMPORARILY_LOCKED'', [(''lockout_minutes'', JInt (ss_lockout_minutes st))])]
           else []))) db2))"

text \<open>The row of the refresh token and the events of a successful login.\<close>

definition start_session ::
  "'tok token_library \<Rightarrow> token_manager \<Rightarrow> session_draws \<Rightarrow> user \<Rightarrow> membership list \<Rightarrow> db \<Rightarrow>
   (('tok issued_token \<times> 'tok issued_token) \<times> db) outcome" where
  "start_session lib tm d u ms db =
     (let access = issue_access lib tm (sd_access_now d) (sd_access_id d) (user_id u);
          refresh = issue_refresh lib tm (sd_refresh_now d) (sd_refresh_id d) (user_id u)
      in and_then (create_refresh_token (sd_database_now d) (it_token_id refresh) (user_id u) (sd_family d)
           (hash_refresh_token lib (it_value refresh)) (utc_datetime (it_expires_at refresh)) db) (\<lambda>(_, db1).
         and_then (record_events (sd_database_now d) (sd_events d) (user_id u)
           (for_each_membership ms [(''USER_LOGGED_IN'', [])]) db1) (\<lambda>db2.
         Inr ((access, refresh), db2))))"

text \<open>The answer of the unit of work is \<open>None\<close> when the credentials are invalid.\<close>

definition login_body ::
  "password_library \<Rightarrow> 'tok token_library \<Rightarrow> token_manager \<Rightarrow> session_settings \<Rightarrow> session_draws \<Rightarrow> string \<Rightarrow> string \<Rightarrow>
   (user \<times> membership list \<times> 'tok issued_token \<times> 'tok issued_token) option db_action" where
  "login_body pl lib tm st d email password db =
     (case get_by_email email db of
        None \<Rightarrow> Inr (None, db)
      | Some u \<Rightarrow>
          let ms = active_memberships (user_id u) db in
          if lock_active (sd_now d) u \<or> \<not> user_is_active u
          then and_then (record_events (sd_database_now d) (sd_events d) (user_id u)
                 (if lock_active (sd_now d) u
                  then for_each_membership ms [(''LOGIN_FAILED'', [(''reason'', JText ''ACCOUNT_LOCKED'')])]
                  else []) db) (\<lambda>db1.
               Inr (None, db1))
          else if \<not> verify_password pl password (user_password_hash u)
          then and_then (failed_login st d u ms db) (\<lambda>db1. Inr (None, db1))
          else and_then (reset_login_protection u db) (\<lambda>(u1, db1).
               and_then (start_session lib tm d u1 ms db1) (\<lambda>((access, refresh), db2).
               Inr (Some (u1, ms, access, refresh), db2))))"

record 'tok login_response =
  lr_user :: user_response
  lr_memberships :: "membership_response list"
  lr_access_token :: 'tok
  lr_refresh_token :: 'tok
  lr_expires_in :: int

definition login ::
  "password_library \<Rightarrow> 'tok token_library \<Rightarrow> token_manager \<Rightarrow> session_settings \<Rightarrow> session_draws \<Rightarrow> string \<Rightarrow> string \<Rightarrow>
   (db, 'tok login_response) task" where
  "login pl lib tm st d email password =
     and_also (unit_of_work (login_body pl lib tm st d (normalize_email email) password)) (\<lambda>r db.
       (case r of
          None \<Rightarrow> Inl (APIError 401 ''INVALID_CREDENTIALS'')
        | Some (u, ms, access, refresh) \<Rightarrow>
            and_then (map_err (membership_response_of db) ms) (\<lambda>mrs.
            Inr \<lparr> lr_user = user_response_of u, lr_memberships = mrs, lr_access_token = it_value access,
                  lr_refresh_token = it_value refresh,
                  lr_expires_in = whole_seconds (it_expires_at access - sd_end_now d) \<rparr>), db))"

section \<open>Refresh and logout\<close>

definition decode_presented ::
  "'tok token_library \<Rightarrow> token_manager \<Rightarrow> instant \<Rightarrow> 'tok \<Rightarrow> token_claims outcome" where
  "decode_presented lib tm now token =
     (case decode_token lib tm now token Refresh of
        Inl TokenValidationError \<Rightarrow> Inl (APIError 401 ''INVALID_REFRESH_TOKEN'')
      | r \<Rightarrow> r)"

text \<open>The row of a presented token, if it is the row the claims name.\<close>

definition presented_row :: "'tok token_library \<Rightarrow> 'tok \<Rightarrow> token_claims \<Rightarrow> db \<Rightarrow> refresh_token option" where
  "presented_row lib token claims db =
     (case get_by_hash (hash_refresh_token lib token) db of
        None \<Rightarrow> None
      | Some r \<Rightarrow> if tok_id r = cl_token_id claims \<and> tok_user_id r = cl_subject claims then Some r else None)"

datatype refresh_verdict = Refreshed | Invalid_Token | Reused_Token

definition refresh_body ::
  "'tok token_library \<Rightarrow> session_draws \<Rightarrow> 'tok issued_token \<Rightarrow> 'tok \<Rightarrow> token_claims \<Rightarrow> refresh_verdict db_action" where
  "refresh_body lib d replacement token claims db =
     (case presented_row lib token claims db of
        None \<Rightarrow> Inr (Invalid_Token, db)
      | Some r \<Rightarrow>
          if tok_revoked_at r \<noteq> None
          then and_then (revoke_family (tok_family_id r) (utc_datetime (sd_now d)) db) (\<lambda>(_, db1).
               Inr (Reused_Token, db1))
          else if tok_expires_at r \<le> sd_now d
          then and_then (revoke_token r (utc_datetime (sd_now d)) db) (\<lambda>(_, db1). Inr (Invalid_Token, db1))
          else case get_user (tok_user_id r) db of
                 None \<Rightarrow> and_then (revoke_family (tok_family_id r) (utc_datetime (sd_now d)) db) (\<lambda>(_, db1).
                         Inr (Invalid_Token, db1))
               | Some u \<Rightarrow>
                   if \<not> user_is_active u
                   then and_then (revoke_family (tok_family_id r) (utc_datetime (sd_now d)) db) (\<lambda>(_, db1).
                        Inr (Invalid_Token, db1))
                   else and_then (rotate_token (sd_database_now d) r (it_token_id replacement)
                          (hash_refresh_token lib (it_value replacement))
                          (utc_datetime (it_expires_at replacement)) (utc_datetime (sd_now d)) db) (\<lambda>(_, db1).
                        and_then (record_events (sd_database_now d) (sd_events d) (user_id u)
                          (for_each_membership (active_memberships (user_id u) db1) [(''REFRESH_TOKEN_ROTATED'', [])])
                          db1) (\<lambda>db2.
                        Inr (Refreshed, db2))))"

record 'tok token_pair =
  tp_access_token :: 'tok
  tp_refresh_token :: 'tok
  tp_expires_in :: int

definition refresh ::
  "'tok token_library \<Rightarrow> token_manager \<Rightarrow> instant \<Rightarrow> session_draws \<Rightarrow> 'tok \<Rightarrow> (db, 'tok token_pair) task" where
  "refresh lib tm received d token =
     and_also (lift_outcome (decode_presented lib tm received token)) (\<lambda>claims.
     let replacement = issue_refresh lib tm (sd_refresh_now d) (sd_refresh_id d) (cl_subject claims);
         access = issue_access lib tm (sd_access_now d) (sd_access_id d) (cl_subject claims)
     in and_also (unit_of_work (refresh_body lib d replacement token claims)) (\<lambda>verdict.
        case verdict of
          Reused_Token \<Rightarrow> raising (APIError 401 ''REFRESH_TOKEN_REUSED'')
        | Invalid_Token \<Rightarrow> raising (APIError 401 ''INVALID_REFRESH_TOKEN'')
        | Refreshed \<Rightarrow> give \<lparr> tp_access_token = it_value access, tp_refresh_token = it_value replacement,
            tp_expires_in = whole_seconds (it_expires_at access - sd_now d) \<rparr>))"

definition logout_body :: "'tok token_library \<Rightarrow> session_draws \<Rightarrow> 'tok \<Rightarrow> token_claims \<Rightarrow> bool db_action" where
  "logout_body lib d token claims db =
     (case presented_row lib token claims db of
        None \<Rightarrow> Inr (False, db)
      | Some r \<Rightarrow>
          and_then (revoke_token r (utc_datetime (sd_now d)) db) (\<lambda>(_, db1).
          and_then (record_events (sd_database_now d) (sd_events d) (cl_subject claims)
            (for_each_membership (active_memberships (cl_subject claims) db1) [(''USER_LOGGED_OUT'', [])]) db1) (\<lambda>db2.
          Inr (True, db2))))"

definition logout ::
  "'tok token_library \<Rightarrow> token_manager \<Rightarrow> instant \<Rightarrow> session_draws \<Rightarrow> 'tok \<Rightarrow> (db, unit) task" where
  "logout lib tm received d token =
     and_also (lift_outcome (decode_presented lib tm received token)) (\<lambda>claims.
     and_also (unit_of_work (logout_body lib d token claims)) (\<lambda>ok.
     if ok then give () else raising (APIError 401 ''INVALID_REFRESH_TOKEN'')))"

section \<open>The authenticated user\<close>

definition invalid_access :: py_error where
  "invalid_access = APIError 401 ''INVALID_ACCESS_TOKEN''"

text \<open>The credentials of the \<open>Authorization\<close> header: its scheme and the token.\<close>

definition get_current_user ::
  "'tok token_library \<Rightarrow> token_manager \<Rightarrow> instant \<Rightarrow> (string \<times> 'tok) option \<Rightarrow> db \<Rightarrow> user outcome" where
  "get_current_user lib tm now credentials db =
     (case credentials of
        None \<Rightarrow> Inl invalid_access
      | Some (scheme, token) \<Rightarrow>
          if casefold scheme \<noteq> ''bearer'' then Inl invalid_access
          else case decode_token lib tm now token Access of
                 Inl e \<Rightarrow> Inl (if e = TokenValidationError then invalid_access else e)
               | Inr claims \<Rightarrow>
                   (case get_user (cl_subject claims) db of
                      None \<Rightarrow> Inl invalid_access
                    | Some u \<Rightarrow> if user_is_active u then Inr u else Inl invalid_access))"

definition current_user :: "user \<Rightarrow> db \<Rightarrow> (user_response \<times> membership_response list) outcome" where
  "current_user user db =
     and_then (map_err (membership_response_of db) (active_memberships (user_id user) db)) (\<lambda>mrs.
     Inr (user_response_of user, mrs))"

definition change_password ::
  "password_library \<Rightarrow> session_draws \<Rightarrow> string \<Rightarrow> string \<Rightarrow> user \<Rightarrow> (db, unit) task" where
  "change_password pl d current_password new_password user =
     unit_of_work (\<lambda>(db :: db).
       case get_user (user_id user) db of
         None \<Rightarrow> Inl (APIError 401 ''INVALID_CURRENT_PASSWORD'')
       | Some u \<Rightarrow>
           and_then (guard_else (verify_password pl current_password (user_password_hash u))
             (APIError 401 ''INVALID_CURRENT_PASSWORD'')) (\<lambda>_.
           and_then (guard_else (\<not> verify_password pl new_password (user_password_hash u))
             (APIError 409 ''PASSWORD_REUSE'')) (\<lambda>_.
           and_then (update_password u (pl_hash pl (sd_salt d) new_password) db) (\<lambda>(u1, db1).
           and_then (revoke_all_for_user (user_id user) (utc_datetime (sd_now d)) db1) (\<lambda>(_, db2).
           and_then (record_events (sd_database_now d) (sd_events d) (user_id user)
             (for_each_membership (active_memberships (user_id user) db2)
               [(''PASSWORD_CHANGED'', [(''all_refresh_sessions_revoked'', JBool True)])]) db2) (\<lambda>db3.
           Inr ((), db3)))))))"

definition revoke_all_sessions :: "session_draws \<Rightarrow> user \<Rightarrow> (db, unit) task" where
  "revoke_all_sessions d user =
     unit_of_work (\<lambda>(db :: db).
       and_then (revoke_all_for_user (user_id user) (utc_datetime (sd_now d)) db) (\<lambda>(revoked, db1).
       and_then (record_events (sd_database_now d) (sd_events d) (user_id user)
         (for_each_membership (active_memberships (user_id user) db1)
           [(''ALL_SESSIONS_REVOKED'', [(''revoked_session_count'', JInt (int revoked))])]) db1) (\<lambda>db2.
       Inr ((), db2))))"

section \<open>What the routes do to the tables\<close>

lemma record_events_Inr:
  assumes "record_events now ids actor events db = Inr db'"
  shows "\<exists>es. db' = db \<lparr> security_events := security_events db @ es \<rparr>"
  using assms unfolding record_events_def
proof (rule fold_err_invariant)
  show "\<exists>es. db = db \<lparr> security_events := security_events db @ es \<rparr>" by (intro exI [of _ "[]"]) simp
next
  fix x :: "nat \<times> uuid \<times> string \<times> (string \<times> json) list" and s t :: db
  assume "\<exists>es. s = db \<lparr> security_events := security_events db @ es \<rparr>"
  then obtain es where s: "s = db \<lparr> security_events := security_events db @ es \<rparr>" ..
  assume "(case x of (k, oid, event_type, details) \<Rightarrow> \<lambda>db.
      and_then (append_security_event now (ids k) oid actor event_type details db) (\<lambda>(_, db'). Inr db')) s = Inr t"
  then obtain k oid ty ds e where "append_security_event now (ids k) oid actor ty ds s = Inr (e, t)"
    by (cases x) (auto simp: and_then_Inr_iff)
  then show "\<exists>es. t = db \<lparr> security_events := security_events db @ es \<rparr>"
    using append_security_Inr(1) s by (intro exI [of _ "es @ [e]"]) fastforce
qed

lemma record_events_tokens:
  "record_events now ids actor events db = Inr db' \<Longrightarrow> refresh_tokens db' = refresh_tokens db \<and> users db' = users db \<and>
     memberships db' = memberships db \<and> organizations db' = organizations db"
  by (auto dest: record_events_Inr)

lemma save_user_Inr:
  "save_user u db = Inr (u', db') \<Longrightarrow> u' = u \<and> user_row_ok u \<and> db' = db \<lparr> users := put_row user_id u (users db) \<rparr>"
  by (auto simp: save_user_def split: if_splits)

lemma reset_login_protection_Inr:
  assumes "reset_login_protection u db = Inr (u', db')"
  shows "refresh_tokens db' = refresh_tokens db" and "user_id u' = user_id u"
    and "user_failed_login_attempts u' = 0" and "user_locked_until u' = None"
    and "user_password_hash u' = user_password_hash u" and "user_email u' = user_email u"
    and "user_is_active u' = user_is_active u"
  using assms by (auto simp: reset_login_protection_def dest!: save_user_Inr split: if_splits)

lemma record_failed_login_Inr:
  assumes "record_failed_login u threshold until db = Inr ((locked, u'), db')"
  shows "refresh_tokens db' = refresh_tokens db" and "user_id u' = user_id u"
    and "user_failed_login_attempts u' = user_failed_login_attempts u + 1"
    and "locked \<longleftrightarrow> threshold \<le> user_failed_login_attempts u'"
    and "db' = db \<lparr> users := put_row user_id u' (users db) \<rparr>"
    and "user_email u' = user_email u"
    and "if locked then \<exists>t. utc until = Inr t \<and> user_locked_until u' = Some t else user_locked_until u' = user_locked_until u"
    and "user_password_hash u' = user_password_hash u" and "user_is_active u' = user_is_active u"
  using assms
  by (auto simp: record_failed_login_def Let_def and_then_Inr_iff dest!: save_user_Inr split: if_splits)

lemma failed_login_Inr:
  assumes "failed_login st d u ms db = Inr db'"
  obtains u1 db1 locked u2 db2 where
    "(if user_locked_until u \<noteq> None then reset_login_protection u db else Inr (u, db)) = Inr (u1, db1)"
    "record_failed_login u1 (ss_max_failed_attempts st)
       (utc_datetime (sd_now d + ss_lockout_minutes st * 60000000)) db1 = Inr ((locked, u2), db2)"
    "refresh_tokens db' = refresh_tokens db2" "users db' = users db2"
proof -
  from assms obtain u1 db1 locked u2 db2 where
    1: "(if user_locked_until u \<noteq> None then reset_login_protection u db else Inr (u, db)) = Inr (u1, db1)"
    and 2: "record_failed_login u1 (ss_max_failed_attempts st)
       (utc_datetime (sd_now d + ss_lockout_minutes st * 60000000)) db1 = Inr ((locked, u2), db2)"
    and 3: "record_events (sd_database_now d) (sd_events d) (user_id u2)
       (for_each_membership ms
         ((''LOGIN_FAILED'', [(''failed_attempts'', JInt (user_failed_login_attempts u2))]) #
          (if locked
           then [(''ACCOUNT_TEMPORARILY_LOCKED'', [(''lockout_minutes'', JInt (ss_lockout_minutes st))])]
           else []))) db2 = Inr db'"
  proof -
    from assms obtain p q where "(if user_locked_until u \<noteq> None then reset_login_protection u db else Inr (u, db)) = Inr p"
      and "record_failed_login (fst p) (ss_max_failed_attempts st)
         (utc_datetime (sd_now d + ss_lockout_minutes st * 60000000)) (snd p) = Inr q"
      and "record_events (sd_database_now d) (sd_events d) (user_id (snd (fst q)))
         (for_each_membership ms
           ((''LOGIN_FAILED'', [(''failed_attempts'', JInt (user_failed_login_attempts (snd (fst q))))]) #
            (if fst (fst q)
             then [(''ACCOUNT_TEMPORARILY_LOCKED'', [(''lockout_minutes'', JInt (ss_lockout_minutes st))])]
             else []))) (snd q) = Inr db'"
      unfolding failed_login_def and_then_Inr_iff case_prod_beta by blast
    then show ?thesis by (intro that [of "fst p" "snd p" "fst (fst q)" "snd (fst q)" "snd q"]) simp_all
  qed
  from record_events_tokens [OF 3] show ?thesis by (intro that [OF 1 2]) simp_all
qed

lemma failed_login_tokens: "failed_login st d u ms db = Inr db' \<Longrightarrow> refresh_tokens db' = refresh_tokens db"
  by (erule failed_login_Inr, drule record_failed_login_Inr(1))
     (auto dest: reset_login_protection_Inr(1) split: if_splits)

section \<open>The specification of a session\<close>

text \<open>
  A session is a family of refresh tokens: it has one live token, which refreshing exchanges
  for another of the same user, until it ends for good.
\<close>

datatype session = No_Session | Live uuid uuid | Ended

inductive session_step :: "session \<Rightarrow> session \<Rightarrow> bool" where
  unchanged: "session_step s s"
| opened: "session_step No_Session (Live u t)"
| rotated: "session_step (Live u t) (Live u t')"
| closed: "session_step (Live u t) Ended"

inductive_simps session_step_Ended: "session_step Ended s"

definition live :: "refresh_token \<Rightarrow> bool" where
  "live r \<longleftrightarrow> tok_revoked_at r = None"

definition session_of :: "refresh_token list \<Rightarrow> uuid \<Rightarrow> session" where
  "session_of ts f =
     (if f \<notin> set (map tok_family_id ts) then No_Session
      else case filter (\<lambda>r. live r \<and> tok_family_id r = f) ts of
          [] \<Rightarrow> Ended | r # _ \<Rightarrow> Live (tok_user_id r) (tok_id r))"

definition sessions_ok :: "refresh_token list \<Rightarrow> bool" where
  "sessions_ok ts \<longleftrightarrow> distinct (map tok_id ts) \<and> distinct (map tok_token_hash ts) \<and>
     distinct (map tok_family_id (filter live ts))"

lemma one_live:
  assumes "sessions_ok ts"
  shows "filter (\<lambda>r. live r \<and> tok_family_id r = f) ts = [] \<or>
    (\<exists>r. r \<in> set ts \<and> live r \<and> tok_family_id r = f \<and> filter (\<lambda>r. live r \<and> tok_family_id r = f) ts = [r])"
proof -
  have "distinct (map tok_family_id (filter (\<lambda>r. tok_family_id r = f) (filter live ts)))"
    using assms by (simp add: sessions_ok_def distinct_map_filter del: filter_filter)
  then have d: "distinct (map tok_family_id (filter (\<lambda>r. live r \<and> tok_family_id r = f) ts))"
    by (simp add: conj_commute)
  show ?thesis
  proof (cases "filter (\<lambda>r. live r \<and> tok_family_id r = f) ts")
    case (Cons r rs)
    have mem: "x \<in> set ts \<and> live x \<and> tok_family_id x = f" if "x \<in> set (r # rs)" for x
      using that Cons [symmetric] by (metis (mono_tags, lifting) mem_Collect_eq set_filter)
    have "rs = []"
    proof (cases rs)
      case (Cons r' rs')
      with d \<open>filter _ ts = r # rs\<close> mem [of r] mem [of r'] show ?thesis by simp
    qed
    with Cons mem [of r] show ?thesis by auto
  qed simp
qed

text \<open>Revoking some rows: identities are kept and no row comes back to life.\<close>

lemma revoking:
  assumes ok: "sessions_ok ts"
    and g: "\<And>r. r \<in> set ts \<Longrightarrow> tok_id (g r) = tok_id r \<and> tok_family_id (g r) = tok_family_id r \<and>
        tok_user_id (g r) = tok_user_id r \<and> tok_token_hash (g r) = tok_token_hash r \<and> (live (g r) \<longrightarrow> live r)"
  shows "sessions_ok (map g ts)" and "session_step (session_of ts f) (session_of (map g ts) f)"
proof -
  have keys: "map tok_id (map g ts) = map tok_id ts" "map tok_token_hash (map g ts) = map tok_token_hash ts"
    "map tok_family_id (map g ts) = map tok_family_id ts"
    using g by simp_all
  have fam: "map tok_family_id (filter live (map g ts)) = map tok_family_id (filter (\<lambda>r. live (g r)) (filter live ts))"
    using g by (induction ts) auto
  show "sessions_ok (map g ts)"
    using ok unfolding sessions_ok_def keys fam by (simp add: distinct_map_filter del: filter_filter)
  let ?P = "\<lambda>r. live r \<and> tok_family_id r = f"
  have sub: "filter ?P (map g ts) = map g (filter (\<lambda>r. live (g r)) (filter ?P ts))"
    using g by (induction ts) auto
  show "session_step (session_of ts f) (session_of (map g ts) f)"
  proof (cases "f \<in> set (map tok_family_id ts)")
    case False
    then show ?thesis unfolding session_of_def keys by (simp add: unchanged)
  next
    case True
    from one_live [OF ok, of f] show ?thesis
    proof
      assume "filter ?P ts = []"
      with True sub show ?thesis unfolding session_of_def keys by (simp add: unchanged)
    next
      assume "\<exists>r. r \<in> set ts \<and> live r \<and> tok_family_id r = f \<and> filter ?P ts = [r]"
      then obtain r where "r \<in> set ts" "filter ?P ts = [r]" by blast
      with True sub g [of r] show ?thesis
        unfolding session_of_def keys by (auto intro: unchanged closed)
    qed
  qed
qed

definition sessions_follow :: "db \<Rightarrow> db \<Rightarrow> bool" where
  "sessions_follow db db' \<longleftrightarrow> sessions_ok (refresh_tokens db') \<and>
     (\<forall>f. session_step (session_of (refresh_tokens db) f) (session_of (refresh_tokens db') f))"

lemma sessions_follow_same:
  "sessions_ok (refresh_tokens db) \<Longrightarrow> refresh_tokens db' = refresh_tokens db \<Longrightarrow> sessions_follow db db'"
  by (simp add: sessions_follow_def unchanged)

lemma sessions_follow_revoking:
  assumes "sessions_ok (refresh_tokens db)" and "refresh_tokens db' = map g (refresh_tokens db)"
    and "\<And>r. r \<in> set (refresh_tokens db) \<Longrightarrow> tok_id (g r) = tok_id r \<and> tok_family_id (g r) = tok_family_id r \<and>
        tok_user_id (g r) = tok_user_id r \<and> tok_token_hash (g r) = tok_token_hash r \<and> (live (g r) \<longrightarrow> live r)"
  shows "sessions_follow db db'"
  using revoking [OF assms(1) assms(3)] assms(2) by (simp add: sessions_follow_def)

lemma revoke_where_follows:
  assumes "sessions_ok (refresh_tokens db)" and "revoke_where P at_time db = Inr (n, db')"
  shows "sessions_follow db db'"
proof -
  from assms(2) obtain t where "db' = db \<lparr> refresh_tokens := map (\<lambda>r. if P r \<and> tok_revoked_at r = None
      then r \<lparr> tok_revoked_at := Some t \<rparr> else r) (refresh_tokens db) \<rparr>" by (rule revoke_where_Inr)
  then show ?thesis
    by (intro sessions_follow_revoking [OF assms(1),
        where g = "\<lambda>r. if P r \<and> tok_revoked_at r = None then r \<lparr> tok_revoked_at := Some t \<rparr> else r"])
      (simp_all add: live_def)
qed

lemma token_unique:
  "sessions_ok ts \<Longrightarrow> r \<in> set ts \<Longrightarrow> x \<in> set ts \<Longrightarrow> tok_id x = tok_id r \<Longrightarrow> x = r"
  unfolding sessions_ok_def by (metis distinct_map inj_onD)

lemma revoke_token_follows:
  assumes ok: "sessions_ok (refresh_tokens db)" and r: "r \<in> set (refresh_tokens db)"
    and "revoke_token r at_time db = Inr (u, db')"
  shows "sessions_follow db db'"
proof (cases "tok_revoked_at r = None")
  case False
  with assms show ?thesis by (intro sessions_follow_same) (auto simp: revoke_token_def)
next
  case True
  with assms obtain t where db': "db' = save_refresh_token (r \<lparr> tok_revoked_at := Some t \<rparr>) db"
    by (auto simp: revoke_token_def and_then_Inr_iff)
  let ?g = "\<lambda>x. if tok_id x = tok_id r then r \<lparr> tok_revoked_at := Some t \<rparr> else x"
  show ?thesis
  proof (rule sessions_follow_revoking [OF ok, where g = ?g])
    show "refresh_tokens db' = map ?g (refresh_tokens db)" by (simp add: db' save_refresh_token_def put_row_def)
    fix x
    assume "x \<in> set (refresh_tokens db)"
    with token_unique [OF ok r this] show "tok_id (?g x) = tok_id x \<and> tok_family_id (?g x) = tok_family_id x \<and>
        tok_user_id (?g x) = tok_user_id x \<and> tok_token_hash (?g x) = tok_token_hash x \<and> (live (?g x) \<longrightarrow> live x)"
      by (auto simp: live_def)
  qed
qed

lemma create_refresh_token_Inr:
  assumes "create_refresh_token now tid uid family h expires db = Inr (r, db')"
  shows "db' = db \<lparr> refresh_tokens := refresh_tokens db @ [r] \<rparr>" and "tok_id r = tid" and "tok_user_id r = uid"
    and "tok_family_id r = family" and "tok_token_hash r = h" and "live r" and "tok_replaced_by_id r = None"
    and "tid \<notin> set (map tok_id (refresh_tokens db))" and "h \<notin> set (map tok_token_hash (refresh_tokens db))"
proof -
  from assms obtain t where i: "insert_refresh_token
       \<lparr> tok_id = tid, tok_user_id = uid, tok_family_id = family, tok_token_hash = h,
         tok_expires_at = t, tok_revoked_at = None, tok_replaced_by_id = None,
         tok_created_at = now \<rparr> db = Inr (r, db')"
    by (auto simp: create_refresh_token_def and_then_Inr_iff)
  show "db' = db \<lparr> refresh_tokens := refresh_tokens db @ [r] \<rparr>" and "tok_id r = tid" and "tok_user_id r = uid"
    and "tok_family_id r = family" and "tok_token_hash r = h" and "live r" and "tok_replaced_by_id r = None"
    and "tid \<notin> set (map tok_id (refresh_tokens db))" and "h \<notin> set (map tok_token_hash (refresh_tokens db))"
    using insert_refresh_token_Inr [OF i] by (simp_all add: live_def)
qed

lemma create_refresh_token_follows:
  assumes ok: "sessions_ok (refresh_tokens db)" and fresh: "family \<notin> set (map tok_family_id (refresh_tokens db))"
    and c: "create_refresh_token now tid uid family h expires db = Inr (r, db')"
  shows "sessions_follow db db'"
proof -
  note facts = create_refresh_token_Inr [OF c]
  have "sessions_ok (refresh_tokens db')"
    using ok fresh facts by (auto simp: sessions_ok_def)
  moreover have "session_step (session_of (refresh_tokens db) f) (session_of (refresh_tokens db') f)" for f
  proof (cases "f = family")
    case True
    have "filter (\<lambda>x. live x \<and> tok_family_id x = family) (refresh_tokens db) = []"
      using fresh by (auto simp: filter_empty_conv)
    with True fresh facts show ?thesis by (auto simp: session_of_def intro: opened)
  next
    case False
    with facts show ?thesis by (auto simp: session_of_def intro: unchanged)
  qed
  ultimately show ?thesis by (simp add: sessions_follow_def)
qed

lemma rotate_token_Inr:
  assumes "rotate_token now r tid h expires at_time db = Inr (rep, db')" and "r \<in> set (refresh_tokens db)"
  obtains t where "refresh_tokens db' = map (\<lambda>x. if tok_id x = tok_id r
        then r \<lparr> tok_revoked_at := Some t, tok_replaced_by_id := Some tid \<rparr> else x) (refresh_tokens db) @ [rep]"
    and "tok_id rep = tid" "tok_user_id rep = tok_user_id r" "tok_family_id rep = tok_family_id r"
    and "tok_token_hash rep = h" "live rep" "tid \<notin> set (map tok_id (refresh_tokens db))"
    and "h \<notin> set (map tok_token_hash (refresh_tokens db))" "utc at_time = Inr t" "users db' = users db"
proof -
  from assms(1) obtain db1 t where c: "create_refresh_token now tid (tok_user_id r) (tok_family_id r) h expires db = Inr (rep, db1)"
    and t: "utc at_time = Inr t"
    and db': "db' = save_refresh_token (r \<lparr> tok_revoked_at := Some t, tok_replaced_by_id := Some (tok_id rep) \<rparr>) db1"
    by (auto simp: rotate_token_def and_then_Inr_iff)
  note facts = create_refresh_token_Inr [OF c]
  have "tid \<noteq> tok_id r" using facts(8) assms(2) by auto
  then show ?thesis
    using facts t by (intro that [of t]) (auto simp: db' save_refresh_token_def put_row_def)
qed

lemma rotate_token_follows:
  assumes ok: "sessions_ok (refresh_tokens db)" and r: "r \<in> set (refresh_tokens db)" "live r"
    and rotate: "rotate_token now r tid h expires at_time db = Inr (rep, db')"
  shows "sessions_follow db db'"
proof -
  let ?ts = "refresh_tokens db" and ?P = "\<lambda>f x. live x \<and> tok_family_id x = f"
  from rotate r(1) obtain t where ts: "refresh_tokens db' = map (\<lambda>x. if tok_id x = tok_id r
        then r \<lparr> tok_revoked_at := Some t, tok_replaced_by_id := Some tid \<rparr> else x) ?ts @ [rep]"
    and rep: "tok_id rep = tid" "tok_user_id rep = tok_user_id r" "tok_family_id rep = tok_family_id r"
      "tok_token_hash rep = h" "live rep" and new: "tid \<notin> set (map tok_id ?ts)" "h \<notin> set (map tok_token_hash ?ts)"
    by (rule rotate_token_Inr)
  define g where "g = (\<lambda>x. if tok_id x = tok_id r
      then r \<lparr> tok_revoked_at := Some t, tok_replaced_by_id := Some tid \<rparr> else x)"
  have g: "tok_id (g x) = tok_id x \<and> tok_family_id (g x) = tok_family_id x \<and> tok_user_id (g x) = tok_user_id x \<and>
      tok_token_hash (g x) = tok_token_hash x \<and> (live (g x) \<longrightarrow> live x)" if "x \<in> set ?ts" for x
    using token_unique [OF ok r(1) that] by (auto simp: g_def live_def)
  note rev = revoking [OF ok g]
  have keys: "map tok_family_id (map g ?ts) = map tok_family_id ?ts" "map tok_id (map g ?ts) = map tok_id ?ts"
    "map tok_token_hash (map g ?ts) = map tok_token_hash ?ts" using g by simp_all
  have only: "filter (?P (tok_family_id r)) ?ts = [r]"
  proof -
    from one_live [OF ok, of "tok_family_id r"] r obtain r' where "filter (?P (tok_family_id r)) ?ts = [r']"
      by (auto simp: filter_empty_conv)
    moreover have "r \<in> set (filter (?P (tok_family_id r)) ?ts)" using r by simp
    ultimately show ?thesis by simp
  qed
  have dead: "filter (?P (tok_family_id r)) (map g ?ts) = []"
  proof -
    have "\<not> live (g x)" if "x \<in> set ?ts" "live x" "tok_family_id x = tok_family_id r" for x
    proof -
      have "x \<in> set (filter (?P (tok_family_id r)) ?ts)" using that by simp
      then have "x = r" unfolding only by simp
      then show ?thesis by (simp add: g_def live_def)
    qed
    then show ?thesis using g by (fastforce simp: filter_empty_conv)
  qed
  have "tok_family_id r \<notin> set (map tok_family_id (filter live (map g ?ts)))"
    using dead by (auto simp: filter_empty_conv)
  then have "sessions_ok (refresh_tokens db')"
    using rev(1) rep new unfolding ts g_def [symmetric] sessions_ok_def map_append keys by auto
  moreover have "session_step (session_of ?ts f) (session_of (refresh_tokens db') f)" for f
  proof (cases "f = tok_family_id r")
    case True
    have "session_of ?ts f = Live (tok_user_id r) (tok_id r)" using True only r(1) by (auto simp: session_of_def)
    moreover have "session_of (refresh_tokens db') f = Live (tok_user_id r) tid"
      using True dead rep unfolding ts g_def [symmetric] by (simp add: session_of_def)
    ultimately show ?thesis by (simp add: rotated)
  next
    case False
    then have "session_of (refresh_tokens db') f = session_of (map g ?ts) f"
      using rep unfolding ts g_def [symmetric] by (simp add: session_of_def)
    then show ?thesis using rev(2) [of f] by simp
  qed
  ultimately show ?thesis by (simp add: sessions_follow_def)
qed

lemma sessions_follow_then:
  "sessions_follow db db1 \<Longrightarrow> refresh_tokens db' = refresh_tokens db1 \<Longrightarrow> sessions_follow db db'"
  by (simp add: sessions_follow_def)

lemma sessions_follow_unit:
  assumes "sessions_ok (refresh_tokens db)" and "\<And>x db'. body db = Inr (x, db') \<Longrightarrow> sessions_follow db db'"
  shows "sessions_follow db (snd (unit_of_work body db))"
  by (rule unit_of_work_cases [of body db]) (use assms sessions_follow_same in auto)

lemma start_session_follows:
  assumes "sessions_ok (refresh_tokens db)" and "sd_family d \<notin> set (map tok_family_id (refresh_tokens db))"
    and "start_session lib tm d u ms db = Inr (x, db')"
  shows "sessions_follow db db'"
proof -
  from assms(3) obtain h e r db1 where c: "create_refresh_token (sd_database_now d)
       (it_token_id (issue_refresh lib tm (sd_refresh_now d) (sd_refresh_id d) (user_id u))) (user_id u) (sd_family d) h e db = Inr (r, db1)"
    and "record_events (sd_database_now d) (sd_events d) (user_id u)
           (for_each_membership ms [(''USER_LOGGED_IN'', [])]) db1 = Inr db'"
    by (auto simp: start_session_def Let_def and_then_Inr_iff)
  then show ?thesis
    using create_refresh_token_follows [OF assms(1,2) c] record_events_tokens by (blast intro: sessions_follow_then)
qed

lemma login_body_follows:
  assumes ok: "sessions_ok (refresh_tokens db)" and fresh: "sd_family d \<notin> set (map tok_family_id (refresh_tokens db))"
    and b: "login_body pl lib tm st d email password db = Inr (x, db')"
  shows "sessions_follow db db'"
proof (cases "get_by_email email db")
  case None
  with b ok show ?thesis by (simp add: login_body_def sessions_follow_same)
next
  case (Some u)
  let ?ms = "active_memberships (user_id u) db"
  consider (refused) es where "record_events (sd_database_now d) (sd_events d) (user_id u) es db = Inr db'"
    | (failed) "failed_login st d u ?ms db = Inr db'"
    | (passed) u1 db1 y where "reset_login_protection u db = Inr (u1, db1)" "start_session lib tm d u1 ?ms db1 = Inr (y, db')"
    using b Some by (auto simp: login_body_def Let_def and_then_Inr_iff split: if_splits)
  then show ?thesis
  proof cases
    case refused
    then show ?thesis using record_events_tokens ok by (blast intro: sessions_follow_same)
  next
    case failed
    then show ?thesis using failed_login_tokens ok by (blast intro: sessions_follow_same)
  next
    case passed
    from passed(1) have "refresh_tokens db1 = refresh_tokens db" by (rule reset_login_protection_Inr(1))
    then show ?thesis
      using start_session_follows [of db1 d lib tm u1 ?ms y db'] passed(2) ok fresh by (simp add: sessions_follow_def)
  qed
qed

lemma presented_row_Some:
  assumes "presented_row lib token claims db = Some r"
  shows "r \<in> set (refresh_tokens db)" and "tok_token_hash r = hash_refresh_token lib token"
    and "tok_id r = cl_token_id claims" and "tok_user_id r = cl_subject claims"
  using assms by (auto simp: presented_row_def get_by_hash_def find_Some_iff split: option.splits if_splits)

lemma refresh_body_cases:
  assumes "refresh_body lib d replacement token claims db = Inr (v, db')"
  obtains (unknown) "presented_row lib token claims db = None" "v = Invalid_Token" "db' = db"
  | (reused) r n where "presented_row lib token claims db = Some r" "tok_revoked_at r \<noteq> None"
      "revoke_family (tok_family_id r) (utc_datetime (sd_now d)) db = Inr (n, db')" "v = Reused_Token"
  | (expired) r u where "presented_row lib token claims db = Some r" "tok_revoked_at r = None"
      "tok_expires_at r \<le> sd_now d" "revoke_token r (utc_datetime (sd_now d)) db = Inr (u, db')" "v = Invalid_Token"
  | (no_user) r n where "presented_row lib token claims db = Some r" "tok_revoked_at r = None"
      "revoke_family (tok_family_id r) (utc_datetime (sd_now d)) db = Inr (n, db')" "v = Invalid_Token"
  | (exchanged) r u rep db1 where "presented_row lib token claims db = Some r" "tok_revoked_at r = None"
      "sd_now d < tok_expires_at r" "get_user (tok_user_id r) db = Some u" "user_is_active u"
      "rotate_token (sd_database_now d) r (it_token_id replacement) (hash_refresh_token lib (it_value replacement))
         (utc_datetime (it_expires_at replacement)) (utc_datetime (sd_now d)) db = Inr (rep, db1)"
      "refresh_tokens db' = refresh_tokens db1" "v = Refreshed"
proof (cases "presented_row lib token claims db")
  case None
  with assms show ?thesis by (intro unknown) (simp_all add: refresh_body_def)
next
  case (Some r)
  note body = assms [unfolded refresh_body_def Some option.case]
  consider (a) "tok_revoked_at r \<noteq> None" | (b) "tok_revoked_at r = None" "tok_expires_at r \<le> sd_now d"
    | (c) "tok_revoked_at r = None" "sd_now d < tok_expires_at r" "get_user (tok_user_id r) db = None"
    | (d) u where "tok_revoked_at r = None" "sd_now d < tok_expires_at r" "get_user (tok_user_id r) db = Some u"
        "\<not> user_is_active u"
    | (e) u where "tok_revoked_at r = None" "sd_now d < tok_expires_at r" "get_user (tok_user_id r) db = Some u"
        "user_is_active u"
    by (cases "get_user (tok_user_id r) db"; cases "tok_revoked_at r"; cases "tok_expires_at r \<le> sd_now d")
       (auto simp: not_le)
  then show ?thesis
  proof cases
    case a
    with body obtain n where "revoke_family (tok_family_id r) (utc_datetime (sd_now d)) db = Inr (n, db')" "v = Reused_Token"
      by (auto simp: and_then_Inr_iff)
    with Some a show ?thesis by (intro reused)
  next
    case b
    with body obtain u where "revoke_token r (utc_datetime (sd_now d)) db = Inr (u, db')" "v = Invalid_Token"
      by (auto simp: and_then_Inr_iff)
    with Some b show ?thesis by (intro expired)
  next
    case c
    with body obtain n where "revoke_family (tok_family_id r) (utc_datetime (sd_now d)) db = Inr (n, db')" "v = Invalid_Token"
      by (auto simp: and_then_Inr_iff)
    with Some c(1) show ?thesis by (intro no_user)
  next
    case d
    with body obtain n where "revoke_family (tok_family_id r) (utc_datetime (sd_now d)) db = Inr (n, db')" "v = Invalid_Token"
      by (auto simp: and_then_Inr_iff)
    with Some d(1) show ?thesis by (intro no_user)
  next
    case e
    with body obtain rep db1 es where 1: "rotate_token (sd_database_now d) r (it_token_id replacement)
         (hash_refresh_token lib (it_value replacement))
         (utc_datetime (it_expires_at replacement)) (utc_datetime (sd_now d)) db = Inr (rep, db1)"
      and 2: "record_events (sd_database_now d) (sd_events d) (user_id u) es db1 = Inr db'" and 3: "v = Refreshed"
      by (auto simp: and_then_Inr_iff)
    from record_events_tokens [OF 2] show ?thesis by (intro exchanged [OF Some e 1 _ 3]) simp
  qed
qed

lemma refresh_body_follows:
  assumes ok: "sessions_ok (refresh_tokens db)" and b: "refresh_body lib d replacement token claims db = Inr (v, db')"
  shows "sessions_follow db db'"
  using b
proof (cases rule: refresh_body_cases)
  case unknown
  with ok show ?thesis by (simp add: sessions_follow_same)
next
  case (reused r n)
  with ok show ?thesis by (auto simp: revoke_family_def intro: revoke_where_follows)
next
  case (expired r u)
  show ?thesis by (rule revoke_token_follows [OF ok presented_row_Some(1) [OF expired(1)] expired(4)])
next
  case (no_user r n)
  with ok show ?thesis by (auto simp: revoke_family_def intro: revoke_where_follows)
next
  case (exchanged r u rep db1)
  then have "sessions_follow db db1"
    using rotate_token_follows [OF ok presented_row_Some(1) [OF exchanged(1)]] by (simp add: live_def)
  then show ?thesis using exchanged(7) by (rule sessions_follow_then)
qed

lemma logout_body_follows:
  assumes ok: "sessions_ok (refresh_tokens db)" and b: "logout_body lib d token claims db = Inr (v, db')"
  shows "sessions_follow db db'"
proof (cases "presented_row lib token claims db")
  case None
  with b ok show ?thesis by (simp add: logout_body_def sessions_follow_same)
next
  case (Some r)
  from b [unfolded logout_body_def Some option.case] obtain p where
    1: "revoke_token r (utc_datetime (sd_now d)) db = Inr (fst p, snd p)"
    and "record_events (sd_database_now d) (sd_events d) (cl_subject claims)
        (for_each_membership (active_memberships (cl_subject claims) (snd p)) [(''USER_LOGGED_OUT'', [])]) (snd p) = Inr db'"
    unfolding and_then_Inr_iff case_prod_beta by auto
  then obtain es where 2: "record_events (sd_database_now d) (sd_events d) (cl_subject claims) es (snd p) = Inr db'"
    by blast
  let ?db1 = "snd p"
  have "sessions_follow db ?db1" using ok presented_row_Some(1) [OF Some] 1 by (rule revoke_token_follows)
  from this record_events_tokens [OF 2, THEN conjunct1] show ?thesis by (rule sessions_follow_then)
qed

lemma revoke_sessions_follow:
  assumes ok: "sessions_ok (refresh_tokens db)" and t: "refresh_tokens db1 = refresh_tokens db"
    and r: "revoke_all_for_user uid at_time db1 = Inr (n, db2)"
    and e: "record_events now ids actor events db2 = Inr db'"
  shows "sessions_follow db db'"
proof -
  have "sessions_follow db1 db2"
    using revoke_where_follows [OF _ r [unfolded revoke_all_for_user_def]] ok t by simp
  then have "sessions_follow db db2" using t by (simp add: sessions_follow_def)
  from this record_events_tokens [OF e, THEN conjunct1] show ?thesis by (rule sessions_follow_then)
qed

text \<open>A request that touches sessions keeps to the specification of every session.\<close>

locale session_operation =
  fixes allowed :: "db \<Rightarrow> bool" and serve :: "db \<Rightarrow> db"
  assumes follows: "sessions_ok (refresh_tokens db) \<Longrightarrow> allowed db \<Longrightarrow> sessions_follow db (serve db)"
begin

lemma keeps_sessions_ok: "sessions_ok (refresh_tokens db) \<Longrightarrow> allowed db \<Longrightarrow> sessions_ok (refresh_tokens (serve db))"
  using follows by (simp add: sessions_follow_def)

lemma ended_stays_ended:
  assumes "sessions_ok (refresh_tokens db)" and "allowed db" and "session_of (refresh_tokens db) f = Ended"
  shows "session_of (refresh_tokens (serve db)) f = Ended"
proof -
  have "session_step (session_of (refresh_tokens db) f) (session_of (refresh_tokens (serve db)) f)"
    using follows [OF assms(1,2)] by (simp add: sessions_follow_def)
  then show ?thesis by (simp add: assms(3) session_step_Ended)
qed

end

text \<open>A family is drawn by \<open>uuid4\<close>: a login uses one no token belongs to.\<close>

definition family_unused :: "session_draws \<Rightarrow> db \<Rightarrow> bool" where
  "family_unused d db \<longleftrightarrow> sd_family d \<notin> set (map tok_family_id (refresh_tokens db))"

lemma login_snd: "snd (login pl lib tm st d email password db) =
    snd (unit_of_work (login_body pl lib tm st d (normalize_email email) password) db)"
  by (simp add: login_def and_also_def split: prod.splits sum.splits)

lemma refresh_snd:
  "snd (refresh lib tm received d token db) = db \<or>
   (\<exists>claims. snd (refresh lib tm received d token db) = snd (unit_of_work (refresh_body lib d
      (issue_refresh lib tm (sd_refresh_now d) (sd_refresh_id d) (cl_subject claims)) token claims) db))"
proof (cases "decode_presented lib tm received token")
  case (Inl e)
  then show ?thesis by (simp add: refresh_def and_also_def lift_outcome_def)
next
  case (Inr claims)
  then show ?thesis
    by (intro disjI2 exI [of _ claims])
       (simp add: refresh_def and_also_def lift_outcome_def Let_def raising_def give_def
         split: prod.splits sum.splits refresh_verdict.splits)
qed

lemma logout_snd:
  "snd (logout lib tm received d token db) = db \<or>
   (\<exists>claims. snd (logout lib tm received d token db) = snd (unit_of_work (logout_body lib d token claims) db))"
proof (cases "decode_presented lib tm received token")
  case (Inl e)
  then show ?thesis by (simp add: logout_def and_also_def lift_outcome_def)
next
  case (Inr claims)
  then show ?thesis
    by (intro disjI2 exI [of _ claims])
       (simp add: logout_def and_also_def lift_outcome_def raising_def give_def split: prod.splits sum.splits)
qed

lemma change_password_Inr:
  assumes "change_password pl d current_password new_password user db = (Inr (), db')"
  obtains u u1 db1 n db2 es where "get_user (user_id user) db = Some u"
    and "verify_password pl current_password (user_password_hash u)"
    and "\<not> verify_password pl new_password (user_password_hash u)"
    and "save_user (u \<lparr> user_password_hash := pl_hash pl (sd_salt d) new_password \<rparr>) db = Inr (u1, db1)"
    and "revoke_all_for_user (user_id user) (utc_datetime (sd_now d)) db1 = Inr (n, db2)"
    and "record_events (sd_database_now d) (sd_events d) (user_id user) es db2 = Inr db'"
proof -
  from unit_of_work_ok [OF arg_cong [where f = fst, OF assms [unfolded change_password_def], simplified fst_conv]]
  have body: "(case get_user (user_id user) db of
         None \<Rightarrow> Inl (APIError 401 ''INVALID_CURRENT_PASSWORD'')
       | Some u \<Rightarrow>
           and_then (guard_else (verify_password pl current_password (user_password_hash u))
             (APIError 401 ''INVALID_CURRENT_PASSWORD'')) (\<lambda>_.
           and_then (guard_else (\<not> verify_password pl new_password (user_password_hash u))
             (APIError 409 ''PASSWORD_REUSE'')) (\<lambda>_.
           and_then (update_password u (pl_hash pl (sd_salt d) new_password) db) (\<lambda>(u1, db1).
           and_then (revoke_all_for_user (user_id user) (utc_datetime (sd_now d)) db1) (\<lambda>(_, db2).
           and_then (record_events (sd_database_now d) (sd_events d) (user_id user)
             (for_each_membership (active_memberships (user_id user) db2)
               [(''PASSWORD_CHANGED'', [(''all_refresh_sessions_revoked'', JBool True)])]) db2) (\<lambda>db3.
           Inr ((), db3))))))) = Inr ((), db')"
    unfolding assms [unfolded change_password_def] snd_conv .
  then obtain u where u: "get_user (user_id user) db = Some u" by (auto split: option.splits)
  from body [unfolded u option.case] obtain p q where
    "verify_password pl current_password (user_password_hash u)"
    "\<not> verify_password pl new_password (user_password_hash u)"
    "save_user (u \<lparr> user_password_hash := pl_hash pl (sd_salt d) new_password \<rparr>) db = Inr (fst p, snd p)"
    "revoke_all_for_user (user_id user) (utc_datetime (sd_now d)) (snd p) = Inr (fst q, snd q)"
    "record_events (sd_database_now d) (sd_events d) (user_id user) (for_each_membership (active_memberships (user_id user) (snd q))
               [(''PASSWORD_CHANGED'', [(''all_refresh_sessions_revoked'', JBool True)])]) (snd q) = Inr db'"
    unfolding and_then_Inr_iff case_prod_beta guard_else_Inr_iff update_password_def by auto
  then show ?thesis by (intro that [OF u])
qed

lemma change_password_follows:
  assumes ok: "sessions_ok (refresh_tokens db)"
  shows "sessions_follow db (snd (change_password pl d old_password new_password user db))"
proof (cases "change_password pl d old_password new_password user db")
  case (Pair o' db')
  show ?thesis
  proof (cases o')
    case (Inl e)
    have "snd (change_password pl d old_password new_password user db) = db"
      using Pair Inl unfolding change_password_def by (intro unit_of_work_error_keeps) simp
    with ok show ?thesis by (simp add: sessions_follow_same)
  next
    case (Inr u)
    with Pair have "change_password pl d old_password new_password user db = (Inr (), db')" by simp
    then show ?thesis
    proof (rule change_password_Inr)
      fix u u1 db1 n db2 es
      assume s: "save_user (u \<lparr> user_password_hash := pl_hash pl (sd_salt d) new_password \<rparr>) db = Inr (u1, db1)"
        and r: "revoke_all_for_user (user_id user) (utc_datetime (sd_now d)) db1 = Inr (n, db2)"
        and e: "record_events (sd_database_now d) (sd_events d) (user_id user) es db2 = Inr db'"
      have "refresh_tokens db1 = refresh_tokens db" using save_user_Inr [OF s] by simp
      with ok r e Pair show ?thesis by (simp add: revoke_sessions_follow)
    qed
  qed
qed

lemma revoke_all_sessions_follows:
  assumes ok: "sessions_ok (refresh_tokens db)"
  shows "sessions_follow db (snd (revoke_all_sessions d user db))"
  unfolding revoke_all_sessions_def
proof (rule sessions_follow_unit [OF ok])
  fix x db'
  assume "and_then (revoke_all_for_user (user_id user) (utc_datetime (sd_now d)) db) (\<lambda>(revoked, db1).
       and_then (record_events (sd_database_now d) (sd_events d) (user_id user)
         (for_each_membership (active_memberships (user_id user) db1)
           [(''ALL_SESSIONS_REVOKED'', [(''revoked_session_count'', JInt (int revoked))])]) db1) (\<lambda>db2.
       Inr ((), db2))) = Inr (x, db')"
  then obtain p where r: "revoke_all_for_user (user_id user) (utc_datetime (sd_now d)) db = Inr (fst p, snd p)"
    and e: "record_events (sd_database_now d) (sd_events d) (user_id user)
         (for_each_membership (active_memberships (user_id user) (snd p))
           [(''ALL_SESSIONS_REVOKED'', [(''revoked_session_count'', JInt (int (fst p)))])]) (snd p) = Inr db'"
    unfolding and_then_Inr_iff case_prod_beta by auto
  show "sessions_follow db db'" by (rule revoke_sessions_follow [OF ok refl r e])
qed

interpretation logging_in: session_operation "family_unused d" "\<lambda>db. snd (login pl lib tm st d email password db)"
  for d pl lib tm st email password
  by unfold_locales (simp add: login_snd sessions_follow_unit login_body_follows family_unused_def)

interpretation refreshing: session_operation "\<lambda>_. True" "\<lambda>db. snd (refresh lib tm received d token db)"
  for lib tm received d token
proof unfold_locales
  fix db :: db
  assume ok: "sessions_ok (refresh_tokens db)"
  from refresh_snd [of lib tm received d token db] show "sessions_follow db (snd (refresh lib tm received d token db))"
    using sessions_follow_same [OF ok] sessions_follow_unit [OF ok refresh_body_follows [OF ok]] by auto
qed

interpretation logging_out: session_operation "\<lambda>_. True" "\<lambda>db. snd (logout lib tm received d token db)"
  for lib tm received d token
proof unfold_locales
  fix db :: db
  assume ok: "sessions_ok (refresh_tokens db)"
  from logout_snd [of lib tm received d token db] show "sessions_follow db (snd (logout lib tm received d token db))"
    using sessions_follow_same [OF ok] sessions_follow_unit [OF ok logout_body_follows [OF ok]] by auto
qed

interpretation password_change: session_operation "\<lambda>_. True"
  "\<lambda>db. snd (change_password pl d old_password new_password user db)" for pl d old_password new_password user
  by unfold_locales (rule change_password_follows)

interpretation revoking_sessions: session_operation "\<lambda>_. True" "\<lambda>db. snd (revoke_all_sessions d user db)"
  for d user
  by unfold_locales (rule revoke_all_sessions_follows)

datatype 'tok session_request =
    Login session_draws string string
  | Refresh_Tokens instant session_draws 'tok
  | Logout instant session_draws 'tok
  | Change_Password session_draws string string user
  | Revoke_Sessions session_draws user

fun serve_session ::
  "password_library \<Rightarrow> 'tok token_library \<Rightarrow> token_manager \<Rightarrow> session_settings \<Rightarrow> 'tok session_request \<Rightarrow> db \<Rightarrow> db" where
  "serve_session pl lib tm st (Login d email password) db = snd (login pl lib tm st d email password db)"
| "serve_session pl lib tm st (Refresh_Tokens received d token) db = snd (refresh lib tm received d token db)"
| "serve_session pl lib tm st (Logout received d token) db = snd (logout lib tm received d token db)"
| "serve_session pl lib tm st (Change_Password d old_password new_password user) db =
     snd (change_password pl d old_password new_password user db)"
| "serve_session pl lib tm st (Revoke_Sessions d user) db = snd (revoke_all_sessions d user db)"

fun request_allowed :: "'tok session_request \<Rightarrow> db \<Rightarrow> bool" where
  "request_allowed (Login d email password) db = family_unused d db"
| "request_allowed _ db = True"

lemma serve_session_follows:
  "sessions_ok (refresh_tokens db) \<Longrightarrow> request_allowed q db \<Longrightarrow> sessions_follow db (serve_session pl lib tm st q db)"
  by (cases q) (simp_all add: logging_in.follows refreshing.follows logging_out.follows password_change.follows
    revoking_sessions.follows)

interpretation any_session_request: session_operation "request_allowed q" "serve_session pl lib tm st q"
  for q pl lib tm st
  by unfold_locales (rule serve_session_follows)

text \<open>The states a server reaches by session requests.\<close>

inductive session_reachable ::
  "password_library \<Rightarrow> 'tok token_library \<Rightarrow> token_manager \<Rightarrow> session_settings \<Rightarrow> db \<Rightarrow> db \<Rightarrow> bool"
  for pl lib tm st db where
  session_start: "session_reachable pl lib tm st db db"
| session_next: "session_reachable pl lib tm st db db' \<Longrightarrow> request_allowed q db' \<Longrightarrow>
    session_reachable pl lib tm st db (serve_session pl lib tm st q db')"

lemma session_reachable_ended:
  assumes "session_reachable pl lib tm st db db'" and "sessions_ok (refresh_tokens db)"
    and "session_of (refresh_tokens db) f = Ended"
  shows "sessions_ok (refresh_tokens db') \<and> session_of (refresh_tokens db') f = Ended"
  using assms
proof (induction rule: session_reachable.induct)
  case session_start
  then show ?case by simp
next
  case (session_next db' q)
  then show ?case using any_session_request.keeps_sessions_ok any_session_request.ended_stays_ended by auto
qed

end
