(* ===== verification/Account_Life.thy ===== *)
theory Account_Life
  imports Accounts
begin

text \<open>
  What the operations of \<open>Accounts\<close> guarantee together: sessions keep to their
  specification, a reused token ends its session for good, wrong passwords lock an account,
  a changed password ends every session, and a valid registration creates an owned
  organization under a slug that is free.
\<close>

text \<open>Finding a row that has just been written.\<close>

lemma find_put_row:
  assumes "distinct (map key rows)" and "find P rows = Some r" and "key r' = key r" and "P r'"
  shows "find P (put_row key r' rows) = Some r'"
  using assms(1,2)
proof (induction rows)
  case (Cons x xs)
  show ?case
  proof (cases "P x")
    case True
    with Cons.prems(2) assms(3,4) show ?thesis by (simp add: put_row_def)
  next
    case False
    with Cons.prems have f: "find P xs = Some r" by simp
    then have "r \<in> set xs" by (auto simp: find_Some_iff)
    with Cons.prems(1) assms(3) have "key x \<noteq> key r'" by force
    with False f Cons show ?thesis by (simp add: put_row_def)
  qed
qed simp

section \<open>Sessions\<close>

text \<open>
  C34: Every request that touches sessions refines the specification of a session: at any time
  a family of refresh tokens has at most one live token; a login opens a family, refreshing
  exchanges its live token for another of the same user, and the only other change is that it
  ends, after which nothing brings it back.
\<close>

theorem sessions_refine_specification:
  assumes "sessions_ok (refresh_tokens db)" and "request_allowed q db"
  shows "sessions_ok (refresh_tokens (serve_session pl lib tm st q db)) \<and>
    (\<forall>f. session_step (session_of (refresh_tokens db) f)
       (session_of (refresh_tokens (serve_session pl lib tm st q db)) f))"
  using any_session_request.follows [OF assms] by (simp add: sessions_follow_def)

definition plain_passwords :: password_library where
  "plain_passwords = \<lparr> pl_hash = (\<lambda>salt p. p), pl_verify = (\<lambda>p h. Some (p = h)) \<rparr>"

text \<open>A single user who belongs to no organization.\<close>

definition solo_db :: db where
  "solo_db = empty_db \<lparr> users := [team_user 21 ''ann@acme.io''] \<rparr>"

definition plain_settings :: session_settings where
  "plain_settings = \<lparr> ss_max_failed_attempts = 2, ss_lockout_minutes = 15 \<rparr>"

definition plain_draws :: "instant \<Rightarrow> uuid \<Rightarrow> session_draws" where
  "plain_draws t n =
     \<lparr> sd_now = t, sd_database_now = t, sd_access_now = t, sd_refresh_now = t, sd_end_now = t,
       sd_access_id = n, sd_refresh_id = n + 1, sd_family = n + 2, sd_salt = 0, sd_events = (\<lambda>k. n + 3 + k) \<rparr>"

abbreviation plain_login :: "instant \<Rightarrow> uuid \<Rightarrow> string \<Rightarrow> (payload \<times> string) session_request" where
  "plain_login t n password \<equiv> Login (plain_draws t n) ''ann@acme.io'' password"

abbreviation plain_serve :: "(payload \<times> string) session_request \<Rightarrow> db \<Rightarrow> db" where
  "plain_serve \<equiv> serve_session plain_passwords plain_library plain_manager plain_settings"

theorem sessions_refine_specification_witness:
  "session_step No_Session (session_of (refresh_tokens (plain_serve (plain_login 0 40 ''hash'') solo_db)) 42)"
proof -
  have "sessions_ok (refresh_tokens solo_db)" "session_of (refresh_tokens solo_db) 42 = No_Session"
    "request_allowed (plain_login 0 40 ''hash'') solo_db"
    by code_simp+
  then show ?thesis
    using sessions_refine_specification [of solo_db "plain_login 0 40 ''hash''" plain_passwords plain_library
      plain_manager plain_settings] by metis
qed

lemma revoke_family_ends:
  assumes "revoke_family f at_time db = Inr (n, db')" and "f \<in> set (map tok_family_id (refresh_tokens db))"
  shows "session_of (refresh_tokens db') f = Ended"
proof -
  from assms(1) obtain t where db': "db' = db \<lparr> refresh_tokens := map (\<lambda>r. if tok_family_id r = f \<and> tok_revoked_at r = None
      then r \<lparr> tok_revoked_at := Some t \<rparr> else r) (refresh_tokens db) \<rparr>"
    using revoke_where_Inr [of "\<lambda>r. tok_family_id r = f" at_time db n db'] unfolding revoke_family_def by metis
  define g where "g = (\<lambda>(r :: refresh_token). if tok_family_id r = f \<and> tok_revoked_at r = None then r \<lparr> tok_revoked_at := Some t \<rparr> else r)"
  have ts: "refresh_tokens db' = map g (refresh_tokens db)" by (simp add: db' g_def)
  have "\<not> (live (g r) \<and> tok_family_id (g r) = f)" and fam: "tok_family_id (g r) = tok_family_id r" for r
    by (auto simp: g_def live_def)
  then have "filter (\<lambda>r. live r \<and> tok_family_id r = f) (refresh_tokens db') = []"
    unfolding ts filter_empty_conv by fastforce
  moreover have "f \<in> set (map tok_family_id (refresh_tokens db'))"
    using assms(2) fam by (simp add: ts)
  ultimately show ?thesis by (simp add: session_of_def)
qed

text \<open>
  C35: Presenting a refresh token a second time ends its session for good: whether a thief or
  the owner used it first, the answer is \<open>REFRESH_TOKEN_REUSED\<close>, no token of the family is live
  afterwards, and no later sequence of requests makes one live again.
\<close>

theorem reused_token_ends_session:
  assumes "sessions_ok (refresh_tokens db)"
    and "decode_presented lib tm received token = Inr claims"
    and "presented_row lib token claims db = Some r" and "tok_revoked_at r \<noteq> None"
    and "session_reachable pl lib tm st (snd (refresh lib tm received d token db)) db'"
  shows "fst (refresh lib tm received d token db) = Inl (APIError 401 ''REFRESH_TOKEN_REUSED'') \<and>
    session_of (refresh_tokens db') (tok_family_id r) = Ended"
proof -
  obtain n db1 where rev: "revoke_family (tok_family_id r) (utc_datetime (sd_now d)) db = Inr (n, db1)"
    by (simp add: revoke_family_def revoke_where_def utc_datetime_def utc_def)
  then have "refresh_body lib d (issue_refresh lib tm (sd_refresh_now d) (sd_refresh_id d) (cl_subject claims)) token claims db =
      Inr (Reused_Token, db1)"
    using assms(3,4) by (auto simp: refresh_body_def)
  then have refresh: "refresh lib tm received d token db = (Inl (APIError 401 ''REFRESH_TOKEN_REUSED''), db1)"
    using assms(2) by (simp add: refresh_def and_also_def lift_outcome_def Let_def unit_of_work_def raising_def)
  have "tok_family_id r \<in> set (map tok_family_id (refresh_tokens db))"
    using presented_row_Some(1) [OF assms(3)] by auto
  then have "session_of (refresh_tokens db1) (tok_family_id r) = Ended"
    using rev by (intro revoke_family_ends)
  moreover have "sessions_ok (refresh_tokens db1)"
    using refreshing.keeps_sessions_ok [OF assms(1) TrueI, of lib tm received d token] refresh by simp
  ultimately show ?thesis
    using session_reachable_ended [OF assms(5)] refresh by simp
qed

text \<open>A token is refreshed once and then presented again.\<close>

definition stolen_token :: "payload \<times> string" where
  "stolen_token = it_value (issue_refresh plain_library plain_manager 0 41 21)"

definition plain_token_row :: "uuid \<Rightarrow> string \<Rightarrow> instant option \<Rightarrow> uuid option \<Rightarrow> refresh_token" where
  "plain_token_row i h revoked replaced =
     \<lparr> tok_id = i, tok_user_id = 21, tok_family_id = 42, tok_token_hash = h, tok_expires_at = 2592000000000,
       tok_revoked_at = revoked, tok_replaced_by_id = replaced, tok_created_at = 0 \<rparr>"

definition rotated_db :: db where
  "rotated_db = solo_db \<lparr> refresh_tokens :=
     [plain_token_row 41 (hash_refresh_token plain_library stolen_token) (Some 1) (Some 51),
      plain_token_row 51 (replicate 64 (CHR ''7'')) None None] \<rparr>"

theorem reused_token_ends_session_witness:
  "session_of (refresh_tokens rotated_db) 42 = Live 21 51 \<and>
   fst (refresh plain_library plain_manager 2 (plain_draws 2 60) stolen_token rotated_db) =
     Inl (APIError 401 ''REFRESH_TOKEN_REUSED'') \<and>
   session_of (refresh_tokens (snd (refresh plain_library plain_manager 2 (plain_draws 2 60) stolen_token rotated_db))) 42 = Ended"
proof -
  have ok: "sessions_ok (refresh_tokens rotated_db)" and "session_of (refresh_tokens rotated_db) 42 = Live 21 51"
    by code_simp+
  moreover obtain claims r where "decode_presented plain_library plain_manager 2 stolen_token = Inr claims"
    and "presented_row plain_library stolen_token claims rotated_db = Some r"
    and "tok_revoked_at r \<noteq> None" "tok_family_id r = 42"
  proof -
    have "case decode_presented plain_library plain_manager 2 stolen_token of Inl _ \<Rightarrow> False | Inr claims \<Rightarrow>
        (case presented_row plain_library stolen_token claims rotated_db of None \<Rightarrow> False
         | Some r \<Rightarrow> tok_revoked_at r \<noteq> None \<and> tok_family_id r = 42)"
      by code_simp
    then show ?thesis using that by (auto split: sum.splits option.splits)
  qed
  ultimately show ?thesis
    using reused_token_ends_session [OF ok, where lib = plain_library and tm = plain_manager
        and received = 2 and token = stolen_token and claims = claims and r = r and pl = plain_passwords
        and st = plain_settings and d = "plain_draws 2 60", OF _ _ _ session_start] by simp
qed

text \<open>
  A changed password ends every session of the user: when the request succeeds the old
  password was verified and differs from the new one, the row holds the hash of the new one,
  and every refresh token of the user is revoked.
\<close>

theorem changed_password_ends_sessions:
  assumes "distinct (map user_id (users db))"
    and "change_password pl d old_password new_password user db = (Inr (), db')"
  shows "(\<forall>r \<in> set (refresh_tokens db'). tok_user_id r = user_id user \<longrightarrow> tok_revoked_at r \<noteq> None) \<and>
    (\<exists>u u'. get_user (user_id user) db = Some u \<and> verify_password pl old_password (user_password_hash u) \<and>
       \<not> verify_password pl new_password (user_password_hash u) \<and>
       get_user (user_id user) db' = Some u' \<and> user_password_hash u' = pl_hash pl (sd_salt d) new_password)"
  using assms(2)
proof (rule change_password_Inr)
  fix u u1 db1 n db2 es
  assume u: "get_user (user_id user) db = Some u" "verify_password pl old_password (user_password_hash u)"
      "\<not> verify_password pl new_password (user_password_hash u)"
    and s: "save_user (u \<lparr> user_password_hash := pl_hash pl (sd_salt d) new_password \<rparr>) db = Inr (u1, db1)"
    and r: "revoke_all_for_user (user_id user) (utc_datetime (sd_now d)) db1 = Inr (n, db2)"
    and e: "record_events (sd_database_now d) (sd_events d) (user_id user) es db2 = Inr db'"
  note kept = record_events_tokens [OF e]
  let ?u = "u \<lparr> user_password_hash := pl_hash pl (sd_salt d) new_password \<rparr>"
  from r obtain t where db2: "db2 = db1 \<lparr> refresh_tokens := map (\<lambda>r. if tok_user_id r = user_id user \<and> tok_revoked_at r = None
      then r \<lparr> tok_revoked_at := Some t \<rparr> else r) (refresh_tokens db1) \<rparr>"
    unfolding revoke_all_for_user_def by (rule revoke_where_Inr)
  have users: "users db' = put_row user_id ?u (users db)"
    using kept save_user_Inr [OF s] db2 by simp
  have "get_user (user_id user) db' = Some ?u"
    using u(1) users find_put_row [OF assms(1), of "\<lambda>r. user_id r = user_id user" u ?u]
    by (auto simp: get_user_def find_Some_iff)
  moreover have "\<forall>r \<in> set (refresh_tokens db'). tok_user_id r = user_id user \<longrightarrow> tok_revoked_at r \<noteq> None"
    using kept by (auto simp: db2)
  ultimately show ?thesis using u by auto
qed

theorem changed_password_ends_sessions_witness:
  "\<exists>db'. change_password plain_passwords (plain_draws 5 60) ''hash'' ''a new password'' (team_user 21 ''ann@acme.io'')
       rotated_db = (Inr (), db') \<and> refresh_tokens db' \<noteq> [] \<and>
     (\<forall>r \<in> set (refresh_tokens db'). tok_user_id r = 21 \<longrightarrow> tok_revoked_at r \<noteq> None)"
proof -
  let ?db = rotated_db
  let ?run = "change_password plain_passwords (plain_draws 5 60) ''hash'' ''a new password'' (team_user 21 ''ann@acme.io'') ?db"
  have ran: "fst ?run = Inr () \<and> refresh_tokens (snd ?run) \<noteq> [] \<and> distinct (map user_id (users ?db))"
    by code_simp
  obtain o' db' where run: "?run = (o', db')" by (rule prod.exhaust)
  with ran have "?run = (Inr (), db')" and "refresh_tokens db' \<noteq> []" by simp_all
  moreover have "user_id (team_user 21 ''ann@acme.io'') = 21" by (simp add: team_user_def)
  ultimately show ?thesis using changed_password_ends_sessions [of ?db] ran by metis
qed

section \<open>Wrong passwords\<close>

lemma record_events_error: "record_events now ids actor events db = Inl e \<Longrightarrow> e = IntegrityError"
proof -
  have "fold_err (\<lambda>(k, oid, event_type, details) db.
       and_then (append_security_event now (ids k) oid actor event_type details db) (\<lambda>(_, db'). Inr db')) xs db = Inl e \<Longrightarrow>
     e = IntegrityError" for xs db
    by (induction xs arbitrary: db) (auto simp: and_then_Inl_iff append_security_event_def Let_def split: if_splits)
  then show "record_events now ids actor events db = Inl e \<Longrightarrow> e = IntegrityError" unfolding record_events_def .
qed

lemma failed_login_error: "failed_login st d u ms db = Inl e \<Longrightarrow> e = IntegrityError"
  unfolding failed_login_def reset_login_protection_def record_failed_login_def save_user_def utc_datetime_def utc_def
  by (auto simp: and_then_Inl_iff and_then_Inr_iff Let_def split: if_splits dest: record_events_error)

definition wrong_password :: "password_library \<Rightarrow> string \<Rightarrow> user \<Rightarrow> bool" where
  "wrong_password pl password u \<longleftrightarrow> \<not> verify_password pl password (user_password_hash u)"

text \<open>One login with a wrong password, on an account that is not locked.\<close>

lemma wrong_password_counts:
  assumes ids: "distinct (map user_id (users db))" and u: "get_by_email (normalize_email email) db = Some u"
    and "user_is_active u" and "user_locked_until u = None" and "wrong_password pl password u"
    and refused: "login pl lib tm st d email password db = (Inl (APIError 401 c), db')"
  shows "distinct (map user_id (users db')) \<and> refresh_tokens db' = refresh_tokens db \<and>
    (\<exists>u'. get_by_email (normalize_email email) db' = Some u' \<and> user_is_active u' \<and>
       user_password_hash u' = user_password_hash u \<and> user_failed_login_attempts u' = user_failed_login_attempts u + 1 \<and>
       user_locked_until u' = (if ss_max_failed_attempts st \<le> user_failed_login_attempts u + 1
         then Some (sd_now d + ss_lockout_minutes st * 60000000) else None))"
proof -
  have body: "login_body pl lib tm st d (normalize_email email) password db =
      and_then (failed_login st d u (active_memberships (user_id u) db) db) (\<lambda>db1. Inr (None, db1))"
    using assms(3-5) u by (simp add: login_body_def lock_active_def wrong_password_def)
  have "failed_login st d u (active_memberships (user_id u) db) db = Inr db'"
  proof (cases "failed_login st d u (active_memberships (user_id u) db) db")
    case (Inl e)
    with failed_login_error [OF Inl] refused body show ?thesis
      by (simp add: login_def and_also_def unit_of_work_def)
  next
    case (Inr db1)
    with refused body show ?thesis by (simp add: login_def and_also_def unit_of_work_def)
  qed
  then show ?thesis
  proof (rule failed_login_Inr)
    fix u1 db1 locked u2 db2
    assume "(if user_locked_until u \<noteq> None then reset_login_protection u db else Inr (u, db)) = Inr (u1, db1)"
      and r: "record_failed_login u1 (ss_max_failed_attempts st)
         (utc_datetime (sd_now d + ss_lockout_minutes st * 60000000)) db1 = Inr ((locked, u2), db2)"
      and kept: "refresh_tokens db' = refresh_tokens db2" "users db' = users db2"
    then have same: "u1 = u" "db1 = db" using assms(4) by simp_all
    note facts = record_failed_login_Inr [OF r, unfolded same]
    have users: "users db' = put_row user_id u2 (users db)" using kept facts(5) by simp
    have "get_by_email (normalize_email email) db' = Some u2"
      using u facts(2,6) find_put_row [OF ids, of "\<lambda>r. user_email r = normalize_email email" u u2]
      by (auto simp: get_by_email_def users find_Some_iff)
    moreover have "user_locked_until u2 = (if ss_max_failed_attempts st \<le> user_failed_login_attempts u + 1
         then Some (sd_now d + ss_lockout_minutes st * 60000000) else None)"
      using facts(3,4,7) assms(4) by (auto simp: utc_datetime_def utc_def split: if_splits)
    ultimately show ?thesis using ids facts kept assms(3) by (simp add: users)
  qed
qed

text \<open>A list of attempts that are all answered with invalid credentials.\<close>

fun refused_logins ::
  "password_library \<Rightarrow> 'tok token_library \<Rightarrow> token_manager \<Rightarrow> session_settings \<Rightarrow> string \<Rightarrow>
   (session_draws \<times> string) list \<Rightarrow> db \<Rightarrow> db option" where
  "refused_logins pl lib tm st email [] db = Some db"
| "refused_logins pl lib tm st email ((d, password) # as) db =
     (let (answer, db') = login pl lib tm st d email password db in
      if answer = Inl (APIError 401 ''INVALID_CREDENTIALS'') then refused_logins pl lib tm st email as db' else None)"

lemma refused_Cons:
  assumes "refused_logins pl lib tm st email ((d, password) # as) db = Some db'"
  obtains c db1 where "login pl lib tm st d email password db = (Inl (APIError 401 c), db1)"
    and "refused_logins pl lib tm st email as db1 = Some db'"
  using assms by (auto simp: Let_def split: prod.splits if_splits)

lemma wrong_passwords_lock:
  assumes "distinct (map user_id (users db))" and "get_by_email (normalize_email email) db = Some u"
    and "user_is_active u" and "user_locked_until u = None"
    and "\<forall>(d, password) \<in> set as. wrong_password pl password u"
    and "user_failed_login_attempts u + int (length as) = ss_max_failed_attempts st" and "as \<noteq> []"
    and "refused_logins pl lib tm st email as db = Some db'"
  shows "refresh_tokens db' = refresh_tokens db \<and>
    (\<exists>u'. get_by_email (normalize_email email) db' = Some u' \<and>
       user_locked_until u' = Some (sd_now (fst (last as)) + ss_lockout_minutes st * 60000000))"
  using assms
proof (induction as arbitrary: db u)
  case (Cons a as)
  obtain d p where a: "a = (d, p)" by (rule prod.exhaust)
  from Cons.prems(8) obtain c db1 where l: "login pl lib tm st d email p db = (Inl (APIError 401 c), db1)"
    and rest: "refused_logins pl lib tm st email as db1 = Some db'" unfolding a by (rule refused_Cons)
  have wrong: "wrong_password pl p u" using Cons.prems(5) a by simp
  from wrong_password_counts [OF Cons.prems(1-4) wrong l] obtain u1 where
    1: "distinct (map user_id (users db1))" "refresh_tokens db1 = refresh_tokens db"
      "get_by_email (normalize_email email) db1 = Some u1" "user_is_active u1"
      "user_password_hash u1 = user_password_hash u" "user_failed_login_attempts u1 = user_failed_login_attempts u + 1"
      "user_locked_until u1 = (if ss_max_failed_attempts st \<le> user_failed_login_attempts u + 1
         then Some (sd_now d + ss_lockout_minutes st * 60000000) else None)" by blast
  show ?case
  proof (cases "as = []")
    case True
    with rest 1 Cons.prems(6) a show ?thesis by simp
  next
    case False
    then have "\<not> ss_max_failed_attempts st \<le> user_failed_login_attempts u + 1"
      using Cons.prems(6) by (cases as) auto
    with 1(7) have unlocked: "user_locked_until u1 = None" by simp
    have "\<forall>(d, password) \<in> set as. wrong_password pl password u1"
      using Cons.prems(5) 1(5) by (auto simp: wrong_password_def)
    moreover have "user_failed_login_attempts u1 + int (length as) = ss_max_failed_attempts st"
      using Cons.prems(6) 1(6) by simp
    ultimately show ?thesis
      using Cons.IH [OF 1(1,3,4) unlocked _ _ False rest] 1(2) False by simp
  qed
qed simp

text \<open>
  C36: As many wrong passwords in a row as the limit lock the account: from the last of them
  until the lockout has passed every login fails, the right password included, and none of
  these requests issues a token.
\<close>

theorem wrong_passwords_lock_account:
  assumes "distinct (map user_id (users db))" and "get_by_email (normalize_email email) db = Some u"
    and "user_is_active u" and "user_locked_until u = None" and "user_failed_login_attempts u = 0"
    and "\<forall>(d, password) \<in> set as. wrong_password pl password u"
    and "int (length as) = ss_max_failed_attempts st" and "as \<noteq> []"
    and "refused_logins pl lib tm st email as db = Some db1"
    and "sd_now d < sd_now (fst (last as)) + ss_lockout_minutes st * 60000000"
  shows "\<exists>e db2. login pl lib tm st d email password db1 = (Inl e, db2) \<and> refresh_tokens db2 = refresh_tokens db"
proof -
  from wrong_passwords_lock [OF assms(1-4,6) _ assms(8,9)] assms(5,7) obtain u1 where
    same: "refresh_tokens db1 = refresh_tokens db" and u1: "get_by_email (normalize_email email) db1 = Some u1"
    and until: "user_locked_until u1 = Some (sd_now (fst (last as)) + ss_lockout_minutes st * 60000000)" by auto
  then have "lock_active (sd_now d) u1" using assms(10) by (simp add: lock_active_def)
  then have body: "login_body pl lib tm st d (normalize_email email) password db1 =
      and_then (record_events (sd_database_now d) (sd_events d) (user_id u1)
        (for_each_membership (active_memberships (user_id u1) db1)
          [(''LOGIN_FAILED'', [(''reason'', JText ''ACCOUNT_LOCKED'')])]) db1) (\<lambda>db2. Inr (None, db2))"
    using u1 by (simp add: login_body_def)
  show ?thesis
  proof (cases "record_events (sd_database_now d) (sd_events d) (user_id u1)
        (for_each_membership (active_memberships (user_id u1) db1)
          [(''LOGIN_FAILED'', [(''reason'', JText ''ACCOUNT_LOCKED'')])]) db1")
    case (Inl e)
    with body record_events_error [OF Inl] same show ?thesis
      by (simp add: login_def and_also_def unit_of_work_def)
  next
    case (Inr db2)
    with body record_events_tokens [OF Inr] same show ?thesis
      by (simp add: login_def and_also_def unit_of_work_def)
  qed
qed

theorem wrong_passwords_lock_account_witness:
  "\<exists>db1 e db2. refused_logins plain_passwords plain_library plain_manager plain_settings ''Ann@acme.io''
       [(plain_draws 1 60, ''wrong''), (plain_draws 2 70, ''bad'')] solo_db = Some db1 \<and>
     login plain_passwords plain_library plain_manager plain_settings (plain_draws 3 80) ''Ann@acme.io'' ''hash'' db1 =
       (Inl e, db2) \<and> refresh_tokens db2 = []"
proof -
  let ?run = "refused_logins plain_passwords plain_library plain_manager plain_settings ''Ann@acme.io''
       [(plain_draws 1 60, ''wrong''), (plain_draws 2 70, ''bad'')] solo_db"
  let ?u = "team_user 21 ''ann@acme.io''"
  have "?run \<noteq> None" by code_simp
  then obtain db1 where run: "?run = Some db1" by blast
  have facts: "distinct (map user_id (users solo_db))" "get_by_email (normalize_email ''Ann@acme.io'') solo_db = Some ?u"
    "user_is_active ?u" "user_locked_until ?u = None" "user_failed_login_attempts ?u = 0"
    "wrong_password plain_passwords ''wrong'' ?u" "wrong_password plain_passwords ''bad'' ?u"
    "refresh_tokens solo_db = []"
    by code_simp+
  have "\<exists>e db2. login plain_passwords plain_library plain_manager plain_settings (plain_draws 3 80) ''Ann@acme.io'' ''hash'' db1 =
      (Inl e, db2) \<and> refresh_tokens db2 = refresh_tokens solo_db"
    by (rule wrong_passwords_lock_account [OF facts(1-5) _ _ _ run])
       (use facts in \<open>simp_all add: plain_settings_def plain_draws_def\<close>)
  with run facts(8) show ?thesis by auto
qed

section \<open>The loop for a free slug\<close>

lemma unused_slug_result:
  assumes "\<not> slug_exists (slug_candidate base (draws j)) db" and "k \<le> j"
  shows "\<exists>s i. unused_slug base draws db k slug = Some (s, i) \<and> i \<le> Suc j \<and> \<not> slug_exists s db \<and>
    (s = slug \<or> (\<exists>n. s = slug_candidate base (draws n)))"
  using assms(2)
proof (induction "j - k" arbitrary: k slug)
  case 0
  then have "k = j" by simp
  with assms(1) show ?case
    by (subst unused_slug.simps, subst unused_slug.simps) auto
next
  case (Suc n)
  show ?case
  proof (cases "slug_exists slug db")
    case False
    with Suc.prems show ?thesis by (subst unused_slug.simps) auto
  next
    case True
    have "n = j - Suc k" "Suc k \<le> j" using Suc.hyps(2) by auto
    from Suc.hyps(1) [OF this, of "slug_candidate base (draws k)"] True show ?thesis
      by (subst unused_slug.simps) auto
  qed
qed

lemma slug_candidates_free:
  assumes "inj_on (\<lambda>k. take 8 (hex_digits 32 (draws k))) {0 .. length (organizations db)}"
  obtains j where "j \<le> length (organizations db)" and "\<not> slug_exists (slug_candidate base (draws j)) db"
proof -
  let ?c = "\<lambda>k. slug_candidate base (draws k)" and ?n = "length (organizations db)"
  have "inj_on ?c {0 .. ?n}"
    using assms by (auto simp: inj_on_def slug_candidate_def)
  then have "card (?c ` {0 .. ?n}) = Suc ?n" by (simp add: card_image)
  moreover have "card (set (map org_slug (organizations db))) \<le> ?n"
    using card_length [of "map org_slug (organizations db)"] by simp
  ultimately have "\<not> ?c ` {0 .. ?n} \<subseteq> set (map org_slug (organizations db))"
    using card_mono [OF finite_set, of "?c ` {0 .. ?n}" "map org_slug (organizations db)"] by linarith
  then obtain x where "x \<in> ?c ` {0 .. ?n}" and x: "x \<notin> set (map org_slug (organizations db))" by blast
  then obtain j where j: "x = ?c j" "j \<in> {0 .. ?n}" by blast
  have "j \<le> ?n" using j(2) by simp
  moreover have "\<not> slug_exists (?c j) db" using x unfolding j(1) by (force simp: slug_exists_def list_ex_iff)
  ultimately show ?thesis by (rule that)
qed

lemma hex_digits_prefix: "take a (hex_digits (a + b) n) = hex_digits a (n div 16 ^ b)"
proof (induction b arbitrary: n)
  case 0
  then show ?case using hex_digits_length [of a n] by simp
next
  case (Suc b)
  have "take a (hex_digits (a + Suc b) n) = take a (hex_digits (a + b) (n div 16))" by simp
  also have "\<dots> = hex_digits a (n div 16 div 16 ^ b)" by (rule Suc.IH)
  also have "n div 16 div 16 ^ b = n div 16 ^ Suc b" by (simp add: div_mult2_eq)
  finally show ?case .
qed

lemma distinct_prefixes: "inj_on (\<lambda>k. take 8 (hex_digits 32 (16 ^ 24 * k))) {0 .. 1 :: nat}"
proof -
  have pre: "take 8 (hex_digits 32 (16 ^ 24 * k)) = hex_digits 8 k" for k
    using hex_digits_prefix [of 8 24 "16 ^ 24 * k"] by simp
  show ?thesis
    unfolding pre
  proof (rule inj_onI)
    fix m n :: nat
    assume "m \<in> {0 .. 1}" "n \<in> {0 .. 1}" and eq: "hex_digits 8 m = hex_digits 8 n"
    then have "m < 16 ^ 8" "n < 16 ^ 8" by simp_all
    then show "m = n" using eq by (rule hex_digits_inj)
  qed
qed

text \<open>
  The loop that searches a free slug ends: when the first draws, one more than there are
  organizations, differ in their first eight digits, it returns after at most that many draws
  plus one, with a slug no organization has.
\<close>

theorem unused_slug_terminates:
  assumes "inj_on (\<lambda>k. take 8 (hex_digits 32 (draws k))) {0 .. length (organizations db)}"
  shows "\<exists>s k. unused_slug base draws db 0 slug = Some (s, k) \<and> k \<le> Suc (length (organizations db)) \<and>
    \<not> slug_exists s db"
proof -
  obtain j where j: "j \<le> length (organizations db)" "\<not> slug_exists (slug_candidate base (draws j)) db"
    using assms by (rule slug_candidates_free)
  from unused_slug_result [where base = base and draws = draws and j = j and k = 0 and slug = slug, OF j(2)] j(1)
  show ?thesis by fastforce
qed

theorem unused_slug_terminates_witness:
  "\<exists>s k. unused_slug ''acme'' (\<lambda>k. 16 ^ 24 * k) team_db 0 ''acme'' = Some (s, k) \<and> k \<le> 2 \<and> s \<noteq> ''acme''"
proof -
  have one: "length (organizations team_db) = 1" and taken: "slug_exists ''acme'' team_db" by code_simp+
  have "inj_on (\<lambda>k. take 8 (hex_digits 32 (16 ^ 24 * k))) {0 .. length (organizations team_db)}"
    unfolding one by (rule distinct_prefixes)
  from unused_slug_terminates [OF this, of "''acme''" "''acme''"] one taken show ?thesis by auto
qed

section \<open>Registration\<close>

text \<open>What a validated address, name and slug consist of.\<close>

lemma no_spaces_strip: "(\<And>c. c \<in> set s \<Longrightarrow> \<not> is_space c) \<Longrightarrow> strip s = s"
proof -
  assume *: "\<And>c. c \<in> set s \<Longrightarrow> \<not> is_space c"
  have keep: "dropWhile is_space t = t" if "set t \<subseteq> set s" for t
    using that * by (cases t) auto
  show ?thesis by (simp add: strip_def keep)
qed

lemma lower_char_idem: "lower_char (lower_char c) = lower_char c"
proof (cases "is_upper c")
  case True
  then have "(of_char c :: nat) + 32 < 256" "90 < (of_char c :: nat) + 32" by (auto simp: is_upper_def Let_def)
  moreover from this(1) have "of_char (char_of ((of_char c :: nat) + 32)) = (of_char c :: nat) + 32" by simp
  ultimately have "\<not> is_upper (char_of ((of_char c :: nat) + 32))" by (simp only: is_upper_def Let_def) simp
  with True show ?thesis by (simp add: lower_char_def)
qed (simp add: lower_char_def)

lemma casefold_idem: "casefold (casefold s) = casefold s"
  by (simp add: casefold_def lower_char_idem)

lemma slug_char_plain: "slug_char c \<Longrightarrow> \<not> is_space c \<and> lower_char c = c"
  by (auto simp: slug_char_def is_lower_def is_digit_def is_space_def lower_char_def is_upper_def Let_def)

lemma dash_plain: "\<not> is_space (CHR ''-'') \<and> lower_char (CHR ''-'') = CHR ''-''"
  by (simp add: is_space_def lower_char_def is_upper_def Let_def)

definition slug_text :: "string \<Rightarrow> bool" where
  "slug_text s \<longleftrightarrow> s \<noteq> [] \<and> list_all (\<lambda>c. slug_char c \<or> c = CHR ''-'') s"

lemma slug_text_row:
  assumes "slug_text s"
  shows "strip s \<noteq> []" and "s = casefold s" and "CHR '' '' \<notin> set s"
proof -
  have plain: "\<not> is_space c \<and> lower_char c = c" if "c \<in> set s" for c
    using that assms slug_char_plain [of c] dash_plain by (auto simp: slug_text_def list_all_iff)
  have "strip s = s" using plain by (intro no_spaces_strip) blast
  with assms show "strip s \<noteq> []" by (simp add: slug_text_def)
  show "s = casefold s" unfolding casefold_def using plain by (simp add: map_idI)
  have "is_space (CHR '' '')" by (simp add: is_space_def)
  with plain show "CHR '' '' \<notin> set s" by blast
qed

lemma dash_runs_text: "c \<in> set (dash_runs b s) \<Longrightarrow> slug_char c \<or> c = CHR ''-''"
  by (induction b s rule: dash_runs.induct) (auto split: if_splits)

lemma slug_of_text: "slug_text (slug_of name)"
proof -
  let ?s = "take 80 (strip_chars ''-'' (dash_runs False (casefold name)))"
  have "set ?s \<subseteq> set (dash_runs False (casefold name))"
    unfolding strip_chars_def by (auto dest!: in_set_takeD set_dropWhileD)
  then have "list_all (\<lambda>c. slug_char c \<or> c = CHR ''-'') ?s"
    using dash_runs_text by (fastforce simp: list_all_iff)
  moreover have "slug_text ''organization''" by code_simp
  ultimately show ?thesis by (simp add: slug_of_def slug_text_def Let_def)
qed

lemma is_hex_slug: "is_hex c \<Longrightarrow> slug_char c"
  by (auto simp: is_hex_def slug_char_def is_lower_def is_digit_def Let_def)

lemma slug_candidate_text: "slug_text base \<Longrightarrow> slug_text (slug_candidate base i)"
  by (auto simp: slug_text_def slug_candidate_def list_all_iff dest!: in_set_takeD hex_digits_hex is_hex_slug)

lemma split_on_not_Nil [simp]: "split_on d s \<noteq> []"
  by (induction d s rule: split_on.induct) (auto split: list.splits)

lemma split_on_length: "length s + 1 = sum_list (map (\<lambda>l. length l + 1) (split_on d s))"
  by (induction d s rule: split_on.induct) (auto split: list.splits)

lemma split_on_set: "c \<in> set s \<Longrightarrow> c = d \<or> (\<exists>l \<in> set (split_on d s). c \<in> set l)"
  by (induction d s rule: split_on.induct) (auto split: list.splits)

lemma email_char_plain: "local_char c \<or> label_char c \<or> c = CHR ''@'' \<or> c = CHR ''.'' \<Longrightarrow> \<not> is_space c"
  by (auto simp: local_char_def label_char_def is_alpha_def is_upper_def is_lower_def is_digit_def is_space_def Let_def)

lemma email_pattern_facts:
  assumes "email_pattern e"
  shows "c \<in> set e \<Longrightarrow> \<not> is_space c" and "3 < length e" and "has_inner_at e"
proof -
  let ?u = "takeWhile (\<lambda>c. c \<noteq> CHR ''@'') e" and ?d = "dropWhile (\<lambda>c. c \<noteq> CHR ''@'') e"
  let ?ls = "split_on (CHR ''.'') (tl ?d)"
  have u: "?u \<noteq> []" "list_all local_char ?u" and d: "?d \<noteq> []"
    and ls: "2 \<le> length ?ls" "list_all (\<lambda>l. l \<noteq> [] \<and> list_all label_char l) ?ls"
    using assms by (simp_all add: email_pattern_def Let_def)
  have hd: "hd ?d = CHR ''@''" using hd_dropWhile [OF d] by simp
  have e: "e = ?u @ CHR ''@'' # tl ?d" using hd d by (metis list.collapse takeWhile_dropWhile_id)
  have "sum_list (map (\<lambda>l. 2) ?ls) \<le> sum_list (map (\<lambda>l. length l + 1) ?ls)"
    using ls(2) by (intro sum_list_mono) (auto simp: list_all_iff Suc_le_eq)
  then have "2 * length ?ls \<le> length (tl ?d) + 1"
    unfolding split_on_length [of "tl ?d" "CHR ''.''"] by (simp add: sum_list_triv)
  with ls(1) have tail: "3 \<le> length (tl ?d)" by linarith
  have len: "length e = length ?u + 1 + length (tl ?d)" by (subst e) simp
  with tail show "3 < length e" by simp
  have "e ! length ?u = CHR ''@''" by (subst e) (simp add: nth_append)
  moreover have "length ?u \<in> set [1 ..< length e - 1]" using u(1) len tail by (cases ?u) auto
  ultimately show "has_inner_at e" unfolding has_inner_at_def list_ex_iff by blast
  assume "c \<in> set e"
  then consider "c \<in> set ?u" | "c = CHR ''@''" | "c \<in> set (tl ?d)" by (subst (asm) e) auto
  then show "\<not> is_space c"
  proof cases
    case 1
    then show ?thesis using u(2) email_char_plain by (auto simp: list_all_iff)
  next
    case 2
    then show ?thesis using email_char_plain by blast
  next
    case 3
    then show ?thesis
      using split_on_set [of c "tl ?d" "CHR ''.''"] ls(2) email_char_plain [of c] by (auto simp: list_all_iff)
  qed
qed

lemma validate_registration_Inr:
  assumes "validate_registration q0 = Inr q"
  shows "email_pattern (rq_email q)" and "rq_email q = casefold (rq_email q)"
    and "strip (rq_organization_name q) \<noteq> []"
  using assms
  by (auto simp: validate_registration_def validate_email_def validate_name_def and_then_Inr_iff normalize_email_def
      casefold_idem Let_def split: if_splits)

lemma create_user_ok:
  assumes "email_pattern email" and "email = casefold email" and "strip h \<noteq> []"
    and "uid \<notin> set (map user_id (users db))" and "\<not> email_exists email db"
  shows "\<exists>u. create_user now uid email h name db = Inr (u, db \<lparr> users := users db @ [u] \<rparr>) \<and>
    user_id u = uid \<and> user_email u = email \<and> user_password_hash u = h \<and> user_is_active u"
proof -
  have "strip email = email" by (intro no_spaces_strip) (rule email_pattern_facts(1) [OF assms(1)])
  then show ?thesis
    using assms email_pattern_facts(2,3) [OF assms(1)]
    by (auto simp: create_user_def insert_user_def user_row_ok_def email_exists_def list_ex_iff)
qed

lemma create_organization_ok:
  assumes "strip name \<noteq> []" and "slug_text slug" and "\<not> slug_exists slug db" and "oid \<notin> set (map org_id (organizations db))"
    and "case quota of None \<Rightarrow> True | Some q \<Rightarrow> 0 \<le> q"
  shows "\<exists>r. create_organization now oid name slug quota db = Inr (r, db \<lparr> organizations := organizations db @ [r] \<rparr>) \<and>
    org_id r = oid \<and> org_slug r = slug \<and> org_is_active r \<and> org_storage_used_bytes r = 0 \<and> org_storage_quota_bytes r = quota"
  using assms slug_text_row [OF assms(2)]
  by (auto simp: create_organization_def insert_organization_def organization_row_ok_def slug_exists_def list_ex_iff)

definition references_ok :: "db \<Rightarrow> bool" where
  "references_ok db \<longleftrightarrow> list_all (\<lambda>m. mem_organization_id m \<in> set (map org_id (organizations db))) (memberships db)"

text \<open>
  A valid registration always succeeds: when the address is new, the identifiers drawn are
  unused and the slug draws differ, it adds exactly one user with that address and the hash of
  the password, one active organization with a slug no other organization has, one membership
  that makes the user the only owner of it, and one security event.
\<close>

theorem registration_creates_owned_organization:
  assumes "validate_registration q0 = Inr q" and "\<not> email_exists (rq_email q) db"
    and "strip (pl_hash lib (rd_salt d) (rq_password q)) \<noteq> []" and "0 \<le> quota"
    and "rd_user d \<notin> set (map user_id (users db))" and "rd_organization d \<notin> set (map org_id (organizations db))"
    and "rd_membership d \<notin> set (map mem_id (memberships db))" and "rd_event d \<notin> set (map sec_id (security_events db))"
    and "references_ok db"
    and "inj_on (\<lambda>k. take 8 (hex_digits 32 (rd_slugs d k))) {0 .. length (organizations db)}"
  shows "\<exists>answer u r m e. register lib quota d q db = Some (Inr answer,
      db \<lparr> users := users db @ [u], organizations := organizations db @ [r], memberships := memberships db @ [m],
           security_events := security_events db @ [e] \<rparr>) \<and>
    user_email u = rq_email q \<and> user_password_hash u = pl_hash lib (rd_salt d) (rq_password q) \<and> user_is_active u \<and>
    org_slug r \<notin> set (map org_slug (organizations db)) \<and> org_is_active r \<and>
    mem_user_id m = user_id u \<and> active_owner (org_id r) m \<and>
    filter (active_owner (org_id r)) (memberships db @ [m]) = [m]"
proof -
  let ?h = "pl_hash lib (rd_salt d) (rq_password q)" and ?base = "slug_of (rq_organization_name q)"
  note valid = validate_registration_Inr [OF assms(1)]
  obtain j where j: "\<not> slug_exists (slug_candidate ?base (rd_slugs d j)) db"
    using slug_candidates_free [OF assms(10)] by metis
  from unused_slug_result [where base = ?base and draws = "rd_slugs d" and j = j and k = 0 and slug = ?base, OF j]
  obtain s k where s: "unused_slug ?base (rd_slugs d) db 0 ?base = Some (s, k)" "\<not> slug_exists s db"
    and "s = ?base \<or> (\<exists>n. s = slug_candidate ?base (rd_slugs d n))" by auto
  then have "slug_text s" using slug_of_text slug_candidate_text by auto
  obtain u where u: "create_user (rd_now d) (rd_user d) (rq_email q) ?h (rq_display_name q) db =
      Inr (u, db \<lparr> users := users db @ [u] \<rparr>)"
    and u_facts: "user_id u = rd_user d" "user_email u = rq_email q" "user_password_hash u = ?h" "user_is_active u"
    using create_user_ok [OF valid(1,2) assms(3,5,2)] by metis
  let ?db1 = "db \<lparr> users := users db @ [u] \<rparr>" and ?q = "if quota = 0 then None else Some quota"
  have "\<not> slug_exists s ?db1" "rd_organization d \<notin> set (map org_id (organizations ?db1))"
    "case ?q of None \<Rightarrow> True | Some q \<Rightarrow> 0 \<le> q"
    using s(2) assms(4,6) by (simp_all add: slug_exists_def)
  from create_organization_ok [OF valid(3) \<open>slug_text s\<close> this]
  obtain r where r: "create_organization (rd_now d) (rd_organization d) (rq_organization_name q) s ?q ?db1 =
      Inr (r, ?db1 \<lparr> organizations := organizations db @ [r] \<rparr>)"
    and r_facts: "org_id r = rd_organization d" "org_slug r = s" "org_is_active r" by auto
  let ?db2 = "?db1 \<lparr> organizations := organizations db @ [r] \<rparr>"
  have none: "mem_organization_id x \<noteq> rd_organization d" if "x \<in> set (memberships db)" for x
    using that assms(6,9) unfolding references_ok_def list_all_iff by metis
  define m where "m = \<lparr> mem_id = rd_membership d, mem_organization_id = rd_organization d, mem_user_id = rd_user d,
    mem_role = OWNER, mem_is_active = True, mem_created_at = rd_now d \<rparr>"
  let ?db3 = "?db2 \<lparr> memberships := memberships db @ [m] \<rparr>"
  have m: "create_membership (rd_now d) (rd_membership d) (org_id r) (user_id u) OWNER ?db2 = Inr (m, ?db3)"
    using assms(7) u_facts(1) r_facts(1)
    by (auto simp: create_membership_def insert_membership_def m_def dest: none)
  obtain e where e: "append_security_event (rd_now d) (rd_event d) (org_id r) (user_id u) ''USER_REGISTERED''
      [(''membership_role'', JText ''OWNER'')] ?db3 = Inr (e, ?db3 \<lparr> security_events := security_events db @ [e] \<rparr>)"
    using assms(8) by (auto simp: append_security_event_def Let_def)
  let ?db4 = "?db3 \<lparr> security_events := security_events db @ [e] \<rparr>"
  have "find (\<lambda>x. org_id x = rd_organization d) (organizations db @ [r]) = Some r"
    using assms(6) r_facts(1) by (intro find_snoc) (simp_all, metis image_eqI)
  then have "get_organization (mem_organization_id m) ?db4 = Inr r"
    by (simp add: get_organization_def m_def)
  then obtain mr where "membership_response_of ?db4 m = Inr mr" by (simp add: membership_response_of_def)
  then have result: "register lib quota d q db = Some (Inr (user_response_of u, mr), ?db4)"
    using assms(2) s(1) u r m e
    by (simp add: register_def and_also_def unit_of_work_def register_rows_def)
  have owners: "filter (active_owner (org_id r)) (memberships db @ [m]) = [m]"
    using none r_facts(1) by (auto simp: active_owner_def m_def filter_empty_conv)
  have slug: "org_slug r \<notin> set (map org_slug (organizations db))"
    using s(2) r_facts(2) by (force simp: slug_exists_def list_ex_iff)
  have member: "mem_user_id m = user_id u" "active_owner (org_id r) m"
    using u_facts(1) r_facts(1) by (simp_all add: active_owner_def m_def)
  show ?thesis
    by (intro exI [of _ "(user_response_of u, mr)"] exI [of _ u] exI [of _ r] exI [of _ m] exI [of _ e] conjI)
      (fact result u_facts r_facts slug member owners)+
qed

theorem registration_creates_owned_organization_witness:
  "\<exists>answer db'. register plain_passwords 1000
      \<lparr> rd_now = 5, rd_salt = 0, rd_user = 31, rd_organization = 2, rd_membership = 32, rd_event = 33, rd_slugs = (\<lambda>k. 16 ^ 24 * k) \<rparr>
      \<lparr> rq_email = ''zoe@acme.io'', rq_password = ''correct horse'', rq_display_name = None, rq_organization_name = ''Acme'' \<rparr>
      team_db = Some (Inr answer, db') \<and> length (memberships db') = 4"
proof -
  let ?d = "\<lparr> rd_now = 5, rd_salt = 0, rd_user = 31, rd_organization = 2, rd_membership = 32, rd_event = 33,
      rd_slugs = (\<lambda>k. 16 ^ 24 * k) \<rparr>"
  let ?q = "\<lparr> rq_email = ''zoe@acme.io'', rq_password = ''correct horse'', rq_display_name = None,
      rq_organization_name = ''Acme'' \<rparr>"
  have facts: "validate_registration ?q = Inr ?q" "\<not> email_exists (rq_email ?q) team_db"
    "strip ''correct horse'' \<noteq> []" "references_ok team_db" "length (memberships team_db) = 3"
    by code_simp+
  have one: "length (organizations team_db) = 1" by code_simp
  have "inj_on (\<lambda>k. take 8 (hex_digits 32 (rd_slugs ?d k))) {0 .. length (organizations team_db)}"
    by (simp only: registration_draws.select_convs one distinct_prefixes)
  then show ?thesis
    using registration_creates_owned_organization [OF facts(1,2), where lib = plain_passwords and d = ?d and quota = 1000]
      facts(3-5) by (force simp: plain_passwords_def team_db_def empty_db_def team_user_def team_organization_def team_member_def)
qed

end
