(* ===== verification/Runs.thy ===== *)
theory Runs
  imports Schema
begin

text \<open>
  Reconciliation runs: \<open>ReconciliationRunRepository\<close>, the result, configuration and audit
  repositories that hang off a run, and the state machine of a run's status.
\<close>

section \<open>Operations of \<open>ReconciliationRunRepository\<close>\<close>

fun run_transitions :: "run_status \<Rightarrow> run_status list" where
  "run_transitions RUN_PENDING = [RUN_RUNNING, RUN_FAILED]"
| "run_transitions RUN_RUNNING = [RUN_SUCCEEDED, RUN_FAILED]"
| "run_transitions RUN_SUCCEEDED = []"
| "run_transitions RUN_FAILED = []"

definition run_status_value :: "string \<Rightarrow> run_status outcome" where
  "run_status_value s =
     (if s = ''PENDING'' then Inr RUN_PENDING else if s = ''RUNNING'' then Inr RUN_RUNNING
      else if s = ''SUCCEEDED'' then Inr RUN_SUCCEEDED else if s = ''FAILED'' then Inr RUN_FAILED
      else Inl (ValueError ''invalid reconciliation run status''))"

definition save_run :: "run \<Rightarrow> db \<Rightarrow> db outcome" where
  "save_run r db =
     (if run_row_ok r then Inr (db \<lparr> runs := put_row run_id r (runs db) \<rparr>) else Inl IntegrityError)"

definition create_run :: "instant \<Rightarrow> uuid \<Rightarrow> uuid \<Rightarrow> run db_action" where
  "create_run now org rid db =
     (let record = \<lparr> run_id = rid, run_organization_id = org, run_status = RUN_PENDING,
        run_started_at = None, run_finished_at = None, run_error_code = None,
        run_error_message = None, run_created_at = now \<rparr> in
      if rid \<in> set (map run_id (runs db)) \<or> org \<notin> set (map org_id (organizations db))
      then Inl IntegrityError
      else Inr (record, db \<lparr> runs := runs db @ [record] \<rparr>))"

definition get_run :: "uuid \<Rightarrow> uuid option \<Rightarrow> db \<Rightarrow> run outcome" where
  "get_run rid org db =
     (case org of
        Some t \<Rightarrow> scoped_get run_id run_organization_id rid t (runs db)
      | None \<Rightarrow> (case find (\<lambda>r. run_id r = rid) (runs db) of
          None \<Rightarrow> Inl RecordNotFoundError | Some r \<Rightarrow> Inr r))"

definition matching_runs :: "uuid option \<Rightarrow> run_status option \<Rightarrow> db \<Rightarrow> run list" where
  "matching_runs org status db =
     filter (\<lambda>r. (case org of None \<Rightarrow> True | Some t \<Rightarrow> run_organization_id r = t) \<and>
                 (case status of None \<Rightarrow> True | Some s \<Rightarrow> run_status r = s)) (runs db)"

fun optional_status :: "('s \<Rightarrow> 't outcome) \<Rightarrow> 's option \<Rightarrow> 't option outcome" where
  "optional_status parse None = Inr None"
| "optional_status parse (Some s) = and_then (parse s) (\<lambda>t. Inr (Some t))"

definition list_runs :: "uuid option \<Rightarrow> page \<Rightarrow> string option \<Rightarrow> db \<Rightarrow> run list outcome" where
  "list_runs org p status db =
     and_then (optional_status run_status_value status) (\<lambda>st.
       Inr (paginate p (sort_key (\<lambda>r. (- run_created_at r, run_id r)) (matching_runs org st db))))"

definition count_runs :: "uuid option \<Rightarrow> string option \<Rightarrow> db \<Rightarrow> nat outcome" where
  "count_runs org status db =
     and_then (optional_status run_status_value status) (\<lambda>st. Inr (length (matching_runs org st db)))"

definition transition_run ::
  "instant \<Rightarrow> uuid \<Rightarrow> run_status \<Rightarrow> datetime option \<Rightarrow> string option \<Rightarrow> string option \<Rightarrow> uuid option \<Rightarrow> run db_action" where
  "transition_run now rid status at_time error_code error_message org db =
     and_then (get_run rid org db) (\<lambda>record.
     and_then (guard_else (status \<in> set (run_transitions (run_status record))) InvalidStatusTransitionError) (\<lambda>_.
     and_then (utc_or now at_time) (\<lambda>occurred_at.
     let record' =
       (if status = RUN_RUNNING
        then record \<lparr> run_status := status, run_started_at := Some occurred_at \<rparr>
        else record \<lparr> run_status := status, run_finished_at := Some occurred_at,
               run_error_code := (if status = RUN_FAILED then error_code else None),
               run_error_message := (if status = RUN_FAILED then error_message else None) \<rparr>)
     in and_then (save_run record' db) (\<lambda>db'. Inr (record', db')))))"

section \<open>Records that belong to a run\<close>

definition run_of_tenant :: "uuid \<Rightarrow> uuid \<Rightarrow> db \<Rightarrow> bool" where
  "run_of_tenant rid org db \<longleftrightarrow> list_ex (\<lambda>r. run_id r = rid \<and> run_organization_id r = org) (runs db)"

definition add_configuration ::
  "instant \<Rightarrow> uuid \<Rightarrow> uuid \<Rightarrow> config \<Rightarrow> (string \<times> json) list \<Rightarrow> configuration db_action" where
  "add_configuration now cid rid c settings db =
     and_then (guard_else (\<not> list_ex (\<lambda>r. cfg_run_id r = rid) (configurations db)) PersistenceConflictError) (\<lambda>_.
     let record = \<lparr> cfg_id = cid, cfg_run_id = rid, cfg_amount_tolerance = amount_tolerance c,
           cfg_date_tolerance_days = date_tolerance_days c,
           cfg_settings = (if ''maximum_group_size'' \<in> set (map fst settings) then settings
             else (''maximum_group_size'', JInt (maximum_group_size c)) # settings),
           cfg_created_at = now \<rparr>
     in if configuration_row_ok record \<and> cid \<notin> set (map cfg_id (configurations db)) \<and>
           rid \<in> set (map run_id (runs db))
        then Inr (record, db \<lparr> configurations := configurations db @ [record] \<rparr>)
        else Inl IntegrityError)"

definition configuration_for_run :: "uuid \<Rightarrow> db \<Rightarrow> configuration outcome" where
  "configuration_for_run rid db =
     (case find (\<lambda>c. cfg_run_id c = rid) (configurations db) of
        None \<Rightarrow> Inl RecordNotFoundError | Some c \<Rightarrow> Inr c)"

text \<open>\<open>ReconciliationResultRepository.add_many\<close>: identifiers of the new rows are given.\<close>

definition result_rows_ok :: "result_row list \<Rightarrow> bool" where
  "result_rows_ok rows \<longleftrightarrow>
     list_all result_row_ok rows \<and> distinct (map rr_id rows) \<and>
     distinct (map (\<lambda>r. (rr_run_id r, res_result_id (rr_result r))) rows)"

definition add_results ::
  "instant \<Rightarrow> uuid list \<Rightarrow> uuid \<Rightarrow> reconciliation_result list \<Rightarrow> result_row list db_action" where
  "add_results now ids rid rs db =
     (let records = map (\<lambda>(i, r). \<lparr> rr_id = i, rr_run_id = rid, rr_result = r, rr_created_at = now \<rparr>) (zip ids rs);
          rows = result_rows db @ records
      in if result_rows_ok rows \<and> (records = [] \<or> rid \<in> set (map run_id (runs db)))
         then Inr (records, db \<lparr> result_rows := rows \<rparr>) else Inl IntegrityError)"

definition get_result :: "uuid \<Rightarrow> uuid option \<Rightarrow> db \<Rightarrow> result_row outcome" where
  "get_result i org db =
     (case find (\<lambda>r. rr_id r = i \<and>
         (case org of None \<Rightarrow> True | Some t \<Rightarrow> run_of_tenant (rr_run_id r) t db)) (result_rows db) of
        None \<Rightarrow> Inl RecordNotFoundError | Some r \<Rightarrow> Inr r)"

definition matching_results ::
  "uuid \<Rightarrow> reconciliation_status option \<Rightarrow> bool option \<Rightarrow> db \<Rightarrow> result_row list" where
  "matching_results rid status review db =
     filter (\<lambda>r. rr_run_id r = rid \<and>
       (case status of None \<Rightarrow> True | Some s \<Rightarrow> res_status (rr_result r) = s) \<and>
       (case review of None \<Rightarrow> True | Some b \<Rightarrow> res_requires_review (rr_result r) = b)) (result_rows db)"

definition result_status_value :: "string \<Rightarrow> reconciliation_status outcome" where
  "result_status_value s =
     (if s = ''EXACT_MATCH'' then Inr EXACT_MATCH else if s = ''SETTLEMENT_MATCH'' then Inr SETTLEMENT_MATCH
      else if s = ''TOLERANCE_MATCH'' then Inr TOLERANCE_MATCH
      else if s = ''MANY_TO_ONE_MATCH'' then Inr MANY_TO_ONE_MATCH
      else if s = ''ONE_TO_MANY_MATCH'' then Inr ONE_TO_MANY_MATCH
      else if s = ''DUPLICATE'' then Inr DUPLICATE else if s = ''REQUIRES_REVIEW'' then Inr REQUIRES_REVIEW
      else Inl (ValueError ''invalid reconciliation result status''))"

definition list_results ::
  "uuid \<Rightarrow> page \<Rightarrow> string option \<Rightarrow> bool option \<Rightarrow> db \<Rightarrow> result_row list outcome" where
  "list_results rid p status review db =
     and_then (optional_status result_status_value status) (\<lambda>st.
       Inr (paginate p (sort_key (\<lambda>r. (rr_created_at r, res_result_id (rr_result r)))
         (matching_results rid st review db))))"

definition count_results :: "uuid \<Rightarrow> string option \<Rightarrow> bool option \<Rightarrow> db \<Rightarrow> nat outcome" where
  "count_results rid status review db =
     and_then (optional_status result_status_value status) (\<lambda>st.
       Inr (length (matching_results rid st review db)))"

text \<open>
  \<open>AuditEventRepository.append\<close>; the event's run identifier is a UUID already and its
  timestamp carries a zone, as \<open>AuditTrail\<close> writes it.
\<close>

definition last_sequence :: "uuid \<Rightarrow> db \<Rightarrow> int" where
  "last_sequence rid db = foldl max 0 (map aud_sequence_number (filter (\<lambda>a. aud_run_id a = rid) (audit_rows db)))"

definition append_audit_row ::
  "uuid \<Rightarrow> uuid \<Rightarrow> string \<Rightarrow> instant \<Rightarrow> (string \<times> json) list \<Rightarrow> audit_row db_action" where
  "append_audit_row aid rid event_type occurred_at details db =
     and_then (guard_else (rid \<in> set (map run_id (runs db))) RecordNotFoundError) (\<lambda>_.
     let record = \<lparr> aud_id = aid, aud_run_id = rid, aud_sequence_number = last_sequence rid db + 1,
           aud_event_type = event_type, aud_occurred_at = occurred_at, aud_details = details \<rparr>
     in if aid \<notin> set (map aud_id (audit_rows db))
        then Inr (record, db \<lparr> audit_rows := audit_rows db @ [record] \<rparr>) else Inl IntegrityError)"

definition list_audit_rows :: "uuid \<Rightarrow> page \<Rightarrow> db \<Rightarrow> audit_row list" where
  "list_audit_rows rid p db =
     paginate p (sort_key aud_sequence_number (filter (\<lambda>a. aud_run_id a = rid) (audit_rows db)))"

definition count_audit_rows :: "uuid \<Rightarrow> db \<Rightarrow> nat" where
  "count_audit_rows rid db = length (filter (\<lambda>a. aud_run_id a = rid) (audit_rows db))"

section \<open>The life of a run\<close>

text \<open>A run as the operations shape it: its timestamps and error tell its status.\<close>

definition run_shape :: "run \<Rightarrow> bool" where
  "run_shape r \<longleftrightarrow>
     (case run_status r of
        RUN_PENDING \<Rightarrow> run_started_at r = None \<and> run_finished_at r = None \<and> run_error_code r = None
      | RUN_RUNNING \<Rightarrow> run_started_at r \<noteq> None \<and> run_finished_at r = None \<and> run_error_code r = None
      | RUN_SUCCEEDED \<Rightarrow> run_started_at r \<noteq> None \<and> run_finished_at r \<noteq> None \<and> run_error_code r = None
      | RUN_FAILED \<Rightarrow> run_finished_at r \<noteq> None) \<and> run_row_ok r"

lemma get_run_Inr: "get_run rid org db = Inr r \<Longrightarrow> r \<in> set (runs db) \<and> run_id r = rid"
  by (auto simp: get_run_def find_Some_iff dest: scoped_get_Inr split: option.splits)

lemma transition_run_Inr:
  assumes "transition_run now rid status at_time code msg org db = Inr (r', db')"
  obtains r where "r \<in> set (runs db)" "get_run rid org db = Inr r" "run_id r' = run_id r"
    "run_organization_id r' = run_organization_id r"
    "status \<in> set (run_transitions (run_status r))" "run_status r' = status" "run_row_ok r'"
    "db' = db \<lparr> runs := put_row run_id r' (runs db) \<rparr>"
    "run_shape r \<Longrightarrow> run_shape r'"
proof -
  from assms obtain r t where r: "get_run rid org db = Inr r"
    and st: "status \<in> set (run_transitions (run_status r))" and save: "save_run r' db = Inr db'"
    and r': "r' = (if status = RUN_RUNNING
        then r \<lparr> run_status := status, run_started_at := Some t \<rparr>
        else r \<lparr> run_status := status, run_finished_at := Some t,
               run_error_code := (if status = RUN_FAILED then code else None),
               run_error_message := (if status = RUN_FAILED then msg else None) \<rparr>)"
    unfolding transition_run_def Let_def by (auto simp only: outcome_simps prod.inject)
  have ok: "run_row_ok r'" "db' = db \<lparr> runs := put_row run_id r' (runs db) \<rparr>"
    using save by (auto simp: save_run_def split: if_splits)
  show ?thesis
  proof (rule that [of r])
    show "r \<in> set (runs db)" using get_run_Inr [OF r] by simp
    show "get_run rid org db = Inr r" by (rule r)
    show "run_id r' = run_id r" "run_organization_id r' = run_organization_id r" "run_status r' = status"
      by (simp_all add: r')
    show "status \<in> set (run_transitions (run_status r))" by (rule st)
    show "run_row_ok r'" "db' = db \<lparr> runs := put_row run_id r' (runs db) \<rparr>" by (rule ok)+
    show "run_shape r \<Longrightarrow> run_shape r'"
      using st ok(1) by (cases "run_status r") (auto simp: r' run_shape_def)
  qed
qed

text \<open>
  Only \<open>retry_failed\<close> of the job queue moves a run backwards; through \<open>transition\<close> alone the
  status follows the declared edges and a finished run never changes again.
\<close>

lemma finished_run_is_final:
  assumes "get_run rid org db = Inr r" and "run_status r \<in> {RUN_SUCCEEDED, RUN_FAILED}"
  shows "transition_run now rid status at_time code msg org db = Inl InvalidStatusTransitionError"
  using assms by (auto simp: transition_run_def)

lemma foldl_max_ge: "a \<le> foldl max a xs \<and> (\<forall>x \<in> set xs. x \<le> foldl max a (xs :: int list))"
proof (induction xs arbitrary: a)
  case Nil
  then show ?case by simp
next
  case (Cons x xs)
  from Cons [of "max a x"] show ?case by auto
qed

lemma foldl_max_snoc: "foldl max a (xs @ [x]) = max (foldl max a xs) (x :: int)"
  by simp

text \<open>Sequence numbers of a parent: one, two, three, in the order the children were appended.\<close>

definition contiguous :: "int list \<Rightarrow> bool" where
  "contiguous ns \<longleftrightarrow> ns = map int [1 ..< length ns + 1]"

lemma contiguous_max: "contiguous ns \<Longrightarrow> foldl max 0 ns = int (length ns)"
proof (induction ns rule: rev_induct)
  case Nil
  then show ?case by simp
next
  case (snoc n ns)
  then have "contiguous ns" and n: "n = int (length ns) + 1"
    by (auto simp: contiguous_def)
  with snoc.IH show ?case by simp
qed

lemma contiguous_snoc: "contiguous ns \<Longrightarrow> contiguous (ns @ [foldl max 0 ns + 1])"
  by (simp add: contiguous_max) (simp add: contiguous_def)

lemma append_audit_row_contiguous:
  assumes "append_audit_row aid rid ty t ds db = Inr (a, db')"
    and "\<And>i. contiguous (map aud_sequence_number (filter (\<lambda>a. aud_run_id a = i) (audit_rows db)))"
  shows "contiguous (map aud_sequence_number (filter (\<lambda>a. aud_run_id a = i) (audit_rows db')))"
proof -
  from assms(1) have "audit_rows db' = audit_rows db @ [a]" "aud_run_id a = rid"
    "aud_sequence_number a = last_sequence rid db + 1"
    by (auto simp: append_audit_row_def outcome_simps Let_def split: if_splits)
  then show ?thesis using assms(2) [of i] contiguous_snoc [OF assms(2) [of rid]]
    by (auto simp: last_sequence_def)
qed

end
