(* ===== verification/Job_Queue.thy ===== *)
theory Job_Queue
  imports Runs
begin

text \<open>
  The durable job queue of \<open>BackgroundJobRepository\<close>: creation, claiming with priority aging,
  heartbeats and stale-lease recovery, progress, cancellation, completion, automatic and manual
  retry, retention and summaries, with the append-only history each operation writes.
  Identifiers of new rows are arguments.  The invariant ties a job's lease, attempts and
  timestamps to its status and its history to consecutive sequence numbers; every operation
  keeps it, and a step relation collects the operations.
\<close>

section \<open>Priorities\<close>

instantiation job_priority :: linorder
begin

fun priority_rank :: "job_priority \<Rightarrow> nat" where
  "priority_rank LOW = 0"
| "priority_rank NORMAL = 1"
| "priority_rank HIGH = 2"

definition less_eq_job_priority :: "job_priority \<Rightarrow> job_priority \<Rightarrow> bool" where
  "p \<le> q = (priority_rank p \<le> priority_rank q)"

definition less_job_priority :: "job_priority \<Rightarrow> job_priority \<Rightarrow> bool" where
  "p < q = (priority_rank p < priority_rank q)"

instance
proof
  fix x y z :: job_priority
  show "x < y \<longleftrightarrow> x \<le> y \<and> \<not> y \<le> x" by (auto simp: less_eq_job_priority_def less_job_priority_def)
  show "x \<le> x" by (simp add: less_eq_job_priority_def)
  show "x \<le> y \<Longrightarrow> y \<le> z \<Longrightarrow> x \<le> z" by (simp add: less_eq_job_priority_def)
  show "x \<le> y \<Longrightarrow> y \<le> x \<Longrightarrow> x = y" by (cases x; cases y) (simp_all add: less_eq_job_priority_def)
  show "x \<le> y \<or> y \<le> x" by (auto simp: less_eq_job_priority_def)
qed

end

definition status_value :: "string \<Rightarrow> job_status outcome" where
  "status_value s =
     (if s = ''QUEUED'' then Inr QUEUED else if s = ''RUNNING'' then Inr RUNNING
      else if s = ''SUCCEEDED'' then Inr SUCCEEDED else if s = ''FAILED'' then Inr FAILED
      else if s = ''CANCEL_REQUESTED'' then Inr CANCEL_REQUESTED
      else if s = ''CANCELLED'' then Inr CANCELLED
      else Inl (ValueError ''invalid background job status''))"

definition priority_value :: "string \<Rightarrow> job_priority outcome" where
  "priority_value s =
     (if s = ''LOW'' then Inr LOW else if s = ''NORMAL'' then Inr NORMAL else if s = ''HIGH'' then Inr HIGH
      else Inl (ValueError ''invalid background job priority''))"

fun status_text :: "job_status \<Rightarrow> string" where
  "status_text QUEUED = ''QUEUED''"
| "status_text RUNNING = ''RUNNING''"
| "status_text SUCCEEDED = ''SUCCEEDED''"
| "status_text FAILED = ''FAILED''"
| "status_text CANCEL_REQUESTED = ''CANCEL_REQUESTED''"
| "status_text CANCELLED = ''CANCELLED''"

fun priority_text :: "job_priority \<Rightarrow> string" where
  "priority_text LOW = ''LOW''"
| "priority_text NORMAL = ''NORMAL''"
| "priority_text HIGH = ''HIGH''"

section \<open>Rows and history\<close>

definition save_job :: "job \<Rightarrow> db \<Rightarrow> db outcome" where
  "save_job r db =
     (if job_row_ok r then Inr (db \<lparr> jobs := put_row job_id r (jobs db) \<rparr>) else Inl IntegrityError)"

definition events_of :: "uuid \<Rightarrow> db \<Rightarrow> job_event list" where
  "events_of j db = filter (\<lambda>e. ev_job_id e = j) (job_events db)"

text \<open>Details are given with the values that may be missing; those are dropped.\<close>

definition present_details :: "(string \<times> json option) list \<Rightarrow> (string \<times> json) list" where
  "present_details ds = concat (map (\<lambda>(k, v). case v of None \<Rightarrow> [] | Some x \<Rightarrow> [(k, x)]) ds)"

definition append_event ::
  "uuid \<Rightarrow> job \<Rightarrow> job_event_type \<Rightarrow> instant \<Rightarrow> (string \<times> json option) list \<Rightarrow> db \<Rightarrow> db outcome" where
  "append_event eid r event_type occurred_at details db =
     (let sequence = foldl max 0 (map ev_sequence_number (events_of (job_id r) db)) + 1;
          event = \<lparr> ev_id = eid, ev_organization_id = job_organization_id r, ev_job_id = job_id r,
            ev_sequence_number = sequence, ev_event_type = event_type, ev_occurred_at = occurred_at,
            ev_details = present_details details \<rparr>
      in if eid \<in> set (map ev_id (job_events db)) then Inl IntegrityError
         else Inr (db \<lparr> job_events := job_events db @ [event] \<rparr>))"

text \<open>\<open>value.strip()[:n] if value else None\<close>.\<close>

fun clipped :: "nat \<Rightarrow> string option \<Rightarrow> string option" where
  "clipped n None = None"
| "clipped n (Some []) = None"
| "clipped n (Some s) = Some (take n (strip s))"

section \<open>Operations\<close>

definition create_job ::
  "instant \<Rightarrow> uuid \<Rightarrow> uuid \<Rightarrow> uuid \<Rightarrow> uuid \<Rightarrow> datetime option \<Rightarrow> int \<Rightarrow> int \<Rightarrow> string \<Rightarrow> job db_action" where
  "create_job now jid eid org rid scheduled_at max_attempts timeout priority db =
     and_then (guard_else (1 \<le> max_attempts) (ValueError ''max_attempts must be a positive integer'')) (\<lambda>_.
     and_then (guard_else (30 \<le> timeout) (ValueError ''timeout_seconds must be at least 30'')) (\<lambda>_.
     and_then (priority_value priority) (\<lambda>normalized_priority.
     and_then (guard_else (run_of_tenant rid org db) RecordNotFoundError) (\<lambda>_.
     and_then (guard_else (\<not> list_ex (\<lambda>j. job_run_id j = rid) (jobs db)) PersistenceConflictError) (\<lambda>_.
     and_then (utc_or now scheduled_at) (\<lambda>scheduled.
     let record = \<lparr> job_id = jid, job_organization_id = org, job_run_id = rid, job_status = QUEUED,
           job_priority = normalized_priority, job_progress_percentage = 0, job_status_message = None,
           job_attempt_count = 0, job_total_attempt_count = 0, job_manual_retry_count = 0,
           job_max_attempts = max_attempts, job_timeout_seconds = timeout, job_deadline_at = None,
           job_last_manual_retry_at = None, job_scheduled_at = scheduled, job_started_at = None,
           job_completed_at = None, job_cancellation_requested_at = None, job_retry_at = None,
           job_claimed_by = None, job_heartbeat_at = None, job_failure_code = None,
           job_failure_message = None, job_created_at = now \<rparr> in
     and_then (guard_else (job_row_ok record \<and> jid \<notin> set (map job_id (jobs db))) IntegrityError) (\<lambda>_.
     and_then (append_event eid record JOB_QUEUED now
         [(''priority'', Some (JText (priority_text (job_priority record)))),
          (''status'', Some (JText (status_text (job_status record))))]
         (db \<lparr> jobs := jobs db @ [record] \<rparr>)) (\<lambda>db'.
     Inr (record, db')))))))))"

definition get_job :: "uuid \<Rightarrow> uuid \<Rightarrow> db \<Rightarrow> job outcome" where
  "get_job jid org db = scoped_get job_id job_organization_id jid org (jobs db)"

definition job_for_run :: "uuid \<Rightarrow> uuid \<Rightarrow> db \<Rightarrow> job option" where
  "job_for_run rid org db = find (\<lambda>j. job_run_id j = rid \<and> job_organization_id j = org) (jobs db)"

definition matching_jobs :: "uuid \<Rightarrow> job_status option \<Rightarrow> db \<Rightarrow> job list" where
  "matching_jobs org status db =
     filter (\<lambda>j. job_organization_id j = org \<and>
       (case status of None \<Rightarrow> True | Some s \<Rightarrow> job_status j = s)) (jobs db)"

definition list_jobs :: "uuid \<Rightarrow> string option \<Rightarrow> page \<Rightarrow> db \<Rightarrow> job list outcome" where
  "list_jobs org status p db =
     and_then (optional_status status_value status) (\<lambda>st.
       Inr (paginate p (sort_key (\<lambda>j. (- job_created_at j, job_id j)) (matching_jobs org st db))))"

definition count_jobs :: "uuid \<Rightarrow> string option \<Rightarrow> db \<Rightarrow> nat outcome" where
  "count_jobs org status db =
     and_then (optional_status status_value status) (\<lambda>st. Inr (length (matching_jobs org st db)))"

text \<open>\<open>func.coalesce(retry_at, scheduled_at)\<close>.\<close>

definition eligible_since :: "job \<Rightarrow> instant" where
  "eligible_since j = (case job_retry_at j of Some t \<Rightarrow> t | None \<Rightarrow> job_scheduled_at j)"

definition effective_priority :: "instant \<Rightarrow> int \<Rightarrow> job \<Rightarrow> int" where
  "effective_priority claimed_at aging j =
     (let aged_once = claimed_at - seconds aging; aged_twice = claimed_at - seconds (aging * 2) in
      if job_priority j = HIGH then 2
      else if job_priority j = NORMAL \<and> eligible_since j \<le> aged_once then 2
      else if job_priority j = NORMAL then 1
      else if job_priority j = LOW \<and> eligible_since j \<le> aged_twice then 2
      else if job_priority j = LOW \<and> eligible_since j \<le> aged_once then 1
      else 0)"

text \<open>Rows another transaction has locked are skipped; \<open>locked\<close> holds their identifiers.\<close>

definition claimable :: "instant \<Rightarrow> uuid option \<Rightarrow> uuid set \<Rightarrow> job \<Rightarrow> bool" where
  "claimable claimed_at org locked j \<longleftrightarrow>
     job_status j = QUEUED \<and> job_scheduled_at j \<le> claimed_at \<and>
     (case job_retry_at j of None \<Rightarrow> True | Some t \<Rightarrow> t \<le> claimed_at) \<and>
     job_attempt_count j < job_max_attempts j \<and>
     (case org of None \<Rightarrow> True | Some t \<Rightarrow> job_organization_id j = t) \<and>
     job_id j \<notin> locked"

definition claim_order :: "instant \<Rightarrow> int \<Rightarrow> job \<Rightarrow> int \<times> instant \<times> instant \<times> uuid" where
  "claim_order claimed_at aging j =
     (- effective_priority claimed_at aging j, eligible_since j, job_created_at j, job_id j)"

definition claimed :: "string \<Rightarrow> instant \<Rightarrow> job \<Rightarrow> job" where
  "claimed worker_id claimed_at r =
     r \<lparr> job_status := RUNNING, job_attempt_count := job_attempt_count r + 1,
         job_total_attempt_count := job_total_attempt_count r + 1, job_started_at := Some claimed_at,
         job_claimed_by := Some worker_id, job_heartbeat_at := Some claimed_at, job_completed_at := None,
         job_deadline_at := Some (claimed_at + seconds (job_timeout_seconds r)), job_retry_at := None,
         job_failure_code := None, job_failure_message := None \<rparr>"

definition claim_next ::
  "instant \<Rightarrow> uuid \<Rightarrow> string \<Rightarrow> datetime option \<Rightarrow> uuid option \<Rightarrow> int \<Rightarrow> uuid set \<Rightarrow> job option db_action" where
  "claim_next now eid worker_id at_time org aging locked db =
     (let worker = strip worker_id in
      and_then (guard_else (\<not> (worker = [] \<or> 200 < length worker))
          (ValueError ''worker_id must contain between 1 and 200 characters'')) (\<lambda>_.
      and_then (guard_else (30 \<le> aging) (ValueError ''priority_aging_seconds must be at least 30'')) (\<lambda>_.
      and_then (utc_or now at_time) (\<lambda>claimed_at.
      case sort_key (claim_order claimed_at aging) (filter (claimable claimed_at org locked) (jobs db)) of
        [] \<Rightarrow> Inr (None, db)
      | r # _ \<Rightarrow>
          let record = claimed worker claimed_at r in
          and_then (save_job record db) (\<lambda>db1.
          and_then (append_event eid record JOB_CLAIMED claimed_at
              [(''attempt_count'', Some (JInt (job_attempt_count record))),
               (''priority'', Some (JText (priority_text (job_priority record)))),
               (''status'', Some (JText (status_text (job_status record)))),
               (''deadline_at'', map_option JTime (job_deadline_at record))] db1) (\<lambda>db2.
          Inr (Some record, db2)))))))"

definition retry_failed ::
  "instant \<Rightarrow> uuid \<Rightarrow> uuid \<Rightarrow> uuid \<Rightarrow> int \<Rightarrow> datetime option \<Rightarrow> job db_action" where
  "retry_failed now eid jid org max_manual_retries at_time db =
     and_then (guard_else (1 \<le> max_manual_retries)
         (ValueError ''max_manual_retries must be a positive integer'')) (\<lambda>_.
     and_then (get_job jid org db) (\<lambda>record.
     and_then (guard_else (job_status record = FAILED) InvalidStatusTransitionError) (\<lambda>_.
     and_then (guard_else (job_manual_retry_count record < max_manual_retries) InvalidStatusTransitionError) (\<lambda>_.
     and_then (guard_else (\<not> list_ex (\<lambda>r. rr_run_id r = job_run_id record) (result_rows db))
         InvalidStatusTransitionError) (\<lambda>_.
     case find (\<lambda>r. run_id r = job_run_id record \<and> run_organization_id r = org) (runs db) of
       None \<Rightarrow> Inl InvalidStatusTransitionError
     | Some the_run \<Rightarrow>
         and_then (guard_else (run_status the_run = RUN_FAILED) InvalidStatusTransitionError) (\<lambda>_.
         and_then (utc_or now at_time) (\<lambda>retried_at.
         let record' = record \<lparr> job_status := QUEUED, job_progress_percentage := 0,
               job_status_message := Some ''Manual retry queued'', job_attempt_count := 0,
               job_manual_retry_count := job_manual_retry_count record + 1,
               job_last_manual_retry_at := Some retried_at, job_scheduled_at := retried_at,
               job_started_at := None, job_completed_at := None, job_deadline_at := None,
               job_cancellation_requested_at := None, job_retry_at := None, job_claimed_by := None,
               job_heartbeat_at := None, job_failure_code := None, job_failure_message := None \<rparr>;
             run' = the_run \<lparr> run_status := RUN_PENDING, run_started_at := None, run_finished_at := None,
               run_error_code := None, run_error_message := None \<rparr>
         in and_then (save_job record' db) (\<lambda>db1.
            and_then (save_run run' db1) (\<lambda>db2.
            and_then (append_event eid record' JOB_MANUAL_RETRY_REQUESTED retried_at
                [(''manual_retry_count'', Some (JInt (job_manual_retry_count record'))),
                 (''priority'', Some (JText (priority_text (job_priority record')))),
                 (''status'', Some (JText (status_text (job_status record'))))] db2) (\<lambda>db3.
            Inr (record', db3)))))))))))"

definition leased :: "job_status \<Rightarrow> bool" where
  "leased s \<longleftrightarrow> s = RUNNING \<or> s = CANCEL_REQUESTED"

definition heartbeat_job ::
  "instant \<Rightarrow> uuid \<Rightarrow> uuid \<Rightarrow> string \<Rightarrow> datetime option \<Rightarrow> job db_action" where
  "heartbeat_job now jid org worker_id at_time db =
     and_then (get_job jid org db) (\<lambda>record.
     and_then (guard_else (\<not> (\<not> leased (job_status record) \<or> job_claimed_by record \<noteq> Some worker_id))
         InvalidStatusTransitionError) (\<lambda>_.
     and_then (utc_or now at_time) (\<lambda>t.
     let record' = record \<lparr> job_heartbeat_at := Some t \<rparr> in
     and_then (save_job record' db) (\<lambda>db'. Inr (record', db')))))"

definition stale :: "instant \<Rightarrow> job \<Rightarrow> bool" where
  "stale cutoff j \<longleftrightarrow>
     leased (job_status j) \<and> (case job_heartbeat_at j of None \<Rightarrow> False | Some h \<Rightarrow> h \<le> cutoff)"

definition recovered :: "instant \<Rightarrow> job \<Rightarrow> job" where
  "recovered t r =
     (let r' =
        (if job_status r = CANCEL_REQUESTED
         then r \<lparr> job_status := CANCELLED, job_completed_at := Some t,
                  job_status_message := Some ''Cancelled after worker interruption'' \<rparr>
         else if job_attempt_count r < job_max_attempts r
         then r \<lparr> job_status := QUEUED, job_retry_at := Some t, job_started_at := None,
                  job_status_message := Some ''Recovered after worker interruption'' \<rparr>
         else r \<lparr> job_status := FAILED, job_completed_at := Some t,
                  job_failure_code := Some ''WORKER_INTERRUPTED'',
                  job_failure_message := Some ''Background processing was interrupted.'' \<rparr>)
      in r' \<lparr> job_claimed_by := None, job_heartbeat_at := None, job_deadline_at := None \<rparr>)"

definition recover_one :: "instant \<Rightarrow> uuid \<times> job \<Rightarrow> db \<Rightarrow> db outcome" where
  "recover_one t p db =
     (case p of (eid, r) \<Rightarrow>
        let record = recovered t r in
        and_then (save_job record db)
          (append_event eid record JOB_RECOVERED t
             [(''previous_status'', Some (JText (status_text (job_status r)))),
              (''status'', Some (JText (status_text (job_status record)))),
              (''attempt_count'', Some (JInt (job_attempt_count record))),
              (''failure_code'', map_option JText (job_failure_code record))]))"

text \<open>\<open>eids\<close> supplies the identifiers of the events, one for each recovered job.\<close>

definition recover_stale ::
  "instant \<Rightarrow> (nat \<Rightarrow> uuid) \<Rightarrow> datetime \<Rightarrow> datetime option \<Rightarrow> nat db_action" where
  "recover_stale now eids stale_before at_time db =
     and_then (utc_or now at_time) (\<lambda>recovered_at.
     and_then (utc stale_before) (\<lambda>cutoff.
     let records = filter (stale cutoff) (jobs db) in
     and_then (fold_err (recover_one recovered_at) (zip (map eids [0 ..< length records]) records) db) (\<lambda>db'.
     Inr (length records, db'))))"

definition update_progress ::
  "instant \<Rightarrow> uuid \<Rightarrow> uuid \<Rightarrow> uuid \<Rightarrow> int \<Rightarrow> string option \<Rightarrow> datetime option \<Rightarrow> job db_action" where
  "update_progress now eid jid org progress message at_time db =
     and_then (guard_else (0 \<le> progress \<and> progress \<le> 100)
         (ValueError ''progress_percentage must be between 0 and 100'')) (\<lambda>_.
     and_then (get_job jid org db) (\<lambda>record.
     and_then (guard_else (leased (job_status record)) InvalidStatusTransitionError) (\<lambda>_.
     let record' = record \<lparr> job_progress_percentage := progress,
           job_status_message := clipped 500 message \<rparr> in
     and_then (save_job record' db) (\<lambda>db1.
     and_then (utc_or now at_time) (\<lambda>t.
     and_then (append_event eid record' JOB_PROGRESS_UPDATED t
         [(''progress_percentage'', Some (JInt (job_progress_percentage record'))),
          (''status'', Some (JText (status_text (job_status record'))))] db1) (\<lambda>db2.
     Inr (record', db2)))))))"

definition request_cancellation ::
  "instant \<Rightarrow> uuid \<Rightarrow> uuid \<Rightarrow> uuid \<Rightarrow> uuid \<Rightarrow> datetime option \<Rightarrow> job db_action" where
  "request_cancellation now eid eid' jid org at_time db =
     and_then (get_job jid org db) (\<lambda>record.
     and_then (guard_else (job_status record \<in> {QUEUED, RUNNING}) InvalidStatusTransitionError) (\<lambda>_.
     and_then (utc_or now at_time) (\<lambda>requested_at.
     and_then (append_event eid record JOB_CANCELLATION_REQUESTED requested_at
         [(''status'', Some (JText (status_text (job_status record))))] db) (\<lambda>db1.
     if job_status record = QUEUED then
       let record' = record \<lparr> job_cancellation_requested_at := Some requested_at, job_status := CANCELLED,
             job_completed_at := Some requested_at,
             job_status_message := Some ''Cancelled before processing'', job_deadline_at := None \<rparr> in
       and_then (save_job record' db1) (\<lambda>db2.
       and_then (append_event eid' record' JOB_CANCELLED requested_at
           [(''status'', Some (JText (status_text (job_status record'))))] db2) (\<lambda>db3.
       Inr (record', db3)))
     else
       let record' = record \<lparr> job_cancellation_requested_at := Some requested_at,
             job_status := CANCEL_REQUESTED, job_status_message := Some ''Cancellation requested'' \<rparr> in
       and_then (save_job record' db1) (\<lambda>db2. Inr (record', db2))))))"

fun allowed_completions :: "job_status \<Rightarrow> job_status list" where
  "allowed_completions RUNNING = [SUCCEEDED, FAILED]"
| "allowed_completions CANCEL_REQUESTED = [CANCELLED, FAILED]"
| "allowed_completions _ = []"

definition completion_event :: "job_status \<Rightarrow> string option \<Rightarrow> job_event_type" where
  "completion_event target failure_code =
     (if target = SUCCEEDED then JOB_SUCCEEDED
      else if target = CANCELLED then JOB_CANCELLED
      else if failure_code = Some ''JOB_TIMEOUT'' then JOB_TIMED_OUT else JOB_FAILED)"

text \<open>The first half of \<open>complete\<close>: the new status and the event it will log.\<close>

definition completion_status ::
  "instant \<Rightarrow> job_status \<Rightarrow> string option \<Rightarrow> datetime option \<Rightarrow> job \<Rightarrow> (job \<times> job_event_type) outcome" where
  "completion_status completed_at target failure_code retry_at record =
     (if target = FAILED \<and> retry_at \<noteq> None then
        and_then (guard_else (job_attempt_count record < job_max_attempts record)
            InvalidStatusTransitionError) (\<lambda>_.
        and_then (utc (the retry_at)) (\<lambda>t.
        Inr (record \<lparr> job_status := QUEUED, job_retry_at := Some t,
               job_status_message := Some ''Retry scheduled'' \<rparr>, JOB_RETRY_SCHEDULED)))
      else
        Inr (record \<lparr> job_status := target, job_completed_at := Some completed_at,
               job_progress_percentage := (if target = SUCCEEDED then 100
                 else job_progress_percentage record) \<rparr>, completion_event target failure_code))"

text \<open>The second half: the lease is given up and a failure is described.\<close>

definition release_lease :: "job_status \<Rightarrow> string option \<Rightarrow> string option \<Rightarrow> job \<Rightarrow> job" where
  "release_lease target failure_code failure_message r =
     (let r' = r \<lparr> job_claimed_by := None, job_heartbeat_at := None, job_deadline_at := None \<rparr> in
      if target = FAILED
      then r' \<lparr> job_failure_code := clipped 100 failure_code,
                job_failure_message := clipped 2000 failure_message \<rparr>
      else r')"

definition complete_job ::
  "instant \<Rightarrow> uuid \<Rightarrow> uuid \<Rightarrow> job_status \<Rightarrow> uuid \<Rightarrow> datetime option \<Rightarrow> string option \<Rightarrow> string option \<Rightarrow>
   datetime option \<Rightarrow> job db_action" where
  "complete_job now eid jid target org at_time failure_code failure_message retry_at db =
     and_then (get_job jid org db) (\<lambda>record.
     and_then (guard_else (target \<in> set (allowed_completions (job_status record)))
         InvalidStatusTransitionError) (\<lambda>_.
     and_then (utc_or now at_time) (\<lambda>completed_at.
     and_then (completion_status completed_at target failure_code retry_at record) (\<lambda>p.
     let record' = release_lease target failure_code failure_message (fst p) in
     and_then (save_job record' db) (\<lambda>db1.
     and_then (append_event eid record' (snd p) completed_at
         [(''status'', Some (JText (status_text (job_status record')))),
          (''attempt_count'', Some (JInt (job_attempt_count record'))),
          (''failure_code'', map_option JText (job_failure_code record')),
          (''retry_at'', map_option JTime (job_retry_at record'))] db1) (\<lambda>db2.
     Inr (record', db2)))))))"

section \<open>Retention and summaries\<close>

definition terminal :: "job_status \<Rightarrow> bool" where
  "terminal s \<longleftrightarrow> s = SUCCEEDED \<or> s = FAILED \<or> s = CANCELLED"

text \<open>The cutoffs as the items of the dictionary, in its order.\<close>

definition retention_conditions ::
  "(job_status \<times> datetime) list \<Rightarrow> (job \<Rightarrow> bool) list outcome" where
  "retention_conditions cutoffs =
     map_err (\<lambda>(status, cutoff).
       and_then (guard_else (terminal status)
           (ValueError ''retention cleanup only supports terminal job statuses'')) (\<lambda>_.
       and_then (utc cutoff) (\<lambda>c.
       Inr (\<lambda>j. job_status j = status \<and>
         (case job_completed_at j of
            Some t \<Rightarrow> t \<le> c
          | None \<Rightarrow> status = CANCELLED \<and>
              (case job_cancellation_requested_at j of Some t \<Rightarrow> t \<le> c | None \<Rightarrow> False)))))) cutoffs"

definition expired_jobs :: "(job \<Rightarrow> bool) list \<Rightarrow> db \<Rightarrow> job list" where
  "expired_jobs conditions db = filter (\<lambda>j. list_ex (\<lambda>c. c j) conditions) (jobs db)"

definition count_expired_terminal :: "(job_status \<times> datetime) list \<Rightarrow> db \<Rightarrow> nat outcome" where
  "count_expired_terminal cutoffs db =
     and_then (retention_conditions cutoffs) (\<lambda>conditions. Inr (length (expired_jobs conditions db)))"

text \<open>
  The identifiers of one batch, oldest first.  A missing completion time sorts first, as SQLite
  orders it; rows another transaction has locked are skipped.
\<close>

definition expired_batch :: "(job \<Rightarrow> bool) list \<Rightarrow> int \<Rightarrow> uuid set \<Rightarrow> db \<Rightarrow> uuid list" where
  "expired_batch conditions limit locked db =
     map job_id (take (nat limit) (sort_key
       (\<lambda>j. (job_completed_at j \<noteq> None, case job_completed_at j of Some t \<Rightarrow> t | None \<Rightarrow> 0, job_id j))
       (filter (\<lambda>j. job_id j \<notin> locked) (expired_jobs conditions db))))"

definition delete_expired_terminal ::
  "(job_status \<times> datetime) list \<Rightarrow> int \<Rightarrow> uuid set \<Rightarrow> nat db_action" where
  "delete_expired_terminal cutoffs limit locked db =
     and_then (guard_else (1 \<le> limit) (ValueError ''limit must be a positive integer'')) (\<lambda>_.
     and_then (retention_conditions cutoffs) (\<lambda>conditions.
     let ids = expired_batch conditions limit locked db
     in if ids = [] then Inr (0, db)
        else let doomed = (\<lambda>j. job_id j \<in> set ids \<and> list_ex (\<lambda>c. c j) conditions)
          in Inr (length (filter doomed (jobs db)),
            db \<lparr> job_events := filter (\<lambda>e. ev_job_id e \<notin> set ids) (job_events db),
                 jobs := filter (\<lambda>j. \<not> doomed j) (jobs db) \<rparr>)))"

record queue_summary =
  sum_counts :: "(job_status \<times> nat) list"
  sum_priority_counts :: "(job_priority \<times> nat) list"
  sum_retrying :: nat
  sum_oldest_eligible_age_seconds :: "int option"

definition all_statuses :: "job_status list" where
  "all_statuses = [QUEUED, RUNNING, SUCCEEDED, FAILED, CANCEL_REQUESTED, CANCELLED]"

definition all_priorities :: "job_priority list" where
  "all_priorities = [LOW, NORMAL, HIGH]"

definition summarize_jobs :: "instant \<Rightarrow> uuid \<Rightarrow> datetime option \<Rightarrow> db \<Rightarrow> queue_summary outcome" where
  "summarize_jobs now org at_time db =
     and_then (utc_or now at_time) (\<lambda>t.
     let mine = filter (\<lambda>j. job_organization_id j = org) (jobs db);
         queued = filter (\<lambda>j. job_status j = QUEUED) mine;
         eligible_at = map job_scheduled_at (filter (\<lambda>j. job_scheduled_at j \<le> t \<and>
           (case job_retry_at j of None \<Rightarrow> True | Some u \<Rightarrow> u \<le> t)) queued)
     in Inr \<lparr> sum_counts = map (\<lambda>s. (s, length (filter (\<lambda>j. job_status j = s) mine))) all_statuses,
              sum_priority_counts =
                map (\<lambda>p. (p, length (filter (\<lambda>j. job_priority j = p) queued))) all_priorities,
              sum_retrying = length (filter (\<lambda>j. job_retry_at j \<noteq> None) queued),
              sum_oldest_eligible_age_seconds =
                (case eligible_at of [] \<Rightarrow> None
                 | x # xs \<Rightarrow> Some (max 0 ((t - foldl min x xs) div 1000000))) \<rparr>)"

section \<open>The history of a job\<close>

definition event_type_value :: "string \<Rightarrow> job_event_type outcome" where
  "event_type_value s =
     (case find (\<lambda>p. fst p = s)
        [(''JOB_QUEUED'', JOB_QUEUED), (''JOB_CLAIMED'', JOB_CLAIMED),
         (''JOB_PROGRESS_UPDATED'', JOB_PROGRESS_UPDATED), (''JOB_RETRY_SCHEDULED'', JOB_RETRY_SCHEDULED),
         (''JOB_MANUAL_RETRY_REQUESTED'', JOB_MANUAL_RETRY_REQUESTED),
         (''JOB_CANCELLATION_REQUESTED'', JOB_CANCELLATION_REQUESTED), (''JOB_CANCELLED'', JOB_CANCELLED),
         (''JOB_TIMED_OUT'', JOB_TIMED_OUT), (''JOB_SUCCEEDED'', JOB_SUCCEEDED), (''JOB_FAILED'', JOB_FAILED),
         (''JOB_RECOVERED'', JOB_RECOVERED)] of
        Some p \<Rightarrow> Inr (snd p) | None \<Rightarrow> Inl (ValueError ''invalid background job event type''))"

definition matching_events ::
  "uuid \<Rightarrow> uuid \<Rightarrow> string option \<Rightarrow> db \<Rightarrow> job_event list outcome" where
  "matching_events jid org event_type db =
     and_then (get_job jid org db) (\<lambda>_.
     and_then (optional_status event_type_value event_type) (\<lambda>ty.
       Inr (filter (\<lambda>e. ev_job_id e = jid \<and> ev_organization_id e = org \<and>
         (case ty of None \<Rightarrow> True | Some x \<Rightarrow> ev_event_type e = x)) (job_events db))))"

definition list_job_events ::
  "uuid \<Rightarrow> uuid \<Rightarrow> string option \<Rightarrow> page \<Rightarrow> db \<Rightarrow> job_event list outcome" where
  "list_job_events jid org event_type p db =
     and_then (matching_events jid org event_type db) (\<lambda>es.
       Inr (paginate p (sort_key (\<lambda>e. (ev_sequence_number e, ev_id e)) es)))"

definition count_job_events :: "uuid \<Rightarrow> uuid \<Rightarrow> string option \<Rightarrow> db \<Rightarrow> nat outcome" where
  "count_job_events jid org event_type db =
     and_then (matching_events jid org event_type db) (\<lambda>es. Inr (length es))"

section \<open>Well-formed jobs and their history\<close>

text \<open>
  A lease (worker, heartbeat, deadline) exists exactly while the job is running or being
  cancelled, a completion time exactly in the terminal states, and the attempts over the
  whole life of the job are bounded by those each manual retry allows.
\<close>

definition job_wf :: "job \<Rightarrow> bool" where
  "job_wf j \<longleftrightarrow>
     job_row_ok j \<and>
     (leased (job_status j) \<longleftrightarrow> job_claimed_by j \<noteq> None) \<and>
     (leased (job_status j) \<longleftrightarrow> job_heartbeat_at j \<noteq> None) \<and>
     (leased (job_status j) \<longleftrightarrow> job_deadline_at j \<noteq> None) \<and>
     (terminal (job_status j) \<longleftrightarrow> job_completed_at j \<noteq> None) \<and>
     (leased (job_status j) \<longrightarrow> job_started_at j \<noteq> None \<and> 1 \<le> job_attempt_count j) \<and>
     (job_status j = CANCEL_REQUESTED \<longrightarrow> job_cancellation_requested_at j \<noteq> None) \<and>
     (job_status j = SUCCEEDED \<longrightarrow> job_progress_percentage j = 100) \<and>
     job_total_attempt_count j \<le> job_max_attempts j * job_manual_retry_count j + job_attempt_count j"

definition history_ok :: "job_event list \<Rightarrow> bool" where
  "history_ok es \<longleftrightarrow>
     distinct (map ev_id es) \<and>
     (\<forall>j. contiguous (map ev_sequence_number (filter (\<lambda>e. ev_job_id e = j) es)))"

definition queue_inv :: "db \<Rightarrow> bool" where
  "queue_inv db \<longleftrightarrow>
     distinct (map job_id (jobs db)) \<and> distinct (map job_run_id (jobs db)) \<and>
     (\<forall>j \<in> set (jobs db). job_wf j) \<and> history_ok (job_events db) \<and>
     (\<forall>e \<in> set (job_events db). \<exists>j \<in> set (jobs db).
        job_id j = ev_job_id e \<and> job_organization_id j = ev_organization_id e)"

definition same_job :: "job \<Rightarrow> job \<Rightarrow> bool" where
  "same_job r r' \<longleftrightarrow>
     job_id r' = job_id r \<and> job_organization_id r' = job_organization_id r \<and> job_run_id r' = job_run_id r"

definition history_of :: "job \<Rightarrow> db \<Rightarrow> db \<Rightarrow> bool" where
  "history_of r db db' \<longleftrightarrow>
     (\<exists>es. job_events db' = job_events db @ es \<and>
        (\<forall>e \<in> set es. ev_job_id e = job_id r \<and> ev_organization_id e = job_organization_id r)) \<and>
     (history_ok (job_events db) \<longrightarrow> history_ok (job_events db'))"

definition changed :: "job \<Rightarrow> job \<Rightarrow> db \<Rightarrow> db \<Rightarrow> bool" where
  "changed r r' db db' \<longleftrightarrow>
     r \<in> set (jobs db) \<and> same_job r r' \<and> jobs db' = put_row job_id r' (jobs db) \<and>
     (job_wf r \<longrightarrow> job_wf r') \<and> history_of r db db'"

lemma history_of_refl: "job_events db' = job_events db \<Longrightarrow> history_of r db db'"
  by (simp add: history_of_def)

lemma history_of_trans: "history_of r db db1 \<Longrightarrow> history_of r db1 db2 \<Longrightarrow> history_of r db db2"
  unfolding history_of_def by (elim conjE exE) (auto simp: ball_Un)

lemma append_event_Inr:
  assumes "append_event eid r ty t ds db = Inr db'"
  shows "jobs db' = jobs db" and "runs db' = runs db" and "history_of r db db'"
    and "length (job_events db') = Suc (length (job_events db))"
proof -
  define e where "e = \<lparr> ev_id = eid, ev_organization_id = job_organization_id r, ev_job_id = job_id r,
     ev_sequence_number = foldl max 0 (map ev_sequence_number (events_of (job_id r) db)) + 1,
     ev_event_type = ty, ev_occurred_at = t, ev_details = present_details ds \<rparr>"
  have new: "eid \<notin> set (map ev_id (job_events db))" and db': "db' = db \<lparr> job_events := job_events db @ [e] \<rparr>"
    using assms by (auto simp: append_event_def Let_def e_def split: if_splits)
  show "jobs db' = jobs db" "runs db' = runs db" "length (job_events db') = Suc (length (job_events db))"
    by (simp_all add: db')
  have "history_ok (job_events db @ [e])" if "history_ok (job_events db)"
  proof -
    have "contiguous (map ev_sequence_number (filter (\<lambda>e. ev_job_id e = j) (job_events db @ [e])))" for j
      using that contiguous_snoc [of "map ev_sequence_number (filter (\<lambda>e. ev_job_id e = job_id r) (job_events db))"]
      by (auto simp: history_ok_def e_def events_of_def)
    moreover have "distinct (map ev_id (job_events db @ [e]))"
      using that new by (simp add: history_ok_def e_def)
    ultimately show ?thesis by (simp only: history_ok_def) blast
  qed
  then show "history_of r db db'" by (auto simp: history_of_def db' e_def)
qed

lemma history_of_same: "same_job r r' \<Longrightarrow> history_of r' = history_of r"
  by (intro ext) (simp add: history_of_def same_job_def)

lemma save_job_Inr:
  "save_job r db = Inr db' \<longleftrightarrow> job_row_ok r \<and> db' = db \<lparr> jobs := put_row job_id r (jobs db) \<rparr>"
  by (auto simp: save_job_def)

lemma save_run_Inr:
  "save_run r db = Inr db' \<longleftrightarrow> run_row_ok r \<and> db' = db \<lparr> runs := put_row run_id r (runs db) \<rparr>"
  by (auto simp: save_run_def)

lemma get_job_Inr:
  "get_job jid org db = Inr r \<Longrightarrow> r \<in> set (jobs db) \<and> job_id r = jid \<and> job_organization_id r = org"
  unfolding get_job_def by (rule scoped_get_Inr)

lemma save_then_log:
  assumes "r \<in> set (jobs db)" and "same_job r r'" and "job_row_ok r' \<Longrightarrow> job_wf r \<Longrightarrow> job_wf r'"
    and "save_job r' db = Inr db1" and "append_event eid r' ty t ds db1 = Inr db2"
  shows "changed r r' db db2"
proof -
  have "jobs db1 = put_row job_id r' (jobs db)" "job_events db1 = job_events db" "job_row_ok r'"
    using assms(4) by (auto simp: save_job_Inr)
  moreover from this have "history_of r db db2"
    using append_event_Inr(3) [OF assms(5)] history_of_same [OF assms(2)]
    by (metis history_of_refl history_of_trans)
  ultimately show ?thesis
    using assms(1-3) append_event_Inr(1) [OF assms(5)] by (auto simp: changed_def)
qed

lemma changed_invariant:
  assumes "changed r r' db db'" and "queue_inv db"
  shows "queue_inv db'"
proof -
  have r: "r \<in> set (jobs db)" and same: "job_id r' = job_id r" "job_run_id r' = job_run_id r"
      "job_organization_id r' = job_organization_id r"
    and jobs: "jobs db' = put_row job_id r' (jobs db)" and wf: "job_wf r \<longrightarrow> job_wf r'"
    and hist: "history_of r db db'"
    using assms(1) by (auto simp: changed_def same_job_def)
  have d: "distinct (map job_id (jobs db))" and inv: "\<forall>j \<in> set (jobs db). job_wf j"
    and own: "\<forall>e \<in> set (job_events db). \<exists>j \<in> set (jobs db).
        job_id j = ev_job_id e \<and> job_organization_id j = ev_organization_id e"
    using assms(2) by (auto simp: queue_inv_def)
  have unique: "x = r" if "x \<in> set (jobs db)" "job_id x = job_id r" for x
    using that r d by (metis distinct_map inj_onD)
  have runs: "map job_run_id (jobs db') = map job_run_id (jobs db)"
    using unique by (auto simp: jobs put_row_def same)
  have kept: "\<exists>j \<in> set (jobs db'). job_id j = i \<and> job_organization_id j = t"
    if "j \<in> set (jobs db)" "job_id j = i" "job_organization_id j = t" for i t j
  proof (cases "j = r")
    case True
    with that r same have "r' \<in> set (jobs db')" "job_id r' = i" "job_organization_id r' = t"
      by (auto simp: jobs intro: put_row_member)
    then show ?thesis by blast
  next
    case False
    with that unique have "j \<in> set (jobs db')" by (auto simp: jobs same intro: put_row_other)
    with that show ?thesis by blast
  qed
  have "\<exists>j \<in> set (jobs db'). job_id j = ev_job_id e \<and> job_organization_id j = ev_organization_id e"
    if e: "e \<in> set (job_events db')" for e
  proof -
    from hist e consider "e \<in> set (job_events db)" | "ev_job_id e = job_id r" "ev_organization_id e = job_organization_id r"
      unfolding history_of_def by auto
    then show ?thesis using own kept r by cases metis+
  qed
  moreover have "\<forall>j \<in> set (jobs db'). job_wf j"
    using inv wf r by (auto simp: jobs dest!: in_put_row)
  moreover have "history_ok (job_events db')"
    using hist assms(2) by (simp add: history_of_def queue_inv_def)
  ultimately show ?thesis
    using assms(2) runs by (simp add: queue_inv_def jobs)
qed

text \<open>
  The contract of an operation on one job: it changes that job along an edge of its state
  machine and writes its history.
\<close>

locale job_operation =
  fixes op :: "db \<Rightarrow> (job \<times> db) outcome" and edge :: "job_status \<Rightarrow> job_status \<Rightarrow> bool"
  assumes law: "op db = Inr (r', db') \<Longrightarrow> \<exists>r. changed r r' db db' \<and> edge (job_status r) (job_status r')"
begin

lemma keeps_invariant: "op db = Inr (r', db') \<Longrightarrow> queue_inv db \<Longrightarrow> queue_inv db'"
  using law changed_invariant by blast

lemma result_stored: "op db = Inr (r', db') \<Longrightarrow> r' \<in> set (jobs db')"
  using law by (fastforce simp: changed_def same_job_def intro: put_row_member)

lemma other_jobs_kept:
  assumes "op db = Inr (r', db')" and "j \<in> set (jobs db)" and "job_id j \<noteq> job_id r'"
  shows "j \<in> set (jobs db')"
  using law [OF assms(1)] assms(2,3) by (auto simp: changed_def intro: put_row_other)

end

locale tenant_job_operation = job_operation +
  fixes org :: uuid
  assumes tenant_law: "op db = Inr (r', db') \<Longrightarrow> job_organization_id r' = org"
begin

lemma other_tenants_kept:
  assumes "op db = Inr (r', db')" and "distinct (map job_id (jobs db))"
  shows "filter (\<lambda>j. job_organization_id j \<noteq> org) (jobs db') = filter (\<lambda>j. job_organization_id j \<noteq> org) (jobs db)"
proof -
  obtain r where r: "r \<in> set (jobs db)" "same_job r r'" "jobs db' = put_row job_id r' (jobs db)"
    using law [OF assms(1)] by (auto simp: changed_def)
  have "x = r" if "x \<in> set (jobs db)" "job_id x = job_id r" for x
    using that r assms(2) by (metis distinct_map inj_onD)
  note unique = this
  have org: "job_organization_id r = org" "job_organization_id r' = org" "job_id r' = job_id r"
    using r(2) tenant_law [OF assms(1)] by (simp_all add: same_job_def)
  show ?thesis unfolding r(3)
  proof (rule put_row_filter)
    fix x
    assume "x \<in> set (jobs db)" "job_id x = job_id r'"
    then have "x = r" using unique org by simp
    with org show "\<not> job_organization_id x \<noteq> org" by simp
  qed (use org in simp)
qed

lemma other_histories_kept:
  assumes "op db = Inr (r', db')"
  shows "filter (\<lambda>e. ev_organization_id e \<noteq> org) (job_events db') =
    filter (\<lambda>e. ev_organization_id e \<noteq> org) (job_events db)"
proof -
  obtain r where r: "same_job r r'" "history_of r db db'" using law [OF assms] by (auto simp: changed_def)
  then have "job_organization_id r = org" using tenant_law [OF assms] by (simp add: same_job_def)
  with r(2) show ?thesis by (auto simp: history_of_def filter_empty_conv)
qed
end

section \<open>Every operation keeps the contract\<close>

lemmas job_shapes = job_wf_def job_row_ok_def leased_def terminal_def

lemma guard_ok: "guard_else c e = Inr u \<Longrightarrow> c"
  by (simp add: guard_else_Inr_iff)

lemma claim_next_Inr:
  assumes "claim_next now eid worker_id at_time org aging locked db = Inr (Some r', db')"
  obtains r t where "r \<in> set (jobs db)" "claimable t org locked r" "r' = claimed (strip worker_id) t r"
    "changed r r' db db'" "utc_or now at_time = Inr t" "30 \<le> aging"
    "\<forall>j \<in> set (jobs db). claimable t org locked j \<longrightarrow> claim_order t aging r \<le> claim_order t aging j"
proof -
  from assms obtain t where t: "utc_or now at_time = Inr t" and ag: "30 \<le> aging"
    and step: "(case sort_key (claim_order t aging) (filter (claimable t org locked) (jobs db)) of
        [] \<Rightarrow> Inr (None, db)
      | r # _ \<Rightarrow>
          let record = claimed (strip worker_id) t r in
          and_then (save_job record db) (\<lambda>db1.
          and_then (append_event eid record JOB_CLAIMED t
              [(''attempt_count'', Some (JInt (job_attempt_count record))),
               (''priority'', Some (JText (priority_text (job_priority record)))),
               (''status'', Some (JText (status_text (job_status record)))),
               (''deadline_at'', map_option JTime (job_deadline_at record))] db1) (\<lambda>db2.
          Inr (Some record, db2)))) = Inr (Some r', db')"
    unfolding claim_next_def Let_def by (auto simp only: and_then_Inr_iff guard_else_Inr_iff)
  let ?c = "filter (claimable t org locked) (jobs db)"
  obtain r rs where sorted: "sort_key (claim_order t aging) ?c = r # rs"
    using step by (cases "sort_key (claim_order t aging) ?c") auto
  then have "r \<in> set ?c" by (metis list.set_intros(1) set_sort)
  then have r: "r \<in> set (jobs db)" "claimable t org locked r" by auto
  obtain db1 where r': "r' = claimed (strip worker_id) t r" and save: "save_job r' db = Inr db1"
    and log: "append_event eid r' JOB_CLAIMED t
              [(''attempt_count'', Some (JInt (job_attempt_count r'))),
               (''priority'', Some (JText (priority_text (job_priority r')))),
               (''status'', Some (JText (status_text (job_status r')))),
               (''deadline_at'', map_option JTime (job_deadline_at r'))] db1 = Inr db'"
    using step unfolding sorted Let_def by (auto simp: and_then_Inr_iff)
  have "same_job r r'" by (simp add: same_job_def r' claimed_def)
  moreover have "job_wf r'" if "job_row_ok r'" "job_wf r"
    using that r(2) by (auto simp: job_shapes r' claimed_def claimable_def)
  ultimately have "changed r r' db db'" using r(1) save log by (intro save_then_log)
  moreover have "\<forall>j \<in> set (jobs db). claimable t org locked j \<longrightarrow> claim_order t aging r \<le> claim_order t aging j"
  proof (intro ballI impI)
    fix j
    assume "j \<in> set (jobs db)" "claimable t org locked j"
    then have "j \<in> set (sort_key (claim_order t aging) ?c)" by simp
    moreover have "sorted (map (claim_order t aging) (sort_key (claim_order t aging) ?c))" by simp
    ultimately show "claim_order t aging r \<le> claim_order t aging j" unfolding sorted by auto
  qed
  ultimately show ?thesis using that r r' t ag by blast
qed

definition keeps_status :: "job_status \<Rightarrow> job_status \<Rightarrow> bool" where
  "keeps_status s s' \<longleftrightarrow> leased s \<and> s' = s"

interpretation heartbeating: tenant_job_operation "heartbeat_job now jid org worker_id at_time" keeps_status org
  for now jid worker_id at_time org
proof
  fix db r' db'
  assume run: "heartbeat_job now jid org worker_id at_time db = Inr (r', db')"
  then obtain r t where r: "get_job jid org db = Inr r" "leased (job_status r)" "job_claimed_by r = Some worker_id"
    and r': "r' = r \<lparr> job_heartbeat_at := Some t \<rparr>" and save: "save_job r' db = Inr db'"
    unfolding heartbeat_job_def Let_def by (auto simp: and_then_Inr_iff guard_else_Inr_iff)
  have "changed r r' db db'"
    using save get_job_Inr [OF r(1)] r(2,3)
    by (auto simp: save_job_Inr changed_def same_job_def r' job_shapes intro: history_of_refl)
  with r show "\<exists>r. changed r r' db db' \<and> keeps_status (job_status r) (job_status r')"
    by (auto simp: r' keeps_status_def)
  show "job_organization_id r' = org" using get_job_Inr [OF r(1)] by (simp add: r')
qed

interpretation progressing:
  tenant_job_operation "update_progress now eid jid org progress message at_time" keeps_status org
  for now eid jid progress message at_time org
proof
  fix db r' db'
  assume run: "update_progress now eid jid org progress message at_time db = Inr (r', db')"
  then obtain r t db1 ds where r: "get_job jid org db = Inr r" "leased (job_status r)" "0 \<le> progress" "progress \<le> 100"
    and r': "r' = r \<lparr> job_progress_percentage := progress, job_status_message := clipped 500 message \<rparr>"
    and save: "save_job r' db = Inr db1" and log: "append_event eid r' JOB_PROGRESS_UPDATED t ds db1 = Inr db'"
    unfolding update_progress_def Let_def by (auto simp: and_then_Inr_iff guard_else_Inr_iff)
  have "job_wf r'" if "job_wf r" using that r(2) by (auto simp: job_shapes r' r(3,4))
  moreover have "same_job r r'" by (simp add: same_job_def r')
  ultimately have "changed r r' db db'" using get_job_Inr [OF r(1)] save log by (intro save_then_log) auto
  with r show "\<exists>r. changed r r' db db' \<and> keeps_status (job_status r) (job_status r')"
    by (auto simp: r' keeps_status_def)
  show "job_organization_id r' = org" using get_job_Inr [OF r(1)] by (simp add: r')
qed

definition cancel_edge :: "job_status \<Rightarrow> job_status \<Rightarrow> bool" where
  "cancel_edge s s' \<longleftrightarrow> s = QUEUED \<and> s' = CANCELLED \<or> s = RUNNING \<and> s' = CANCEL_REQUESTED"

interpretation cancelling:
  tenant_job_operation "request_cancellation now eid eid' jid org at_time" cancel_edge org
  for now eid eid' jid at_time org
proof
  fix db r' db'
  assume run: "request_cancellation now eid eid' jid org at_time db = Inr (r', db')"
  then obtain r t db1 ds where r: "get_job jid org db = Inr r" "job_status r = QUEUED \<or> job_status r = RUNNING"
    and log: "append_event eid r JOB_CANCELLATION_REQUESTED t ds db = Inr db1"
    and rest: "(if job_status r = QUEUED then
       let record' = r \<lparr> job_cancellation_requested_at := Some t, job_status := CANCELLED,
             job_completed_at := Some t,
             job_status_message := Some ''Cancelled before processing'', job_deadline_at := None \<rparr> in
       and_then (save_job record' db1) (\<lambda>db2.
       and_then (append_event eid' record' JOB_CANCELLED t
           [(''status'', Some (JText (status_text (job_status record'))))] db2) (\<lambda>db3.
       Inr (record', db3)))
     else
       let record' = r \<lparr> job_cancellation_requested_at := Some t,
             job_status := CANCEL_REQUESTED, job_status_message := Some ''Cancellation requested'' \<rparr> in
       and_then (save_job record' db1) (\<lambda>db2. Inr (record', db2))) = Inr (r', db')"
    unfolding request_cancellation_def by (auto simp only: and_then_Inr_iff guard_else_Inr_iff insert_iff empty_iff)
  have db1: "jobs db1 = jobs db" and first: "history_of r db db1" using append_event_Inr [OF log] by simp_all
  have mem: "r \<in> set (jobs db)" using get_job_Inr [OF r(1)] by simp
  have "changed r r' db1 db' \<and> cancel_edge (job_status r) (job_status r') \<and> job_organization_id r' = job_organization_id r"
  proof (cases "job_status r = QUEUED")
    case True
    with rest obtain db2 ds' where r': "r' = r \<lparr> job_cancellation_requested_at := Some t, job_status := CANCELLED,
             job_completed_at := Some t,
             job_status_message := Some ''Cancelled before processing'', job_deadline_at := None \<rparr>"
      and save: "save_job r' db1 = Inr db2" and log2: "append_event eid' r' JOB_CANCELLED t ds' db2 = Inr db'"
      unfolding Let_def by (auto simp: and_then_Inr_iff)
    have "job_wf r'" if "job_row_ok r'" "job_wf r" using that True by (auto simp: job_shapes r')
    moreover have "same_job r r'" by (simp add: same_job_def r')
    ultimately have "changed r r' db1 db'" using mem db1 save log2 by (intro save_then_log) auto
    with True show ?thesis by (simp add: r' cancel_edge_def)
  next
    case False
    with rest have r': "r' = r \<lparr> job_cancellation_requested_at := Some t,
             job_status := CANCEL_REQUESTED, job_status_message := Some ''Cancellation requested'' \<rparr>"
      and save: "save_job r' db1 = Inr db'"
      unfolding Let_def by (auto simp: and_then_Inr_iff)
    have "job_status r = RUNNING" using False r(2) by simp
    then have "job_wf r'" if "job_row_ok r'" "job_wf r" using that by (auto simp: job_shapes r')
    with save mem db1 have "changed r r' db1 db'"
      by (auto simp: save_job_Inr changed_def same_job_def r' intro: history_of_refl)
    with \<open>job_status r = RUNNING\<close> show ?thesis by (simp add: r' cancel_edge_def)
  qed
  moreover from this have "changed r r' db db'"
    using first history_of_trans by (auto simp: changed_def db1)
  ultimately show "\<exists>r. changed r r' db db' \<and> cancel_edge (job_status r) (job_status r')"
    and "job_organization_id r' = org"
    using get_job_Inr [OF r(1)] by auto
qed

definition retry_edge :: "job_status \<Rightarrow> job_status \<Rightarrow> bool" where
  "retry_edge s s' \<longleftrightarrow> s = FAILED \<and> s' = QUEUED"

lemma retry_failed_Inr:
  assumes "retry_failed now eid jid org limit at_time db = Inr (r', db')"
  obtains r run t where "get_job jid org db = Inr r" "job_status r = FAILED"
    "job_manual_retry_count r < limit" "\<not> list_ex (\<lambda>x. rr_run_id x = job_run_id r) (result_rows db)"
    "find (\<lambda>x. run_id x = job_run_id r \<and> run_organization_id x = org) (runs db) = Some run"
    "run_status run = RUN_FAILED"
    "r' = r \<lparr> job_status := QUEUED, job_progress_percentage := 0,
               job_status_message := Some ''Manual retry queued'', job_attempt_count := 0,
               job_manual_retry_count := job_manual_retry_count r + 1,
               job_last_manual_retry_at := Some t, job_scheduled_at := t,
               job_started_at := None, job_completed_at := None, job_deadline_at := None,
               job_cancellation_requested_at := None, job_retry_at := None, job_claimed_by := None,
               job_heartbeat_at := None, job_failure_code := None, job_failure_message := None \<rparr>"
    "changed r r' db db'"
    "runs db' = put_row run_id (run \<lparr> run_status := RUN_PENDING, run_started_at := None,
       run_finished_at := None, run_error_code := None, run_error_message := None \<rparr>) (runs db)"
proof -
  from assms obtain r where r: "get_job jid org db = Inr r" "job_status r = FAILED"
      "job_manual_retry_count r < limit" "\<not> list_ex (\<lambda>x. rr_run_id x = job_run_id r) (result_rows db)"
    unfolding retry_failed_def by (auto simp only: and_then_Inr_iff guard_else_Inr_iff)
  with assms obtain run where run: "find (\<lambda>x. run_id x = job_run_id r \<and> run_organization_id x = org) (runs db) = Some run"
    unfolding retry_failed_def
    by (cases "find (\<lambda>x. run_id x = job_run_id r \<and> run_organization_id x = org) (runs db)")
       (auto simp: and_then_Inr_iff guard_else_Inr_iff)
  let ?run = "run \<lparr> run_status := RUN_PENDING, run_started_at := None,
       run_finished_at := None, run_error_code := None, run_error_message := None \<rparr>"
  from assms r run obtain t db1 db2 ds where st: "run_status run = RUN_FAILED"
    and r': "r' = r \<lparr> job_status := QUEUED, job_progress_percentage := 0,
               job_status_message := Some ''Manual retry queued'', job_attempt_count := 0,
               job_manual_retry_count := job_manual_retry_count r + 1,
               job_last_manual_retry_at := Some t, job_scheduled_at := t,
               job_started_at := None, job_completed_at := None, job_deadline_at := None,
               job_cancellation_requested_at := None, job_retry_at := None, job_claimed_by := None,
               job_heartbeat_at := None, job_failure_code := None, job_failure_message := None \<rparr>"
    and save: "save_job r' db = Inr db1" and save2: "save_run ?run db1 = Inr db2"
    and log: "append_event eid r' JOB_MANUAL_RETRY_REQUESTED t ds db2 = Inr db'"
    unfolding retry_failed_def Let_def by (auto simp: and_then_Inr_iff guard_else_Inr_iff)
  have db2: "db2 = db1 \<lparr> runs := put_row run_id ?run (runs db1) \<rparr>" and ok: "run_row_ok ?run"
    using save2 by (auto simp: save_run_Inr)
  have db1: "db1 = db \<lparr> jobs := put_row job_id r' (jobs db) \<rparr>" "job_row_ok r'" using save by (auto simp: save_job_Inr)
  have same: "same_job r r'" by (simp add: same_job_def r')
  have "job_wf r'" if "job_wf r"
  proof -
    have "job_total_attempt_count r \<le> job_max_attempts r * job_manual_retry_count r + job_attempt_count r"
      "job_attempt_count r \<le> job_max_attempts r"
      using that by (auto simp: job_wf_def job_row_ok_def)
    then have "job_total_attempt_count r' \<le> job_max_attempts r' * job_manual_retry_count r' + job_attempt_count r'"
      by (simp add: r' algebra_simps)
    then show ?thesis using db1(2) by (simp add: job_wf_def) (simp add: r' leased_def terminal_def)
  qed
  moreover have "history_of r db db'"
    using append_event_Inr(3) [OF log] history_of_same [OF same] db1(1) db2
    by (metis (no_types, lifting) history_of_refl history_of_trans job.surjective db.select_convs(7) db.update_convs(5,6) db.surjective)
  ultimately have "changed r r' db db'"
    using get_job_Inr [OF r(1)] same append_event_Inr(1) [OF log] by (simp add: changed_def db2 db1(1))
  moreover have "runs db' = put_row run_id ?run (runs db)"
    using append_event_Inr(2) [OF log] by (simp add: db2 db1(1))
  ultimately show ?thesis using that r run st r' by blast
qed

interpretation retrying: tenant_job_operation "retry_failed now eid jid org limit at_time" retry_edge org
  for now eid jid limit at_time org
proof
  fix db r' db'
  assume run: "retry_failed now eid jid org limit at_time db = Inr (r', db')"
  show "\<exists>r. changed r r' db db' \<and> retry_edge (job_status r) (job_status r')"
    by (rule retry_failed_Inr [OF run]) (auto simp: retry_edge_def)
  show "job_organization_id r' = org"
    by (rule retry_failed_Inr [OF run]) (auto dest: get_job_Inr)
qed

definition completion_edge :: "job_status \<Rightarrow> job_status \<Rightarrow> bool" where
  "completion_edge s s' \<longleftrightarrow> leased s \<and> (s' \<in> set (allowed_completions s) \<or> s' = QUEUED)"

lemma allowed_completions_iff:
  "target \<in> set (allowed_completions s) \<longleftrightarrow>
     s = RUNNING \<and> (target = SUCCEEDED \<or> target = FAILED) \<or>
     s = CANCEL_REQUESTED \<and> (target = CANCELLED \<or> target = FAILED)"
  by (cases s) auto

lemma completion_status_Inr:
  assumes "completion_status t target code retry_at r = Inr (r1, ty)"
    and "target \<in> set (allowed_completions (job_status r))"
    and r': "r' = release_lease target code msg r1"
  shows "same_job r r'" "job_status r' = (if target = FAILED \<and> retry_at \<noteq> None then QUEUED else target)"
    "job_claimed_by r' = None" "job_cancellation_requested_at r' = job_cancellation_requested_at r"
    "job_attempt_count r' = job_attempt_count r"
    "job_row_ok r' \<Longrightarrow> job_wf r \<Longrightarrow> job_wf r'"
    "target = FAILED \<Longrightarrow> retry_at \<noteq> None \<Longrightarrow> job_attempt_count r < job_max_attempts r"
proof -
  consider (retry) u where "target = FAILED" "retry_at \<noteq> None" "job_attempt_count r < job_max_attempts r"
      "r1 = r \<lparr> job_status := QUEUED, job_retry_at := Some u, job_status_message := Some ''Retry scheduled'' \<rparr>"
    | (finish) "\<not> (target = FAILED \<and> retry_at \<noteq> None)"
      "r1 = r \<lparr> job_status := target, job_completed_at := Some t,
         job_progress_percentage := (if target = SUCCEEDED then 100 else job_progress_percentage r) \<rparr>"
    using assms(1) unfolding completion_status_def
    by (cases "target = FAILED \<and> retry_at \<noteq> None") (auto simp: and_then_Inr_iff guard_else_Inr_iff)
  note cases = this
  show "same_job r r'"
    by (rule cases) (auto simp: same_job_def r' release_lease_def Let_def)
  show st: "job_status r' = (if target = FAILED \<and> retry_at \<noteq> None then QUEUED else target)"
    by (rule cases) (auto simp: r' release_lease_def Let_def)
  show lease: "job_claimed_by r' = None" by (simp add: r' release_lease_def Let_def)
  show "job_cancellation_requested_at r' = job_cancellation_requested_at r"
    "job_attempt_count r' = job_attempt_count r"
    by (rule cases; auto simp: r' release_lease_def Let_def)+
  show "target = FAILED \<Longrightarrow> retry_at \<noteq> None \<Longrightarrow> job_attempt_count r < job_max_attempts r"
    by (rule cases) auto
  have rest: "job_heartbeat_at r' = None" "job_deadline_at r' = None"
    "job_total_attempt_count r' = job_total_attempt_count r" "job_max_attempts r' = job_max_attempts r"
    "job_manual_retry_count r' = job_manual_retry_count r" "job_attempt_count r' = job_attempt_count r"
    by (rule cases; auto simp: r' release_lease_def Let_def)+
  have progress: "target = SUCCEEDED \<Longrightarrow> job_progress_percentage r' = 100"
    by (rule cases) (auto simp: r' release_lease_def Let_def)
  have completed: "job_completed_at r' = (if target = FAILED \<and> retry_at \<noteq> None then job_completed_at r else Some t)"
    by (rule cases) (auto simp: r' release_lease_def Let_def)
  show "job_wf r'" if row: "job_row_ok r'" and wf: "job_wf r"
  proof -
    have was: "leased (job_status r)" using assms(2) by (auto simp: leased_def allowed_completions_iff)
    then have r: "job_completed_at r = None"
      "job_total_attempt_count r \<le> job_max_attempts r * job_manual_retry_count r + job_attempt_count r"
      using wf by (auto simp: job_wf_def leased_def terminal_def)
    show ?thesis
    proof (cases "target = FAILED \<and> retry_at \<noteq> None")
      case True
      then have "job_status r' = QUEUED" "job_completed_at r' = None" using st completed r(1) by simp_all
      with row lease rest r(2) show ?thesis by (simp add: job_wf_def leased_def terminal_def)
    next
      case False
      then have s: "job_status r' = target" "job_completed_at r' = Some t" using st completed by auto
      have "terminal target" "\<not> leased target" "target \<noteq> CANCEL_REQUESTED"
        using assms(2) by (auto simp: allowed_completions_iff terminal_def leased_def)
      with row lease rest r(2) progress show ?thesis by (simp add: job_wf_def s)
    qed
  qed
qed

lemma complete_job_Inr:
  assumes "complete_job now eid jid target org at_time code msg retry_at db = Inr (r', db')"
  obtains r where "get_job jid org db = Inr r" "target \<in> set (allowed_completions (job_status r))"
    "changed r r' db db'"
    "job_status r' = (if target = FAILED \<and> retry_at \<noteq> None then QUEUED else target)"
    "job_claimed_by r' = None" "job_cancellation_requested_at r' = job_cancellation_requested_at r"
    "job_attempt_count r' = job_attempt_count r"
    "target = FAILED \<Longrightarrow> retry_at \<noteq> None \<Longrightarrow> job_attempt_count r < job_max_attempts r"
proof -
  from assms obtain r t p db1 ds where r: "get_job jid org db = Inr r"
      "target \<in> set (allowed_completions (job_status r))"
    and status: "completion_status t target code retry_at r = Inr p"
    and r': "r' = release_lease target code msg (fst p)"
    and save: "save_job r' db = Inr db1" and log: "append_event eid r' (snd p) t ds db1 = Inr db'"
    unfolding complete_job_def Let_def
    by (auto simp only: and_then_Inr_iff guard_else_Inr_iff sum.inject prod.inject)
  from status have "completion_status t target code retry_at r = Inr (fst p, snd p)" by simp
  note facts = completion_status_Inr [OF this r(2) r']
  have "changed r r' db db'"
    using get_job_Inr [OF r(1)] facts(1,6) save log by (intro save_then_log) auto
  with facts r show ?thesis by (intro that [of r]) auto
qed

interpretation completing:
  tenant_job_operation "complete_job now eid jid target org at_time code msg retry_at" completion_edge org
  for now eid jid target at_time code msg retry_at org
proof
  fix db r' db'
  assume run: "complete_job now eid jid target org at_time code msg retry_at db = Inr (r', db')"
  show "\<exists>r. changed r r' db db' \<and> completion_edge (job_status r) (job_status r')"
    by (rule complete_job_Inr [OF run])
       (auto simp: completion_edge_def allowed_completions_iff leased_def split: if_splits)
  show "job_organization_id r' = org"
    by (rule complete_job_Inr [OF run]) (auto dest!: get_job_Inr simp: changed_def same_job_def)
qed

definition recovery_edge :: "job_status \<Rightarrow> job_status \<Rightarrow> bool" where
  "recovery_edge s s' \<longleftrightarrow> s = CANCEL_REQUESTED \<and> s' = CANCELLED \<or> s = RUNNING \<and> s' \<in> {QUEUED, FAILED}"

lemma recovered_fields:
  "job_claimed_by (recovered t r) = None" "job_heartbeat_at (recovered t r) = None"
  "job_deadline_at (recovered t r) = None" "same_job r (recovered t r)"
  "job_attempt_count (recovered t r) = job_attempt_count r"
  "job_total_attempt_count (recovered t r) = job_total_attempt_count r"
  "job_max_attempts (recovered t r) = job_max_attempts r"
  "job_manual_retry_count (recovered t r) = job_manual_retry_count r"
  "leased (job_status r) \<Longrightarrow> recovery_edge (job_status r) (job_status (recovered t r))"
  "leased (job_status r) \<Longrightarrow> job_completed_at r = None \<Longrightarrow>
     terminal (job_status (recovered t r)) \<longleftrightarrow> job_completed_at (recovered t r) \<noteq> None"
  by (auto simp: recovered_def Let_def same_job_def recovery_edge_def leased_def terminal_def)

lemma recovered_wf:
  assumes "leased (job_status r)" and "job_row_ok (recovered t r)" and "job_wf r"
  shows "job_wf (recovered t r)"
proof -
  have "job_completed_at r = None" using assms(1,3) by (auto simp: job_wf_def leased_def terminal_def)
  then have "terminal (job_status (recovered t r)) \<longleftrightarrow> job_completed_at (recovered t r) \<noteq> None"
    by (rule recovered_fields(10) [OF assms(1)])
  moreover have "\<not> leased (job_status (recovered t r)) \<and> job_status (recovered t r) \<noteq> SUCCEEDED"
    using recovered_fields(9) [OF assms(1), of t] by (auto simp: recovery_edge_def leased_def)
  ultimately show ?thesis
    using assms(2,3) by (simp add: job_wf_def recovered_fields leased_def)
qed

lemma recover_one_changed:
  assumes "recover_one t (eid, r) db = Inr db'" and "r \<in> set (jobs db)" and "leased (job_status r)"
  shows "changed r (recovered t r) db db'"
proof -
  from assms(1) obtain db1 ds where save: "save_job (recovered t r) db = Inr db1"
    and log: "append_event eid (recovered t r) JOB_RECOVERED t ds db1 = Inr db'"
    by (auto simp: recover_one_def Let_def and_then_Inr_iff)
  show ?thesis
    using assms(2) recovered_fields(4) recovered_wf [OF assms(3)] save log by (intro save_then_log)
qed

text \<open>
  Recovery of a list of stale jobs: each is replaced by its recovered form, every other row
  is untouched.
\<close>

lemma recover_loop:
  assumes "fold_err (recover_one t) (zip eids rs) db = Inr db'" and "length eids = length rs"
    and "queue_inv db" and "distinct (map job_id rs)" and "set rs \<subseteq> set (jobs db)"
    and "\<And>r. r \<in> set rs \<Longrightarrow> leased (job_status r)"
  shows "queue_inv db' \<and>
    jobs db' = map (\<lambda>j. if job_id j \<in> job_id ` set rs then recovered t j else j) (jobs db)"
  using assms
proof (induction rs arbitrary: eids db)
  case Nil
  then show ?case by simp
next
  case (Cons r rs)
  then obtain eid eids' where eids: "eids = eid # eids'" by (cases eids) auto
  with Cons.prems(1) obtain db1 where one: "recover_one t (eid, r) db = Inr db1"
    and rest: "fold_err (recover_one t) (zip eids' rs) db1 = Inr db'"
    by (auto simp: and_then_Inr_iff)
  have ch: "changed r (recovered t r) db db1"
    by (rule recover_one_changed [OF one]) (use Cons.prems in auto)
  have inv1: "queue_inv db1" by (rule changed_invariant [OF ch Cons.prems(3)])
  have jobs1: "jobs db1 = put_row job_id (recovered t r) (jobs db)" and same: "job_id (recovered t r) = job_id r"
    using ch by (auto simp: changed_def same_job_def)
  have unique: "j = r" if "j \<in> set (jobs db)" "job_id j = job_id r" for j
  proof -
    have "distinct (map job_id (jobs db))" using Cons.prems(3) by (simp add: queue_inv_def)
    then show ?thesis using that Cons.prems(5) by (auto simp: distinct_map dest: inj_onD)
  qed
  have sub: "set rs \<subseteq> set (jobs db1)"
  proof
    fix x
    assume x: "x \<in> set rs"
    have "job_id x \<noteq> job_id r"
    proof
      assume eq: "job_id x = job_id r"
      have "job_id x \<in> job_id ` set rs" using x by (rule imageI)
      with eq Cons.prems(4) show False by simp
    qed
    then show "x \<in> set (jobs db1)"
      using x Cons.prems(5) unfolding jobs1 by (intro put_row_other) (auto simp: same)
  qed
  have "queue_inv db' \<and> jobs db' = map (\<lambda>j. if job_id j \<in> job_id ` set rs then recovered t j else j) (jobs db1)"
    by (rule Cons.IH [OF rest]) (use Cons.prems eids inv1 sub in auto)
  moreover have "map (\<lambda>j. if job_id j \<in> job_id ` set rs then recovered t j else j) (jobs db1) =
      map (\<lambda>j. if job_id j \<in> job_id ` set (r # rs) then recovered t j else j) (jobs db)"
    using unique Cons.prems(4) by (auto simp: jobs1 put_row_def same)
  ultimately show ?case by simp
qed

lemma recover_stale_Inr:
  assumes "recover_stale now eids before at_time db = Inr (n, db')" and "queue_inv db"
  obtains t cutoff where "utc_or now at_time = Inr t" "utc before = Inr cutoff" "queue_inv db'"
    "jobs db' = map (\<lambda>j. if stale cutoff j then recovered t j else j) (jobs db)"
    "n = length (filter (stale cutoff) (jobs db))"
proof -
  from assms(1) obtain t cutoff where t: "utc_or now at_time = Inr t" "utc before = Inr cutoff"
    and loop: "fold_err (recover_one t) (zip (map eids [0 ..< length (filter (stale cutoff) (jobs db))])
        (filter (stale cutoff) (jobs db))) db = Inr db'"
    and n: "n = length (filter (stale cutoff) (jobs db))"
    unfolding recover_stale_def Let_def by (auto simp: and_then_Inr_iff)
  let ?rs = "filter (stale cutoff) (jobs db)"
  have d: "distinct (map job_id (jobs db))" using assms(2) by (simp add: queue_inv_def)
  have r: "queue_inv db' \<and> jobs db' = map (\<lambda>j. if job_id j \<in> job_id ` set ?rs then recovered t j else j) (jobs db)"
    by (rule recover_loop [OF loop _ assms(2)]) (use d in \<open>auto simp: distinct_map_filter stale_def\<close>)
  moreover have "map (\<lambda>j. if job_id j \<in> job_id ` set ?rs then recovered t j else j) (jobs db) =
      map (\<lambda>j. if stale cutoff j then recovered t j else j) (jobs db)"
    using d by (auto simp: distinct_map dest: inj_onD)
  ultimately show ?thesis using that t n by auto
qed

lemma create_job_Inr:
  assumes "create_job now jid eid org rid at_time attempts timeout priority db = Inr (r, db')"
  shows "jobs db' = jobs db @ [r]" "job_id r = jid" "job_organization_id r = org" "job_run_id r = rid"
    "job_status r = QUEUED" "job_wf r" "jid \<notin> set (map job_id (jobs db))" "rid \<notin> set (map job_run_id (jobs db))"
    "run_of_tenant rid org db" "history_of r (db \<lparr> jobs := jobs db @ [r] \<rparr>) db'" "runs db' = runs db"
proof -
  from assms obtain p s ds where ok: "1 \<le> attempts" "30 \<le> timeout" "run_of_tenant rid org db"
      "\<not> list_ex (\<lambda>j. job_run_id j = rid) (jobs db)"
    and r: "r = \<lparr> job_id = jid, job_organization_id = org, job_run_id = rid, job_status = QUEUED,
           job_priority = p, job_progress_percentage = 0, job_status_message = None,
           job_attempt_count = 0, job_total_attempt_count = 0, job_manual_retry_count = 0,
           job_max_attempts = attempts, job_timeout_seconds = timeout, job_deadline_at = None,
           job_last_manual_retry_at = None, job_scheduled_at = s, job_started_at = None,
           job_completed_at = None, job_cancellation_requested_at = None, job_retry_at = None,
           job_claimed_by = None, job_heartbeat_at = None, job_failure_code = None,
           job_failure_message = None, job_created_at = now \<rparr>"
    and row: "job_row_ok r \<and> jid \<notin> set (map job_id (jobs db))"
    and log: "append_event eid r JOB_QUEUED now ds (db \<lparr> jobs := jobs db @ [r] \<rparr>) = Inr db'"
    unfolding create_job_def Let_def
    by (auto simp only: and_then_Inr_iff guard_else_Inr_iff sum.inject prod.inject)
  show "jobs db' = jobs db @ [r]" "runs db' = runs db" using append_event_Inr(1,2) [OF log] by simp_all
  show "job_id r = jid" "job_organization_id r = org" "job_run_id r = rid" "job_status r = QUEUED"
    by (simp_all add: r)
  show "job_wf r" using row by (auto simp: job_wf_def leased_def terminal_def) (auto simp: r)
  show "jid \<notin> set (map job_id (jobs db))" using row by simp
  show "rid \<notin> set (map job_run_id (jobs db))" using ok(4) by (auto simp: list_ex_iff)
  show "run_of_tenant rid org db" by (rule ok(3))
  show "history_of r (db \<lparr> jobs := jobs db @ [r] \<rparr>) db'" by (rule append_event_Inr(3) [OF log])
qed

lemma create_job_invariant:
  assumes "create_job now jid eid org rid at_time attempts timeout priority db = Inr (r, db')" and "queue_inv db"
  shows "queue_inv db'"
proof -
  note f = create_job_Inr [OF assms(1)]
  have hist: "history_ok (job_events db')" "\<exists>es. job_events db' = job_events db @ es \<and>
      (\<forall>e \<in> set es. ev_job_id e = job_id r \<and> ev_organization_id e = job_organization_id r)"
    using f(10) assms(2) by (auto simp: history_of_def queue_inv_def)
  then have "\<exists>j \<in> set (jobs db'). job_id j = ev_job_id e \<and> job_organization_id j = ev_organization_id e"
    if "e \<in> set (job_events db')" for e
    using that assms(2) by (fastforce simp: queue_inv_def f(1))
  with hist(1) assms(2) f show ?thesis by (auto simp: queue_inv_def)
qed

lemma retention_conditions_terminal:
  assumes "retention_conditions cutoffs = Inr cs" and "c \<in> set cs" and "c j"
  shows "terminal (job_status j)"
proof -
  from assms(1) have "list_all2 (\<lambda>p c. terminal (fst p) \<and> (\<forall>j. c j \<longrightarrow> job_status j = fst p)) cutoffs cs"
    unfolding retention_conditions_def map_err_Inr_iff
    by (rule list_all2_mono) (auto simp: and_then_Inr_iff guard_else_Inr_iff)
  with assms(2) obtain p where "terminal (fst p)" "\<forall>j. c j \<longrightarrow> job_status j = fst p"
    by (auto simp: list_all2_conv_all_nth in_set_conv_nth)
  with assms(3) show ?thesis by auto
qed

lemma expired_batch_facts:
  assumes "distinct (map job_id (jobs db))"
  shows "distinct (expired_batch cs limit locked db)"
    and "j \<in> set (jobs db) \<Longrightarrow> job_id j \<in> set (expired_batch cs limit locked db) \<Longrightarrow>
      list_ex (\<lambda>c. c j) cs \<and> job_id j \<notin> locked"
    and "set (expired_batch cs limit locked db) \<subseteq> set (map job_id (jobs db))"
    and "length (expired_batch cs limit locked db) =
      min (nat limit) (length (filter (\<lambda>j. job_id j \<notin> locked) (expired_jobs cs db)))"
proof -
  let ?order = "\<lambda>j. (job_completed_at j \<noteq> None, case job_completed_at j of Some t \<Rightarrow> t | None \<Rightarrow> 0, job_id j)"
  let ?pool = "filter (\<lambda>j. job_id j \<notin> locked) (expired_jobs cs db)"
  have eq: "expired_batch cs limit locked db = take (nat limit) (map job_id (sort_key ?order ?pool))"
    by (simp add: expired_batch_def take_map)
  have dp: "distinct (map job_id ?pool)" using assms by (simp add: expired_jobs_def distinct_map_filter)
  have "mset (map job_id (sort_key ?order ?pool)) = mset (map job_id ?pool)"
    unfolding mset_map mset_sort ..
  from mset_eq_imp_distinct_iff [OF this] have "distinct (map job_id (sort_key ?order ?pool))" using dp by blast
  then show "distinct (expired_batch cs limit locked db)" by (simp only: eq distinct_take)
  have sub: "set (expired_batch cs limit locked db) \<subseteq> job_id ` set ?pool"
  proof -
    have "set (take (nat limit) (map job_id (sort_key ?order ?pool))) \<subseteq> set (map job_id (sort_key ?order ?pool))"
      by (rule set_take_subset)
    also have "\<dots> = job_id ` set ?pool" by (simp only: set_map set_sort)
    finally show ?thesis unfolding eq .
  qed
  show "list_ex (\<lambda>c. c j) cs \<and> job_id j \<notin> locked"
    if j: "j \<in> set (jobs db)" "job_id j \<in> set (expired_batch cs limit locked db)"
  proof -
    from sub j(2) have "job_id j \<in> job_id ` set ?pool" by (rule subsetD)
    then obtain k where k: "k \<in> set ?pool" "job_id k = job_id j" by (metis imageE)
    then have "k \<in> set (jobs db)" by (simp add: expired_jobs_def)
    then have "k = j" using k(2) j(1) assms by (auto simp: distinct_map dest: inj_onD)
    with k show ?thesis by (simp add: expired_jobs_def)
  qed
  show "set (expired_batch cs limit locked db) \<subseteq> set (map job_id (jobs db))"
    using sub by (auto simp: expired_jobs_def)
  show "length (expired_batch cs limit locked db) = min (nat limit) (length ?pool)"
    unfolding eq by simp
qed

lemma delete_expired_Inr:
  assumes "delete_expired_terminal cutoffs limit locked db = Inr (n, db')" and "queue_inv db"
  obtains cs where "retention_conditions cutoffs = Inr cs" "1 \<le> limit"
    "jobs db' = filter (\<lambda>j. job_id j \<notin> set (expired_batch cs limit locked db)) (jobs db)"
    "job_events db' = filter (\<lambda>e. ev_job_id e \<notin> set (expired_batch cs limit locked db)) (job_events db)"
    "n = length (expired_batch cs limit locked db)"
proof -
  from assms(1) obtain cs where cs: "retention_conditions cutoffs = Inr cs" "1 \<le> limit"
    by (auto simp: delete_expired_terminal_def and_then_Inr_iff guard_else_Inr_iff)
  define ids where "ids = expired_batch cs limit locked db"
  have d: "distinct (map job_id (jobs db))" using assms(2) by (simp add: queue_inv_def)
  have batch: "distinct ids" "set ids \<subseteq> set (map job_id (jobs db))"
    "\<And>j. j \<in> set (jobs db) \<Longrightarrow> job_id j \<in> set ids \<Longrightarrow> list_ex (\<lambda>c. c j) cs"
    using expired_batch_facts [OF d] unfolding ids_def by blast+
  have same: "job_id j \<in> set ids \<and> list_ex (\<lambda>c. c j) cs \<longleftrightarrow> job_id j \<in> set ids" if "j \<in> set (jobs db)" for j
    using batch(3) [OF that] by blast
  have keep: "filter (\<lambda>j. \<not> (job_id j \<in> set ids \<and> list_ex (\<lambda>c. c j) cs)) (jobs db) =
      filter (\<lambda>j. job_id j \<notin> set ids) (jobs db)"
    by (rule filter_cong [OF refl]) (simp add: same)
  have doomed: "filter (\<lambda>j. job_id j \<in> set ids \<and> list_ex (\<lambda>c. c j) cs) (jobs db) =
      filter (\<lambda>j. job_id j \<in> set ids) (jobs db)"
    by (rule filter_cong [OF refl]) (rule same)
  have len: "length (filter (\<lambda>j. job_id j \<in> set ids) (jobs db)) = length ids"
  proof -
    have "length (filter (\<lambda>j. job_id j \<in> set ids) (jobs db)) = length (filter (\<lambda>i. i \<in> set ids) (map job_id (jobs db)))"
      by (simp add: filter_map o_def)
    also have "\<dots> = card (set ids)"
      using batch(2) d by (subst distinct_length_filter) (auto intro: arg_cong [where f = card])
    also have "\<dots> = length ids" using batch(1) by (rule distinct_card)
    finally show ?thesis .
  qed
  show ?thesis
  proof (rule that [OF cs, folded ids_def])
    show "jobs db' = filter (\<lambda>j. job_id j \<notin> set ids) (jobs db)"
      "job_events db' = filter (\<lambda>e. ev_job_id e \<notin> set ids) (job_events db)" "n = length ids"
      using assms(1) cs keep doomed len
      by (auto simp: delete_expired_terminal_def ids_def [symmetric] Let_def split: if_splits)
  qed
qed

lemma delete_expired_invariant:
  assumes "delete_expired_terminal cutoffs limit locked db = Inr (n, db')" and "queue_inv db"
  shows "queue_inv db'"
proof (rule delete_expired_Inr [OF assms])
  fix cs
  define ids where "ids = set (expired_batch cs limit locked db)"
  assume "jobs db' = filter (\<lambda>j. job_id j \<notin> set (expired_batch cs limit locked db)) (jobs db)"
    and "job_events db' = filter (\<lambda>e. ev_job_id e \<notin> set (expired_batch cs limit locked db)) (job_events db)"
  then have jobs: "jobs db' = filter (\<lambda>j. job_id j \<notin> ids) (jobs db)"
    and events: "job_events db' = filter (\<lambda>e. ev_job_id e \<notin> ids) (job_events db)" by (simp_all add: ids_def)
  have "filter (\<lambda>e. ev_job_id e = j) (job_events db') =
      (if j \<in> ids then [] else filter (\<lambda>e. ev_job_id e = j) (job_events db))" for j
    by (auto simp: events filter_empty_conv intro: filter_cong)
  moreover have "contiguous []" by (simp add: contiguous_def)
  moreover have "contiguous (map ev_sequence_number (filter (\<lambda>e. ev_job_id e = j) (job_events db)))" for j
    using assms(2) by (simp add: queue_inv_def history_ok_def)
  ultimately have "contiguous (map ev_sequence_number (filter (\<lambda>e. ev_job_id e = j) (job_events db')))" for j
    by simp
  moreover have "distinct (map ev_id (job_events db'))"
    using assms(2) by (auto simp: queue_inv_def history_ok_def events distinct_map_filter)
  moreover have "\<exists>j \<in> set (jobs db'). job_id j = ev_job_id e \<and> job_organization_id j = ev_organization_id e"
    if "e \<in> set (job_events db')" for e
  proof -
    from that have "e \<in> set (job_events db)" "ev_job_id e \<notin> ids" by (simp_all add: events)
    moreover from this assms(2) obtain j where "j \<in> set (jobs db)" "job_id j = ev_job_id e"
      "job_organization_id j = ev_organization_id e" unfolding queue_inv_def by blast
    ultimately show ?thesis unfolding jobs by auto
  qed
  ultimately show ?thesis
    using assms(2) unfolding queue_inv_def history_ok_def by (auto simp: jobs distinct_map_filter)
qed

end
