(* ===== verification/Source_Files.thy ===== *)
theory Source_Files
  imports Runs
begin

text \<open>
  The source files of runs: \<open>SourceFileRepository\<close> of \<open>persistence/repositories.py\<close>.  A file
  belongs to the tenant of its run; a run has at most one file of each type.
\<close>

section \<open>Operations of \<open>SourceFileRepository\<close>\<close>

fun source_rank :: "source_type \<Rightarrow> nat" where
  "source_rank BANK_TRANSACTIONS = 0"
| "source_rank ERP_INVOICES = 1"
| "source_rank GATEWAY_SETTLEMENTS = 2"

definition add_source_file ::
  "instant \<Rightarrow> uuid \<Rightarrow> uuid \<Rightarrow> source_type \<Rightarrow> string \<Rightarrow> string \<Rightarrow> int \<Rightarrow> string option \<Rightarrow> int option \<Rightarrow>
   string option \<Rightarrow> source_file db_action" where
  "add_source_file now fid rid ty filename checksum byte_count content_type row_count storage_key db =
     and_then (guard_else (\<not> list_ex (\<lambda>f. file_run_id f = rid \<and> file_source_type f = ty) (source_files db))
         PersistenceConflictError) (\<lambda>_.
     let record = \<lparr> file_id = fid, file_run_id = rid, file_source_type = ty,
           file_original_filename = filename, file_content_type = content_type,
           file_checksum_sha256 = checksum, file_size_bytes = byte_count, file_row_count = row_count,
           file_storage_key = storage_key, file_created_at = now \<rparr>
     in if source_file_row_ok record \<and> fid \<notin> set (map file_id (source_files db)) \<and>
           rid \<in> set (map run_id (runs db))
        then Inr (record, db \<lparr> source_files := source_files db @ [record] \<rparr>)
        else Inl IntegrityError)"

definition find_source_file :: "uuid \<Rightarrow> uuid option \<Rightarrow> db \<Rightarrow> source_file option" where
  "find_source_file fid org db =
     find (\<lambda>f. file_id f = fid \<and> (case org of None \<Rightarrow> True | Some t \<Rightarrow> run_of_tenant (file_run_id f) t db))
       (source_files db)"

definition get_source_file :: "uuid \<Rightarrow> uuid option \<Rightarrow> db \<Rightarrow> source_file outcome" where
  "get_source_file fid org db =
     (case find_source_file fid org db of None \<Rightarrow> Inl RecordNotFoundError | Some f \<Rightarrow> Inr f)"

definition remove_source_file :: "source_file \<Rightarrow> db \<Rightarrow> db" where
  "remove_source_file f db =
     db \<lparr> source_files := filter (\<lambda>g. file_id g \<noteq> file_id f) (source_files db) \<rparr>"

definition files_of_run :: "uuid \<Rightarrow> db \<Rightarrow> source_file list" where
  "files_of_run rid db =
     sort_key (\<lambda>f. (source_rank (file_source_type f), file_id f)) (filter (\<lambda>f. file_run_id f = rid) (source_files db))"

definition find_by_storage_key :: "string \<Rightarrow> uuid \<Rightarrow> db \<Rightarrow> source_file option" where
  "find_by_storage_key key org db =
     find (\<lambda>f. file_storage_key f = Some key \<and> run_of_tenant (file_run_id f) org db) (source_files db)"

definition referenced_storage_keys :: "uuid \<Rightarrow> db \<Rightarrow> string set" where
  "referenced_storage_keys org db =
     set (List.map_filter file_storage_key (filter (\<lambda>f. run_of_tenant (file_run_id f) org db) (source_files db)))"

definition list_stored_files :: "uuid \<Rightarrow> int \<Rightarrow> db \<Rightarrow> source_file list" where
  "list_stored_files org limit db =
     take (nat limit) (sort_key (\<lambda>f. (file_created_at f, file_id f))
       (filter (\<lambda>f. run_of_tenant (file_run_id f) org db \<and> file_storage_key f \<noteq> None) (source_files db)))"

definition total_stored_size :: "uuid \<Rightarrow> db \<Rightarrow> int" where
  "total_stored_size org db =
     sum_list (map file_size_bytes (filter (\<lambda>f. run_of_tenant (file_run_id f) org db) (source_files db)))"

text \<open>The files of a run by their type, as the callers' dictionary.\<close>

definition file_of_type :: "source_type \<Rightarrow> source_file list \<Rightarrow> source_file option" where
  "file_of_type ty fs = find (\<lambda>f. file_source_type f = ty) (rev fs)"

section \<open>Facts about source files\<close>

definition files_wf :: "db \<Rightarrow> bool" where
  "files_wf db \<longleftrightarrow>
     distinct (map file_id (source_files db)) \<and>
     distinct (map (\<lambda>f. (file_run_id f, file_source_type f)) (source_files db)) \<and>
     list_all source_file_row_ok (source_files db)"

lemma add_source_file_Inr:
  assumes "add_source_file now fid rid ty filename checksum byte_count content_type row_count storage_key db = Inr (f, db')"
  shows "db' = db \<lparr> source_files := source_files db @ [f] \<rparr>" "file_run_id f = rid" "file_source_type f = ty"
    "file_size_bytes f = byte_count" "file_storage_key f = storage_key" "0 \<le> byte_count" "file_id f = fid"
    "files_wf db \<Longrightarrow> files_wf db'"
proof -
  from assms have free: "\<forall>g \<in> set (source_files db). \<not> (file_run_id g = rid \<and> file_source_type g = ty)"
    and ok: "source_file_row_ok f" "fid \<notin> set (map file_id (source_files db))"
    and f: "db' = db \<lparr> source_files := source_files db @ [f] \<rparr>" "file_run_id f = rid" "file_source_type f = ty"
      "file_size_bytes f = byte_count" "file_storage_key f = storage_key" "file_id f = fid"
    by (auto simp: add_source_file_def and_then_Inr_iff guard_else_Inr_iff Let_def list_ex_iff split: if_splits)
  from f show "db' = db \<lparr> source_files := source_files db @ [f] \<rparr>" "file_run_id f = rid" "file_source_type f = ty"
    "file_size_bytes f = byte_count" "file_storage_key f = storage_key" "file_id f = fid" by blast+
  show "0 \<le> byte_count" using ok(1) f by (simp add: source_file_row_ok_def)
  show "files_wf db'" if "files_wf db"
    using that free ok f by (auto simp: files_wf_def)
qed

lemma files_of_run_run: "f \<in> set (files_of_run rid db) \<longleftrightarrow> f \<in> set (source_files db) \<and> file_run_id f = rid"
  by (simp add: files_of_run_def conj_commute)

lemma remove_source_file_wf: "files_wf db \<Longrightarrow> files_wf (remove_source_file f db)"
  by (auto simp: files_wf_def remove_source_file_def distinct_map_filter list_all_iff)

lemma get_source_file_Inr:
  "get_source_file fid (Some org) db = Inr f \<Longrightarrow>
   f \<in> set (source_files db) \<and> file_id f = fid \<and> run_of_tenant (file_run_id f) org db"
  by (auto simp: get_source_file_def find_source_file_def find_Some_iff split: option.splits)

end
