(* ===== verification/Local_Storage.thy ===== *)
theory Local_Storage
  imports Identifiers
begin

text \<open>
  Files on the local disk: \<open>storage/local.py\<close> and the values of \<open>storage/base.py\<close>.  A directory
  is the list of its files in the order \<open>iterdir\<close> yields them; a byte is an 8-bit character.
  What one call sees of its surroundings is the record \<open>disk\<close>: the size limit, SHA-256 as
  hexadecimal text, the reader of ZIP archives of the standard library (\<open>None\<close> when the bytes
  are no archive), whether the disk fails, the identifier \<open>uuid4\<close> draws and the time.
\<close>

section \<open>Keys\<close>

text \<open>\<open>(?:[0-9a-f]{16}-)?[0-9a-f]{32}\.(?:csv|xlsx)\<close>.\<close>

definition plain_key :: "string \<Rightarrow> bool" where
  "plain_key k \<longleftrightarrow> list_all is_hex (take 32 k) \<and> drop 32 k \<in> {''.csv'', ''.xlsx''}"

definition storage_key_ok :: "string \<Rightarrow> bool" where
  "storage_key_ok k \<longleftrightarrow>
     plain_key k \<or> list_all is_hex (take 16 k) \<and> starts_with ''-'' (drop 16 k) \<and> plain_key (drop 17 k)"

definition namespace_prefix :: "(string \<Rightarrow> string) \<Rightarrow> string \<Rightarrow> string" where
  "namespace_prefix sha namespace = take 16 (sha namespace)"

section \<open>File names\<close>

text \<open>\<open>PurePosixPath(text).name\<close>: the last component that is neither empty nor a single dot.\<close>

fun path_parts :: "string \<Rightarrow> string \<Rightarrow> string list" where
  "path_parts acc [] = [rev acc]"
| "path_parts acc (c # cs) = (if c = CHR ''/'' then rev acc # path_parts [] cs else path_parts (c # acc) cs)"

definition base_name :: "string \<Rightarrow> string" where
  "base_name s =
     (let parts = filter (\<lambda>p. p \<noteq> [] \<and> p \<noteq> ''.'') (path_parts [] s)
      in if parts = [] then [] else last parts)"

text \<open>
  \<open>Path.stem\<close> and \<open>Path.suffix\<close> of a name (\<open>posixpath.splitext\<close>): the suffix starts at the
  last dot, unless only dots stand before it.
\<close>

definition split_suffix :: "string \<Rightarrow> string \<times> string" where
  "split_suffix name =
     (let tail = rev (takeWhile (\<lambda>c. c \<noteq> CHR ''.'') (rev name));
          stem = take (length name - Suc (length tail)) name
      in if CHR ''.'' \<in> set name \<and> (\<exists>c \<in> set stem. c \<noteq> CHR ''.'')
         then (stem, CHR ''.'' # tail) else (name, []))"

definition control_char :: "char \<Rightarrow> bool" where
  "control_char c \<longleftrightarrow> (let n = of_char c :: nat in n < 32 \<or> n = 127)"

definition dotted_strip :: "string \<Rightarrow> string" where
  "dotted_strip = strip_chars '' .''"

definition storage_error :: "string \<Rightarrow> py_error" where
  "storage_error = StorageError"

definition content_type_of :: "string \<Rightarrow> string option" where
  "content_type_of extension =
     map_of [(''.csv'', ''text/csv''),
       (''.xlsx'', ''application/vnd.openxmlformats-officedocument.spreadsheetml.sheet'')] extension"

definition validated_filename :: "string option \<Rightarrow> (string \<times> string) outcome" where
  "validated_filename supplied =
     (case supplied of
        None \<Rightarrow> Inl (storage_error ''UnsupportedUploadError'')
      | Some s \<Rightarrow>
          if s = [] then Inl (storage_error ''UnsupportedUploadError'')
          else
            (let slashed = map (\<lambda>c. if c = CHR 0x5C then CHR ''/'' else c) s;
                 basename = strip (filter (\<lambda>c. \<not> control_char c) (base_name slashed));
                 extension = casefold (snd (split_suffix (base_name basename)));
                 stem = dotted_strip (take (255 - length extension) (fst (split_suffix (base_name basename))))
             in if content_type_of extension = None then Inl (storage_error ''UnsupportedUploadError'')
                else Inr ((if stem = [] then ''upload'' else stem) @ extension, extension)))"

section \<open>Contents\<close>

text \<open>Strict UTF-8: no overlong forms, no surrogates, nothing above \<open>10FFFF\<close>.\<close>

definition continuation :: "nat \<Rightarrow> bool" where
  "continuation b \<longleftrightarrow> 128 \<le> b \<and> b \<le> 191"

fun utf8_bytes :: "nat list \<Rightarrow> bool" where
  "utf8_bytes [] = True"
| "utf8_bytes (a # bs) =
     (if a < 128 then utf8_bytes bs
      else if 194 \<le> a \<and> a \<le> 223 then
        (case bs of b # cs \<Rightarrow> continuation b \<and> utf8_bytes cs | _ \<Rightarrow> False)
      else if 224 \<le> a \<and> a \<le> 239 then
        (case bs of b # c # cs \<Rightarrow>
           continuation b \<and> (a = 224 \<longrightarrow> 160 \<le> b) \<and> (a = 237 \<longrightarrow> b \<le> 159) \<and> continuation c \<and> utf8_bytes cs
         | _ \<Rightarrow> False)
      else if 240 \<le> a \<and> a \<le> 244 then
        (case bs of b # c # d # cs \<Rightarrow>
           continuation b \<and> (a = 240 \<longrightarrow> 144 \<le> b) \<and> (a = 244 \<longrightarrow> b \<le> 143) \<and>
           continuation c \<and> continuation d \<and> utf8_bytes cs
         | _ \<Rightarrow> False)
      else False)"

text \<open>
  The incremental \<open>utf-8-sig\<close> decoder waits for a third byte before it looks at a file that
  starts like a byte order mark, even in the final call.
\<close>

definition decodes_utf8_sig :: "string \<Rightarrow> bool" where
  "decodes_utf8_sig s \<longleftrightarrow>
     (let bs = map of_char s in bs = [239] \<or> bs = [239, 187] \<or> utf8_bytes bs)"

type_synonym archive_reader = "string \<Rightarrow> (string \<times> int) list option"

definition validate_contents :: "archive_reader \<Rightarrow> int \<Rightarrow> string \<Rightarrow> string \<Rightarrow> string \<Rightarrow> unit outcome" where
  "validate_contents archive limit contents extension first_chunk =
     (if extension = ''.xlsx'' then
        (case (if starts_with [CHR ''P'', CHR ''K'', CHR 0x03, CHR 0x04] first_chunk then archive contents else None) of
           None \<Rightarrow> Inl (storage_error ''UnsupportedUploadError'')
         | Some entries \<Rightarrow>
             and_then (guard_else
               (''[Content_Types].xml'' \<in> set (map fst entries) \<and> ''xl/workbook.xml'' \<in> set (map fst entries))
               (storage_error ''UnsupportedUploadError'')) (\<lambda>_.
             guard_else (sum_list (map snd entries) \<le> limit * 20) (storage_error ''UnsupportedUploadError'')))
      else guard_else (CHR 0x00 \<notin> set contents \<and> decodes_utf8_sig contents)
        (storage_error ''UnsupportedUploadError''))"

section \<open>The values of \<open>storage/base.py\<close>\<close>

record upload =
  up_filename :: "string option"
  up_chunks :: "string list"

record stored_upload =
  sto_storage_key :: string
  sto_original_filename :: string
  sto_content_type :: string
  sto_size_bytes :: int
  sto_checksum_sha256 :: string

record object_metadata =
  om_storage_key :: string
  om_size_bytes :: int
  om_content_type :: "string option"
  om_checksum_sha256 :: "string option"

record object_candidate =
  oc_storage_key :: string
  oc_last_modified :: instant

section \<open>\<open>LocalFileStorage\<close>\<close>

record stored_object =
  obj_bytes :: string
  obj_modified :: instant

type_synonym directory = "(string \<times> stored_object) list"

record disk =
  dk_max_size :: int
  dk_sha :: "string \<Rightarrow> string"
  dk_archive :: archive_reader
  dk_fault :: bool
  dk_new_id :: uuid
  dk_now :: instant

definition remove_object :: "string \<Rightarrow> directory \<Rightarrow> directory" where
  "remove_object k d = filter (\<lambda>p. fst p \<noteq> k) d"

definition write_object :: "string \<Rightarrow> stored_object \<Rightarrow> directory \<Rightarrow> directory" where
  "write_object k ob d = remove_object k d @ [(k, ob)]"

text \<open>\<open>resolve\<close>; a key that matches the pattern has no separator, so it names a file of the directory.\<close>

definition resolve_key :: "bool \<Rightarrow> string \<Rightarrow> directory \<Rightarrow> string outcome" where
  "resolve_key require_exists k d =
     and_then (guard_else (storage_key_ok k) (storage_error ''InvalidStorageKeyError'')) (\<lambda>_.
     and_then (guard_else (require_exists \<longrightarrow> map_of d k \<noteq> None) (storage_error ''StorageNotFoundError'')) (\<lambda>_.
     Inr k))"

text \<open>The loop over the chunks of an upload; an empty chunk is its end.\<close>

fun read_chunks :: "int \<Rightarrow> string list \<Rightarrow> string \<Rightarrow> string outcome" where
  "read_chunks limit [] received = Inr received"
| "read_chunks limit (c # cs) received =
     (if c = [] then Inr received
      else if limit < int (length (received @ c)) then Inl (storage_error ''UploadTooLargeError'')
      else read_chunks limit cs (received @ c))"

definition upload_contents :: "disk \<Rightarrow> string \<Rightarrow> upload \<Rightarrow> string outcome" where
  "upload_contents dk extension u =
     and_then (guard_else (\<not> dk_fault dk) (storage_error ''StorageOperationError'')) (\<lambda>_.
     and_then (read_chunks (dk_max_size dk) (up_chunks u) []) (\<lambda>contents.
     and_then (guard_else (contents \<noteq> []) (storage_error ''EmptyUploadError'')) (\<lambda>_.
     and_then (validate_contents (dk_archive dk) (dk_max_size dk) contents extension (hd (up_chunks u))) (\<lambda>_.
     Inr contents))))"

definition new_key :: "disk \<Rightarrow> string option \<Rightarrow> string \<Rightarrow> string" where
  "new_key dk namespace extension =
     (case namespace of
        None \<Rightarrow> []
      | Some ns \<Rightarrow> if ns = [] then [] else namespace_prefix (dk_sha dk) ns @ ''-'')
     @ hex_digits 32 (dk_new_id dk) @ extension"

definition describe :: "disk \<Rightarrow> string \<Rightarrow> string \<Rightarrow> string \<Rightarrow> string \<Rightarrow> stored_upload" where
  "describe dk key name extension contents =
     \<lparr> sto_storage_key = key, sto_original_filename = name,
       sto_content_type = (case content_type_of extension of None \<Rightarrow> [] | Some t \<Rightarrow> t),
       sto_size_bytes = int (length contents), sto_checksum_sha256 = dk_sha dk contents \<rparr>"

definition save_upload :: "disk \<Rightarrow> upload \<Rightarrow> string option \<Rightarrow> (directory, stored_upload) task" where
  "save_upload dk u namespace d =
     (case validated_filename (up_filename u) of
        Inl e \<Rightarrow> (Inl e, d)
      | Inr (name, extension) \<Rightarrow>
          (let final = new_key dk namespace extension in
           case upload_contents dk extension u of
             Inl e \<Rightarrow> (Inl e, remove_object final d)
           | Inr contents \<Rightarrow>
               (Inr (describe dk final name extension contents),
                write_object final \<lparr> obj_bytes = contents, obj_modified = dk_now dk \<rparr> d)))"

definition delete_object :: "disk \<Rightarrow> string \<Rightarrow> (directory, unit) task" where
  "delete_object dk k d =
     (case resolve_key False k d of
        Inl e \<Rightarrow> (Inl e, d)
      | Inr path \<Rightarrow>
          if dk_fault dk then (Inl (storage_error ''StorageOperationError''), d) else (Inr (), remove_object path d))"

definition open_object :: "disk \<Rightarrow> string \<Rightarrow> directory \<Rightarrow> string outcome" where
  "open_object dk k d =
     and_then (resolve_key True k d) (\<lambda>path.
     and_then (guard_else (\<not> dk_fault dk) (storage_error ''StorageOperationError'')) (\<lambda>_.
     case map_of d path of
       None \<Rightarrow> Inl (storage_error ''StorageNotFoundError'') | Some ob \<Rightarrow> Inr (obj_bytes ob)))"

definition object_exists :: "string \<Rightarrow> directory \<Rightarrow> bool outcome" where
  "object_exists k d = and_then (resolve_key False k d) (\<lambda>path. Inr (map_of d path \<noteq> None))"

definition stat_object :: "disk \<Rightarrow> string \<Rightarrow> directory \<Rightarrow> object_metadata outcome" where
  "stat_object dk k d =
     and_then (open_object dk k d) (\<lambda>contents.
     Inr \<lparr> om_storage_key = k, om_size_bytes = int (length contents), om_content_type = None,
           om_checksum_sha256 = None \<rparr>)"

text \<open>\<open>materialize\<close> yields a path; what the caller reads through it are the bytes of the file.\<close>

definition materialize_object :: "string \<Rightarrow> directory \<Rightarrow> string outcome" where
  "materialize_object k d =
     and_then (resolve_key True k d) (\<lambda>path.
     case map_of d path of
       None \<Rightarrow> Inl (storage_error ''StorageNotFoundError'') | Some ob \<Rightarrow> Inr (obj_bytes ob))"

definition create_upload_url :: "string \<Rightarrow> string \<Rightarrow> string \<Rightarrow> string option \<Rightarrow> int \<Rightarrow>
    (string \<times> string \<times> (string \<times> string) list) outcome" where
  "create_upload_url namespace filename content_type checksum expires_seconds =
     Inl (storage_error ''PresigningNotSupportedError'')"

definition create_download_url :: "string \<Rightarrow> int \<Rightarrow> string outcome" where
  "create_download_url k expires_seconds = Inl (storage_error ''PresigningNotSupportedError'')"

definition belongs_to_namespace :: "(string \<Rightarrow> string) \<Rightarrow> string \<Rightarrow> string \<Rightarrow> bool outcome" where
  "belongs_to_namespace sha k namespace =
     and_then (resolve_key False k []) (\<lambda>_. Inr (starts_with (namespace_prefix sha namespace @ ''-'') k))"

text \<open>The file is read in pieces of 64 KiB; the first one is the start of its contents.\<close>

definition inspect_materialized :: "disk \<Rightarrow> string \<Rightarrow> string \<Rightarrow> string \<Rightarrow> stored_upload outcome" where
  "inspect_materialized dk contents original_filename k =
     and_then (validated_filename (Some original_filename)) (\<lambda>(name, extension).
     and_then (guard_else (\<not> dk_fault dk) (storage_error ''StorageOperationError'')) (\<lambda>_.
     and_then (guard_else (contents \<noteq> []) (storage_error ''EmptyUploadError'')) (\<lambda>_.
     and_then (guard_else (int (length contents) \<le> dk_max_size dk) (storage_error ''UploadTooLargeError'')) (\<lambda>_.
     and_then (validate_contents (dk_archive dk) (dk_max_size dk) contents extension (take 65536 contents)) (\<lambda>_.
     Inr (describe dk k name extension contents))))))"

text \<open>The loop of \<open>list_older_than\<close>; \<open>room\<close> is how many candidates may still be added.\<close>

fun older_than :: "string \<Rightarrow> instant \<Rightarrow> nat \<Rightarrow> directory \<Rightarrow> object_candidate list" where
  "older_than start cutoff room [] = []"
| "older_than start cutoff room ((k, ob) # d) =
     (if room = 0 then []
      else if starts_with (start @ ''-'') k \<and> storage_key_ok k \<and> obj_modified ob \<le> cutoff
      then \<lparr> oc_storage_key = k, oc_last_modified = obj_modified ob \<rparr> # older_than start cutoff (room - 1) d
      else older_than start cutoff room d)"

definition list_older_than :: "disk \<Rightarrow> string \<Rightarrow> instant \<Rightarrow> int \<Rightarrow> directory \<Rightarrow> object_candidate list outcome" where
  "list_older_than dk namespace cutoff limit d =
     (if dk_fault dk then Inl (storage_error ''StorageOperationError'')
      else Inr (older_than (namespace_prefix (dk_sha dk) namespace) cutoff (nat limit) d))"

section \<open>File names are safe\<close>

definition safe_char :: "char \<Rightarrow> bool" where
  "safe_char c \<longleftrightarrow> c \<noteq> CHR ''/'' \<and> c \<noteq> CHR 0x5C \<and> \<not> control_char c"

lemma path_parts_chars: "p \<in> set (path_parts acc s) \<Longrightarrow> set p \<subseteq> (set acc \<union> set s) - (if CHR ''/'' \<in> set acc then {} else {CHR ''/''})"
  by (induction acc s arbitrary: p rule: path_parts.induct) (fastforce split: if_splits)+

lemma base_name_chars: "set (base_name s) \<subseteq> set s - {CHR ''/''}"
proof (cases "filter (\<lambda>p. p \<noteq> [] \<and> p \<noteq> ''.'') (path_parts [] s) = []")
  case True
  then show ?thesis by (simp add: base_name_def)
next
  case False
  then have "last (filter (\<lambda>p. p \<noteq> [] \<and> p \<noteq> ''.'') (path_parts [] s)) \<in> set (path_parts [] s)"
    by (metis filter_is_subset last_in_set subsetD)
  then show ?thesis using path_parts_chars [of _ "[]" s] False by (fastforce simp: base_name_def Let_def)
qed

lemma set_dropWhile: "set (dropWhile P s) \<subseteq> set s"
  by (auto dest: set_dropWhileD)

lemma trimmed_subset: "set (rev (dropWhile P (rev (dropWhile P s)))) \<subseteq> set s"
  using set_dropWhile [of P "rev (dropWhile P s)"] set_dropWhile [of P s] by auto

lemma strip_subset: "set (strip s) \<subseteq> set s"
  unfolding strip_def by (rule trimmed_subset)

lemma strip_chars_subset: "set (strip_chars cs s) \<subseteq> set s"
  unfolding strip_chars_def by (rule trimmed_subset)

lemma strip_chars_length: "length (strip_chars cs s) \<le> length s"
  using length_dropWhile_le [of _ "rev (dropWhile (\<lambda>c. c \<in> set cs) s)"] length_dropWhile_le [of _ s]
  unfolding strip_chars_def by (metis (no_types, lifting) length_rev order_trans)

lemma split_suffix_subset: "set (fst (split_suffix s)) \<subseteq> set s"
  using set_take_subset [of _ s] by (auto simp: split_suffix_def Let_def)

lemma content_type_known: "content_type_of e \<noteq> None \<longleftrightarrow> e = ''.csv'' \<or> e = ''.xlsx''"
  by (simp add: content_type_of_def)

lemma validated_filename_safe:
  assumes "validated_filename supplied = Inr (name, extension)"
  shows "extension = ''.csv'' \<or> extension = ''.xlsx''" and "list_all safe_char name" and "length name \<le> 255"
    and "\<exists>stem. stem \<noteq> [] \<and> name = stem @ extension"
proof -
  from assms obtain s where s: "supplied = Some s" "s \<noteq> []"
    by (auto simp: validated_filename_def split: option.splits if_splits)
  define slashed where "slashed = map (\<lambda>c. if c = CHR 0x5C then CHR ''/'' else c) s"
  define base where "base = strip (filter (\<lambda>c. \<not> control_char c) (base_name slashed))"
  define ex where "ex = casefold (snd (split_suffix (base_name base)))"
  define stem where "stem = dotted_strip (take (255 - length ex) (fst (split_suffix (base_name base))))"
  have "validated_filename supplied =
      (if content_type_of ex = None then Inl (storage_error ''UnsupportedUploadError'')
       else Inr ((if stem = [] then ''upload'' else stem) @ ex, ex))"
    by (simp only: validated_filename_def s Let_def option.case if_False stem_def ex_def base_def slashed_def)
  then have ex: "ex = extension" and ext: "extension = ''.csv'' \<or> extension = ''.xlsx''"
    and name: "name = (if stem = [] then ''upload'' else stem) @ extension"
    using assms by (auto simp: content_type_known [symmetric] split: if_splits)
  have "CHR 0x5C \<notin> set slashed" by (auto simp: slashed_def)
  then have "\<forall>c \<in> set base. safe_char c"
    using base_name_chars [of slashed] strip_subset [of "filter (\<lambda>c. \<not> control_char c) (base_name slashed)"]
    unfolding base_def safe_char_def by fastforce
  then have "\<forall>c \<in> set stem. safe_char c"
    using strip_chars_subset [of "'' .''" "take (255 - length extension) (fst (split_suffix (base_name base)))"]
      set_take_subset [of "255 - length extension" "fst (split_suffix (base_name base))"]
      split_suffix_subset [of "base_name base"] base_name_chars [of base]
    unfolding stem_def dotted_strip_def ex by blast
  moreover have "list_all safe_char ''upload''" "list_all safe_char extension"
    using ext by (auto simp: safe_char_def control_char_def Let_def)
  ultimately show "list_all safe_char name" by (auto simp: name list_all_iff)
  have "length stem \<le> 255 - length extension"
    using strip_chars_length [of "'' .''" "take (255 - length extension) (fst (split_suffix (base_name base)))"]
    by (simp add: stem_def dotted_strip_def ex)
  then show "length name \<le> 255" using ext by (auto simp: name)
  show "\<exists>stem. stem \<noteq> [] \<and> name = stem @ extension"
    by (rule exI [of _ "if stem = [] then ''upload'' else stem"]) (simp add: name)
  show "extension = ''.csv'' \<or> extension = ''.xlsx''" by (rule ext)
qed

section \<open>New keys\<close>

text \<open>What SHA-256 is relied on for: its text is 64 lower-case hexadecimal digits.\<close>

definition hex_digest :: "(string \<Rightarrow> string) \<Rightarrow> bool" where
  "hex_digest sha \<longleftrightarrow> (\<forall>s. length (sha s) = 64 \<and> list_all is_hex (sha s))"

lemma plain_key_new: "e = ''.csv'' \<or> e = ''.xlsx'' \<Longrightarrow> plain_key (hex_digits 32 i @ e)"
proof -
  assume e: "e = ''.csv'' \<or> e = ''.xlsx''"
  have "take 32 (hex_digits 32 i @ e) = hex_digits 32 i" "drop 32 (hex_digits 32 i @ e) = e"
    by (simp_all only: take_append drop_append hex_digits_length order.refl take_all drop_all) simp_all
  with e show ?thesis by (auto simp only: plain_key_def list_all_iff hex_digits_hex)
qed

lemma new_key_ok:
  assumes "hex_digest (dk_sha dk)" and "e = ''.csv'' \<or> e = ''.xlsx''"
  shows "storage_key_ok (new_key dk ns e)"
proof -
  have plain: "plain_key (hex_digits 32 (dk_new_id dk) @ e)" using assms(2) by (rule plain_key_new)
  have "storage_key_ok (namespace_prefix (dk_sha dk) n @ ''-'' @ hex_digits 32 (dk_new_id dk) @ e)" for n
  proof -
    let ?p = "namespace_prefix (dk_sha dk) n"
    have p: "length ?p = 16" "list_all is_hex ?p"
      using assms(1) by (auto simp: hex_digest_def namespace_prefix_def list_all_iff dest: in_set_takeD)
    then have "take 16 (?p @ ''-'' @ t) = ?p" "drop 16 (?p @ ''-'' @ t) = ''-'' @ t" "drop 17 (?p @ ''-'' @ t) = t" for t
      by simp_all
    with p plain show ?thesis by (simp only: storage_key_ok_def) simp
  qed
  moreover have "storage_key_ok (hex_digits 32 (dk_new_id dk) @ e)" using plain by (simp add: storage_key_ok_def)
  ultimately show ?thesis by (simp only: new_key_def append_assoc append_Nil split: option.splits if_splits) blast
qed

section \<open>The contract of a provider\<close>

text \<open>\<open>FileStorage\<close>: the operations its clients call, over the state of the store.\<close>

record 's provider =
  pv_max_size_bytes :: int
  pv_save :: "upload \<Rightarrow> string \<Rightarrow> ('s, stored_upload) task"
  pv_stat :: "string \<Rightarrow> 's \<Rightarrow> object_metadata outcome"
  pv_delete :: "string \<Rightarrow> ('s, unit) task"
  pv_materialize :: "string \<Rightarrow> 's \<Rightarrow> string outcome"
  pv_create_upload_url :: "string \<Rightarrow> string \<Rightarrow> string \<Rightarrow> string option \<Rightarrow> int \<Rightarrow>
     (string \<times> string \<times> (string \<times> string) list) outcome"
  pv_create_download_url :: "string \<Rightarrow> int \<Rightarrow> 's \<Rightarrow> string outcome"
  pv_belongs_to_namespace :: "string \<Rightarrow> string \<Rightarrow> bool outcome"
  pv_inspect_materialized :: "string \<Rightarrow> string \<Rightarrow> string \<Rightarrow> stored_upload outcome"
  pv_list_older_than :: "string \<Rightarrow> instant \<Rightarrow> int \<Rightarrow> 's \<Rightarrow> object_candidate list outcome"

text \<open>The local provider; a save, the reads and a deletion may meet different surroundings.\<close>

definition local_provider :: "disk \<Rightarrow> disk \<Rightarrow> disk \<Rightarrow> directory provider" where
  "local_provider saving reading deleting =
     \<lparr> pv_max_size_bytes = dk_max_size saving,
       pv_save = (\<lambda>u namespace. save_upload saving u (Some namespace)),
       pv_stat = stat_object reading,
       pv_delete = delete_object deleting,
       pv_materialize = materialize_object,
       pv_create_upload_url = create_upload_url,
       pv_create_download_url = (\<lambda>k expires_seconds _. create_download_url k expires_seconds),
       pv_belongs_to_namespace = belongs_to_namespace (dk_sha reading),
       pv_inspect_materialized = inspect_materialized reading,
       pv_list_older_than = list_older_than reading \<rparr>"

definition local_contents :: "directory \<Rightarrow> string \<Rightarrow> string option" where
  "local_contents d k = map_option obj_bytes (map_of d k)"

text \<open>The identifier drawn next is part of no name in the directory.\<close>

definition unused_name :: "disk \<Rightarrow> directory \<Rightarrow> bool" where
  "unused_name dk d \<longleftrightarrow> list_all (\<lambda>p. \<not> occurs_in (hex_digits 32 (dk_new_id dk)) (fst p)) d"

locale file_storage =
  fixes pv :: "'s provider" and contents :: "'s \<Rightarrow> string \<Rightarrow> string option" and fresh :: "'s \<Rightarrow> bool"
  assumes saved: "pv_save pv u ns s = (Inr x, s') \<Longrightarrow>
      \<exists>bytes. contents s' = (contents s)(sto_storage_key x \<mapsto> bytes) \<and> bytes \<noteq> [] \<and>
        sto_size_bytes x = int (length bytes) \<and> sto_size_bytes x \<le> pv_max_size_bytes pv"
    and save_keeps: "fresh s \<Longrightarrow> contents s k \<noteq> None \<Longrightarrow> contents (snd (pv_save pv u ns s)) k = contents s k"
    and saved_fresh: "fresh s \<Longrightarrow> pv_save pv u ns s = (Inr x, s') \<Longrightarrow> contents s (sto_storage_key x) = None"
    and save_failed: "fresh s \<Longrightarrow> pv_save pv u ns s = (Inl e, s') \<Longrightarrow> contents s' = contents s"
    and deleted: "pv_delete pv k s = (Inr (), s') \<Longrightarrow> contents s' = (contents s)(k := None)"
    and delete_failed: "pv_delete pv k s = (Inl e, s') \<Longrightarrow> contents s' = contents s"
    and materialized: "pv_materialize pv k s = Inr bytes \<Longrightarrow> contents s k = Some bytes"
    and measured: "pv_stat pv k s = Inr m \<Longrightarrow> \<exists>bytes. contents s k = Some bytes \<and> om_size_bytes m = int (length bytes)"
    and inspected: "pv_inspect_materialized pv bytes name k = Inr x \<Longrightarrow>
      sto_size_bytes x = int (length bytes) \<and> sto_storage_key x = k"
begin

lemma delete_keeps_others: "j \<noteq> k \<Longrightarrow> contents (snd (pv_delete pv k s)) j = contents s j"
  using deleted [of k s] delete_failed [of k s] by (cases "pv_delete pv k s"; cases "fst (pv_delete pv k s)") auto

lemma deleted_only: "contents (snd (pv_delete pv k s)) j = contents s j \<or> j = k \<and> contents (snd (pv_delete pv k s)) j = None"
  using deleted [of k s] delete_failed [of k s] by (cases "pv_delete pv k s"; cases "fst (pv_delete pv k s)") auto

text \<open>A save that is undone leaves the store as it was.\<close>

lemma save_undone:
  assumes "fresh s" and "pv_save pv u ns s = (Inr x, s1)" and "pv_delete pv (sto_storage_key x) s1 = (Inr (), s2)"
  shows "contents s2 = contents s"
  using saved [OF assms(2)] saved_fresh [OF assms(1,2)] deleted [OF assms(3)] by auto

end

lemma map_of_removed: "map_of (remove_object k d) j = (if j = k then None else map_of d j)"
  by (induction d) (auto simp: remove_object_def)

lemma remove_absent: "map_of d k = None \<Longrightarrow> remove_object k d = d"
  by (auto simp: remove_object_def map_of_eq_None_iff filter_id_conv)

lemma local_contents_removed: "local_contents (remove_object k d) = (local_contents d)(k := None)"
  by (auto simp: local_contents_def map_of_removed)

lemma local_contents_written: "local_contents (write_object k ob d) = (local_contents d)(k \<mapsto> obj_bytes ob)"
  by (auto simp: local_contents_def write_object_def map_add_def map_of_removed split: option.splits)

lemma unused_name_new:
  assumes "unused_name dk d"
  shows "map_of d (new_key dk ns e) = None"
proof -
  have "occurs_in (hex_digits 32 (dk_new_id dk)) (new_key dk ns e)"
    unfolding occurs_in_iff new_key_def by blast
  with assms show ?thesis by (fastforce simp: unused_name_def list_all_iff map_of_eq_None_iff)
qed

lemma read_chunks_Inr:
  "read_chunks limit cs received = Inr bytes \<Longrightarrow> int (length bytes) \<le> limit \<or> bytes = received"
  by (induction limit cs received rule: read_chunks.induct) (auto split: if_splits)

lemma upload_contents_Inr:
  assumes "upload_contents dk e u = Inr bytes"
  shows "bytes \<noteq> []" and "int (length bytes) \<le> dk_max_size dk"
  using assms read_chunks_Inr [of "dk_max_size dk" "up_chunks u" "[]" bytes]
  by (auto simp: upload_contents_def and_then_Inr_iff guard_else_Inr_iff)

lemma save_upload_Inr:
  assumes "save_upload dk u ns d = (Inr x, d')"
  obtains name e bytes where "validated_filename (up_filename u) = Inr (name, e)" "upload_contents dk e u = Inr bytes"
    "x = describe dk (new_key dk ns e) name e bytes" "bytes \<noteq> []" "int (length bytes) \<le> dk_max_size dk"
    "d' = write_object (new_key dk ns e) \<lparr> obj_bytes = bytes, obj_modified = dk_now dk \<rparr> d"
  using assms upload_contents_Inr by (auto simp: save_upload_def Let_def split: sum.splits)

interpretation local: file_storage "local_provider saving reading deleting" local_contents "unused_name saving"
proof unfold_locales
  fix u ns s x s'
  assume "pv_save (local_provider saving reading deleting) u ns s = (Inr x, s')"
  then have "save_upload saving u (Some ns) s = (Inr x, s')" by (simp add: local_provider_def)
  then show "\<exists>bytes. local_contents s' = (local_contents s)(sto_storage_key x \<mapsto> bytes) \<and> bytes \<noteq> [] \<and>
      sto_size_bytes x = int (length bytes) \<and> sto_size_bytes x \<le> pv_max_size_bytes (local_provider saving reading deleting)"
    by (rule save_upload_Inr) (auto simp: describe_def local_contents_written local_provider_def)
next
  fix s k u ns
  assume "unused_name saving s" and "local_contents s k \<noteq> None"
  then have "k \<noteq> new_key saving (Some ns) e" for e
    using unused_name_new [of saving s "Some ns" e] by (auto simp: local_contents_def)
  then show "local_contents (snd (pv_save (local_provider saving reading deleting) u ns s)) k = local_contents s k"
    by (auto simp: local_provider_def save_upload_def Let_def local_contents_written local_contents_removed split: sum.split)
next
  fix s u ns x s'
  assume fresh: "unused_name saving s" and "pv_save (local_provider saving reading deleting) u ns s = (Inr x, s')"
  then have "save_upload saving u (Some ns) s = (Inr x, s')" by (simp add: local_provider_def)
  then show "local_contents s (sto_storage_key x) = None"
    by (rule save_upload_Inr) (simp add: describe_def local_contents_def unused_name_new [OF fresh])
next
  fix s u ns e s'
  assume "unused_name saving s" and "pv_save (local_provider saving reading deleting) u ns s = (Inl e, s')"
  then show "local_contents s' = local_contents s"
    by (auto simp: local_provider_def save_upload_def Let_def remove_absent unused_name_new split: sum.splits prod.splits)
next
  fix k s s'
  assume "pv_delete (local_provider saving reading deleting) k s = (Inr (), s')"
  then show "local_contents s' = (local_contents s)(k := None)"
    by (auto simp: local_provider_def delete_object_def resolve_key_def local_contents_removed and_then_Inr_iff
        split: sum.splits if_splits)
next
  fix k s e s'
  assume "pv_delete (local_provider saving reading deleting) k s = (Inl e, s')"
  then show "local_contents s' = local_contents s"
    by (auto simp: local_provider_def delete_object_def split: sum.splits if_splits)
next
  fix k s bytes
  assume "pv_materialize (local_provider saving reading deleting) k s = Inr bytes"
  then show "local_contents s k = Some bytes"
    by (auto simp: local_provider_def materialize_object_def local_contents_def resolve_key_def and_then_Inr_iff
        guard_else_Inr_iff split: option.splits)
next
  fix k s m
  assume "pv_stat (local_provider saving reading deleting) k s = Inr m"
  then show "\<exists>bytes. local_contents s k = Some bytes \<and> om_size_bytes m = int (length bytes)"
    by (auto simp: local_provider_def stat_object_def open_object_def local_contents_def resolve_key_def and_then_Inr_iff
        guard_else_Inr_iff split: option.splits)
next
  fix bytes name k x
  assume "pv_inspect_materialized (local_provider saving reading deleting) bytes name k = Inr x"
  then show "sto_size_bytes x = int (length bytes) \<and> sto_storage_key x = k"
    by (auto simp: local_provider_def inspect_materialized_def describe_def and_then_Inr_iff)
qed

section \<open>What is saved is read back\<close>

definition uploaded :: "upload \<Rightarrow> string" where
  "uploaded u = concat (takeWhile (\<lambda>c. c \<noteq> []) (up_chunks u))"

lemma read_chunks_all: "read_chunks limit cs received = Inr bytes \<Longrightarrow> bytes = received @ concat (takeWhile (\<lambda>c. c \<noteq> []) cs)"
  by (induction limit cs received rule: read_chunks.induct) (auto split: if_splits)

lemma upload_contents_uploaded: "upload_contents dk e u = Inr bytes \<Longrightarrow> bytes = uploaded u"
  by (auto simp: upload_contents_def uploaded_def and_then_Inr_iff dest: read_chunks_all)

lemma starts_with_longer: "starts_with xs ys \<Longrightarrow> starts_with xs (ys @ zs)"
  by (auto simp: starts_with_iff)

lemma starts_with_take: "starts_with xs ys \<Longrightarrow> length xs \<le> n \<Longrightarrow> starts_with xs (take n ys)"
  by (auto simp: starts_with_iff)

lemma validate_contents_from_start:
  assumes "validate_contents archive limit bytes e c = Inr ()" and "bytes = c @ rest"
  shows "validate_contents archive limit bytes e (take 65536 bytes) = Inr ()"
proof (cases "e = ''.xlsx''")
  case True
  with assms have "starts_with [CHR ''P'', CHR ''K'', CHR 0x03, CHR 0x04] c"
    by (auto simp: validate_contents_def split: if_splits)
  then have "starts_with [CHR ''P'', CHR ''K'', CHR 0x03, CHR 0x04] (take 65536 bytes)"
    unfolding assms(2) by (intro starts_with_take starts_with_longer) simp_all
  with True assms(1) show ?thesis by (auto simp: validate_contents_def split: if_splits)
qed (use assms(1) in \<open>simp add: validate_contents_def\<close>)

lemma upload_first_chunk:
  assumes "upload_contents dk e u = Inr bytes"
  obtains rest where "bytes = hd (up_chunks u) @ rest"
proof -
  from assms have "bytes \<noteq> []" "bytes = uploaded u"
    by (auto dest: upload_contents_Inr upload_contents_uploaded)
  then obtain c cs where "up_chunks u = c # cs" "c \<noteq> []" by (cases "up_chunks u") (auto simp: uploaded_def)
  then show ?thesis using that \<open>bytes = uploaded u\<close> by (auto simp: uploaded_def)
qed

lemma new_key_belongs:
  assumes "hex_digest (dk_sha dk)" and "e = ''.csv'' \<or> e = ''.xlsx''" and "n \<noteq> []"
  shows "belongs_to_namespace (dk_sha dk) (new_key dk (Some n) e) n = Inr True"
proof -
  have "starts_with (namespace_prefix (dk_sha dk) n @ ''-'') (new_key dk (Some n) e)"
    using assms(3) by (simp add: new_key_def starts_with_iff)
  with new_key_ok [OF assms(1,2), of "Some n"] show ?thesis by (simp add: belongs_to_namespace_def resolve_key_def)
qed

definition sample_disk :: disk where
  "sample_disk =
     \<lparr> dk_max_size = 1000, dk_sha = (\<lambda>_. replicate 64 (CHR ''a'')), dk_archive = (\<lambda>_. None), dk_fault = False,
       dk_new_id = 7, dk_now = 100 \<rparr>"

lemma sample_disk_hex: "hex_digest (dk_sha sample_disk)"
  by (simp add: hex_digest_def sample_disk_def list_all_iff is_hex_def)

definition sample_upload :: upload where
  "sample_upload = \<lparr> up_filename = Some ''C:/March/statement.CSV'', up_chunks = [''id,amount'', '''', ''late''] \<rparr>"

text \<open>
  C39: An upload the local storage accepts is read back byte for byte.  Its key matches the
  pattern of keys and lies in the tenant's namespace, its file name has no separator and no
  control character, its size is positive and within the limit, and a later inspection of
  the stored bytes under the same file name describes it exactly as the save did.
\<close>

theorem saved_upload_is_read_back:
  assumes "hex_digest (dk_sha dk)" and "save_upload dk u (Some ns) d = (Inr x, d')" and "ns \<noteq> []"
  shows "materialize_object (sto_storage_key x) d' = Inr (uploaded u) \<and>
    storage_key_ok (sto_storage_key x) \<and>
    belongs_to_namespace (dk_sha dk) (sto_storage_key x) ns = Inr True \<and>
    list_all safe_char (sto_original_filename x) \<and> length (sto_original_filename x) \<le> 255 \<and>
    0 < sto_size_bytes x \<and> sto_size_bytes x \<le> dk_max_size dk \<and>
    (\<exists>name. up_filename u = Some name \<and> inspect_materialized dk (uploaded u) name (sto_storage_key x) = Inr x)"
proof -
  from assms(2) obtain name e bytes where *: "validated_filename (up_filename u) = Inr (name, e)"
    "upload_contents dk e u = Inr bytes" "x = describe dk (new_key dk (Some ns) e) name e bytes" "bytes \<noteq> []"
    "int (length bytes) \<le> dk_max_size dk"
    "d' = write_object (new_key dk (Some ns) e) \<lparr> obj_bytes = bytes, obj_modified = dk_now dk \<rparr> d"
    by (rule save_upload_Inr)
  note safe = validated_filename_safe [OF *(1)]
  have ok: "storage_key_ok (sto_storage_key x)"
    using new_key_ok [OF assms(1) safe(1)] by (simp add: *(3) describe_def)
  have bytes: "bytes = uploaded u" using *(2) by (rule upload_contents_uploaded)
  obtain given where given: "up_filename u = Some given"
    using *(1) by (auto simp: validated_filename_def split: option.splits)
  obtain rest where rest: "bytes = hd (up_chunks u) @ rest" using *(2) by (rule upload_first_chunk)
  from *(2) have "\<not> dk_fault dk" "validate_contents (dk_archive dk) (dk_max_size dk) bytes e (hd (up_chunks u)) = Inr ()"
    by (auto simp: upload_contents_def and_then_Inr_iff guard_else_Inr_iff)
  then have "inspect_materialized dk bytes given (sto_storage_key x) = Inr x"
    using validate_contents_from_start [OF _ rest] *(1,4,5) by (simp add: inspect_materialized_def given [symmetric] *(3) describe_def)
  moreover have "materialize_object (sto_storage_key x) d' = Inr bytes"
    using ok map_of_removed [of "sto_storage_key x" d "sto_storage_key x"]
    by (simp add: materialize_object_def resolve_key_def *(3,6) describe_def write_object_def map_add_def)
  moreover have "belongs_to_namespace (dk_sha dk) (sto_storage_key x) ns = Inr True"
    using new_key_belongs [OF assms(1) safe(1) assms(3)] by (simp add: *(3) describe_def)
  ultimately show ?thesis using ok safe(2,3) *(4,5) given by (simp add: bytes [symmetric] *(3) describe_def)
qed

theorem saved_upload_is_read_back_witness:
  "\<exists>x d'. save_upload sample_disk sample_upload (Some ''tenant'') [] = (Inr x, d') \<and>
     sto_original_filename x = ''statement.csv'' \<and> materialize_object (sto_storage_key x) d' = Inr (uploaded sample_upload) \<and>
     uploaded sample_upload = ''id,amount''"
proof -
  have "case fst (save_upload sample_disk sample_upload (Some ''tenant'') []) of
      Inl _ \<Rightarrow> False | Inr x \<Rightarrow> sto_original_filename x = ''statement.csv''"
    by code_simp
  then obtain x d' where x: "save_upload sample_disk sample_upload (Some ''tenant'') [] = (Inr x, d')"
    "sto_original_filename x = ''statement.csv''"
    by (cases "save_upload sample_disk sample_upload (Some ''tenant'') []") (auto split: sum.splits)
  have "uploaded sample_upload = ''id,amount''" by code_simp
  with x saved_upload_is_read_back [OF sample_disk_hex x(1)] show ?thesis by auto
qed

end
