(* ===== verification/File_Routes.thy ===== *)
theory File_Routes
  imports Tenancy Job_Queue Source_Files Local_Storage
begin

text \<open>
  The routes over source files: \<open>api/routes/files.py\<close>.  A request works on the database and on
  the object store of a provider; a unit of work rolls the database back, never the store, so
  the routes compensate by deleting what they stored.  Paths of the store appear as the
  provider's operations, of which the local ones are an instance.
\<close>

section \<open>The metadata a client sees\<close>

record file_metadata =
  fm_id :: uuid
  fm_run_id :: uuid
  fm_source_type :: source_type
  fm_original_filename :: string
  fm_content_type :: string
  fm_size_bytes :: int
  fm_checksum_sha256 :: string
  fm_row_count :: "int option"
  fm_created_at :: instant

text \<open>The response model insists on a content type and on a checksum of 64 characters.\<close>

definition file_response :: "source_file \<Rightarrow> file_metadata outcome" where
  "file_response f =
     (case file_content_type f of
        None \<Rightarrow> Inl (ValueError ''content_type'')
      | Some t \<Rightarrow>
          if length (file_checksum_sha256 f) \<noteq> 64 then Inl (ValueError ''checksum_sha256'')
          else if file_size_bytes f < 0 then Inl (ValueError ''size_bytes'')
          else if file_row_count f \<noteq> None \<and> the (file_row_count f) < 0 then Inl (ValueError ''row_count'')
          else Inr \<lparr> fm_id = file_id f, fm_run_id = file_run_id f, fm_source_type = file_source_type f,
                     fm_original_filename = file_original_filename f, fm_content_type = t,
                     fm_size_bytes = file_size_bytes f, fm_checksum_sha256 = file_checksum_sha256 f,
                     fm_row_count = file_row_count f, fm_created_at = file_created_at f \<rparr>)"

fun source_type_text :: "source_type \<Rightarrow> string" where
  "source_type_text BANK_TRANSACTIONS = ''BANK_TRANSACTIONS''"
| "source_type_text ERP_INVOICES = ''ERP_INVOICES''"
| "source_type_text GATEWAY_SETTLEMENTS = ''GATEWAY_SETTLEMENTS''"

section \<open>Errors of the store\<close>

text \<open>The subclasses of \<open>StorageOperationError\<close>.\<close>

fun storage_operation_error :: "py_error \<Rightarrow> bool" where
  "storage_operation_error (StorageError c) \<longleftrightarrow>
     c \<in> {''StorageOperationError'', ''UploadStorageError'', ''EmptyUploadError'', ''UploadTooLargeError'',
          ''UnsupportedUploadError''}"
| "storage_operation_error _ \<longleftrightarrow> False"

fun upload_error :: "py_error \<Rightarrow> py_error" where
  "upload_error (StorageError c) =
     (if c = ''EmptyUploadError'' then APIError 422 ''EMPTY_FILE''
      else if c = ''UploadTooLargeError'' then APIError 413 ''FILE_TOO_LARGE''
      else if c = ''UnsupportedUploadError'' then APIError 415 ''UNSUPPORTED_FILE''
      else StorageError c)"
| "upload_error e = e"

definition presigning_error :: "py_error \<Rightarrow> py_error" where
  "presigning_error e =
     (if e = StorageError ''PresigningNotSupportedError'' then APIError 409 ''DIRECT_STORAGE_UNAVAILABLE''
      else if e = StorageError ''InvalidStorageKeyError'' \<or> e = StorageError ''UnsupportedUploadError''
      then APIError 422 ''INVALID_FILE''
      else if e = StorageError ''StorageNotFoundError'' then APIError 404 ''FILE_NOT_FOUND''
      else APIError 503 ''STORAGE_UNAVAILABLE'')"

section \<open>Upload\<close>

type_synonym ('s, 'a) route = "(db \<times> 's, 'a) task"

text \<open>The commit or the rollback at the end of a \<open>with PersistenceUnitOfWork\<close>.\<close>

definition finish_unit :: "('a \<times> db) outcome \<Rightarrow> db \<Rightarrow> 'a outcome \<times> db" where
  "finish_unit r = unit_of_work (\<lambda>_. r)"

text \<open>The object stored so far is handed back with the outcome of the body.\<close>

definition upload_body ::
  "'s provider \<Rightarrow> instant \<Rightarrow> uuid \<Rightarrow> tenant_context \<Rightarrow> uuid \<Rightarrow> source_type \<Rightarrow> upload \<Rightarrow> db \<Rightarrow> 's \<Rightarrow>
   (source_file \<times> db) outcome \<times> string option \<times> 's" where
  "upload_body pv now fid tenant rid ty u db s =
     (let org = tc_organization_id tenant in
      case get_run rid (Some org) db of
        Inl e \<Rightarrow> (Inl e, None, s)
      | Inr r \<Rightarrow>
          if run_status r \<noteq> RUN_PENDING then (Inl (APIError 409 ''RUN_NOT_PENDING''), None, s)
          else
            (case pv_save pv u (uuid_text org) s of
               (Inl e, s1) \<Rightarrow> (Inl (upload_error e), None, s1)
             | (Inr x, s1) \<Rightarrow>
                 (and_then (add_source_file now fid rid ty (sto_original_filename x) (sto_checksum_sha256 x)
                      (sto_size_bytes x) (Some (sto_content_type x)) None (Some (sto_storage_key x)) db) (\<lambda>(f, db1).
                  and_then (apply_storage_delta org (sto_size_bytes x) db1) (\<lambda>(_, db2).
                  Inr (f, db2))), Some (sto_storage_key x), s1)))"

definition quota_error :: "py_error \<Rightarrow> py_error" where
  "quota_error e = (if e = StorageQuotaExceededError then APIError 413 ''STORAGE_QUOTA_EXCEEDED'' else e)"

text \<open>Deleting the stored object before the error is raised; a failing deletion raises its own error.\<close>

definition compensate :: "'s provider \<Rightarrow> string option \<Rightarrow> py_error \<Rightarrow> ('s, 'a) task" where
  "compensate pv stored e s =
     (case stored of
        None \<Rightarrow> (Inl e, s)
      | Some k \<Rightarrow> (case pv_delete pv k s of (Inl d, s') \<Rightarrow> (Inl d, s') | (Inr _, s') \<Rightarrow> (Inl e, s')))"

definition upload_source_file ::
  "'s provider \<Rightarrow> instant \<Rightarrow> uuid \<Rightarrow> tenant_context \<Rightarrow> uuid \<Rightarrow> source_type \<Rightarrow> upload \<Rightarrow> ('s, file_metadata) route" where
  "upload_source_file pv now fid tenant rid ty u st =
     (case upload_body pv now fid tenant rid ty u (fst st) (snd st) of (body, stored, s1) \<Rightarrow>
      case finish_unit body (fst st) of (r, db') \<Rightarrow>
      case and_then r file_response of
        Inr m \<Rightarrow> (Inr m, (db', s1))
      | Inl e \<Rightarrow> (case compensate pv stored (quota_error e) s1 of (r', s2) \<Rightarrow> (r', (db', s2))))"

section \<open>Reading\<close>

definition list_source_files :: "tenant_context \<Rightarrow> uuid \<Rightarrow> db \<Rightarrow> (file_metadata list \<times> nat) outcome" where
  "list_source_files tenant rid db =
     and_then (get_run rid (Some (tc_organization_id tenant)) db) (\<lambda>_.
     let records = files_of_run rid db in
     and_then (map_err file_response records) (\<lambda>items. Inr (items, length records)))"

definition read_source_file :: "tenant_context \<Rightarrow> uuid \<Rightarrow> db \<Rightarrow> file_metadata outcome" where
  "read_source_file tenant fid db =
     and_then (get_source_file fid (Some (tc_organization_id tenant)) db) file_response"

section \<open>Deletion\<close>

definition file_in_use :: "run \<Rightarrow> job option \<Rightarrow> bool" where
  "file_in_use r j \<longleftrightarrow>
     run_status r \<noteq> RUN_PENDING \<or>
     (case j of None \<Rightarrow> False | Some j \<Rightarrow> job_status j \<in> {QUEUED, RUNNING, CANCEL_REQUESTED})"

definition unavailable_error :: "py_error \<Rightarrow> py_error" where
  "unavailable_error e = (if storage_operation_error e then APIError 503 ''STORAGE_UNAVAILABLE'' else e)"

definition delete_stored :: "'s provider \<Rightarrow> tenant_context \<Rightarrow> source_file \<Rightarrow> ('s, unit) task" where
  "delete_stored pv tenant f s =
     (case file_storage_key f of
        None \<Rightarrow> (Inr (), s)
      | Some k \<Rightarrow>
          if k = [] then (Inr (), s)
          else on_error
            (and_also (lift_outcome (pv_belongs_to_namespace pv k (uuid_text (tc_organization_id tenant)))) (\<lambda>inside.
             if inside then pv_delete pv k else raising (APIError 404 ''FILE_NOT_FOUND'')))
            (\<lambda>e. raising (unavailable_error e)) s)"

definition forget_file :: "instant \<Rightarrow> uuid \<Rightarrow> tenant_context \<Rightarrow> source_file \<Rightarrow> unit db_action" where
  "forget_file now eid tenant f db =
     and_then (apply_storage_delta (tc_organization_id tenant) (- file_size_bytes f) (remove_source_file f db)) (\<lambda>(_, db1).
     and_then (append_security_event now eid (tc_organization_id tenant) (tc_user_id tenant) ''SOURCE_FILE_DELETED''
       [(''file_id'', JText (uuid_text (file_id f))), (''run_id'', JText (uuid_text (file_run_id f))),
        (''source_type'', JText (source_type_text (file_source_type f)))] db1) (\<lambda>(_, db2).
     Inr ((), db2)))"

definition delete_body ::
  "'s provider \<Rightarrow> instant \<Rightarrow> uuid \<Rightarrow> tenant_context \<Rightarrow> uuid \<Rightarrow> db \<Rightarrow> 's \<Rightarrow> (unit \<times> db) outcome \<times> 's" where
  "delete_body pv now eid tenant fid db s =
     (case find_source_file fid (Some (tc_organization_id tenant)) db of
        None \<Rightarrow> (Inr ((), db), s)
      | Some f \<Rightarrow>
          (case and_then (get_run (file_run_id f) (Some (tc_organization_id tenant)) db) (\<lambda>r.
                guard_else (\<not> file_in_use r (job_for_run (file_run_id f) (tc_organization_id tenant) db))
                  (APIError 409 ''FILE_IN_USE'')) of
             Inl e \<Rightarrow> (Inl e, s)
           | Inr _ \<Rightarrow>
               (case delete_stored pv tenant f s of
                  (Inl e, s1) \<Rightarrow> (Inl e, s1)
                | (Inr _, s1) \<Rightarrow> (forget_file now eid tenant f db, s1))))"

definition delete_source_file :: "'s provider \<Rightarrow> instant \<Rightarrow> uuid \<Rightarrow> tenant_context \<Rightarrow> uuid \<Rightarrow> ('s, unit) route" where
  "delete_source_file pv now eid tenant fid st =
     (case delete_body pv now eid tenant fid (fst st) (snd st) of (body, s1) \<Rightarrow>
      case finish_unit body (fst st) of (r, db') \<Rightarrow> (r, (db', s1)))"

section \<open>Direct access\<close>

record upload_request =
  ur_filename :: string
  ur_content_type :: string
  ur_checksum_sha256 :: string
  ur_size_bytes :: int

record presigned_upload =
  pu_storage_key :: string
  pu_url :: string
  pu_fields :: "(string \<times> string) list"
  pu_expires_in_seconds :: int

definition fits_quota :: "organization \<Rightarrow> int \<Rightarrow> bool" where
  "fits_quota r n \<longleftrightarrow>
     (case org_storage_quota_bytes r of None \<Rightarrow> True | Some q \<Rightarrow> org_storage_used_bytes r + n \<le> q)"

definition presigned_upload_body ::
  "'s provider \<Rightarrow> instant \<Rightarrow> uuid \<Rightarrow> int \<Rightarrow> tenant_context \<Rightarrow> uuid \<Rightarrow> upload_request \<Rightarrow> presigned_upload db_action" where
  "presigned_upload_body pv now eid ttl tenant rid q db =
     (let org = tc_organization_id tenant in
      and_then (get_run rid (Some org) db) (\<lambda>r.
      and_then (guard_else (run_status r = RUN_PENDING) (APIError 409 ''RUN_NOT_PENDING'')) (\<lambda>_.
      and_then (guard_else (ur_size_bytes q \<le> pv_max_size_bytes pv) (APIError 413 ''FILE_TOO_LARGE'')) (\<lambda>_.
      and_then (get_organization org db) (\<lambda>og.
      and_then (guard_else (fits_quota og (ur_size_bytes q)) (APIError 413 ''STORAGE_QUOTA_EXCEEDED'')) (\<lambda>_.
      and_then (pv_create_upload_url pv (uuid_text org) (ur_filename q) (ur_content_type q)
          (Some (ur_checksum_sha256 q)) ttl) (\<lambda>(key, url, fields).
      and_then (append_security_event now eid org (tc_user_id tenant) ''PRESIGNED_UPLOAD_ISSUED''
          [(''run_id'', JText (uuid_text rid)), (''storage_key'', JText key), (''expires_in_seconds'', JInt ttl)] db)
        (\<lambda>(_, db').
      Inr (\<lparr> pu_storage_key = key, pu_url = url, pu_fields = fields, pu_expires_in_seconds = ttl \<rparr>, db')))))))))"

definition presigning_failed :: "py_error \<Rightarrow> bool" where
  "presigning_failed e \<longleftrightarrow>
     e = StorageError ''PresigningNotSupportedError'' \<or> e = StorageError ''InvalidStorageKeyError'' \<or>
     storage_operation_error e"

definition create_presigned_upload ::
  "'s provider \<Rightarrow> instant \<Rightarrow> uuid \<Rightarrow> int \<Rightarrow> tenant_context \<Rightarrow> uuid \<Rightarrow> upload_request \<Rightarrow> (db, presigned_upload) task" where
  "create_presigned_upload pv now eid ttl tenant rid q =
     on_error (unit_of_work (presigned_upload_body pv now eid ttl tenant rid q))
       (\<lambda>e. raising (if presigning_failed e then presigning_error e else e))"

text \<open>A row without a key hands the provider no key; it is refused like an empty one.\<close>

definition presigned_download_body ::
  "'s provider \<Rightarrow> instant \<Rightarrow> uuid \<Rightarrow> int \<Rightarrow> tenant_context \<Rightarrow> uuid \<Rightarrow> 's \<Rightarrow> string db_action" where
  "presigned_download_body pv now eid ttl tenant fid s db =
     and_then (get_source_file fid (Some (tc_organization_id tenant)) db) (\<lambda>f.
     and_then (pv_create_download_url pv (case file_storage_key f of None \<Rightarrow> [] | Some k \<Rightarrow> k) ttl s) (\<lambda>url.
     and_then (append_security_event now eid (tc_organization_id tenant) (tc_user_id tenant)
         ''PRESIGNED_DOWNLOAD_ISSUED'' [(''file_id'', JText (uuid_text fid)), (''expires_in_seconds'', JInt ttl)] db)
       (\<lambda>(_, db').
     Inr (url, db'))))"

definition create_presigned_download ::
  "'s provider \<Rightarrow> instant \<Rightarrow> uuid \<Rightarrow> int \<Rightarrow> tenant_context \<Rightarrow> uuid \<Rightarrow> 's \<Rightarrow> (db, string \<times> int) task" where
  "create_presigned_download pv now eid ttl tenant fid s =
     on_error (and_also (unit_of_work (presigned_download_body pv now eid ttl tenant fid s)) (\<lambda>url. give (url, ttl)))
       (\<lambda>e. raising (if e = StorageError ''PresigningNotSupportedError'' \<or> e = StorageError ''StorageNotFoundError'' \<or>
                        storage_operation_error e
                     then presigning_error e else e))"

section \<open>Finalization of a direct upload\<close>

record finalize_request =
  fq_storage_key :: string
  fq_source_type :: source_type
  fq_original_filename :: string
  fq_content_type :: string
  fq_size_bytes :: int
  fq_checksum_sha256 :: string

definition given_and_different :: "string option \<Rightarrow> string \<Rightarrow> bool" where
  "given_and_different found expected \<longleftrightarrow> (case found of None \<Rightarrow> False | Some c \<Rightarrow> c \<noteq> [] \<and> c \<noteq> expected)"

definition verify_object :: "'s provider \<Rightarrow> finalize_request \<Rightarrow> 's \<Rightarrow> stored_upload outcome" where
  "verify_object pv q s =
     and_then (pv_stat pv (fq_storage_key q) s) (\<lambda>m.
     and_then (guard_else (om_size_bytes m = fq_size_bytes q \<and> om_size_bytes m \<le> pv_max_size_bytes pv)
       (APIError 422 ''FILE_METADATA_MISMATCH'')) (\<lambda>_.
     and_then (guard_else (\<not> given_and_different (om_content_type m) (fq_content_type q))
       (APIError 422 ''FILE_METADATA_MISMATCH'')) (\<lambda>_.
     and_then (guard_else (\<not> given_and_different (om_checksum_sha256 m) (fq_checksum_sha256 q))
       (APIError 422 ''FILE_METADATA_MISMATCH'')) (\<lambda>_.
     and_then (pv_materialize pv (fq_storage_key q) s) (\<lambda>bytes.
     and_then (pv_inspect_materialized pv bytes (fq_original_filename q) (fq_storage_key q)) (\<lambda>x.
     and_then (guard_else (sto_size_bytes x = fq_size_bytes q \<and> sto_content_type x = fq_content_type q \<and>
         sto_checksum_sha256 x = fq_checksum_sha256 q) (APIError 422 ''FILE_VALIDATION_FAILED'')) (\<lambda>_.
     Inr x)))))))"

definition record_upload ::
  "instant \<Rightarrow> uuid \<Rightarrow> uuid \<Rightarrow> tenant_context \<Rightarrow> uuid \<Rightarrow> finalize_request \<Rightarrow> stored_upload \<Rightarrow> source_file db_action" where
  "record_upload now fid eid tenant rid q x db =
     and_then (add_source_file now fid rid (fq_source_type q) (sto_original_filename x) (sto_checksum_sha256 x)
       (sto_size_bytes x) (Some (sto_content_type x)) None (Some (fq_storage_key q)) db) (\<lambda>(f, db1).
     and_then (apply_storage_delta (tc_organization_id tenant) (sto_size_bytes x) db1) (\<lambda>(_, db2).
     and_then (append_security_event now eid (tc_organization_id tenant) (tc_user_id tenant) ''DIRECT_UPLOAD_FINALIZED''
       [(''run_id'', JText (uuid_text rid)), (''file_id'', JText (uuid_text (file_id f))),
        (''source_type'', JText (source_type_text (file_source_type f)))] db2) (\<lambda>(_, db3).
     Inr (f, db3))))"

text \<open>The flag says whether the object was taken over before the body ended.\<close>

definition finalize_body ::
  "'s provider \<Rightarrow> instant \<Rightarrow> uuid \<Rightarrow> uuid \<Rightarrow> tenant_context \<Rightarrow> uuid \<Rightarrow> finalize_request \<Rightarrow> 's \<Rightarrow> db \<Rightarrow>
   (source_file \<times> db) outcome \<times> bool" where
  "finalize_body pv now fid eid tenant rid q s db =
     (case and_then (get_run rid (Some (tc_organization_id tenant)) db) (\<lambda>r.
           and_then (guard_else (run_status r = RUN_PENDING) (APIError 409 ''RUN_NOT_PENDING'')) (\<lambda>_.
           and_then (pv_belongs_to_namespace pv (fq_storage_key q) (uuid_text (tc_organization_id tenant))) (\<lambda>inside.
           guard_else inside (APIError 404 ''FILE_NOT_FOUND'')))) of
        Inl e \<Rightarrow> (Inl e, False)
      | Inr _ \<Rightarrow>
          (case find_by_storage_key (fq_storage_key q) (tc_organization_id tenant) db of
             Some f \<Rightarrow>
               (if file_run_id f = rid \<and> file_source_type f = fq_source_type q then Inr (f, db)
                else Inl (APIError 409 ''FILE_ALREADY_FINALIZED''), False)
           | None \<Rightarrow>
               (and_then (verify_object pv q s) (\<lambda>x. record_upload now fid eid tenant rid q x db), True)))"

text \<open>The \<open>except\<close> clauses: the error raised, and whether a taken-over object is deleted first.\<close>

fun finalize_error :: "py_error \<Rightarrow> py_error \<times> bool" where
  "finalize_error StorageQuotaExceededError = (APIError 413 ''STORAGE_QUOTA_EXCEEDED'', True)"
| "finalize_error (StorageError c) =
     (if c \<in> {''EmptyUploadError'', ''UploadTooLargeError'', ''UnsupportedUploadError'', ''InvalidStorageKeyError''}
      then (APIError 422 ''FILE_VALIDATION_FAILED'', True)
      else if c = ''StorageNotFoundError'' then (APIError 404 ''FILE_NOT_FOUND'', False)
      else if storage_operation_error (StorageError c) then (APIError 503 ''STORAGE_UNAVAILABLE'', False)
      else (StorageError c, True))"
| "finalize_error e = (e, True)"

definition finalize_direct_upload ::
  "'s provider \<Rightarrow> instant \<Rightarrow> uuid \<Rightarrow> uuid \<Rightarrow> tenant_context \<Rightarrow> uuid \<Rightarrow> finalize_request \<Rightarrow> ('s, file_metadata) route" where
  "finalize_direct_upload pv now fid eid tenant rid q st =
     (case finalize_body pv now fid eid tenant rid q (snd st) (fst st) of (body, owned) \<Rightarrow>
      case finish_unit body (fst st) of (r, db') \<Rightarrow>
      case and_then r file_response of
        Inr m \<Rightarrow> (Inr m, (db', snd st))
      | Inl e \<Rightarrow>
          (case finalize_error e of (e', removing) \<Rightarrow>
           case compensate pv (if owned \<and> removing then Some (fq_storage_key q) else None) e' (snd st) of
             (r', s') \<Rightarrow> (r', (db', s'))))"

section \<open>The storage counter of an organization\<close>

text \<open>Every organization's counter is the sum of the sizes of its files.\<close>

definition accounted :: "db \<Rightarrow> bool" where
  "accounted db \<longleftrightarrow>
     list_all (\<lambda>r. org_storage_used_bytes r = total_stored_size (org_id r) db) (organizations db)"

definition file_tables_ok :: "db \<Rightarrow> bool" where
  "file_tables_ok db \<longleftrightarrow>
     files_wf db \<and> distinct (map org_id (organizations db)) \<and> distinct (map run_id (runs db))"

lemma get_run_tenant: "get_run rid (Some org) db = Inr r \<Longrightarrow> run_of_tenant rid org db"
  by (auto simp: get_run_def run_of_tenant_def list_ex_iff dest: scoped_get_Inr)

lemma one_tenant:
  assumes "distinct (map run_id (runs db))" and "run_of_tenant rid a db" and "run_of_tenant rid b db"
  shows "a = b"
  using assms unfolding run_of_tenant_def list_ex_iff by (metis distinct_map inj_onD)

lemma run_of_tenant_runs: "runs db' = runs db \<Longrightarrow> run_of_tenant rid org db' = run_of_tenant rid org db"
  by (simp add: run_of_tenant_def)

lemma total_size_nonneg: "files_wf db \<Longrightarrow> 0 \<le> total_stored_size org db"
  by (auto simp: total_stored_size_def files_wf_def list_all_iff source_file_row_ok_def intro!: sum_list_nonneg)

lemma total_size_cong:
  "runs db' = runs db \<Longrightarrow> source_files db' = source_files db \<Longrightarrow> total_stored_size org db' = total_stored_size org db"
  by (simp add: total_stored_size_def run_of_tenant_def)

lemma total_size_added:
  assumes "db' = db \<lparr> source_files := source_files db @ [f] \<rparr>"
  shows "total_stored_size org db' =
    total_stored_size org db + (if run_of_tenant (file_run_id f) org db then file_size_bytes f else 0)"
  using assms by (simp add: total_stored_size_def run_of_tenant_def)

lemma sum_without:
  "distinct (map key xs) \<Longrightarrow> f \<in> set xs \<Longrightarrow>
   sum_list (map w (filter P (filter (\<lambda>g. key g \<noteq> key f) xs))) =
   sum_list (map w (filter P xs)) - (if P f then w f else (0 :: int))"
proof (induction xs)
  case (Cons x xs)
  show ?case
  proof (cases "x = f")
    case True
    then have "filter (\<lambda>g. key g \<noteq> key f) xs = xs"
      using Cons.prems(1) by (auto simp: filter_id_conv image_iff)
    with True show ?thesis by simp
  next
    case False
    then have "f \<in> set xs" using Cons.prems(2) by simp
    moreover then have "key x \<noteq> key f" using Cons.prems(1) by auto
    ultimately show ?thesis using Cons by simp
  qed
qed simp

lemma total_size_removed:
  assumes "files_wf db" and "f \<in> set (source_files db)"
  shows "total_stored_size org (remove_source_file f db) =
    total_stored_size org db - (if run_of_tenant (file_run_id f) org db then file_size_bytes f else 0)"
  using sum_without [of file_id "source_files db" f file_size_bytes "\<lambda>f. run_of_tenant (file_run_id f) org db"] assms
  by (simp add: total_stored_size_def remove_source_file_def run_of_tenant_def files_wf_def)

text \<open>A delta equal to what the files changed by balances the counters again.\<close>

lemma delta_accounts:
  assumes delta: "apply_storage_delta org delta db1 = Inr (r', db2)"
    and tables: "file_tables_ok db1"
    and due: "\<And>r. r \<in> set (organizations db1) \<Longrightarrow>
      org_storage_used_bytes r + (if org_id r = org then delta else 0) = total_stored_size (org_id r) db1"
  shows "accounted db2" "file_tables_ok db2" "runs db2 = runs db1" "source_files db2 = source_files db1"
    "map org_id (organizations db2) = map org_id (organizations db1)" "users db2 = users db1"
    "security_events db2 = security_events db1"
proof -
  obtain r where r: "get_organization org db1 = Inr r"
    and r': "r' = r \<lparr> org_storage_used_bytes := max 0 (org_storage_used_bytes r + delta) \<rparr>"
    and db2: "db2 = db1 \<lparr> organizations := put_row org_id r' (organizations db1) \<rparr>"
    using delta by (rule apply_storage_delta_Inr) (auto simp: save_organization_def split: if_splits)
  from get_organization_Inr [OF r] have rin: "r \<in> set (organizations db1)" "org_id r = org" by simp_all
  have same: "total_stored_size i db2 = total_stored_size i db1" for i by (rule total_size_cong) (simp_all add: db2)
  have "org_storage_used_bytes r' = total_stored_size org db1"
    using due [OF rin(1)] rin(2) total_size_nonneg [of db1 org] tables by (simp add: r' file_tables_ok_def)
  then have "org_storage_used_bytes x = total_stored_size (org_id x) db1"
    if "x \<in> set (put_row org_id r' (organizations db1))" for x
    using in_put_row [OF that] due [of x] rin(2) by (auto simp: r')
  then show "accounted db2" by (simp add: accounted_def list_all_iff same) (simp add: db2)
  show "file_tables_ok db2" using tables by (simp add: file_tables_ok_def db2 files_wf_def)
  show "runs db2 = runs db1" "source_files db2 = source_files db1" "users db2 = users db1"
    "security_events db2 = security_events db1" "map org_id (organizations db2) = map org_id (organizations db1)"
    by (simp_all add: db2)
qed

lemma accounted_cong:
  "runs db' = runs db \<Longrightarrow> source_files db' = source_files db \<Longrightarrow> organizations db' = organizations db \<Longrightarrow>
   accounted db' = accounted db \<and> file_tables_ok db' = file_tables_ok db"
  using total_size_cong [of db' db] by (simp add: accounted_def file_tables_ok_def files_wf_def)

text \<open>Recording one file and its size, and forgetting one.\<close>

lemma record_accounts:
  assumes "add_source_file now fid rid ty n c sz t rc k db = Inr (f, db1)"
    and "apply_storage_delta org sz db1 = Inr (r', db2)"
    and "run_of_tenant rid org db" and "file_tables_ok db" and "accounted db"
  shows "accounted db2 \<and> file_tables_ok db2"
proof -
  note f = add_source_file_Inr [OF assms(1)]
  have tables: "file_tables_ok db1" using assms(4) f(8) by (simp add: file_tables_ok_def f(1))
  have mine: "run_of_tenant rid i db \<longleftrightarrow> i = org" for i
    using assms(3,4) one_tenant [of db rid i org] by (auto simp: file_tables_ok_def)
  have "org_storage_used_bytes r + (if org_id r = org then sz else 0) = total_stored_size (org_id r) db1"
    if "r \<in> set (organizations db1)" for r
    using that assms(5) total_size_added [OF f(1), of "org_id r"]
    by (simp add: f(1-4) accounted_def list_all_iff mine)
  from delta_accounts(1,2) [OF assms(2) tables this] show ?thesis by simp
qed

lemma forget_accounts:
  assumes "forget_file now eid tenant f db = Inr (u, db')" and "f \<in> set (source_files db)"
    and "run_of_tenant (file_run_id f) (tc_organization_id tenant) db" and "file_tables_ok db" and "accounted db"
  shows "accounted db' \<and> file_tables_ok db'"
proof -
  let ?org = "tc_organization_id tenant"
  from assms(1) obtain r' db1 e where
    delta: "apply_storage_delta ?org (- file_size_bytes f) (remove_source_file f db) = Inr (r', db1)"
    and event: "append_security_event now eid ?org (tc_user_id tenant) ''SOURCE_FILE_DELETED''
       [(''file_id'', JText (uuid_text (file_id f))), (''run_id'', JText (uuid_text (file_run_id f))),
        (''source_type'', JText (source_type_text (file_source_type f)))] db1 = Inr (e, db')"
    by (auto simp: forget_file_def and_then_Inr_iff)
  have wf: "files_wf db" and tables: "file_tables_ok (remove_source_file f db)"
    using assms(4) remove_source_file_wf by (auto simp: file_tables_ok_def remove_source_file_def)
  have mine: "run_of_tenant (file_run_id f) i db \<longleftrightarrow> i = ?org" for i
    using assms(3,4) one_tenant [of db "file_run_id f" i ?org] by (auto simp: file_tables_ok_def)
  have "org_storage_used_bytes r + (if org_id r = ?org then - file_size_bytes f else 0) =
      total_stored_size (org_id r) (remove_source_file f db)"
    if "r \<in> set (organizations (remove_source_file f db))" for r
    using that assms(5) total_size_removed [OF wf assms(2), of "org_id r"]
    by (simp add: remove_source_file_def accounted_def list_all_iff mine)
  from delta_accounts(1,2) [OF delta tables this] have "accounted db1" "file_tables_ok db1" by simp_all
  then show ?thesis using accounted_cong [of db' db1] append_security_Inr(1) [OF event] by simp
qed

section \<open>Requests\<close>

datatype file_request =
    Upload instant uuid tenant_context uuid source_type upload
  | DeleteFile instant uuid tenant_context uuid
  | PresignUpload instant uuid int tenant_context uuid upload_request
  | PresignDownload instant uuid int tenant_context uuid
  | Finalize instant uuid uuid tenant_context uuid finalize_request

fun serve_file :: "'s provider \<Rightarrow> file_request \<Rightarrow> db \<times> 's \<Rightarrow> db \<times> 's" where
  "serve_file pv (Upload now fid tenant rid ty u) st = snd (upload_source_file pv now fid tenant rid ty u st)"
| "serve_file pv (DeleteFile now eid tenant fid) st = snd (delete_source_file pv now eid tenant fid st)"
| "serve_file pv (PresignUpload now eid ttl tenant rid q) st =
     (snd (create_presigned_upload pv now eid ttl tenant rid q (fst st)), snd st)"
| "serve_file pv (PresignDownload now eid ttl tenant fid) st =
     (snd (create_presigned_download pv now eid ttl tenant fid (snd st) (fst st)), snd st)"
| "serve_file pv (Finalize now fid eid tenant rid q) st = snd (finalize_direct_upload pv now fid eid tenant rid q st)"

text \<open>Each request meets a provider of its own: its clock, its identifiers, its faults.\<close>

definition serve_files :: "('s provider \<times> file_request) list \<Rightarrow> db \<times> 's \<Rightarrow> db \<times> 's" where
  "serve_files = fold (\<lambda>(pv, q). serve_file pv q)"

text \<open>The database a route leaves is what its unit of work left.\<close>

lemma upload_db: "fst (snd (upload_source_file pv now fid tenant rid ty u (db, s))) =
    snd (finish_unit (fst (upload_body pv now fid tenant rid ty u db s)) db)"
  by (simp add: upload_source_file_def split: prod.split sum.split)

lemma delete_db: "fst (snd (delete_source_file pv now eid tenant fid (db, s))) =
    snd (finish_unit (fst (delete_body pv now eid tenant fid db s)) db)"
  by (simp add: delete_source_file_def split: prod.split)

lemma finalize_db: "fst (snd (finalize_direct_upload pv now fid eid tenant rid q (db, s))) =
    snd (finish_unit (fst (finalize_body pv now fid eid tenant rid q s db)) db)"
  by (simp add: finalize_direct_upload_def split: prod.split sum.split)

lemma on_error_state: "(\<And>e s. snd (h e s) = s) \<Longrightarrow> snd (on_error m h s) = snd (m s)"
  by (auto simp: on_error_def split: prod.split sum.split)

lemma finish_unit_preserves: "P db \<Longrightarrow> (\<And>x db'. r = Inr (x, db') \<Longrightarrow> P db') \<Longrightarrow> P (snd (finish_unit r db))"
  unfolding finish_unit_def by (rule unit_of_work_preserves)

definition balanced :: "db \<Rightarrow> bool" where
  "balanced db \<longleftrightarrow> accounted db \<and> file_tables_ok db"

lemma upload_body_Inr:
  assumes "upload_body pv now fid tenant rid ty u db s = (Inr (f, db'), stored, s')"
  obtains r x db1 og where "get_run rid (Some (tc_organization_id tenant)) db = Inr r" "run_status r = RUN_PENDING"
    "pv_save pv u (uuid_text (tc_organization_id tenant)) s = (Inr x, s')" "stored = Some (sto_storage_key x)"
    "add_source_file now fid rid ty (sto_original_filename x) (sto_checksum_sha256 x)
       (sto_size_bytes x) (Some (sto_content_type x)) None (Some (sto_storage_key x)) db = Inr (f, db1)"
    "apply_storage_delta (tc_organization_id tenant) (sto_size_bytes x) db1 = Inr (og, db')"
  using assms
  by (auto simp: upload_body_def Let_def and_then_Inr_iff split: sum.splits if_splits prod.splits)

lemma delete_body_Inr:
  assumes "delete_body pv now eid tenant fid db s = (Inr (u, db'), s')"
  obtains "db' = db" "s' = s" "find_source_file fid (Some (tc_organization_id tenant)) db = None"
  | f r where "find_source_file fid (Some (tc_organization_id tenant)) db = Some f"
    "get_run (file_run_id f) (Some (tc_organization_id tenant)) db = Inr r"
    "\<not> file_in_use r (job_for_run (file_run_id f) (tc_organization_id tenant) db)"
    "delete_stored pv tenant f s = (Inr (), s')" "forget_file now eid tenant f db = Inr (u, db')"
  using assms
  by (auto simp: delete_body_def and_then_Inr_iff guard_else_Inr_iff split: option.splits sum.splits prod.splits)

lemma finalize_body_Inr:
  assumes "finalize_body pv now fid eid tenant rid q s db = (Inr (f, db'), owned)"
  obtains "db' = db" "\<not> owned"
  | x where "run_of_tenant rid (tc_organization_id tenant) db" "verify_object pv q s = Inr x" "owned"
    "record_upload now fid eid tenant rid q x db = Inr (f, db')"
    "find_by_storage_key (fq_storage_key q) (tc_organization_id tenant) db = None"
    "pv_belongs_to_namespace pv (fq_storage_key q) (uuid_text (tc_organization_id tenant)) = Inr True"
  using assms
  by (auto simp: finalize_body_def and_then_Inr_iff guard_else_Inr_iff get_run_tenant
      split: option.splits sum.splits if_splits)

lemma find_source_file_Some:
  "find_source_file fid (Some org) db = Some f \<Longrightarrow>
   f \<in> set (source_files db) \<and> file_id f = fid \<and> run_of_tenant (file_run_id f) org db"
  by (auto simp: find_source_file_def find_Some_iff)

lemma record_upload_Inr:
  assumes "record_upload now fid eid tenant rid q x db = Inr (f, db3)"
  obtains db1 og db2 e where
    "add_source_file now fid rid (fq_source_type q) (sto_original_filename x) (sto_checksum_sha256 x)
       (sto_size_bytes x) (Some (sto_content_type x)) None (Some (fq_storage_key q)) db = Inr (f, db1)"
    "apply_storage_delta (tc_organization_id tenant) (sto_size_bytes x) db1 = Inr (og, db2)"
    "db3 = db2 \<lparr> security_events := security_events db2 @ [e] \<rparr>"
  using assms by (auto simp: record_upload_def and_then_Inr_iff dest!: append_security_Inr(1))

lemma upload_balanced: "balanced db \<Longrightarrow> balanced (fst (snd (upload_source_file pv now fid tenant rid ty u (db, s))))"
  unfolding upload_db
proof (rule finish_unit_preserves [where P = balanced])
  fix f db'
  assume b: "balanced db" and "fst (upload_body pv now fid tenant rid ty u db s) = Inr (f, db')"
  then obtain stored s' where "upload_body pv now fid tenant rid ty u db s = (Inr (f, db'), stored, s')"
    by (metis prod.collapse)
  then show "balanced db'"
    by (rule upload_body_Inr) (use b in \<open>auto simp: balanced_def dest: record_accounts get_run_tenant\<close>)
qed

lemma delete_balanced: "balanced db \<Longrightarrow> balanced (fst (snd (delete_source_file pv now eid tenant fid (db, s))))"
  unfolding delete_db
proof (rule finish_unit_preserves [where P = balanced])
  fix u db'
  assume b: "balanced db" and "fst (delete_body pv now eid tenant fid db s) = Inr (u, db')"
  then obtain s' where "delete_body pv now eid tenant fid db s = (Inr (u, db'), s')" by (metis prod.collapse)
  then show "balanced db'"
    by (rule delete_body_Inr) (use b in \<open>auto simp: balanced_def dest!: find_source_file_Some dest: forget_accounts\<close>)
qed

lemma finalize_balanced:
  "balanced db \<Longrightarrow> balanced (fst (snd (finalize_direct_upload pv now fid eid tenant rid q (db, s))))"
  unfolding finalize_db
proof (rule finish_unit_preserves [where P = balanced])
  fix f db'
  assume b: "balanced db" and "fst (finalize_body pv now fid eid tenant rid q s db) = Inr (f, db')"
  then obtain owned where "finalize_body pv now fid eid tenant rid q s db = (Inr (f, db'), owned)" by (metis prod.collapse)
  then show "balanced db'"
  proof (rule finalize_body_Inr)
    fix x
    assume mine: "run_of_tenant rid (tc_organization_id tenant) db"
      and "record_upload now fid eid tenant rid q x db = Inr (f, db')"
    from this(2) show "balanced db'"
    proof (rule record_upload_Inr)
      fix db1 og db2 e
      assume "add_source_file now fid rid (fq_source_type q) (sto_original_filename x) (sto_checksum_sha256 x)
          (sto_size_bytes x) (Some (sto_content_type x)) None (Some (fq_storage_key q)) db = Inr (f, db1)"
        and "apply_storage_delta (tc_organization_id tenant) (sto_size_bytes x) db1 = Inr (og, db2)"
        and db': "db' = db2 \<lparr> security_events := security_events db2 @ [e] \<rparr>"
      from record_accounts [OF this(1,2) mine] b have "balanced db2" by (simp add: balanced_def)
      then show "balanced db'" using accounted_cong [of db' db2] by (simp add: balanced_def db')
    qed
  qed (use b in simp)
qed

text \<open>Issuing a link writes one event and nothing else.\<close>

lemma presign_upload_db:
  "\<exists>es. snd (create_presigned_upload pv now eid ttl tenant rid q db) = db \<lparr> security_events := security_events db @ es \<rparr>"
proof -
  have "\<exists>es. snd (unit_of_work (presigned_upload_body pv now eid ttl tenant rid q) db) =
      db \<lparr> security_events := security_events db @ es \<rparr>"
    by (rule unit_of_work_preserves [where P = "\<lambda>db'. \<exists>es. db' = db \<lparr> security_events := security_events db @ es \<rparr>"])
       (auto simp: presigned_upload_body_def Let_def and_then_Inr_iff dest!: append_security_Inr(1) intro: exI [of _ "[]"])
  then show ?thesis by (simp add: create_presigned_upload_def on_error_state raising_def)
qed

lemma presign_download_db:
  "\<exists>es. snd (create_presigned_download pv now eid ttl tenant fid s db) = db \<lparr> security_events := security_events db @ es \<rparr>"
proof -
  have "\<exists>es. snd (unit_of_work (presigned_download_body pv now eid ttl tenant fid s) db) =
      db \<lparr> security_events := security_events db @ es \<rparr>"
    by (rule unit_of_work_preserves [where P = "\<lambda>db'. \<exists>es. db' = db \<lparr> security_events := security_events db @ es \<rparr>"])
       (auto simp: presigned_download_body_def and_then_Inr_iff dest!: append_security_Inr(1) intro: exI [of _ "[]"])
  then show ?thesis
    by (auto simp: create_presigned_download_def on_error_state raising_def and_also_def give_def split: prod.splits sum.splits)
qed

lemma event_balanced: "balanced (db \<lparr> security_events := es \<rparr>) = balanced db"
  using accounted_cong [of "db \<lparr> security_events := es \<rparr>" db] by (simp add: balanced_def)

lemma serve_file_balanced: "balanced (fst st) \<Longrightarrow> balanced (fst (serve_file pv q st))"
proof (cases q)
  case (PresignUpload now eid ttl tenant rid p)
  assume "balanced (fst st)"
  then show ?thesis
    using presign_upload_db [of pv now eid ttl tenant rid p "fst st"] by (auto simp: PresignUpload event_balanced)
next
  case (PresignDownload now eid ttl tenant fid)
  assume "balanced (fst st)"
  then show ?thesis
    using presign_download_db [of pv now eid ttl tenant fid "snd st" "fst st"] by (auto simp: PresignDownload event_balanced)
qed (cases st; simp add: upload_balanced delete_balanced finalize_balanced)+

section \<open>Rows and objects\<close>

text \<open>
  Every row with a key has its object, of the size the row says, in the namespace of the
  tenant that owns the row's run; no two rows share a key.
\<close>

definition object_for :: "(string \<Rightarrow> string \<Rightarrow> bool outcome) \<Rightarrow> (string \<Rightarrow> string option) \<Rightarrow> db \<Rightarrow> source_file \<Rightarrow> string \<Rightarrow> bool" where
  "object_for inside contents db f k \<longleftrightarrow>
     (\<exists>bytes. contents k = Some bytes \<and> file_size_bytes f = int (length bytes)) \<and>
     (\<exists>org. run_of_tenant (file_run_id f) org db \<and> inside k (uuid_text org) = Inr True)"

definition stored_keys :: "db \<Rightarrow> string list" where
  "stored_keys db = List.map_filter file_storage_key (source_files db)"

definition backed :: "(string \<Rightarrow> string \<Rightarrow> bool outcome) \<Rightarrow> (string \<Rightarrow> string option) \<Rightarrow> db \<Rightarrow> bool" where
  "backed inside contents db \<longleftrightarrow>
     (\<forall>f \<in> set (source_files db). \<forall>k. file_storage_key f = Some k \<longrightarrow> object_for inside contents db f k) \<and>
     distinct (stored_keys db)"

lemma in_stored_keys: "k \<in> set (stored_keys db) \<longleftrightarrow> (\<exists>f \<in> set (source_files db). file_storage_key f = Some k)"
  by (auto simp: stored_keys_def List.map_filter_def image_iff)

lemma backed_stored: "backed inside contents db \<Longrightarrow> k \<in> set (stored_keys db) \<Longrightarrow> contents k \<noteq> None"
  by (auto simp: backed_def in_stored_keys object_for_def)

lemma backed_contents:
  assumes "backed inside contents db" and "\<And>k. k \<in> set (stored_keys db) \<Longrightarrow> contents' k = contents k"
  shows "backed inside contents' db"
proof -
  have "object_for inside contents' db f k" if "f \<in> set (source_files db)" "file_storage_key f = Some k" for f k
  proof -
    have "k \<in> set (stored_keys db)" using that by (auto simp: in_stored_keys)
    from assms(2) [OF this] show ?thesis using assms(1) that by (simp add: backed_def object_for_def)
  qed
  with assms(1) show ?thesis by (simp add: backed_def)
qed

lemma backed_db:
  "backed inside contents db \<Longrightarrow> source_files db' = source_files db \<Longrightarrow> runs db' = runs db \<Longrightarrow> backed inside contents db'"
  by (simp add: backed_def stored_keys_def object_for_def run_of_tenant_def)

lemma backed_added:
  assumes "backed inside contents db" and "db' = db \<lparr> source_files := source_files db @ [f] \<rparr>"
    and "file_storage_key f = Some k" and "k \<notin> set (stored_keys db)" and "contents k = Some bytes"
    and "file_size_bytes f = int (length bytes)" and "run_of_tenant (file_run_id f) org db"
    and "inside k (uuid_text org) = Inr True"
  shows "backed inside contents db'"
  using assms by (auto simp: backed_def stored_keys_def object_for_def run_of_tenant_def List.map_filter_def)

lemma stored_keys_without:
  assumes "distinct (stored_keys db)" and "f \<in> set (source_files db)" and "distinct (map file_id (source_files db))"
  shows "distinct (stored_keys (remove_source_file f db)) \<and>
    (\<forall>k. k \<in> set (stored_keys (remove_source_file f db)) \<longrightarrow> k \<in> set (stored_keys db) \<and> file_storage_key f \<noteq> Some k)"
proof -
  let ?xs = "source_files db"
  have key: "g \<in> set ?xs \<Longrightarrow> file_storage_key g = file_storage_key f \<Longrightarrow> file_storage_key f = Some k \<Longrightarrow> g = f" for g k
  proof -
    assume g: "g \<in> set ?xs" "file_storage_key g = file_storage_key f" "file_storage_key f = Some k"
    have "inj_on (\<lambda>f. the (file_storage_key f)) (set (filter (\<lambda>f. file_storage_key f \<noteq> None) ?xs))"
      using assms(1) by (simp add: stored_keys_def List.map_filter_def comp_def distinct_map)
    then show "g = f" by (rule inj_onD) (use g assms(2) in auto)
  qed
  have "stored_keys (remove_source_file f db) =
      map (\<lambda>f. the (file_storage_key f)) (filter (\<lambda>g. file_id g \<noteq> file_id f) (filter (\<lambda>f. file_storage_key f \<noteq> None) ?xs))"
    by (simp add: stored_keys_def List.map_filter_def remove_source_file_def comp_def conj_commute)
  moreover have "distinct (map (\<lambda>f. the (file_storage_key f)) (filter (\<lambda>f. file_storage_key f \<noteq> None) ?xs))"
    using assms(1) by (simp add: stored_keys_def List.map_filter_def comp_def)
  ultimately have "distinct (stored_keys (remove_source_file f db))"
    by (simp only: distinct_map_filter)
  moreover have "k \<in> set (stored_keys db) \<and> file_storage_key f \<noteq> Some k"
    if "k \<in> set (stored_keys (remove_source_file f db))" for k
    using that key [of _ k] by (auto simp: in_stored_keys remove_source_file_def)
  ultimately show ?thesis by blast
qed

lemma backed_removed:
  assumes "backed inside contents db" and "f \<in> set (source_files db)" and "distinct (map file_id (source_files db))"
    and "\<And>k. file_storage_key f \<noteq> Some k \<Longrightarrow> contents' k = contents k"
  shows "backed inside contents' (remove_source_file f db)"
proof -
  have keys: "distinct (stored_keys db)" using assms(1) by (simp add: backed_def)
  note without = stored_keys_without [OF keys assms(2,3)]
  have "object_for inside contents' (remove_source_file f db) g k"
    if "g \<in> set (source_files (remove_source_file f db))" "file_storage_key g = Some k" for g k
  proof -
    have "k \<in> set (stored_keys (remove_source_file f db))" using that by (auto simp: in_stored_keys)
    with without have "file_storage_key f \<noteq> Some k" by blast
    moreover have "object_for inside contents db g k"
      using assms(1) that by (auto simp: backed_def remove_source_file_def)
    ultimately show ?thesis
      using assms(4) [of k] by (simp add: object_for_def remove_source_file_def run_of_tenant_def)
  qed
  with without show ?thesis by (auto simp: backed_def)
qed

lemma finish_unit_simps:
  "finish_unit (Inr (x, db')) db = (Inr x, db')" "\<exists>e'. finish_unit (Inl e) db = (Inl e', db)"
proof -
  show "finish_unit (Inr (x, db')) db = (Inr x, db')" by (simp add: finish_unit_def unit_of_work_def)
  show "\<exists>e'. finish_unit (Inl e) db = (Inl e', db)"
    by (cases e) (simp_all add: finish_unit_def unit_of_work_def)
qed

lemma new_file_response:
  assumes "add_source_file now fid rid ty n c sz (Some t) None k db = Inr (f, db1)" and "length c = 64"
  shows "\<exists>m. file_response f = Inr m"
  using assms
  by (auto simp: add_source_file_def and_then_Inr_iff file_response_def source_file_row_ok_def Let_def split: if_splits)

lemma file_rows_kept:
  assumes "apply_storage_delta org delta db1 = Inr (og, db2)"
  shows "source_files db2 = source_files db1" "runs db2 = runs db1"
  using assms by (rule apply_storage_delta_Inr; auto simp: save_organization_def split: if_splits)+

lemma upload_failed:
  assumes "upload_body pv now fid tenant rid ty u db s = (Inl e, stored, s1)"
  obtains e' where "upload_source_file pv now fid tenant rid ty u (db, s) =
    (case compensate pv stored e' s1 of (r', s2) \<Rightarrow> (r', (db, s2)))"
proof -
  obtain e' where fin: "finish_unit (Inl e :: (source_file \<times> db) outcome) db = (Inl e', db)"
    using finish_unit_simps(2) by blast
  show ?thesis
    by (rule that [of "quota_error e'"])
       (simp only: upload_source_file_def fst_conv snd_conv assms prod.case fin and_then_simps sum.case)
qed

context file_storage
begin

lemma compensate_contents:
  assumes "compensate pv stored e s = (r, s')"
  shows "contents s' j = contents s j \<or> stored = Some j"
proof (cases stored)
  case (Some k)
  with assms delete_keeps_others [of j k s] show ?thesis by (auto simp: compensate_def split: prod.splits sum.splits)
qed (use assms in \<open>simp add: compensate_def\<close>)

lemma upload_body_store:
  assumes "upload_body pv now fid tenant rid ty u db s = (body, stored, s1)" and "fresh s"
  obtains "stored = None" "contents s1 = contents s"
  | x where "pv_save pv u (uuid_text (tc_organization_id tenant)) s = (Inr x, s1)" "stored = Some (sto_storage_key x)"
  using assms save_failed [OF assms(2), of u "uuid_text (tc_organization_id tenant)"]
  by (auto simp: upload_body_def Let_def split: sum.splits if_splits prod.splits)

lemma upload_backed:
  assumes b: "backed inside (contents s) db" and fresh: "fresh s"
    and good: "\<And>x s'. pv_save pv u (uuid_text (tc_organization_id tenant)) s = (Inr x, s') \<Longrightarrow>
      inside (sto_storage_key x) (uuid_text (tc_organization_id tenant)) = Inr True \<and> length (sto_checksum_sha256 x) = 64"
    and route: "upload_source_file pv now fid tenant rid ty u (db, s) = (r, db', s')"
  shows "backed inside (contents s') db'"
proof -
  obtain body stored s1 where body: "upload_body pv now fid tenant rid ty u db s = (body, stored, s1)"
    by (metis prod.collapse)
  have kept: "k \<in> set (stored_keys db) \<Longrightarrow> contents s1 k = contents s k \<and> stored \<noteq> Some k" for k
    using body fresh
  proof (rule upload_body_store)
    fix x
    assume k: "k \<in> set (stored_keys db)" and save: "pv_save pv u (uuid_text (tc_organization_id tenant)) s = (Inr x, s1)"
      and "stored = Some (sto_storage_key x)"
    then show ?thesis
      using backed_stored [OF b k] save_keeps [OF fresh, of k u "uuid_text (tc_organization_id tenant)"]
        saved_fresh [OF fresh save] by auto
  qed auto
  show ?thesis
  proof (cases body)
    case (Inl e)
    obtain e' where "upload_source_file pv now fid tenant rid ty u (db, s) =
        (case compensate pv stored e' s1 of (r', s2) \<Rightarrow> (r', (db, s2)))"
      by (rule upload_failed [OF body [unfolded Inl]])
    with route have db': "db' = db" and s': "compensate pv stored e' s1 = (r, s')"
      by (auto split: prod.splits)
    have "contents s' k = contents s k" if "k \<in> set (stored_keys db)" for k
      using compensate_contents [OF s', of k] kept [OF that] by simp
    with backed_contents [OF b] show ?thesis by (simp add: db')
  next
    case (Inr p)
    obtain f db2 where p: "p = (f, db2)" by (cases p)
    from body [unfolded Inr p] obtain r0 x db1 og where
      run: "get_run rid (Some (tc_organization_id tenant)) db = Inr r0"
      and save: "pv_save pv u (uuid_text (tc_organization_id tenant)) s = (Inr x, s1)" "stored = Some (sto_storage_key x)"
      and add: "add_source_file now fid rid ty (sto_original_filename x) (sto_checksum_sha256 x)
        (sto_size_bytes x) (Some (sto_content_type x)) None (Some (sto_storage_key x)) db = Inr (f, db1)"
      and delta: "apply_storage_delta (tc_organization_id tenant) (sto_size_bytes x) db1 = Inr (og, db2)"
      by (rule upload_body_Inr)
    obtain m where "file_response f = Inr m" using new_file_response [OF add] good [OF save(1)] by blast
    with route body Inr p have eqs: "db' = db2" "s' = s1" by (auto simp: upload_source_file_def finish_unit_simps(1))
    obtain bytes where bytes: "contents s1 = (contents s)(sto_storage_key x \<mapsto> bytes)"
        "sto_size_bytes x = int (length bytes)"
      using saved [OF save(1)] by blast
    note f = add_source_file_Inr [OF add]
    have "backed inside (contents s1) db" using backed_contents [OF b, of "contents s1"] kept by blast
    then have "backed inside (contents s1) db1"
    proof (rule backed_added [OF _ f(1) f(5)])
      show "sto_storage_key x \<notin> set (stored_keys db)" using kept save(2) by blast
      show "contents s1 (sto_storage_key x) = Some bytes" by (simp add: bytes)
      show "file_size_bytes f = int (length bytes)" using f(4) bytes(2) by simp
      show "run_of_tenant (file_run_id f) (tc_organization_id tenant) db" using get_run_tenant [OF run] f(2) by simp
      show "inside (sto_storage_key x) (uuid_text (tc_organization_id tenant)) = Inr True" using good [OF save(1)] by blast
    qed
    then show ?thesis using backed_db [of inside "contents s1" db1 db2] file_rows_kept [OF delta] by (simp add: eqs)
  qed
qed

end

lemma finalize_failed:
  assumes "finalize_body pv now fid eid tenant rid q s db = (Inl e, owned)"
  obtains e' stored where "finalize_direct_upload pv now fid eid tenant rid q (db, s) =
      (case compensate pv stored e' s of (r', s') \<Rightarrow> (r', (db, s')))"
    and "stored = None \<or> owned \<and> stored = Some (fq_storage_key q)"
proof -
  obtain e1 where fin: "finish_unit (Inl e :: (source_file \<times> db) outcome) db = (Inl e1, db)"
    using finish_unit_simps(2) by blast
  obtain e2 removing where err: "finalize_error e1 = (e2, removing)" by (cases "finalize_error e1")
  show ?thesis
    by (rule that [of "if owned \<and> removing then Some (fq_storage_key q) else None" e2])
       (simp_all only: finalize_direct_upload_def fst_conv snd_conv assms prod.case fin and_then_simps sum.case err split: if_split, auto)
qed

lemma finalize_done:
  assumes "finalize_body pv now fid eid tenant rid q s db = (Inr (f, db'), owned)"
  obtains e' stored where "finalize_direct_upload pv now fid eid tenant rid q (db, s) =
      (case file_response f of Inr m \<Rightarrow> (Inr m, (db', s))
       | Inl e \<Rightarrow> (case compensate pv stored e' s of (r', s') \<Rightarrow> (r', (db', s'))))"
    and "owned \<or> stored = None"
proof (cases "file_response f")
  case (Inl e)
  obtain e2 removing where err: "finalize_error e = (e2, removing)" by (cases "finalize_error e")
  show ?thesis
    by (rule that [of "if owned \<and> removing then Some (fq_storage_key q) else None" e2])
       (simp_all add: finalize_direct_upload_def assms finish_unit_simps Inl err)
next
  case (Inr m)
  show ?thesis
    by (rule that [of None undefined]) (simp_all add: finalize_direct_upload_def assms finish_unit_simps Inr)
qed

lemma finalize_owned:
  assumes "finalize_body pv now fid eid tenant rid q s db = (body, True)"
  shows "find_by_storage_key (fq_storage_key q) (tc_organization_id tenant) db = None"
    and "pv_belongs_to_namespace pv (fq_storage_key q) (uuid_text (tc_organization_id tenant)) = Inr True"
    and "run_of_tenant rid (tc_organization_id tenant) db"
  using assms
  by (auto simp: finalize_body_def and_then_Inr_iff guard_else_Inr_iff get_run_tenant split: option.splits sum.splits)

text \<open>No key lies in the namespaces of two tenants that have runs.\<close>

definition namespaces_apart :: "(string \<Rightarrow> string \<Rightarrow> bool outcome) \<Rightarrow> db \<Rightarrow> bool" where
  "namespaces_apart inside db \<longleftrightarrow>
     (\<forall>a \<in> set (map run_organization_id (runs db)). \<forall>b \<in> set (map run_organization_id (runs db)). \<forall>k.
        inside k (uuid_text a) = Inr True \<longrightarrow> inside k (uuid_text b) = Inr True \<longrightarrow> a = b)"

lemma key_unreferenced:
  assumes "backed inside contents db" and "namespaces_apart inside db" and "run_of_tenant rid org db"
    and "find_by_storage_key k org db = None" and "inside k (uuid_text org) = Inr True"
  shows "k \<notin> set (stored_keys db)"
proof
  assume "k \<in> set (stored_keys db)"
  then obtain f where f: "f \<in> set (source_files db)" "file_storage_key f = Some k" by (auto simp: in_stored_keys)
  with assms(1) obtain o' where o': "run_of_tenant (file_run_id f) o' db" "inside k (uuid_text o') = Inr True"
    by (auto simp: backed_def object_for_def)
  have "o' \<in> set (map run_organization_id (runs db))" "org \<in> set (map run_organization_id (runs db))"
    using o'(1) assms(3) by (auto simp: run_of_tenant_def list_ex_iff)
  with assms(2,5) o'(2) have "o' = org" unfolding namespaces_apart_def by blast
  with f o'(1) assms(4) show False by (auto simp: find_by_storage_key_def find_None_iff)
qed

text \<open>With its organization, actor and event in order, forgetting a file does not fail.\<close>

lemma forget_total:
  assumes "storage_ok db" and "tc_organization_id tenant \<in> set (map org_id (organizations db))"
    and "tc_user_id tenant \<in> set (map user_id (users db))" and "eid \<notin> set (map sec_id (security_events db))"
    and "0 \<le> file_size_bytes f"
  shows "\<exists>db'. forget_file now eid tenant f db = Inr ((), db') \<and>
    source_files db' = source_files (remove_source_file f db) \<and> runs db' = runs db"
proof -
  let ?org = "tc_organization_id tenant"
  obtain og where og: "get_organization ?org (remove_source_file f db) = Inr og"
  proof -
    have "find (\<lambda>r. org_id r = ?org) (organizations db) \<noteq> None" using assms(2) by (auto simp: find_None_iff)
    then show ?thesis using that by (auto simp: get_organization_def remove_source_file_def)
  qed
  then have within: "organization_within_quota og"
    using get_organization_within [of db] assms(1) by (simp add: get_organization_def remove_source_file_def)
  define updated where "updated = max 0 (org_storage_used_bytes og - file_size_bytes f)"
  define db1 where "db1 = (remove_source_file f db)
    \<lparr> organizations := put_row org_id (og \<lparr> org_storage_used_bytes := updated \<rparr>) (organizations db) \<rparr>"
  have "organization_row_ok (og \<lparr> org_storage_used_bytes := updated \<rparr>)"
    using within by (simp add: organization_within_quota_def organization_row_ok_def updated_def)
  moreover have "case org_storage_quota_bytes og of None \<Rightarrow> True | Some q \<Rightarrow> updated \<le> q"
    using within assms(5)
    by (auto simp: organization_within_quota_def organization_row_ok_def updated_def split: option.splits)
  moreover have "organizations (remove_source_file f db) = organizations db" by (simp add: remove_source_file_def)
  ultimately have "apply_storage_delta ?org (- file_size_bytes f) (remove_source_file f db) =
      Inr (og \<lparr> org_storage_used_bytes := updated \<rparr>, db1)"
    unfolding db1_def updated_def by (simp add: apply_storage_delta_def og Let_def save_organization_def)
  moreover have "map org_id (organizations db1) = map org_id (organizations db)" "users db1 = users db"
    "security_events db1 = security_events db" "source_files db1 = source_files (remove_source_file f db)" "runs db1 = runs db"
    by (simp_all add: db1_def remove_source_file_def)
  ultimately show ?thesis
    using assms(2-4) by (simp del: set_map add: forget_file_def append_security_event_def Let_def)
qed

context file_storage
begin

lemma finalize_backed:
  assumes b: "backed inside (contents s) db" and apart: "namespaces_apart inside db"
    and ins: "pv_belongs_to_namespace pv = inside"
    and good: "\<And>bytes n k x. pv_inspect_materialized pv bytes n k = Inr x \<Longrightarrow> length (sto_checksum_sha256 x) = 64"
    and route: "finalize_direct_upload pv now fid eid tenant rid q (db, s) = (r, db', s')"
  shows "backed inside (contents s') db'"
proof -
  obtain body owned where body: "finalize_body pv now fid eid tenant rid q s db = (body, owned)"
    by (metis prod.collapse)
  have unreferenced: "fq_storage_key q \<notin> set (stored_keys db)" if owned
    using finalize_owned [of pv now fid eid tenant rid q s db body] body that ins
      key_unreferenced [OF b apart, of rid "tc_organization_id tenant" "fq_storage_key q"] by simp
  show ?thesis
  proof (cases body)
    case (Inl e)
    from body [unfolded Inl] obtain e' stored where
      "finalize_direct_upload pv now fid eid tenant rid q (db, s) =
        (case compensate pv stored e' s of (r', s') \<Rightarrow> (r', (db, s')))"
      and stored: "stored = None \<or> owned \<and> stored = Some (fq_storage_key q)"
      by (rule finalize_failed)
    with route have db': "db' = db" and s': "compensate pv stored e' s = (r, s')" by (auto split: prod.splits)
    have "contents s' k = contents s k" if "k \<in> set (stored_keys db)" for k
      using compensate_contents [OF s', of k] stored unreferenced that by auto
    with backed_contents [OF b] show ?thesis by (simp add: db')
  next
    case (Inr p)
    obtain f db2 where p: "p = (f, db2)" by (cases p)
    note ended = body [unfolded Inr p]
    from ended obtain e' stored where eq: "finalize_direct_upload pv now fid eid tenant rid q (db, s) =
        (case file_response f of Inr m \<Rightarrow> (Inr m, (db2, s))
         | Inl e \<Rightarrow> (case compensate pv stored e' s of (r', s') \<Rightarrow> (r', (db2, s'))))"
      and stored: "owned \<or> stored = None"
      by (rule finalize_done)
    from ended show ?thesis
    proof (rule finalize_body_Inr)
      assume "db2 = db" "\<not> owned"
      with eq stored route have "db' = db" "s' = s" by (auto simp: compensate_def split: sum.splits)
      with b show ?thesis by simp
    next
      fix x
      assume mine: "run_of_tenant rid (tc_organization_id tenant) db" and verify: "verify_object pv q s = Inr x"
        and "record_upload now fid eid tenant rid q x db = Inr (f, db2)" and owned
        and inside: "pv_belongs_to_namespace pv (fq_storage_key q) (uuid_text (tc_organization_id tenant)) = Inr True"
      from this(3) show ?thesis
      proof (rule record_upload_Inr)
        fix db1 og db3 e
        assume add: "add_source_file now fid rid (fq_source_type q) (sto_original_filename x) (sto_checksum_sha256 x)
            (sto_size_bytes x) (Some (sto_content_type x)) None (Some (fq_storage_key q)) db = Inr (f, db1)"
          and delta: "apply_storage_delta (tc_organization_id tenant) (sto_size_bytes x) db1 = Inr (og, db3)"
          and db2: "db2 = db3 \<lparr> security_events := security_events db3 @ [e] \<rparr>"
        from verify obtain bytes where bytes: "pv_materialize pv (fq_storage_key q) s = Inr bytes"
          "pv_inspect_materialized pv bytes (fq_original_filename q) (fq_storage_key q) = Inr x"
          by (auto simp: verify_object_def and_then_Inr_iff)
        note f = add_source_file_Inr [OF add]
        have "\<exists>m. file_response f = Inr m" using new_file_response [OF add] good [OF bytes(2)] by blast
        with eq route have eqs: "db' = db2" "s' = s" by auto
        have "backed inside (contents s) db1"
          using b f(1) f(5) unreferenced [OF \<open>owned\<close>] materialized [OF bytes(1)]
        proof (rule backed_added)
          show "file_size_bytes f = int (length bytes)" using f(4) inspected [OF bytes(2)] by simp
          show "run_of_tenant (file_run_id f) (tc_organization_id tenant) db" using mine f(2) by simp
          show "inside (fq_storage_key q) (uuid_text (tc_organization_id tenant)) = Inr True" using inside ins by simp
        qed
        then show ?thesis
          using backed_db [of inside "contents s" db1 db2] file_rows_kept [OF delta] by (simp add: eqs db2)
      qed
    qed
  qed
qed

lemma delete_stored_contents:
  assumes "delete_stored pv tenant f s = (r, s')"
  shows "file_storage_key f \<noteq> Some k \<Longrightarrow> contents s' k = contents s k" and "r = Inl e \<Longrightarrow> contents s' = contents s"
proof -
  have "(case file_storage_key f of None \<Rightarrow> s' = s
      | Some j \<Rightarrow> s' = s \<or> (\<exists>o'. pv_delete pv j s = (o', s') \<and> (o' = Inr () \<longrightarrow> r = Inr ())))"
    using assms
    by (auto simp: delete_stored_def on_error_def and_also_def lift_outcome_def raising_def
        split: option.splits sum.splits if_splits prod.splits)
  then consider "s' = s" | j o' where "file_storage_key f = Some j" "pv_delete pv j s = (o', s')" "o' = Inr () \<longrightarrow> r = Inr ()"
    by (auto split: option.splits)
  then have "(file_storage_key f \<noteq> Some k \<longrightarrow> contents s' k = contents s k) \<and> (r = Inl e \<longrightarrow> contents s' = contents s)"
  proof cases
    case (2 j o')
    then show ?thesis
      using delete_keeps_others [of k j s] delete_failed [of j s _ s'] by (cases o') auto
  qed auto
  then show "file_storage_key f \<noteq> Some k \<Longrightarrow> contents s' k = contents s k" and "r = Inl e \<Longrightarrow> contents s' = contents s"
    by blast+
qed

lemma delete_backed:
  assumes b: "backed inside (contents s) db" and tables: "file_tables_ok db" and ok: "storage_ok db"
    and actors: "tc_organization_id tenant \<in> set (map org_id (organizations db))"
      "tc_user_id tenant \<in> set (map user_id (users db))" "eid \<notin> set (map sec_id (security_events db))"
    and route: "delete_source_file pv now eid tenant fid (db, s) = (r, db', s')"
  shows "backed inside (contents s') db'"
proof -
  obtain body s1 where body: "delete_body pv now eid tenant fid db s = (body, s1)" by (metis prod.collapse)
  with route have s': "s' = s1" and fin: "finish_unit body db = (r, db')"
    by (auto simp: delete_source_file_def split: prod.splits)
  show ?thesis
  proof (cases body)
    case (Inl e)
    with fin have db': "db' = db" by (metis finish_unit_simps(2) prod.inject)
    have total: "\<exists>db'. forget_file now eid tenant f db = Inr ((), db')"
      if "find_source_file fid (Some (tc_organization_id tenant)) db = Some f" for f
    proof -
      have "0 \<le> file_size_bytes f"
        using find_source_file_Some [OF that] tables
        by (auto simp: file_tables_ok_def files_wf_def list_all_iff source_file_row_ok_def)
      from forget_total [OF ok actors this] show ?thesis by blast
    qed
    from body Inl have "s1 = s \<or> (\<exists>f e2. delete_stored pv tenant f s = (Inl e2, s1))"
      by (auto simp: delete_body_def dest!: total split: option.splits sum.splits prod.splits)
    then have "contents s1 = contents s" using delete_stored_contents(2) by blast
    with b show ?thesis by (simp add: s' db')
  next
    case (Inr p)
    obtain db2 where p: "p = ((), db2)" by (cases p) simp
    with fin Inr have db': "db' = db2" by (simp add: finish_unit_simps)
    from body [unfolded Inr p] show ?thesis
    proof (rule delete_body_Inr)
      fix f r'
      assume found: "find_source_file fid (Some (tc_organization_id tenant)) db = Some f"
        and gone: "delete_stored pv tenant f s = (Inr (), s1)" and forget: "forget_file now eid tenant f db = Inr ((), db2)"
      have f: "f \<in> set (source_files db)" using find_source_file_Some [OF found] by simp
      with tables have "0 \<le> file_size_bytes f" "distinct (map file_id (source_files db))"
        by (auto simp: file_tables_ok_def files_wf_def list_all_iff source_file_row_ok_def)
      with forget_total [OF ok actors] forget have "source_files db2 = source_files (remove_source_file f db)" "runs db2 = runs db"
        by (metis Inr_inject prod.inject)+
      moreover have "backed inside (contents s1) (remove_source_file f db)"
        using b f \<open>distinct _\<close> delete_stored_contents(1) [OF gone] by (rule backed_removed)
      ultimately show ?thesis
        using backed_db [of inside "contents s1" "remove_source_file f db" db2] by (simp add: s' db' remove_source_file_def)
    qed (use b in \<open>simp_all add: s' db'\<close>)
  qed
qed

end

section \<open>Every file request on the local storage\<close>

text \<open>What a request keeps besides: the runs, and the quotas.\<close>

lemma delta_storage_ok:
  assumes "apply_storage_delta org delta db1 = Inr (og, db2)" and "storage_ok db1"
  shows "storage_ok db2"
proof -
  have "storage_ok (snd (unit_of_work (apply_storage_delta org delta) db1))"
    using serve_storage_ok [of db1 "StorageDelta org delta"] assms(2) by simp
  then show ?thesis by (simp add: unit_of_work_def assms(1))
qed

lemma add_source_file_runs:
  "add_source_file now fid rid ty n c sz t rc k db = Inr (f, db1) \<Longrightarrow> runs db1 = runs db \<and> organizations db1 = organizations db"
  by (auto dest: add_source_file_Inr(1))

definition same_scene :: "db \<Rightarrow> db \<Rightarrow> bool" where
  "same_scene db db' \<longleftrightarrow> runs db' = runs db \<and> (storage_ok db \<longrightarrow> storage_ok db')"

lemma record_scene:
  assumes "add_source_file now fid rid ty n c sz t rc k db = Inr (f, db1)"
    and "apply_storage_delta org sz db1 = Inr (og, db2)"
  shows "same_scene db db2"
  using add_source_file_runs [OF assms(1)] file_rows_kept(2) [OF assms(2)] delta_storage_ok [OF assms(2)]
  by (simp add: same_scene_def storage_ok_def)

lemma scene_event: "same_scene db db2 \<Longrightarrow> same_scene db (db2 \<lparr> security_events := es \<rparr>)"
  by (simp add: same_scene_def storage_ok_def)

lemma forget_scene: "forget_file now eid tenant f db = Inr (u, db') \<Longrightarrow> same_scene db db'"
  using delta_storage_ok file_rows_kept(2)
  by (fastforce simp: forget_file_def and_then_Inr_iff same_scene_def storage_ok_def remove_source_file_def
      dest!: append_security_Inr(1))

lemma same_scene_refl: "same_scene db db"
  by (simp add: same_scene_def)

lemma serve_file_scene: "same_scene (fst st) (fst (serve_file pv q st))"
proof (cases q)
  case (Upload now fid tenant rid ty u)
  have "same_scene (fst st) (snd (finish_unit (fst (upload_body pv now fid tenant rid ty u (fst st) (snd st))) (fst st)))"
  proof (rule finish_unit_preserves [where P = "same_scene (fst st)", OF same_scene_refl])
    fix f db'
    assume "fst (upload_body pv now fid tenant rid ty u (fst st) (snd st)) = Inr (f, db')"
    then obtain stored s' where "upload_body pv now fid tenant rid ty u (fst st) (snd st) = (Inr (f, db'), stored, s')"
      by (metis prod.collapse)
    then show "same_scene (fst st) db'" by (rule upload_body_Inr) (rule record_scene)
  qed
  then show ?thesis using upload_db [of pv now fid tenant rid ty u "fst st" "snd st"] by (simp add: Upload)
next
  case (DeleteFile now eid tenant fid)
  have "same_scene (fst st) (snd (finish_unit (fst (delete_body pv now eid tenant fid (fst st) (snd st))) (fst st)))"
  proof (rule finish_unit_preserves [where P = "same_scene (fst st)", OF same_scene_refl])
    fix u db'
    assume "fst (delete_body pv now eid tenant fid (fst st) (snd st)) = Inr (u, db')"
    then obtain s' where "delete_body pv now eid tenant fid (fst st) (snd st) = (Inr (u, db'), s')"
      by (metis prod.collapse)
    then show "same_scene (fst st) db'" by (rule delete_body_Inr) (simp_all add: same_scene_refl forget_scene)
  qed
  then show ?thesis using delete_db [of pv now eid tenant fid "fst st" "snd st"] by (simp add: DeleteFile)
next
  case (PresignUpload now eid ttl tenant rid p)
  then show ?thesis
    using presign_upload_db [of pv now eid ttl tenant rid p "fst st"] by (auto simp: scene_event same_scene_refl)
next
  case (PresignDownload now eid ttl tenant fid)
  then show ?thesis
    using presign_download_db [of pv now eid ttl tenant fid "snd st" "fst st"] by (auto simp: scene_event same_scene_refl)
next
  case (Finalize now fid eid tenant rid q')
  have "same_scene (fst st) (snd (finish_unit (fst (finalize_body pv now fid eid tenant rid q' (snd st) (fst st))) (fst st)))"
  proof (rule finish_unit_preserves [where P = "same_scene (fst st)", OF same_scene_refl])
    fix f db'
    assume "fst (finalize_body pv now fid eid tenant rid q' (snd st) (fst st)) = Inr (f, db')"
    then obtain owned where "finalize_body pv now fid eid tenant rid q' (snd st) (fst st) = (Inr (f, db'), owned)"
      by (metis prod.collapse)
    then show "same_scene (fst st) db'"
    proof (rule finalize_body_Inr)
      fix x
      assume "record_upload now fid eid tenant rid q' x (fst st) = Inr (f, db')"
      then show ?thesis by (rule record_upload_Inr) (simp add: scene_event record_scene)
    qed (simp add: same_scene_refl)
  qed
  then show ?thesis using finalize_db [of pv now fid eid tenant rid q' "fst st" "snd st"] by (simp add: Finalize)
qed

text \<open>
  Keys of the local storage: the prefixes of the tenants' namespaces are SHA-256 values cut to
  16 digits, which are relied on to differ.
\<close>

definition prefixes_differ :: "(string \<Rightarrow> string) \<Rightarrow> db \<Rightarrow> bool" where
  "prefixes_differ sha db \<longleftrightarrow>
     inj_on (\<lambda>org. namespace_prefix sha (uuid_text org)) (set (map run_organization_id (runs db)))"

lemma local_apart:
  assumes "hex_digest sha" and "prefixes_differ sha db"
  shows "namespaces_apart (belongs_to_namespace sha) db"
  unfolding namespaces_apart_def
proof (intro ballI allI impI)
  fix a b k
  assume ab: "a \<in> set (map run_organization_id (runs db))" "b \<in> set (map run_organization_id (runs db))"
    and k: "belongs_to_namespace sha k (uuid_text a) = Inr True" "belongs_to_namespace sha k (uuid_text b) = Inr True"
  have len: "length (namespace_prefix sha t) = 16" for t
    using assms(1) by (simp add: namespace_prefix_def hex_digest_def)
  have "take 16 k = namespace_prefix sha t" if "belongs_to_namespace sha k t = Inr True" for t
    using that len [of t] by (auto simp: belongs_to_namespace_def and_then_Inr_iff starts_with_iff)
  from this [OF k(1)] this [OF k(2)] ab assms(2) show "a = b"
    unfolding prefixes_differ_def by (metis (mono_tags, lifting) inj_onD)
qed

lemma uuid_text_nonempty: "uuid_text i \<noteq> []"
  by (simp add: uuid_text_def Let_def)

text \<open>
  What a request may rely on: one hash on every disk, an unused identifier for the key of an
  upload, and for a deletion an existing actor and an unused identifier of the event.
\<close>

fun in_order :: "(string \<Rightarrow> string) \<Rightarrow> (disk \<times> disk \<times> disk) \<times> file_request \<Rightarrow> db \<times> directory \<Rightarrow> bool" where
  "in_order sha ((a, b, c), q) st \<longleftrightarrow>
     dk_sha a = sha \<and> dk_sha b = sha \<and>
     (case q of
        Upload _ _ _ _ _ _ \<Rightarrow> unused_name a (snd st)
      | DeleteFile now eid tenant fid \<Rightarrow>
          tc_organization_id tenant \<in> set (map org_id (organizations (fst st))) \<and>
          tc_user_id tenant \<in> set (map user_id (users (fst st))) \<and>
          eid \<notin> set (map sec_id (security_events (fst st)))
      | _ \<Rightarrow> True)"

fun serve_local :: "(disk \<times> disk \<times> disk) \<times> file_request \<Rightarrow> db \<times> directory \<Rightarrow> db \<times> directory" where
  "serve_local ((a, b, c), q) st = serve_file (local_provider a b c) q st"

fun all_in_order :: "(string \<Rightarrow> string) \<Rightarrow> ((disk \<times> disk \<times> disk) \<times> file_request) list \<Rightarrow> db \<times> directory \<Rightarrow> bool" where
  "all_in_order sha [] st = True"
| "all_in_order sha (p # ps) st = (in_order sha p st \<and> all_in_order sha ps (serve_local p st))"

definition consistent :: "(string \<Rightarrow> string) \<Rightarrow> db \<times> directory \<Rightarrow> bool" where
  "consistent sha st \<longleftrightarrow>
     backed (belongs_to_namespace sha) (local_contents (snd st)) (fst st) \<and> balanced (fst st) \<and>
     storage_ok (fst st) \<and> prefixes_differ sha (fst st)"

lemma serve_local_backed:
  assumes hex: "hex_digest sha" and c: "consistent sha st" and ord: "in_order sha p st"
  shows "backed (belongs_to_namespace sha) (local_contents (snd (serve_local p st))) (fst (serve_local p st))"
proof -
  obtain a b d q where p: "p = ((a, b, d), q)" by (metis prod.collapse)
  obtain db s where st: "st = (db, s)" by (cases st)
  let ?pv = "local_provider a b d"
  from c have bk: "backed (belongs_to_namespace sha) (local_contents s) db" and tables: "file_tables_ok db"
    and ok: "storage_ok db" and apart: "namespaces_apart (belongs_to_namespace sha) db"
    using local_apart [OF hex] by (auto simp: consistent_def balanced_def st)
  from ord have sha: "dk_sha a = sha" "dk_sha b = sha" by (simp_all add: p)
  show ?thesis
  proof (cases q)
    case (Upload now fid tenant rid ty u)
    obtain r db' s' where route: "upload_source_file ?pv now fid tenant rid ty u (db, s) = (r, db', s')"
      by (metis prod.collapse)
    have "backed (belongs_to_namespace sha) (local_contents s') db'"
    proof (rule local.upload_backed [OF bk _ _ route])
      show "unused_name a s" using ord by (simp add: p st Upload)
      fix x s1
      assume "pv_save ?pv u (uuid_text (tc_organization_id tenant)) s = (Inr x, s1)"
      then have "save_upload a u (Some (uuid_text (tc_organization_id tenant))) s = (Inr x, s1)"
        by (simp add: local_provider_def)
      then show "belongs_to_namespace sha (sto_storage_key x) (uuid_text (tc_organization_id tenant)) = Inr True \<and>
          length (sto_checksum_sha256 x) = 64"
        by (rule save_upload_Inr)
           (use hex sha new_key_belongs [of a _ "uuid_text (tc_organization_id tenant)"] validated_filename_safe(1) uuid_text_nonempty
             in \<open>auto simp: describe_def hex_digest_def\<close>)
    qed
    then show ?thesis by (simp add: p st Upload route)
  next
    case (DeleteFile now eid tenant fid)
    obtain r db' s' where route: "delete_source_file ?pv now eid tenant fid (db, s) = (r, db', s')"
      by (metis prod.collapse)
    have "backed (belongs_to_namespace sha) (local_contents s') db'"
      using ord by (intro local.delete_backed [OF bk tables ok _ _ _ route]) (simp_all add: p st DeleteFile)
    then show ?thesis by (simp add: p st DeleteFile route)
  next
    case (PresignUpload now eid ttl tenant rid q')
    show ?thesis
      using presign_upload_db [of ?pv now eid ttl tenant rid q' db] by (auto simp: p st PresignUpload intro: backed_db [OF bk])
  next
    case (PresignDownload now eid ttl tenant fid)
    show ?thesis
      using presign_download_db [of ?pv now eid ttl tenant fid s db]
      by (auto simp: p st PresignDownload intro: backed_db [OF bk])
  next
    case (Finalize now fid eid tenant rid q')
    obtain r db' s' where route: "finalize_direct_upload ?pv now fid eid tenant rid q' (db, s) = (r, db', s')"
      by (metis prod.collapse)
    have "backed (belongs_to_namespace sha) (local_contents s') db'"
    proof (rule local.finalize_backed [OF bk apart _ _ route])
      show "pv_belongs_to_namespace ?pv = belongs_to_namespace sha" by (simp add: local_provider_def sha)
      fix bytes n k x
      assume "pv_inspect_materialized ?pv bytes n k = Inr x"
      then show "length (sto_checksum_sha256 x) = 64"
        using hex by (auto simp: local_provider_def inspect_materialized_def describe_def and_then_Inr_iff sha hex_digest_def)
    qed
    then show ?thesis by (simp add: p st Finalize route)
  qed
qed

lemma serve_local_consistent:
  "hex_digest sha \<Longrightarrow> consistent sha st \<Longrightarrow> in_order sha p st \<Longrightarrow> consistent sha (serve_local p st)"
  using serve_local_backed [of sha st p] serve_file_scene serve_file_balanced
  by (cases p) (fastforce simp: consistent_def same_scene_def prefixes_differ_def)

lemma serve_all_consistent:
  assumes "hex_digest sha"
  shows "consistent sha st \<Longrightarrow> all_in_order sha ps st \<Longrightarrow> consistent sha (fold serve_local ps st)"
  by (induction ps arbitrary: st) (simp_all add: serve_local_consistent [OF assms])

lemma filter_single: "distinct xs \<Longrightarrow> k \<in> set xs \<Longrightarrow> filter (\<lambda>j. j = k) xs = [k]"
  by (induction xs) (auto simp: filter_empty_conv)

section \<open>Properties\<close>

definition depot_org :: organization where
  "depot_org =
     \<lparr> org_id = 1, org_name = ''Acme'', org_slug = ''acme'', org_is_active = True,
       org_storage_quota_bytes = Some 100, org_storage_used_bytes = 0, org_hosted_ai_enabled = False,
       org_ai_daily_request_limit = 100, org_ai_monthly_request_limit = 1000, org_ai_daily_token_limit = 100000,
       org_ai_monthly_token_limit = 1000000, org_created_at = 0 \<rparr>"

definition depot_user :: user where
  "depot_user =
     \<lparr> user_id = 5, user_email = ''ann@acme.test'', user_password_hash = ''h'', user_display_name = None,
       user_is_active = True, user_failed_login_attempts = 0, user_locked_until = None, user_created_at = 0 \<rparr>"

definition depot_run :: run where
  "depot_run =
     \<lparr> run_id = 3, run_organization_id = 1, run_status = RUN_PENDING, run_started_at = None, run_finished_at = None,
       run_error_code = None, run_error_message = None, run_created_at = 0 \<rparr>"

definition depot_db :: db where
  "depot_db = empty_db \<lparr> organizations := [depot_org], users := [depot_user], runs := [depot_run] \<rparr>"

definition depot_tenant :: tenant_context where
  "depot_tenant = \<lparr> tc_organization_id = 1, tc_user_id = 5, tc_role = ANALYST \<rparr>"

definition depot_disks :: "disk \<times> disk \<times> disk" where
  "depot_disks = (sample_disk, sample_disk, sample_disk)"

definition depot_upload :: file_request where
  "depot_upload = Upload 10 8 depot_tenant 3 BANK_TRANSACTIONS sample_upload"

definition depot_delete :: file_request where
  "depot_delete = DeleteFile 20 9 depot_tenant 8"

lemma depot_accounts: "accounted depot_db \<and> file_tables_ok depot_db"
  by (simp add: depot_db_def empty_db_def depot_org_def accounted_def total_stored_size_def file_tables_ok_def files_wf_def)

lemma depot_consistent: "consistent (dk_sha sample_disk) (depot_db, [])"
proof -
  have "storage_ok depot_db" by code_simp
  then show ?thesis using depot_accounts
    by (simp add: consistent_def balanced_def backed_def stored_keys_def prefixes_differ_def depot_db_def empty_db_def
        List.map_filter_def)
qed

text \<open>
  C13: The storage counter of every organization is the sum of the sizes of its files: it stays
  so through any sequence of uploads, deletions, finalizations and issued links, whatever
  provider serves them and whether they succeed or fail.
\<close>

theorem file_requests_keep_accounts:
  assumes "accounted db" and "file_tables_ok db"
  shows "accounted (fst (serve_files qs (db, s)))"
proof -
  have "balanced (fst (serve_files qs st))" if "balanced (fst st)" for st
    using that by (induction qs arbitrary: st) (auto simp: serve_files_def serve_file_balanced split: prod.split)
  with assms show ?thesis by (simp add: balanced_def)
qed

theorem file_requests_keep_accounts_witness:
  "accounted (fst (serve_files [(local_provider sample_disk sample_disk sample_disk, depot_upload)] (depot_db, []))) \<and>
   map org_storage_used_bytes (organizations
     (fst (serve_files [(local_provider sample_disk sample_disk sample_disk, depot_upload)] (depot_db, [])))) = [9]"
proof
  show "accounted (fst (serve_files [(local_provider sample_disk sample_disk sample_disk, depot_upload)] (depot_db, [])))"
    using depot_accounts by (intro file_requests_keep_accounts) simp_all
  show "map org_storage_used_bytes (organizations
     (fst (serve_files [(local_provider sample_disk sample_disk sample_disk, depot_upload)] (depot_db, [])))) = [9]"
    by code_simp
qed

text \<open>
  C12: Rows and objects agree on the local storage.  After any sequence of file requests, of
  which some fail and compensate, every row with a key has an object under it, of the size the
  row says, and no other row uses that key.
\<close>

theorem rows_keep_their_objects:
  assumes "hex_digest sha" and "consistent sha (db, d)" and "all_in_order sha qs (db, d)"
    and "f \<in> set (source_files (fst (fold serve_local qs (db, d))))" and "file_storage_key f = Some k"
  shows "\<exists>bytes. local_contents (snd (fold serve_local qs (db, d))) k = Some bytes \<and>
      file_size_bytes f = int (length bytes) \<and>
      filter (\<lambda>j. j = k) (stored_keys (fst (fold serve_local qs (db, d)))) = [k]"
proof -
  let ?st = "fold serve_local qs (db, d)"
  have "consistent sha ?st" using assms(2,3) by (rule serve_all_consistent [OF assms(1)])
  then have b: "backed (belongs_to_namespace sha) (local_contents (snd ?st)) (fst ?st)" by (simp add: consistent_def)
  with assms(4,5) have "object_for (belongs_to_namespace sha) (local_contents (snd ?st)) (fst ?st) f k"
    by (simp add: backed_def)
  moreover have "k \<in> set (stored_keys (fst ?st))" using assms(4,5) by (auto simp: in_stored_keys)
  moreover have "distinct (stored_keys (fst ?st))" using b by (simp add: backed_def)
  ultimately show ?thesis
    by (auto simp: object_for_def filter_single)
qed

theorem rows_keep_their_objects_witness:
  "\<exists>f bytes. source_files (fst (fold serve_local [(depot_disks, depot_upload)] (depot_db, []))) = [f] \<and>
     local_contents (snd (fold serve_local [(depot_disks, depot_upload)] (depot_db, []))) (the (file_storage_key f)) = Some bytes \<and>
     file_size_bytes f = int (length bytes)"
proof -
  let ?st = "fold serve_local [(depot_disks, depot_upload)] (depot_db, [])"
  have "map (\<lambda>f. file_storage_key f \<noteq> None) (source_files (fst ?st)) = [True]" by code_simp
  then obtain f k where f: "source_files (fst ?st) = [f]" "file_storage_key f = Some k" by auto
  have "all_in_order (dk_sha sample_disk) [(depot_disks, depot_upload)] (depot_db, [])"
    by (simp add: depot_disks_def depot_upload_def unused_name_def)
  from rows_keep_their_objects [OF sample_disk_hex depot_consistent this _ f(2)] f show ?thesis by auto
qed

end
