(* ===== verification/Queue_Life.thy ===== *)
theory Queue_Life
  imports Job_Queue
begin

text \<open>
  The job queue over time: every operation of \<open>ReconciliationJobRepository\<close> as a step of one
  relation, the states reachable from an empty queue, and the properties of the queue that
  hold along every such history.
\<close>

section \<open>The queue as a step relation\<close>

text \<open>
  One step is one repository call inside a transaction that commits, or a change by another
  part of the program that leaves the queue's two tables alone.
\<close>

inductive queue_step :: "db \<Rightarrow> db \<Rightarrow> bool" where
  step_create: "create_job now jid eid org rid at_time attempts timeout priority db = Inr (r, db') \<Longrightarrow> queue_step db db'"
| step_claim: "claim_next now eid worker_id at_time scope aging locked db = Inr (r, db') \<Longrightarrow> queue_step db db'"
| step_retry: "retry_failed now eid jid org limit at_time db = Inr (r, db') \<Longrightarrow> queue_step db db'"
| step_heartbeat: "heartbeat_job now jid org worker_id at_time db = Inr (r, db') \<Longrightarrow> queue_step db db'"
| step_recover: "recover_stale now eids before at_time db = Inr (n, db') \<Longrightarrow> queue_step db db'"
| step_progress: "update_progress now eid jid org progress message at_time db = Inr (r, db') \<Longrightarrow> queue_step db db'"
| step_cancel: "request_cancellation now eid eid' jid org at_time db = Inr (r, db') \<Longrightarrow> queue_step db db'"
| step_complete: "complete_job now eid jid target org at_time code msg retry_at db = Inr (r, db') \<Longrightarrow> queue_step db db'"
| step_delete: "delete_expired_terminal cutoffs limit locked db = Inr (n, db') \<Longrightarrow> queue_step db db'"
| step_other: "jobs db' = jobs db \<Longrightarrow> job_events db' = job_events db \<Longrightarrow> queue_step db db'"

inductive queue_reachable :: "db \<Rightarrow> bool" where
  reach_init: "jobs db = [] \<Longrightarrow> job_events db = [] \<Longrightarrow> queue_reachable db"
| reach_step: "queue_reachable db \<Longrightarrow> queue_step db db' \<Longrightarrow> queue_reachable db'"

inductive_cases queue_stepE: "queue_step db db'"

lemma pick_first_None:
  "(case sort_key f xs of [] \<Rightarrow> Inr (None, db)
     | r # _ \<Rightarrow> and_then (g r) (\<lambda>d. and_then (h r d) (\<lambda>d. Inr (Some (k r), d)))) = Inr (None, db')
   \<longleftrightarrow> xs = [] \<and> db' = db"
proof (cases "sort_key f xs")
  case Nil
  then have "xs = []" by (metis length_0_conv length_sort)
  with Nil show ?thesis by auto
next
  case (Cons r rs)
  then have "xs \<noteq> []" by auto
  with Cons show ?thesis by (simp add: and_then_Inr_iff)
qed

lemma claim_next_None:
  assumes "claim_next now eid worker_id at_time scope aging locked db = Inr (None, db')"
  shows "db' = db" and "\<exists>t. utc_or now at_time = Inr t \<and> (\<forall>j \<in> set (jobs db). \<not> claimable t scope locked j)"
  using assms unfolding claim_next_def Let_def
  by (auto simp only: and_then_Inr_iff guard_else_Inr_iff pick_first_None filter_empty_conv)

lemma claim_next_invariant:
  assumes "claim_next now eid worker_id at_time scope aging locked db = Inr (r, db')" and "queue_inv db"
  shows "queue_inv db'"
proof (cases r)
  case None
  with assms(1) have "db' = db" by (auto dest: claim_next_None(1))
  with assms(2) show ?thesis by simp
next
  case (Some r')
  with assms(1) have "claim_next now eid worker_id at_time scope aging locked db = Inr (Some r', db')" by simp
  then show ?thesis by (rule claim_next_Inr) (rule changed_invariant [OF _ assms(2)])
qed

lemma queue_step_invariant: "queue_step db db' \<Longrightarrow> queue_inv db \<Longrightarrow> queue_inv db'"
proof (induction rule: queue_step.induct)
  case (step_recover now eids before at_time db n db')
  show ?case by (rule recover_stale_Inr [OF step_recover])
qed (auto dest: create_job_invariant claim_next_invariant retrying.keeps_invariant heartbeating.keeps_invariant
      progressing.keeps_invariant cancelling.keeps_invariant completing.keeps_invariant delete_expired_invariant
      simp: queue_inv_def)

lemma reachable_queue_inv: "queue_reachable db \<Longrightarrow> queue_inv db"
proof (induction rule: queue_reachable.induct)
  case (reach_init db)
  then show ?case by (simp add: queue_inv_def history_ok_def contiguous_def)
next
  case (reach_step db db')
  then show ?case by (blast intro: queue_step_invariant)
qed

section \<open>Sample queue\<close>

definition sample_job :: "uuid \<Rightarrow> uuid \<Rightarrow> job_status \<Rightarrow> job_priority \<Rightarrow> int \<Rightarrow> job" where
  "sample_job i org status priority attempts =
   \<lparr> job_id = i, job_organization_id = org, job_run_id = i + 100, job_status = status,
     job_priority = priority, job_progress_percentage = (if status = SUCCEEDED then 100 else 0),
     job_status_message = None, job_attempt_count = attempts, job_total_attempt_count = attempts,
     job_manual_retry_count = 0, job_max_attempts = 3, job_timeout_seconds = 900,
     job_deadline_at = (if leased status then Some 900000000 else None),
     job_last_manual_retry_at = None, job_scheduled_at = 0,
     job_started_at = (if status = QUEUED then None else Some 0),
     job_completed_at = (if terminal status then Some 1 else None),
     job_cancellation_requested_at = (if status \<in> {CANCEL_REQUESTED, CANCELLED} then Some 1 else None),
     job_retry_at = None, job_claimed_by = (if leased status then Some ''w'' else None),
     job_heartbeat_at = (if leased status then Some 0 else None),
     job_failure_code = None, job_failure_message = None, job_created_at = 0 \<rparr>"

definition sample_run :: "uuid \<Rightarrow> uuid \<Rightarrow> run_status \<Rightarrow> run" where
  "sample_run i org status =
   \<lparr> run_id = i, run_organization_id = org, run_status = status, run_started_at = Some 0,
     run_finished_at = None, run_error_code = None, run_error_message = None, run_created_at = 0 \<rparr>"

definition sample_queue :: "job list \<Rightarrow> db" where
  "sample_queue js = empty_db
     \<lparr> jobs := js, runs := map (\<lambda>j. sample_run (job_run_id j) (job_organization_id j) RUN_RUNNING) js \<rparr>"

lemma sample_queue_inv:
  "distinct (map job_id js) \<Longrightarrow> distinct (map job_run_id js) \<Longrightarrow> list_all job_wf js \<Longrightarrow> queue_inv (sample_queue js)"
  by (simp add: queue_inv_def sample_queue_def empty_db_def history_ok_def contiguous_def list_all_iff)

lemma sample_job_fields [simp]:
  "job_id (sample_job i org status priority n) = i" "job_organization_id (sample_job i org status priority n) = org"
  "job_run_id (sample_job i org status priority n) = i + 100" "job_status (sample_job i org status priority n) = status"
  "jobs (sample_queue js) = js" "job_events (sample_queue js) = []"
  by (simp_all add: sample_job_def sample_queue_def empty_db_def)

lemma sample_job_wf:
  "0 \<le> n \<Longrightarrow> n \<le> 3 \<Longrightarrow> (leased status \<longrightarrow> 1 \<le> n) \<Longrightarrow> job_wf (sample_job i org status priority n)"
  by (cases status) (auto simp: sample_job_def job_shapes)

section \<open>Claiming, aging and the edges of the life cycle\<close>

lemma claimed_row_ok: "job_wf r \<Longrightarrow> claimable t org locked r \<Longrightarrow> job_row_ok (claimed w t r)"
  by (auto simp: job_shapes claimed_def claimable_def)

lemma effective_priority_range: "0 \<le> effective_priority t aging j \<and> effective_priority t aging j \<le> 2"
  by (simp add: effective_priority_def Let_def)

lemma effective_priority_aged:
  "eligible_since j \<le> t - seconds (aging * 2) \<Longrightarrow> 0 \<le> aging \<Longrightarrow> effective_priority t aging j = 2"
  by (cases "job_priority j") (auto simp: effective_priority_def Let_def seconds_def)

definition life_cycle_edge :: "job_status \<Rightarrow> job_status \<Rightarrow> bool" where
  "life_cycle_edge s s' \<longleftrightarrow>
     s' = s \<or>
     (case s of
        QUEUED \<Rightarrow> s' \<in> {RUNNING, CANCELLED}
      | RUNNING \<Rightarrow> s' \<in> {SUCCEEDED, FAILED, QUEUED, CANCEL_REQUESTED}
      | CANCEL_REQUESTED \<Rightarrow> s' \<in> {CANCELLED, FAILED, QUEUED}
      | FAILED \<Rightarrow> s' = QUEUED
      | SUCCEEDED \<Rightarrow> False
      | CANCELLED \<Rightarrow> False)"

lemma changed_follows:
  assumes "changed r r' db db'" and "life_cycle_edge (job_status r) (job_status r')" and "queue_inv db"
    and "j \<in> set (jobs db)" and "j' \<in> set (jobs db')" and "job_id j' = job_id j"
  shows "life_cycle_edge (job_status j) (job_status j')"
proof -
  have d: "distinct (map job_id (jobs db))" using assms(3) by (simp add: queue_inv_def)
  have r: "r \<in> set (jobs db)" "job_id r' = job_id r" "jobs db' = put_row job_id r' (jobs db)"
    using assms(1) by (auto simp: changed_def same_job_def)
  from assms(5) r(3) consider "j' = r'" | "j' \<in> set (jobs db)" "job_id j' \<noteq> job_id r'"
    by (auto dest: in_put_row)
  then show ?thesis
  proof cases
    case 1
    then have "j = r" using assms(4,6) r d by (metis distinct_map inj_onD)
    with 1 assms(2) show ?thesis by simp
  next
    case 2
    then have "j' = j" using assms(4,6) d by (metis distinct_map inj_onD)
    then show ?thesis by (simp add: life_cycle_edge_def)
  qed
qed

lemma edges_in_life_cycle:
  "keeps_status s s' \<Longrightarrow> life_cycle_edge s s'" "cancel_edge s s' \<Longrightarrow> life_cycle_edge s s'"
  "retry_edge s s' \<Longrightarrow> life_cycle_edge s s'" "completion_edge s s' \<Longrightarrow> life_cycle_edge s s'"
  "recovery_edge s s' \<Longrightarrow> life_cycle_edge s s'"
  by (auto simp: keeps_status_def cancel_edge_def retry_edge_def completion_edge_def recovery_edge_def
      life_cycle_edge_def leased_def allowed_completions_iff split: job_status.split)

lemma unchanged_follows:
  "queue_inv db \<Longrightarrow> j \<in> set (jobs db) \<Longrightarrow> j' \<in> set (jobs db) \<Longrightarrow> job_id j' = job_id j \<Longrightarrow>
   life_cycle_edge (job_status j) (job_status j')"
proof -
  assume "queue_inv db" "j \<in> set (jobs db)" "j' \<in> set (jobs db)" "job_id j' = job_id j"
  then have "j' = j" by (auto simp: queue_inv_def distinct_map dest: inj_onD)
  then show ?thesis by (simp add: life_cycle_edge_def)
qed

section \<open>Properties of the queue\<close>

text \<open>
  C3: in every state the queue can reach, each job is well-formed (a lease exactly while it is
  running or being cancelled, a completion time exactly in the terminal states, attempts within
  their limits, full progress on success), no run has two jobs, and the history of every job is
  numbered from one without gaps and belongs to the job's tenant.
\<close>

theorem queue_reachable_invariant: "queue_reachable db \<Longrightarrow> queue_inv db"
  by (rule reachable_queue_inv)

theorem queue_reachable_invariant_witness:
  "\<exists>db. jobs db \<noteq> [] \<and> queue_inv db"
proof -
  let ?db = "empty_db \<lparr> runs := [sample_run 101 1 RUN_PENDING] \<rparr>"
  have "case create_job 0 1 1 1 101 None 3 900 ''NORMAL'' ?db of Inl _ \<Rightarrow> False | Inr p \<Rightarrow> jobs (snd p) \<noteq> []"
    by code_simp
  then obtain r db' where run: "create_job 0 1 1 1 101 None 3 900 ''NORMAL'' ?db = Inr (r, db')"
    and ne: "jobs db' \<noteq> []" by (auto split: sum.splits)
  have "queue_reachable ?db" by (rule reach_init) (simp_all add: empty_db_def)
  then have "queue_reachable db'" using step_create [OF run] by (rule reach_step)
  from queue_reachable_invariant [OF this] ne show ?thesis by blast
qed

text \<open>
  C4: claiming never fails on a sound queue; it returns nothing exactly when no job is
  claimable, and otherwise a claimable job that no other claimable job precedes in effective
  priority, then in waiting time, leased to the worker with one attempt more and its deadline set.
\<close>

theorem claim_next_best:
  assumes "queue_inv db" and "strip worker_id \<noteq> []" and "length (strip worker_id) \<le> 200" and "30 \<le> aging"
    and "eid \<notin> set (map ev_id (job_events db))"
  shows "\<exists>r db'. claim_next t eid worker_id None scope aging locked db = Inr (r, db') \<and>
    (case r of
       None \<Rightarrow> db' = db \<and> list_all (\<lambda>j. \<not> claimable t scope locked j) (jobs db)
     | Some r' \<Rightarrow> list_ex (\<lambda>j. claimable t scope locked j \<and> r' = claimed (strip worker_id) t j \<and>
         list_all (\<lambda>k. \<not> (claimable t scope locked k \<and>
           (effective_priority t aging j < effective_priority t aging k \<or>
            effective_priority t aging j = effective_priority t aging k \<and> eligible_since k < eligible_since j)))
           (jobs db)) (jobs db))"
proof -
  have "\<exists>r db'. claim_next t eid worker_id None scope aging locked db = Inr (r, db')"
  proof (cases "sort_key (claim_order t aging) (filter (claimable t scope locked) (jobs db))")
    case Nil
    with assms(2-4) show ?thesis by (simp add: claim_next_def Let_def utc_or_def)
  next
    case (Cons j rest)
    then have "j \<in> set (filter (claimable t scope locked) (jobs db))" by (metis list.set_intros(1) set_sort)
    then have "job_row_ok (claimed (strip worker_id) t j)"
      using assms(1) claimed_row_ok by (auto simp: queue_inv_def)
    with Cons assms(2-5) show ?thesis
      by (simp add: claim_next_def Let_def utc_or_def save_job_def append_event_def)
  qed
  then obtain r db' where run: "claim_next t eid worker_id None scope aging locked db = Inr (r, db')" by blast
  show ?thesis
  proof (cases r)
    case None
    with claim_next_None run show ?thesis by (fastforce simp: utc_or_def list_all_iff)
  next
    case (Some r')
    with run have "claim_next t eid worker_id None scope aging locked db = Inr (Some r', db')" by simp
    then show ?thesis
    proof (rule claim_next_Inr)
      fix j t'
      assume j: "j \<in> set (jobs db)" "claimable t' scope locked j" "r' = claimed (strip worker_id) t' j"
        and t': "utc_or t None = Inr t'"
        and best: "\<forall>k \<in> set (jobs db). claimable t' scope locked k \<longrightarrow> claim_order t' aging j \<le> claim_order t' aging k"
      have "t' = t" using t' by (simp add: utc_or_def)
      have "\<not> (claimable t scope locked k \<and>
           (effective_priority t aging j < effective_priority t aging k \<or>
            effective_priority t aging j = effective_priority t aging k \<and> eligible_since k < eligible_since j))"
        if "k \<in> set (jobs db)" for k
        using best that \<open>t' = t\<close> by (fastforce simp: claim_order_def)
      with j run Some \<open>t' = t\<close> show ?thesis by (auto simp: list_ex_iff list_all_iff)
    qed
  qed
qed

theorem claim_next_best_witness:
  "\<exists>db'. claim_next 5000000 7 ''worker'' None None 300 {}
      (sample_queue [sample_job 1 1 QUEUED LOW 0, sample_job 2 1 QUEUED HIGH 1]) =
     Inr (Some (claimed ''worker'' 5000000 (sample_job 2 1 QUEUED HIGH 1)), db')"
proof -
  let ?l = "sample_job 1 1 QUEUED LOW 0" and ?h = "sample_job 2 1 QUEUED HIGH 1"
  have w: "strip ''worker'' = ''worker''" by (simp add: strip_def is_space_def)
  have inv: "queue_inv (sample_queue [?l, ?h])"
    by (rule sample_queue_inv) (simp_all add: sample_job_wf leased_def)
  have "claimable 5000000 None {} ?l" "claimable 5000000 None {} ?h"
    "effective_priority 5000000 300 ?l < effective_priority 5000000 300 ?h"
    "jobs (sample_queue [?l, ?h]) = [?l, ?h]" "job_events (sample_queue [?l, ?h]) = []"
    by code_simp+
  with claim_next_best [OF inv, of "''worker''" 300 7 5000000 None "{}"] w
  show ?thesis by (auto split: option.splits)
qed

text \<open>
  C30: priority aging prevents starvation: once a job has been claimable and waiting for twice
  the aging interval, no job that became eligible later is claimed before it, whatever the
  priorities.
\<close>

theorem aged_job_is_not_overtaken:
  assumes "claim_next now eid worker_id at_time scope aging locked db = Inr (Some r, db')"
    and "utc_or now at_time = Inr t" and "j \<in> set (jobs db)" and "claimable t scope locked j"
    and "eligible_since j \<le> t - seconds (aging * 2)"
  shows "\<exists>c \<in> set (jobs db). job_id c = job_id r \<and> eligible_since c \<le> eligible_since j"
proof (rule claim_next_Inr [OF assms(1)])
  fix c u
  assume c: "c \<in> set (jobs db)" "r = claimed (strip worker_id) u c" and u: "utc_or now at_time = Inr u"
    and ag: "30 \<le> aging"
    and best: "\<forall>k \<in> set (jobs db). claimable u scope locked k \<longrightarrow> claim_order u aging c \<le> claim_order u aging k"
  have "u = t" using u assms(2) by simp
  then have "claim_order t aging c \<le> claim_order t aging j" using best assms(3,4) by blast
  moreover have "effective_priority t aging j = 2" using assms(5) ag by (intro effective_priority_aged) simp_all
  ultimately have "eligible_since c \<le> eligible_since j"
    using effective_priority_range [of t aging c] by (auto simp: claim_order_def)
  with c show ?thesis by (auto simp: claimed_def)
qed

theorem aged_job_is_not_overtaken_witness:
  "\<exists>r db'. claim_next 900000000 7 ''w'' None None 300 {}
     (sample_queue [sample_job 1 1 QUEUED LOW 0, (sample_job 2 1 QUEUED HIGH 0) \<lparr> job_scheduled_at := 800000000 \<rparr>]) =
     Inr (Some r, db') \<and> job_id r = 1"
proof -
  let ?l = "sample_job 1 1 QUEUED LOW 0" and ?h = "(sample_job 2 1 QUEUED HIGH 0) \<lparr> job_scheduled_at := 800000000 \<rparr>"
  let ?db = "sample_queue [?l, ?h]"
  have "case claim_next 900000000 7 ''w'' None None 300 {} ?db of Inl _ \<Rightarrow> False | Inr p \<Rightarrow> fst p \<noteq> None"
    by code_simp
  then obtain r db' where run: "claim_next 900000000 7 ''w'' None None 300 {} ?db = Inr (Some r, db')"
    by (auto split: sum.splits)
  have "claimable 900000000 None {} ?l" "eligible_since ?l \<le> 900000000 - seconds (300 * 2)"
    "\<not> eligible_since ?h \<le> eligible_since ?l" by code_simp+
  with aged_job_is_not_overtaken [OF run, of 900000000 ?l] run show ?thesis by (auto simp: utc_or_def)
qed



text \<open>
  C5: a job moves only along the declared edges of its life cycle; success and cancellation
  are final, and a failed job leaves its state only by a manual retry.
\<close>

theorem jobs_follow_life_cycle:
  assumes "queue_step db db'" and "queue_inv db" and "j \<in> set (jobs db)" and "j' \<in> set (jobs db')"
    and "job_id j' = job_id j"
  shows "life_cycle_edge (job_status j) (job_status j')"
  using assms
proof (induction rule: queue_step.induct)
  case (step_create now jid eid org rid at_time attempts timeout priority db r db')
  note f = create_job_Inr [OF step_create(1)]
  have "j' \<in> set (jobs db)" using step_create f(1,2,7) by auto
  with step_create show ?case by (blast intro: unchanged_follows)
next
  case (step_claim now eid worker_id at_time scope aging locked db r db')
  show ?case
  proof (cases r)
    case None
    with step_claim have "db' = db" by (auto dest: claim_next_None(1))
    with step_claim show ?thesis by (auto intro: unchanged_follows)
  next
    case (Some r')
    with step_claim(1) have "claim_next now eid worker_id at_time scope aging locked db = Inr (Some r', db')" by simp
    then obtain c t where "changed c r' db db'" "claimable t scope locked c" "r' = claimed (strip worker_id) t c"
      by (rule claim_next_Inr)
    moreover from this have "life_cycle_edge (job_status c) (job_status r')"
      by (simp add: claimable_def claimed_def life_cycle_edge_def)
    ultimately show ?thesis using step_claim by (blast intro: changed_follows)
  qed
next
  case (step_retry now eid jid org limit at_time db r db')
  with retrying.law [OF step_retry(1)] show ?case by (blast intro: changed_follows edges_in_life_cycle)
next
  case (step_heartbeat now jid org worker_id at_time db r db')
  with heartbeating.law [OF step_heartbeat(1)] show ?case by (blast intro: changed_follows edges_in_life_cycle)
next
  case (step_recover now eids before at_time db n db')
  from step_recover(1,2) obtain t cutoff where
    jobs: "jobs db' = map (\<lambda>j. if stale cutoff j then recovered t j else j) (jobs db)"
    by (rule recover_stale_Inr)
  from step_recover(4) jobs obtain k where k: "k \<in> set (jobs db)" "j' = (if stale cutoff k then recovered t k else k)"
    by auto
  then have "job_id k = job_id j" using step_recover(5) recovered_fields(4) [of k t] by (auto simp: same_job_def split: if_splits)
  then have "k = j" using step_recover(2,3) k(1) by (auto simp: queue_inv_def distinct_map dest: inj_onD)
  with k(2) show ?case
    using recovered_fields(9) [of j t] edges_in_life_cycle(5) by (auto simp: stale_def life_cycle_edge_def)
next
  case (step_progress now eid jid org progress message at_time db r db')
  with progressing.law [OF step_progress(1)] show ?case by (blast intro: changed_follows edges_in_life_cycle)
next
  case (step_cancel now eid eid' jid org at_time db r db')
  with cancelling.law [OF step_cancel(1)] show ?case by (blast intro: changed_follows edges_in_life_cycle)
next
  case (step_complete now eid jid target org at_time code msg retry_at db r db')
  with completing.law [OF step_complete(1)] show ?case by (blast intro: changed_follows edges_in_life_cycle)
next
  case (step_delete cutoffs limit locked db n db')
  have "j' \<in> set (jobs db)" by (rule delete_expired_Inr [OF step_delete(1,2)]) (use step_delete(4) in auto)
  with step_delete show ?case by (blast intro: unchanged_follows)
next
  case (step_other db' db)
  then show ?case by (auto intro: unchanged_follows)
qed

theorem jobs_follow_life_cycle_witness:
  "\<exists>r db'. request_cancellation 5 7 8 1 1 None (sample_queue [sample_job 1 1 RUNNING LOW 1]) = Inr (r, db') \<and>
     life_cycle_edge RUNNING (job_status r) \<and> \<not> life_cycle_edge SUCCEEDED RUNNING"
proof -
  let ?j = "sample_job 1 1 RUNNING LOW 1"
  let ?db = "sample_queue [?j]"
  have "case request_cancellation 5 7 8 1 1 None ?db of Inl _ \<Rightarrow> False | Inr p \<Rightarrow> job_id (fst p) = 1" by code_simp
  then obtain r db' where run: "request_cancellation 5 7 8 1 1 None ?db = Inr (r, db')" and id: "job_id r = 1"
    by (auto split: sum.splits)
  have inv: "queue_inv ?db" by (rule sample_queue_inv) (simp_all add: sample_job_wf)
  have "r \<in> set (jobs db')" by (rule cancelling.result_stored [OF run])
  then have "life_cycle_edge (job_status ?j) (job_status r)"
    using id by (intro jobs_follow_life_cycle [OF step_cancel [OF run] inv]) simp_all
  with run show ?thesis by (auto simp: life_cycle_edge_def)
qed

section \<open>Tenants, recovery, retention and summaries\<close>

text \<open>One call of the repository made on behalf of a tenant.\<close>

inductive tenant_step :: "uuid \<Rightarrow> db \<Rightarrow> db \<Rightarrow> bool" where
  tenant_retry: "retry_failed now eid jid org limit at_time db = Inr (r, db') \<Longrightarrow> tenant_step org db db'"
| tenant_heartbeat: "heartbeat_job now jid org worker_id at_time db = Inr (r, db') \<Longrightarrow> tenant_step org db db'"
| tenant_progress: "update_progress now eid jid org progress message at_time db = Inr (r, db') \<Longrightarrow> tenant_step org db db'"
| tenant_cancel: "request_cancellation now eid eid' jid org at_time db = Inr (r, db') \<Longrightarrow> tenant_step org db db'"
| tenant_complete: "complete_job now eid jid target org at_time code msg retry_at db = Inr (r, db') \<Longrightarrow> tenant_step org db db'"



text \<open>
  Recovering leaves no job with a lease older than the cutoff, frees exactly the stale
  ones, touches no other job and returns how many it freed.  A freed job that was being
  cancelled is cancelled; any other is queued again while it has attempts left and fails
  otherwise.
\<close>

theorem recover_stale_frees_leases:
  assumes "recover_stale now eids before at_time db = Inr (n, db')" and "utc before = Inr cutoff"
    and "queue_inv db"
  shows "list_all (\<lambda>j. \<not> stale cutoff j) (jobs db') \<and>
    n = length (filter (stale cutoff) (jobs db)) \<and>
    list_all2 (\<lambda>j j'. if stale cutoff j
        then same_job j j' \<and> \<not> leased (job_status j') \<and> job_claimed_by j' = None \<and>
          job_status j' = (if job_status j = CANCEL_REQUESTED then CANCELLED
            else if job_attempt_count j < job_max_attempts j then QUEUED else FAILED)
        else j' = j) (jobs db) (jobs db')"
proof (rule recover_stale_Inr [OF assms(1,3)])
  fix t c
  assume c: "utc before = Inr c" and jobs: "jobs db' = map (\<lambda>j. if stale c j then recovered t j else j) (jobs db)"
    and n: "n = length (filter (stale c) (jobs db))"
  have "c = cutoff" using c assms(2) by simp
  moreover have "\<not> stale c (recovered t j)" for j
    by (simp add: recovered_def stale_def Let_def)
  moreover have "same_job j (recovered t j)" "\<not> leased (job_status (recovered t j))" "job_claimed_by (recovered t j) = None"
      "job_status (recovered t j) = (if job_status j = CANCEL_REQUESTED then CANCELLED
            else if job_attempt_count j < job_max_attempts j then QUEUED else FAILED)" for j
    by (simp_all add: recovered_def same_job_def leased_def Let_def)
  ultimately show ?thesis using n by (auto simp: jobs list_all_iff list_all2_map2 list_all2_same split: if_splits)
qed

theorem recover_stale_frees_leases_witness:
  "\<exists>db'. recover_stale 900000000 id (DateTime 500000000 (Some 0)) None
      (sample_queue [sample_job 1 1 RUNNING LOW 3, sample_job 2 1 CANCEL_REQUESTED LOW 1,
         sample_job 3 1 RUNNING LOW 1, sample_job 4 1 QUEUED LOW 0]) = Inr (3, db') \<and>
     map job_status (jobs db') = [FAILED, CANCELLED, QUEUED, QUEUED] \<and>
     list_all (\<lambda>j. \<not> stale 500000000 j) (jobs db')"
proof -
  let ?db = "sample_queue [sample_job 1 1 RUNNING LOW 3, sample_job 2 1 CANCEL_REQUESTED LOW 1,
         sample_job 3 1 RUNNING LOW 1, sample_job 4 1 QUEUED LOW 0]"
  have "case recover_stale 900000000 id (DateTime 500000000 (Some 0)) None ?db of
      Inl _ \<Rightarrow> False | Inr p \<Rightarrow> fst p = 3 \<and> map job_status (jobs (snd p)) = [FAILED, CANCELLED, QUEUED, QUEUED]"
    by code_simp
  then obtain db' where run: "recover_stale 900000000 id (DateTime 500000000 (Some 0)) None ?db = Inr (3, db')"
    and st: "map job_status (jobs db') = [FAILED, CANCELLED, QUEUED, QUEUED]" by (auto split: sum.splits)
  have inv: "queue_inv ?db" by (rule sample_queue_inv) (simp_all add: sample_job_wf leased_def)
  have cut: "utc (DateTime 500000000 (Some 0)) = Inr 500000000" by (simp add: utc_def)
  have fresh: "list_all (\<lambda>j. \<not> stale 500000000 j) (jobs db')"
    by (rule conjunct1 [OF recover_stale_frees_leases [OF run cut inv]])
  show ?thesis by (rule exI [of _ db']) (intro conjI run st fresh)
qed

text \<open>
  A retention cleanup removes only terminal jobs that the conditions call expired and that
  nobody has locked, exactly \<open>min limit available\<close> of them, and their whole history with them;
  every other job and event stays as it was.
\<close>

theorem retention_deletes_only_expired:
  assumes "delete_expired_terminal cutoffs limit locked db = Inr (n, db')"
    and "retention_conditions cutoffs = Inr cs" and "queue_inv db"
  shows "list_all (\<lambda>j. j \<in> set (jobs db') \<or>
        terminal (job_status j) \<and> list_ex (\<lambda>c. c j) cs \<and> job_id j \<notin> locked) (jobs db) \<and>
    n = min (nat limit) (length (filter (\<lambda>j. job_id j \<notin> locked) (expired_jobs cs db))) \<and>
    length (jobs db') + n = length (jobs db) \<and>
    job_events db' = filter (\<lambda>e. ev_job_id e \<in> set (map job_id (jobs db'))) (job_events db)"
proof (rule delete_expired_Inr [OF assms(1,3)])
  fix cs'
  assume cs': "retention_conditions cutoffs = Inr cs'"
    and jobs: "jobs db' = filter (\<lambda>j. job_id j \<notin> set (expired_batch cs' limit locked db)) (jobs db)"
    and evs: "job_events db' = filter (\<lambda>e. ev_job_id e \<notin> set (expired_batch cs' limit locked db)) (job_events db)"
    and n: "n = length (expired_batch cs' limit locked db)"
  have cs: "cs' = cs" using cs' assms(2) by simp
  define ids where "ids = expired_batch cs limit locked db"
  have d: "distinct (map job_id (jobs db))" using assms(3) by (simp add: queue_inv_def)
  note b = expired_batch_facts [OF d, where cs = cs and limit = limit and locked = locked, folded ids_def]
  have "list_all (\<lambda>j. j \<in> set (jobs db') \<or>
        terminal (job_status j) \<and> list_ex (\<lambda>c. c j) cs \<and> job_id j \<notin> locked) (jobs db)"
    unfolding list_all_iff
  proof (intro ballI)
    fix j
    assume j: "j \<in> set (jobs db)"
    show "j \<in> set (jobs db') \<or> terminal (job_status j) \<and> list_ex (\<lambda>c. c j) cs \<and> job_id j \<notin> locked"
    proof (cases "job_id j \<in> set ids")
      case True
      with b(2) [OF j] have "list_ex (\<lambda>c. c j) cs \<and> job_id j \<notin> locked" by simp
      moreover from this have "terminal (job_status j)"
        using retention_conditions_terminal [OF assms(2)] by (auto simp: list_ex_iff)
      ultimately show ?thesis by simp
    next
      case False
      with j show ?thesis by (simp add: jobs cs ids_def)
    qed
  qed
  moreover have "n = min (nat limit) (length (filter (\<lambda>j. job_id j \<notin> locked) (expired_jobs cs db)))"
    using b(4) by (simp add: n cs ids_def)
  moreover have "length (jobs db') + n = length (jobs db)"
  proof -
    have "length (filter (\<lambda>j. job_id j \<in> set ids) (jobs db)) = length (filter (\<lambda>i. i \<in> set ids) (map job_id (jobs db)))"
      by (simp add: filter_map o_def)
    also have "\<dots> = card (set ids)"
      using b(3) d by (subst distinct_length_filter) (auto intro: arg_cong [where f = card])
    also have "\<dots> = length ids" using b(1) by (rule distinct_card)
    finally have "length (filter (\<lambda>j. job_id j \<in> set ids) (jobs db)) = n" by (simp add: n cs ids_def)
    with sum_length_filter_compl [of "\<lambda>j. job_id j \<in> set ids" "jobs db"]
    show ?thesis by (simp add: jobs cs ids_def)
  qed
  moreover have "job_events db' = filter (\<lambda>e. ev_job_id e \<in> set (map job_id (jobs db'))) (job_events db)"
    unfolding evs
  proof (rule filter_cong [OF refl])
    fix e
    assume "e \<in> set (job_events db)"
    then obtain j where "j \<in> set (jobs db)" "job_id j = ev_job_id e"
      using assms(3) by (fastforce simp: queue_inv_def)
    then show "(ev_job_id e \<notin> set (expired_batch cs' limit locked db)) = (ev_job_id e \<in> set (map job_id (jobs db')))"
      by (force simp: jobs)
  qed
  ultimately show ?thesis by blast
qed

theorem retention_deletes_only_expired_witness:
  "\<exists>db'. delete_expired_terminal [(SUCCEEDED, DateTime 10 (Some 0))] 5 {}
      (sample_queue [sample_job 1 1 SUCCEEDED LOW 1, sample_job 2 1 FAILED LOW 1, sample_job 3 1 QUEUED LOW 0]) =
      Inr (1, db') \<and> length (jobs db') + 1 = 3 \<and> map job_id (jobs db') = [2, 3]"
proof -
  let ?db = "sample_queue [sample_job 1 1 SUCCEEDED LOW 1, sample_job 2 1 FAILED LOW 1, sample_job 3 1 QUEUED LOW 0]"
  have "case delete_expired_terminal [(SUCCEEDED, DateTime 10 (Some 0))] 5 {} ?db of
      Inl _ \<Rightarrow> False | Inr p \<Rightarrow> fst p = 1 \<and> map job_id (jobs (snd p)) = [2, 3]"
    by code_simp
  then obtain db' where run: "delete_expired_terminal [(SUCCEEDED, DateTime 10 (Some 0))] 5 {} ?db = Inr (1, db')"
    and left: "map job_id (jobs db') = [2, 3]" by (auto split: sum.splits)
  obtain cs where cs: "retention_conditions [(SUCCEEDED, DateTime 10 (Some 0))] = Inr cs"
    using run by (auto simp: delete_expired_terminal_def and_then_Inr_iff)
  have inv: "queue_inv ?db" by (rule sample_queue_inv) (simp_all add: sample_job_wf leased_def)
  from retention_deletes_only_expired [OF run cs inv]
  have "length (jobs db') + 1 = length (jobs ?db)" by (elim conjE)
  then have three: "length (jobs db') + 1 = 3" by simp
  show ?thesis by (rule exI [of _ db']) (intro conjI run left three)
qed

text \<open>
  The counts of the summary partition the tenant's jobs by status, those of its queued jobs
  by priority, and the retrying jobs are among the queued ones.
\<close>

theorem summary_partitions_jobs:
  "summarize_jobs now org at_time db = Inr s \<Longrightarrow>
   sum_list (map snd (sum_counts s)) = length (filter (\<lambda>j. job_organization_id j = org) (jobs db)) \<and>
   map_of (sum_counts s) QUEUED = Some (sum_list (map snd (sum_priority_counts s))) \<and>
   sum_retrying s \<le> sum_list (map snd (sum_priority_counts s))"
proof -
  assume run: "summarize_jobs now org at_time db = Inr s"
  let ?mine = "filter (\<lambda>j. job_organization_id j = org) (jobs db)"
  let ?queued = "filter (\<lambda>j. job_status j = QUEUED) ?mine"
  have st: "sum_list (map (\<lambda>x. length (filter (\<lambda>j. job_status j = x) js)) all_statuses) = length js" for js
    by (induction js) (auto simp: all_statuses_def split: job_status.split, (metis job_status.exhaust)+)
  have pr: "sum_list (map (\<lambda>x. length (filter (\<lambda>j. job_priority j = x) js)) all_priorities) = length js" for js
    by (induction js) (auto simp: all_priorities_def, (metis job_priority.exhaust)+)
  from run have "sum_counts s = map (\<lambda>x. (x, length (filter (\<lambda>j. job_status j = x) ?mine))) all_statuses"
    "sum_priority_counts s = map (\<lambda>x. (x, length (filter (\<lambda>j. job_priority j = x) ?queued))) all_priorities"
    "sum_retrying s = length (filter (\<lambda>j. job_retry_at j \<noteq> None) ?queued)"
    by (auto simp: summarize_jobs_def and_then_Inr_iff Let_def)
  note fields = this
  have "sum_list (map snd (sum_counts s)) = length ?mine"
    unfolding fields(1) map_map o_def snd_conv by (rule st)
  moreover have queued: "sum_list (map snd (sum_priority_counts s)) = length ?queued"
    unfolding fields(2) map_map o_def snd_conv by (rule pr)
  moreover have "map_of (sum_counts s) QUEUED = Some (length ?queued)"
    unfolding fields(1) all_statuses_def by simp
  moreover have "sum_retrying s \<le> length ?queued"
    unfolding fields(3) by (rule length_filter_le)
  ultimately show ?thesis by simp
qed

theorem summary_partitions_jobs_witness:
  "\<exists>s. summarize_jobs 0 1 None (sample_queue [sample_job 1 1 QUEUED LOW 0, sample_job 2 1 FAILED HIGH 1,
        sample_job 3 2 FAILED HIGH 1]) = Inr s \<and> sum_list (map snd (sum_counts s)) = 2"
proof -
  let ?db = "sample_queue [sample_job 1 1 QUEUED LOW 0, sample_job 2 1 FAILED HIGH 1, sample_job 3 2 FAILED HIGH 1]"
  obtain s where run: "summarize_jobs 0 1 None ?db = Inr s"
    by (simp add: summarize_jobs_def utc_or_def Let_def)
  with summary_partitions_jobs [OF run] show ?thesis by simp
qed

end
