(* ===== verification/Worker_Service.thy ===== *)
theory Worker_Service
  imports Queue_Life
begin

text \<open>
  The background worker: \<open>WorkerRepository\<close> of \<open>persistence/repositories.py\<close> and
  \<open>worker/service.py\<close>.  The worker's clock is passed as the instants it returns; the processor
  is a task on the database, and what other processes commit while it runs is part of it.
\<close>

section \<open>Operations of \<open>WorkerRepository\<close>\<close>

definition worker_heartbeat :: "instant \<Rightarrow> string \<Rightarrow> datetime option \<Rightarrow> worker db_action" where
  "worker_heartbeat now wid at_time db =
     and_then (utc_or now at_time) (\<lambda>t.
     case find (\<lambda>w. wk_worker_id w = wid) (workers db) of
       None \<Rightarrow>
         let record = \<lparr> wk_worker_id = wid, wk_status = WORKER_RUNNING, wk_started_at = t,
               wk_heartbeat_at = t, wk_stopped_at = None \<rparr>
         in Inr (record, db \<lparr> workers := workers db @ [record] \<rparr>)
     | Some w \<Rightarrow>
         let record = w \<lparr> wk_started_at := (if wk_status w = WORKER_STOPPED then t else wk_started_at w),
               wk_status := WORKER_RUNNING, wk_heartbeat_at := t, wk_stopped_at := None \<rparr>
         in Inr (record, db \<lparr> workers := put_row wk_worker_id record (workers db) \<rparr>))"

definition stop_worker :: "instant \<Rightarrow> string \<Rightarrow> datetime option \<Rightarrow> worker db_action" where
  "stop_worker now wid at_time db =
     (case find (\<lambda>w. wk_worker_id w = wid) (workers db) of
        None \<Rightarrow> Inl RecordNotFoundError
      | Some w \<Rightarrow> and_then (utc_or now at_time) (\<lambda>t.
          let record = w \<lparr> wk_status := WORKER_STOPPED, wk_heartbeat_at := t, wk_stopped_at := Some t \<rparr>
          in Inr (record, db \<lparr> workers := put_row wk_worker_id record (workers db) \<rparr>)))"

definition worker_health_counts :: "datetime \<Rightarrow> db \<Rightarrow> (nat \<times> nat) outcome" where
  "worker_health_counts stale_before db =
     and_then (utc stale_before) (\<lambda>cutoff. Inr
       (length (filter (\<lambda>w. wk_status w = WORKER_RUNNING \<and> cutoff < wk_heartbeat_at w) (workers db)),
        length (filter (\<lambda>w. wk_status w = WORKER_RUNNING \<and> wk_heartbeat_at w \<le> cutoff) (workers db))))"

definition worker_expired :: "instant \<Rightarrow> worker \<Rightarrow> bool" where
  "worker_expired cutoff w \<longleftrightarrow>
     wk_status w = WORKER_STOPPED \<and> (case wk_stopped_at w of None \<Rightarrow> False | Some t \<Rightarrow> t \<le> cutoff) \<or>
     wk_status w = WORKER_RUNNING \<and> wk_heartbeat_at w \<le> cutoff"

definition count_expired_workers :: "datetime \<Rightarrow> db \<Rightarrow> nat outcome" where
  "count_expired_workers cutoff db =
     and_then (utc cutoff) (\<lambda>c. Inr (length (filter (worker_expired c) (workers db))))"

definition delete_expired_workers :: "datetime \<Rightarrow> int \<Rightarrow> nat db_action" where
  "delete_expired_workers cutoff limit db =
     and_then (guard_else (1 \<le> limit) (ValueError ''limit must be a positive integer'')) (\<lambda>_.
     and_then (utc cutoff) (\<lambda>c.
     let ids = map wk_worker_id (take (nat limit)
           (sort_key (\<lambda>w. (wk_heartbeat_at w, wk_worker_id w)) (filter (worker_expired c) (workers db))));
         doomed = (\<lambda>w. wk_worker_id w \<in> set ids \<and> worker_expired c w)
     in if ids = [] then Inr (0, db)
        else Inr (length (filter doomed (workers db)),
                  db \<lparr> workers := filter (\<lambda>w. \<not> doomed w) (workers db) \<rparr>)))"

section \<open>The worker's view of a job\<close>

record worker_job =
  wj_id :: uuid
  wj_organization_id :: uuid
  wj_run_id :: uuid
  wj_attempt_count :: int
  wj_max_attempts :: int
  wj_timeout_seconds :: int
  wj_deadline_at :: instant

definition aware_utc :: "instant \<Rightarrow> datetime" where
  "aware_utc t = DateTime t (Some 0)"

lemma utc_or_aware [simp]: "utc_or now (Some (aware_utc t)) = Inr t" "utc (aware_utc t) = Inr t"
  by (simp_all add: utc_or_def utc_def aware_utc_def)

text \<open>\<open>WorkerContext.checkpoint\<close>: the transaction, and what is raised after it.\<close>

definition checkpoint_body ::
  "uuid \<Rightarrow> string \<Rightarrow> worker_job \<Rightarrow> int \<Rightarrow> string option \<Rightarrow> instant \<Rightarrow> job db_action" where
  "checkpoint_body eid wid j progress message t db =
     and_then (worker_heartbeat t wid (Some (aware_utc t)) db) (\<lambda>p.
     and_then (heartbeat_job t (wj_id j) (wj_organization_id j) wid (Some (aware_utc t)) (snd p)) (\<lambda>q.
     and_then (update_progress t eid (wj_id j) (wj_organization_id j) progress message
         (Some (aware_utc t)) (snd q)) (\<lambda>r. Inr (fst r, snd r))))"

definition checkpoint ::
  "uuid \<Rightarrow> string \<Rightarrow> worker_job \<Rightarrow> int \<Rightarrow> string option \<Rightarrow> instant \<Rightarrow> (db, unit) task" where
  "checkpoint eid wid j progress message t =
     and_also (unit_of_work (checkpoint_body eid wid j progress message t)) (\<lambda>record.
       if job_status record = CANCEL_REQUESTED then raising JobCancelled
       else if (case job_deadline_at record of None \<Rightarrow> False | Some d \<Rightarrow> d \<le> t) then raising JobTimedOut
       else give ())"

section \<open>Processing one job\<close>

record worker_settings =
  ws_worker_id :: string
  ws_poll_interval :: rat
  ws_stale_timeout_seconds :: int
  ws_retry_delay_seconds :: int
  ws_priority_aging_seconds :: int
  ws_organization_id :: "uuid option"

definition worker_init :: "worker_settings \<Rightarrow> worker_settings outcome" where
  "worker_init s =
     (let wid = strip (ws_worker_id s) in
      and_then (guard_else (wid \<noteq> [] \<and> length wid \<le> 200)
          (ValueError ''worker_id must contain between 1 and 200 characters'')) (\<lambda>_.
      and_then (guard_else (1 / 10 \<le> ws_poll_interval s)
          (ValueError ''poll_interval_seconds must be at least 0.1'')) (\<lambda>_.
      and_then (guard_else (30 \<le> ws_stale_timeout_seconds s)
          (ValueError ''stale_timeout_seconds must be at least 30'')) (\<lambda>_.
      and_then (guard_else (1 \<le> ws_retry_delay_seconds s)
          (ValueError ''retry_delay_seconds must be positive'')) (\<lambda>_.
      and_then (guard_else (30 \<le> ws_priority_aging_seconds s)
          (ValueError ''priority_aging_seconds must be at least 30'')) (\<lambda>_.
      Inr (s \<lparr> ws_worker_id := wid \<rparr>)))))))"

definition worker_job_of :: "job \<Rightarrow> worker_job outcome" where
  "worker_job_of r =
     (case job_deadline_at r of
        None \<Rightarrow> Inl (ValueError ''claimed background job must have an execution deadline'')
      | Some d \<Rightarrow> Inr \<lparr> wj_id = job_id r, wj_organization_id = job_organization_id r,
          wj_run_id = job_run_id r, wj_attempt_count = job_attempt_count r,
          wj_max_attempts = job_max_attempts r, wj_timeout_seconds = job_timeout_seconds r,
          wj_deadline_at = d \<rparr>)"

text \<open>The identifiers of new events: \<open>eids\<close> for recovered jobs, \<open>eid\<close> for the claimed one.\<close>

definition claim_body ::
  "worker_settings \<Rightarrow> (nat \<Rightarrow> uuid) \<Rightarrow> uuid \<Rightarrow> uuid set \<Rightarrow> instant \<Rightarrow> worker_job option db_action" where
  "claim_body s eids eid locked now db =
     and_then (worker_heartbeat now (ws_worker_id s) (Some (aware_utc now)) db) (\<lambda>p.
     and_then (recover_stale now eids (aware_utc (now - seconds (ws_stale_timeout_seconds s)))
         (Some (aware_utc now)) (snd p)) (\<lambda>q.
     and_then (claim_next now eid (ws_worker_id s) (Some (aware_utc now)) (ws_organization_id s)
         (ws_priority_aging_seconds s) locked (snd q)) (\<lambda>c.
     case fst c of
       None \<Rightarrow> Inr (None, snd c)
     | Some r \<Rightarrow> and_then (worker_job_of r) (\<lambda>j. Inr (Some j, snd c)))))"

definition retry_time :: "worker_settings \<Rightarrow> worker_job \<Rightarrow> instant \<Rightarrow> datetime option" where
  "retry_time s j now =
     (if wj_attempt_count j < wj_max_attempts j
      then Some (aware_utc (now + seconds (ws_retry_delay_seconds s))) else None)"

definition finish_cancelled :: "uuid \<Rightarrow> worker_job \<Rightarrow> instant \<Rightarrow> job db_action" where
  "finish_cancelled eid j now =
     complete_job now eid (wj_id j) CANCELLED (wj_organization_id j) (Some (aware_utc now)) None None None"

definition finish_successfully :: "uuid \<Rightarrow> worker_job \<Rightarrow> instant \<Rightarrow> job db_action" where
  "finish_successfully eid j now db =
     and_then (get_job (wj_id j) (wj_organization_id j) db) (\<lambda>record.
     if job_status record = CANCEL_REQUESTED
     then complete_job now eid (wj_id j) CANCELLED (wj_organization_id j) (Some (aware_utc now)) None None None db
     else complete_job now eid (wj_id j) SUCCEEDED (wj_organization_id j) (Some (aware_utc now)) None None None db)"

definition finish_failed :: "worker_settings \<Rightarrow> uuid \<Rightarrow> worker_job \<Rightarrow> instant \<Rightarrow> job db_action" where
  "finish_failed s eid j now =
     complete_job now eid (wj_id j) FAILED (wj_organization_id j) (Some (aware_utc now))
       (Some ''WORKER_PROCESSING_FAILED'') (Some ''Background job processing failed.'') (retry_time s j now)"

definition finish_timed_out :: "worker_settings \<Rightarrow> uuid \<Rightarrow> worker_job \<Rightarrow> instant \<Rightarrow> job db_action" where
  "finish_timed_out s eid j now db =
     and_then (get_job (wj_id j) (wj_organization_id j) db) (\<lambda>record.
     if job_status record = CANCEL_REQUESTED
     then complete_job now eid (wj_id j) CANCELLED (wj_organization_id j) (Some (aware_utc now)) None None None db
     else complete_job now eid (wj_id j) FAILED (wj_organization_id j) (Some (aware_utc now))
            (Some ''JOB_TIMEOUT'') (Some ''Background job exceeded its execution timeout.'')
            (retry_time s j now) db)"

text \<open>How the worker settles a job, by what the processor returned or raised.\<close>

definition finish_job :: "worker_settings \<Rightarrow> uuid \<Rightarrow> worker_job \<Rightarrow> instant \<Rightarrow> unit outcome \<Rightarrow> job db_action" where
  "finish_job s eid j now result =
     (case result of
        Inl JobCancelled \<Rightarrow> finish_cancelled eid j now
      | Inl JobTimedOut \<Rightarrow> finish_timed_out s eid j now
      | Inl _ \<Rightarrow> finish_failed s eid j now
      | Inr _ \<Rightarrow> finish_successfully eid j now)"

text \<open>
  \<open>run_once\<close>: \<open>now\<close> and \<open>later\<close> are what the clock returns before and after the processing, and
  \<open>eids 0\<close>, \<open>eids 1\<close>, ... the identifiers of the new events.
\<close>

definition run_once ::
  "worker_settings \<Rightarrow> (nat \<Rightarrow> uuid) \<Rightarrow> uuid set \<Rightarrow> instant \<Rightarrow> instant \<Rightarrow> (worker_job \<Rightarrow> (db, unit) task) \<Rightarrow>
   (db, bool) task" where
  "run_once s eids locked now later processor =
     and_also (unit_of_work (claim_body s (\<lambda>i. eids (i + 2)) (eids 0) locked now)) (\<lambda>c.
     case c of
       None \<Rightarrow> give False
     | Some j \<Rightarrow> (\<lambda>db.
         let (result, db1) = processor j db in
         and_also (unit_of_work (finish_job s (eids 1) j later result)) (\<lambda>_. give True) db1))"

text \<open>
  \<open>run_forever\<close>: one call of \<open>run_once\<close> for each turn taken before the stop event is seen set;
  the worker is marked as stopped however the loop ends.
\<close>

fun poll_loop :: "(db, bool) task list \<Rightarrow> (db, unit) task" where
  "poll_loop [] = give ()"
| "poll_loop (turn # turns) = and_also turn (\<lambda>_. poll_loop turns)"

definition run_forever ::
  "worker_settings \<Rightarrow> instant \<Rightarrow> instant \<Rightarrow> (db, bool) task list \<Rightarrow> (db, unit) task" where
  "run_forever s now stopped_at turns =
     and_also (unit_of_work (worker_heartbeat now (ws_worker_id s) (Some (aware_utc now)))) (\<lambda>_ db.
       let (result, db1) = poll_loop turns db
       in (case unit_of_work (stop_worker stopped_at (ws_worker_id s) (Some (aware_utc stopped_at))) db1 of
             (Inl e, db2) \<Rightarrow> (Inl e, db2)
           | (Inr _, db2) \<Rightarrow> (result, db2)))"

section \<open>Facts about the worker's transactions\<close>

lemma worker_heartbeat_Inr:
  assumes "worker_heartbeat now wid at_time db = Inr (w, db')"
  shows "\<exists>ws. db' = db \<lparr> workers := ws \<rparr>"
  using assms by (auto simp: worker_heartbeat_def and_then_Inr_iff Let_def split: option.splits)

lemma worker_heartbeat_aware: "\<exists>w ws. worker_heartbeat now wid (Some (aware_utc t)) db = Inr (w, db \<lparr> workers := ws \<rparr>)"
  by (auto simp: worker_heartbeat_def Let_def split: option.splits)

lemma queue_inv_workers [simp]: "queue_inv (db \<lparr> workers := ws \<rparr>) = queue_inv db"
  by (simp add: queue_inv_def)

lemma stop_worker_Inr:
  assumes "stop_worker now wid at_time db = Inr (w, db')"
  shows "\<exists>ws. db' = db \<lparr> workers := ws \<rparr>"
  using assms by (auto simp: stop_worker_def and_then_Inr_iff Let_def split: option.splits)

text \<open>A completion on behalf of the job's own state always goes through.\<close>

lemma complete_job_total:
  assumes "queue_inv db" and "get_job jid org db = Inr r" and "target \<in> set (allowed_completions (job_status r))"
    and "job_started_at r = Some u" and "u \<le> t" and "eid \<notin> set (map ev_id (job_events db))"
    and "\<And>d. retry_at = Some d \<Longrightarrow> job_attempt_count r < job_max_attempts r \<and> (\<exists>v. utc d = Inr v)"
  obtains r' db' where "complete_job now eid jid target org (Some (aware_utc t)) code msg retry_at db = Inr (r', db')"
    "job_status r' = (if target = FAILED \<and> retry_at \<noteq> None then QUEUED else target)"
proof -
  have wf: "job_wf r" using assms(1,2) get_job_Inr by (auto simp: queue_inv_def)
  have lease: "leased (job_status r)" using assms(3) by (cases "job_status r") (auto simp: leased_def)
  have none: "job_completed_at r = None" using wf lease by (auto simp: job_wf_def leased_def terminal_def)
  have row: "0 \<le> job_progress_percentage r" "job_progress_percentage r \<le> 100" "0 \<le> job_attempt_count r"
    "0 \<le> job_total_attempt_count r" "0 \<le> job_manual_retry_count r" "1 \<le> job_max_attempts r"
    "30 \<le> job_timeout_seconds r" "job_attempt_count r \<le> job_max_attempts r"
    using wf by (simp_all add: job_wf_def job_row_ok_def)
  have "\<exists>p. completion_status t target code retry_at r = Inr p \<and> job_row_ok (release_lease target code msg (fst p))"
  proof (cases "target = FAILED \<and> retry_at \<noteq> None")
    case True
    then obtain d v where "retry_at = Some d" "utc d = Inr v" "job_attempt_count r < job_max_attempts r"
      using assms(7) by auto
    with True row none show ?thesis
      by (simp add: completion_status_def release_lease_def Let_def job_row_ok_def)
  next
    case False
    with row assms(4,5) show ?thesis
      by (auto simp: completion_status_def release_lease_def Let_def job_row_ok_def)
  qed
  then obtain p where p: "completion_status t target code retry_at r = Inr p"
    and "job_row_ok (release_lease target code msg (fst p))" by blast
  then obtain db' where db': "complete_job now eid jid target org (Some (aware_utc t)) code msg retry_at db =
      Inr (release_lease target code msg (fst p), db')"
    using assms(2,3,6) p by (auto simp: complete_job_def Let_def save_job_def append_event_def)
  from complete_job_Inr [OF this]
  have "job_status (release_lease target code msg (fst p)) = (if target = FAILED \<and> retry_at \<noteq> None then QUEUED else target)"
    by blast
  with db' show ?thesis by (rule that)
qed

text \<open>What a job becomes, by what its processor returned or raised.\<close>

definition settled_status :: "unit outcome \<Rightarrow> job \<Rightarrow> job_status" where
  "settled_status result r =
     (case result of
        Inl JobCancelled \<Rightarrow> CANCELLED
      | Inl JobTimedOut \<Rightarrow>
          if job_status r = CANCEL_REQUESTED then CANCELLED
          else if job_attempt_count r < job_max_attempts r then QUEUED else FAILED
      | Inl _ \<Rightarrow> if job_attempt_count r < job_max_attempts r then QUEUED else FAILED
      | Inr _ \<Rightarrow> if job_status r = CANCEL_REQUESTED then CANCELLED else SUCCEEDED)"

lemma settled_not_leased: "\<not> leased (settled_status result r)"
  by (auto simp: settled_status_def leased_def split: sum.split py_error.split)

definition view_of :: "worker_job \<Rightarrow> job \<Rightarrow> bool" where
  "view_of j r \<longleftrightarrow> wj_id j = job_id r \<and> wj_organization_id j = job_organization_id r \<and>
     wj_attempt_count j = job_attempt_count r \<and> wj_max_attempts j = job_max_attempts r"

lemma finish_job_total:
  assumes "queue_inv db" and "get_job (wj_id j) (wj_organization_id j) db = Inr r" and "view_of j r"
    and "leased (job_status r)" and "job_started_at r = Some u" and "u \<le> now"
    and "eid \<notin> set (map ev_id (job_events db))"
    and "result = Inl JobCancelled \<longrightarrow> job_status r = CANCEL_REQUESTED"
  shows "\<exists>r' db'. finish_job s eid j now result db = Inr (r', db') \<and> job_status r' = settled_status result r"
proof -
  note complete = complete_job_total [OF assms(1,2) _ assms(5,6,7), where now = now]
  have leased: "job_status r = RUNNING \<or> job_status r = CANCEL_REQUESTED" using assms(4) by (simp add: leased_def)
  have retry: "job_attempt_count r < job_max_attempts r \<and> (\<exists>v. utc d = Inr v)" if "retry_time s j now = Some d" for d
    using that assms(3) by (auto simp: retry_time_def view_of_def split: if_splits)
  have rt: "retry_time s j now \<noteq> None \<longleftrightarrow> job_attempt_count r < job_max_attempts r"
    using assms(3) by (simp add: retry_time_def view_of_def)
  have failed: "\<exists>r' db'. complete_job now eid (wj_id j) FAILED (wj_organization_id j) (Some (aware_utc now)) code msg
        (retry_time s j now) db = Inr (r', db') \<and>
      job_status r' = (if job_attempt_count r < job_max_attempts r then QUEUED else FAILED)" for code msg
    by (rule complete [of FAILED "retry_time s j now" code msg]) (use leased retry rt in auto)
  have other: "\<exists>r' db'. complete_job now eid (wj_id j) target (wj_organization_id j) (Some (aware_utc now)) None None None db =
      Inr (r', db') \<and> job_status r' = target" if "target \<in> set (allowed_completions (job_status r))" for target
    by (rule complete [of target None None None]) (use that in auto)
  show ?thesis
  proof (cases result)
    case (Inr x)
    with leased other [of CANCELLED] other [of SUCCEEDED] assms(2) show ?thesis
      by (auto simp: finish_job_def finish_successfully_def settled_status_def)
  next
    case (Inl e)
    then show ?thesis
    proof (cases e)
      case JobCancelled
      with Inl other [of CANCELLED] assms(8) show ?thesis
        by (auto simp: finish_job_def finish_cancelled_def settled_status_def)
    next
      case JobTimedOut
      with Inl leased other [of CANCELLED] failed [of "Some ''JOB_TIMEOUT''"] assms(2) show ?thesis
        by (auto simp: finish_job_def finish_timed_out_def settled_status_def)
    qed (use Inl failed [of "Some ''WORKER_PROCESSING_FAILED''"] in
         \<open>simp_all add: finish_job_def finish_failed_def settled_status_def\<close>)
  qed
qed

section \<open>The worker keeps the queue's invariant\<close>

definition keeps_queue :: "db \<Rightarrow> db \<Rightarrow> bool" where
  "keeps_queue db db' \<longleftrightarrow> (queue_inv db \<longrightarrow> queue_inv db')"

lemma keeps_queue_order: "transp keeps_queue" "reflp keeps_queue"
  by (auto simp: keeps_queue_def transp_def reflp_def)

lemma transaction_keeps_queue:
  assumes "\<And>db x db'. body db = Inr (x, db') \<Longrightarrow> queue_inv db \<Longrightarrow> queue_inv db'"
  shows "task_rel keeps_queue (unit_of_work body)"
  unfolding task_rel_def keeps_queue_def
  using assms by (auto intro: unit_of_work_preserves [where P = queue_inv])

lemma heartbeat_transaction: "task_rel keeps_queue (unit_of_work (worker_heartbeat now wid at_time))"
  by (rule transaction_keeps_queue) (auto dest: worker_heartbeat_Inr)

lemma stop_transaction: "task_rel keeps_queue (unit_of_work (stop_worker now wid at_time))"
  by (rule transaction_keeps_queue) (auto dest: stop_worker_Inr)

lemma checkpoint_keeps_queue: "task_rel keeps_queue (checkpoint eid wid j progress message t)"
  unfolding checkpoint_def
proof (intro task_rel_and_also keeps_queue_order transaction_keeps_queue)
  fix db r db'
  assume run: "checkpoint_body eid wid j progress message t db = Inr (r, db')" and inv: "queue_inv db"
  from run obtain ws r1 db2 where
    beat: "heartbeat_job t (wj_id j) (wj_organization_id j) wid (Some (aware_utc t)) (db \<lparr> workers := ws \<rparr>) = Inr (r1, db2)"
    and up: "update_progress t eid (wj_id j) (wj_organization_id j) progress message (Some (aware_utc t)) db2 = Inr (r, db')"
    by (auto simp: checkpoint_body_def and_then_Inr_iff dest!: worker_heartbeat_Inr)
  have "queue_inv db2" using heartbeating.keeps_invariant [OF beat] inv by simp
  then show "queue_inv db'" by (rule progressing.keeps_invariant [OF up])
qed (auto simp: task_rel_simple keeps_queue_order)

lemma claim_body_keeps_queue: "task_rel keeps_queue (unit_of_work (claim_body s eids eid locked now))"
proof (rule transaction_keeps_queue)
  fix db x db'
  assume run: "claim_body s eids eid locked now db = Inr (x, db')" and inv: "queue_inv db"
  from run obtain p q c where beat: "worker_heartbeat now (ws_worker_id s) (Some (aware_utc now)) db = Inr p"
    and "recover_stale now eids (aware_utc (now - seconds (ws_stale_timeout_seconds s))) (Some (aware_utc now)) (snd p) = Inr q"
    and "claim_next now eid (ws_worker_id s) (Some (aware_utc now)) (ws_organization_id s)
        (ws_priority_aging_seconds s) locked (snd q) = Inr c"
    and rest: "(case fst c of None \<Rightarrow> Inr (None, snd c)
     | Some r \<Rightarrow> and_then (worker_job_of r) (\<lambda>j. Inr (Some j, snd c))) = Inr (x, db')"
    unfolding claim_body_def and_then_Inr_iff by blast
  moreover have "snd c = db'" using rest by (auto simp: and_then_Inr_iff split: option.splits)
  ultimately obtain n db2 r where
    rec: "recover_stale now eids (aware_utc (now - seconds (ws_stale_timeout_seconds s))) (Some (aware_utc now))
        (snd p) = Inr (n, db2)"
    and claim: "claim_next now eid (ws_worker_id s) (Some (aware_utc now)) (ws_organization_id s)
        (ws_priority_aging_seconds s) locked db2 = Inr (r, db')"
    by (metis prod.collapse)
  have p: "queue_inv (snd p)" using beat inv by (cases p) (auto dest!: worker_heartbeat_Inr)
  have "queue_inv db2" by (rule recover_stale_Inr [OF rec p])
  then show "queue_inv db'" by (rule claim_next_invariant [OF claim])
qed

lemma finish_job_keeps_queue: "task_rel keeps_queue (unit_of_work (finish_job s eid j now result))"
proof (rule transaction_keeps_queue)
  fix db x db'
  assume run: "finish_job s eid j now result db = Inr (x, db')" and inv: "queue_inv db"
  from run obtain target code msg retry_at where
    "complete_job now eid (wj_id j) target (wj_organization_id j) (Some (aware_utc now)) code msg retry_at db = Inr (x, db')"
    by (auto simp: finish_job_def finish_cancelled_def finish_successfully_def finish_failed_def finish_timed_out_def
        and_then_Inr_iff split: sum.splits py_error.splits if_splits)
  then show "queue_inv db'" using inv by (rule completing.keeps_invariant)
qed

lemma run_once_keeps_queue:
  assumes "\<And>j. task_rel keeps_queue (processor j)"
  shows "task_rel keeps_queue (run_once s eids locked now later processor)"
  unfolding run_once_def
proof (intro task_rel_and_also claim_body_keeps_queue keeps_queue_order)
  fix c :: "worker_job option"
  show "task_rel keeps_queue (case c of None \<Rightarrow> give False
     | Some j \<Rightarrow> (\<lambda>db. let (result, db1) = processor j db in
         and_also (unit_of_work (finish_job s (eids 1) j later result)) (\<lambda>_. give True) db1))"
  proof (cases c)
    case None
    then show ?thesis by (simp add: task_rel_simple keeps_queue_order)
  next
    case (Some j)
    have "keeps_queue db (snd (and_also (unit_of_work (finish_job s (eids 1) j later result)) (\<lambda>_. give True) db1))"
      if "processor j db = (result, db1)" for db result db1
    proof -
      have "keeps_queue db db1" using assms [of j] that by (auto dest: task_relD [where s = db])
      moreover have "task_rel keeps_queue (and_also (unit_of_work (finish_job s (eids 1) j later result)) (\<lambda>_. give True))"
        by (intro task_rel_and_also finish_job_keeps_queue keeps_queue_order task_rel_simple)
      ultimately show ?thesis using keeps_queue_order(1) by (auto dest: task_relD elim: transpE)
    qed
    with Some show ?thesis by (auto simp: task_rel_def split: prod.split)
  qed
qed

lemma poll_loop_keeps_queue: "list_all (task_rel keeps_queue) turns \<Longrightarrow> task_rel keeps_queue (poll_loop turns)"
  by (induction turns) (auto intro!: task_rel_and_also keeps_queue_order task_rel_simple)

lemma run_forever_keeps_queue:
  assumes "list_all (task_rel keeps_queue) turns"
  shows "task_rel keeps_queue (run_forever s now stopped_at turns)"
  unfolding run_forever_def
proof (intro task_rel_and_also keeps_queue_order heartbeat_transaction)
  fix w :: worker
  show "task_rel keeps_queue (\<lambda>db. let (result, db1) = poll_loop turns db
       in (case unit_of_work (stop_worker stopped_at (ws_worker_id s) (Some (aware_utc stopped_at))) db1 of
             (Inl e, db2) \<Rightarrow> (Inl e, db2)
           | (Inr _, db2) \<Rightarrow> (result, db2)))"
    unfolding task_rel_def
  proof
    fix db
    obtain result db1 where loop: "poll_loop turns db = (result, db1)" by fastforce
    obtain o' db2 where stop: "unit_of_work (stop_worker stopped_at (ws_worker_id s) (Some (aware_utc stopped_at))) db1 =
      (o', db2)" by fastforce
    have "keeps_queue db db1" using task_relD [OF poll_loop_keeps_queue [OF assms], of db] loop by simp
    moreover have "keeps_queue db1 db2" using task_relD [OF stop_transaction, of db1] stop by (metis snd_conv)
    ultimately have "keeps_queue db db2" by (rule transpD [OF keeps_queue_order(1)])
    then show "keeps_queue db (snd (let (result, db1) = poll_loop turns db
       in (case unit_of_work (stop_worker stopped_at (ws_worker_id s) (Some (aware_utc stopped_at))) db1 of
             (Inl e, db2) \<Rightarrow> (Inl e, db2)
           | (Inr _, db2) \<Rightarrow> (result, db2))))"
      using loop stop by (cases o') simp_all
  qed
qed

lemma recover_stale_runs:
  assumes "recover_stale now eids before at_time db = Inr (n, db')"
  shows "runs db' = runs db"
proof -
  from assms obtain t xs where loop: "fold_err (recover_one t) xs db = Inr db'"
    by (auto simp: recover_stale_def and_then_Inr_iff Let_def)
  have "runs s' = runs s" if "recover_one t x s = Inr s'" for x s s'
    using that by (auto simp: recover_one_def Let_def and_then_Inr_iff save_job_def append_event_Inr
        split: prod.splits if_splits)
  then have "runs s' = runs db" if "fold_err (recover_one t) ys s = Inr s'" "runs s = runs db" for ys s s'
    using that by (induction ys arbitrary: s) (auto simp: and_then_Inr_iff)
  then show ?thesis using loop by blast
qed

section \<open>Properties of the worker\<close>


text \<open>
  A worker that runs any number of turns keeps the queue's invariant, however its processors
  fail and whatever its own transactions raise, provided what happens during the processing
  keeps it.
\<close>

theorem worker_keeps_queue_invariant:
  assumes "list_all (\<lambda>(now, later, p). \<forall>j. task_rel keeps_queue (p j)) turns" and "queue_inv db"
  shows "queue_inv (snd (run_forever s started_at stopped_at
    (map (\<lambda>(now, later, p). run_once s eids locked now later p) turns) db))"
proof -
  have "list_all (task_rel keeps_queue) (map (\<lambda>(now, later, p). run_once s eids locked now later p) turns)"
    using assms(1) by (auto simp: list_all_iff intro!: run_once_keeps_queue)
  from task_relD [OF run_forever_keeps_queue [OF this], of db] assms(2) show ?thesis
    by (simp add: keeps_queue_def)
qed

text \<open>
  A worker that has lost its lease, because the job was recovered, finished or claimed by
  another worker, cannot report progress on it: the checkpoint raises and changes nothing.
\<close>

theorem checkpoint_needs_lease:
  assumes "get_job (wj_id j) (wj_organization_id j) db = Inr r"
    and "\<not> leased (job_status r) \<or> job_claimed_by r \<noteq> Some wid"
  shows "checkpoint eid wid j progress message t db = (Inl InvalidStatusTransitionError, db)"
proof -
  obtain w ws where beat: "worker_heartbeat t wid (Some (aware_utc t)) db = Inr (w, db \<lparr> workers := ws \<rparr>)"
    using worker_heartbeat_aware by blast
  have "get_job (wj_id j) (wj_organization_id j) (db \<lparr> workers := ws \<rparr>) = Inr r"
    using assms(1) by (simp add: get_job_def)
  then have "checkpoint_body eid wid j progress message t db = Inl InvalidStatusTransitionError"
    using beat assms(2) by (auto simp: checkpoint_body_def heartbeat_job_def)
  then show ?thesis by (simp add: checkpoint_def and_also_def unit_of_work_def)
qed

text \<open>
  A failure during the processing overrides a cancellation requested meanwhile: the job is
  put back into the queue, with its cancellation request still recorded, and will run again.
\<close>

theorem failure_overrides_cancellation:
  assumes "finish_failed s eid j now db = Inr (r', db')" and "get_job (wj_id j) (wj_organization_id j) db = Inr r"
    and "job_status r = CANCEL_REQUESTED" and "wj_attempt_count j < wj_max_attempts j"
  shows "job_status r' = QUEUED \<and> job_cancellation_requested_at r' = job_cancellation_requested_at r"
proof -
  obtain q where q: "get_job (wj_id j) (wj_organization_id j) db = Inr q"
    and st: "job_status r' = (if FAILED = FAILED \<and> retry_time s j now \<noteq> None then QUEUED else FAILED)"
    and kept: "job_cancellation_requested_at r' = job_cancellation_requested_at q"
    by (rule complete_job_Inr [OF assms(1) [unfolded finish_failed_def]])
  have "retry_time s j now \<noteq> None" using assms(4) by (simp add: retry_time_def)
  moreover have "q = r" using q assms(2) by simp
  ultimately show ?thesis using st kept by simp
qed

text \<open>
  A job whose last attempt is interrupted is failed by the recovery, but its run is left
  running, and so the failed job can never be retried by hand.
\<close>

theorem interrupted_job_cannot_be_retried:
  assumes "recover_stale now eids before at_time db = Inr (n, db')" and "utc before = Inr cutoff" and "queue_inv db"
    and "j \<in> set (jobs db)" and "stale cutoff j" and "job_status j = RUNNING" and "job_attempt_count j = job_max_attempts j"
    and "distinct (map run_id (runs db))" and "the_run \<in> set (runs db)" and "run_id the_run = job_run_id j"
    and "run_status the_run = RUN_RUNNING" and "1 \<le> limit"
  shows "retry_failed now' eid (job_id j) (job_organization_id j) limit at_time' db' = Inl InvalidStatusTransitionError"
proof -
  obtain t c where c: "utc before = Inr c" and jobs: "jobs db' = map (\<lambda>j. if stale c j then recovered t j else j) (jobs db)"
    and inv': "queue_inv db'"
    by (rule recover_stale_Inr [OF assms(1,3)])
  have "c = cutoff" using c assms(2) by simp
  then have mem: "recovered t j \<in> set (jobs db')" using jobs assms(4,5) by auto
  have same: "job_id (recovered t j) = job_id j" "job_organization_id (recovered t j) = job_organization_id j"
    "job_run_id (recovered t j) = job_run_id j"
    using recovered_fields(4) [of j t] by (auto simp: same_job_def)
  have get: "get_job (job_id j) (job_organization_id j) db' = Inr (recovered t j)"
    using scoped_get_unique [of job_id "jobs db'" "recovered t j" job_organization_id "job_organization_id j"] inv' mem same
    by (simp add: get_job_def queue_inv_def)
  have failed: "job_status (recovered t j) = FAILED" using assms(6,7) by (simp add: recovered_def Let_def)
  have run: "run_status x = RUN_RUNNING" if "x \<in> set (runs db')" "run_id x = job_run_id j" for x
    using that assms(8-11) recover_stale_runs [OF assms(1)] by (metis distinct_map inj_onD)
  have "retry_failed now' eid (job_id j) (job_organization_id j) limit at_time' db' \<noteq> Inr p" for p
  proof
    assume r: "retry_failed now' eid (job_id j) (job_organization_id j) limit at_time' db' = Inr p"
    then obtain r' db'' where "retry_failed now' eid (job_id j) (job_organization_id j) limit at_time' db' = Inr (r', db'')"
      by (cases p) simp
    then show False
      by (rule retry_failed_Inr) (use get same run in \<open>auto simp: find_Some_iff\<close>)
  qed
  moreover have "retry_failed now' eid (job_id j) (job_organization_id j) limit at_time' db' = Inl e \<Longrightarrow>
      e = InvalidStatusTransitionError" for e
    using assms(12) get failed same run
    by (auto simp: retry_failed_def and_then_Inl_iff guard_else_Inl_iff guard_else_Inr_iff find_Some_iff
        split: option.splits)
  ultimately show ?thesis by (metis sum.exhaust)
qed

section \<open>Concrete runs of the worker\<close>

definition sample_settings :: worker_settings where
  "sample_settings = \<lparr> ws_worker_id = ''w'', ws_poll_interval = 2, ws_stale_timeout_seconds = 300,
     ws_retry_delay_seconds = 30, ws_priority_aging_seconds = 300, ws_organization_id = None \<rparr>"

definition sample_view :: "job \<Rightarrow> worker_job" where
  "sample_view r = \<lparr> wj_id = job_id r, wj_organization_id = job_organization_id r, wj_run_id = job_run_id r,
     wj_attempt_count = job_attempt_count r, wj_max_attempts = job_max_attempts r,
     wj_timeout_seconds = job_timeout_seconds r, wj_deadline_at = 900000000 \<rparr>"

lemma sample_view_of: "view_of (sample_view r) r"
  by (simp add: view_of_def sample_view_def)


theorem worker_keeps_queue_invariant_witness:
  "queue_inv (snd (run_forever sample_settings 0 30
     (map (\<lambda>(now, later, p). run_once sample_settings id {} now later p)
       [(10, 20, \<lambda>j. checkpoint 50 ''w'' j 10 None 15), (40, 50, \<lambda>_. raising JobTimedOut)])
     (sample_queue [sample_job 1 1 QUEUED LOW 0])))"
proof -
  have inv: "queue_inv (sample_queue [sample_job 1 1 QUEUED LOW 0])"
    by (rule sample_queue_inv) (simp_all add: sample_job_wf leased_def)
  show ?thesis
    by (rule worker_keeps_queue_invariant [OF _ inv])
      (simp add: checkpoint_keeps_queue task_rel_simple keeps_queue_order)
qed

theorem checkpoint_needs_lease_witness:
  "checkpoint 50 ''other'' (sample_view (sample_job 1 1 RUNNING LOW 1)) 10 None 15
     (sample_queue [sample_job 1 1 RUNNING LOW 1]) =
   (Inl InvalidStatusTransitionError, sample_queue [sample_job 1 1 RUNNING LOW 1])"
  by (rule checkpoint_needs_lease [where r = "sample_job 1 1 RUNNING LOW 1"])
    (simp_all add: sample_view_def sample_job_def get_job_def scoped_get_def leased_def)

theorem failure_overrides_cancellation_witness:
  "\<exists>r' db'. finish_failed sample_settings 7 (sample_view (sample_job 1 1 CANCEL_REQUESTED LOW 1)) 20
      (sample_queue [sample_job 1 1 CANCEL_REQUESTED LOW 1]) = Inr (r', db') \<and>
     job_status r' = QUEUED \<and> job_cancellation_requested_at r' = Some 1"
proof -
  let ?j = "sample_job 1 1 CANCEL_REQUESTED LOW 1"
  have "case finish_failed sample_settings 7 (sample_view ?j) 20 (sample_queue [?j]) of Inl _ \<Rightarrow> False | Inr _ \<Rightarrow> True"
    by code_simp
  then obtain r' db' where run: "finish_failed sample_settings 7 (sample_view ?j) 20 (sample_queue [?j]) = Inr (r', db')"
    by (auto split: sum.splits)
  have "get_job (wj_id (sample_view ?j)) (wj_organization_id (sample_view ?j)) (sample_queue [?j]) = Inr ?j"
    by (simp add: sample_view_def get_job_def scoped_get_def)
  from failure_overrides_cancellation [OF run this] run show ?thesis
    by (simp add: sample_view_def sample_job_def)
qed

theorem interrupted_job_cannot_be_retried_witness:
  "\<exists>n db'. recover_stale 900000000 id (aware_utc 500000000) None (sample_queue [sample_job 1 1 RUNNING LOW 3]) = Inr (n, db') \<and>
     retry_failed 900000001 7 1 1 5 None db' = Inl InvalidStatusTransitionError"
proof -
  let ?j = "sample_job 1 1 RUNNING LOW 3"
  let ?db = "sample_queue [?j]"
  have "case recover_stale 900000000 id (aware_utc 500000000) None ?db of Inl _ \<Rightarrow> False | Inr _ \<Rightarrow> True" by code_simp
  then obtain n db' where run: "recover_stale 900000000 id (aware_utc 500000000) None ?db = Inr (n, db')"
    by (auto split: sum.splits)
  have inv: "queue_inv ?db" by (rule sample_queue_inv) (simp_all add: sample_job_wf leased_def)
  have rs: "runs ?db = [sample_run 101 1 RUN_RUNNING]" by (simp add: sample_queue_def)
  have st: "stale 500000000 ?j" "job_attempt_count ?j = job_max_attempts ?j"
    by (simp_all add: stale_def sample_job_def leased_def)
  have the_run: "run_id (sample_run 101 1 RUN_RUNNING) = 101" "run_status (sample_run 101 1 RUN_RUNNING) = RUN_RUNNING"
    by (simp_all add: sample_run_def)
  have "retry_failed 900000001 7 (job_id ?j) (job_organization_id ?j) 5 None db' = Inl InvalidStatusTransitionError"
    by (rule interrupted_job_cannot_be_retried [OF run utc_or_aware(2) inv _ st(1) _ st(2),
          where the_run = "sample_run 101 1 RUN_RUNNING"])
      (simp_all add: rs the_run del: One_nat_def)
  then have "retry_failed 900000001 7 1 1 5 None db' = Inl InvalidStatusTransitionError" by simp
  with run show ?thesis by (intro exI [of _ n] exI [of _ db'] conjI)
qed

end
