(* ===== verification/Audit_Trail.thy ===== *)
theory Audit_Trail
  imports Engine Runs
begin

text \<open>
  The audit trail of one run: \<open>audit/events.py\<close> and \<open>audit/trail.py\<close>.  A trail collects events
  in order and ends with a record of the run.  The wall clock and the monotonic clock are read
  by the caller and passed in; writing to the log is left out.
\<close>

section \<open>Events\<close>

datatype audit_event_type =
    RUN_STARTED | BANK_INGESTION_COMPLETED | ERP_INGESTION_COMPLETED | GATEWAY_INGESTION_COMPLETED
  | GATEWAY_INGESTION_SKIPPED | RECONCILIATION_COMPLETED | EXPORT_COMPLETED | AUDIT_RUN_SUCCEEDED
  | AUDIT_RUN_FAILED

fun audit_event_text :: "audit_event_type \<Rightarrow> string" where
  "audit_event_text RUN_STARTED = ''RUN_STARTED''"
| "audit_event_text BANK_INGESTION_COMPLETED = ''BANK_INGESTION_COMPLETED''"
| "audit_event_text ERP_INGESTION_COMPLETED = ''ERP_INGESTION_COMPLETED''"
| "audit_event_text GATEWAY_INGESTION_COMPLETED = ''GATEWAY_INGESTION_COMPLETED''"
| "audit_event_text GATEWAY_INGESTION_SKIPPED = ''GATEWAY_INGESTION_SKIPPED''"
| "audit_event_text RECONCILIATION_COMPLETED = ''RECONCILIATION_COMPLETED''"
| "audit_event_text EXPORT_COMPLETED = ''EXPORT_COMPLETED''"
| "audit_event_text AUDIT_RUN_SUCCEEDED = ''RUN_SUCCEEDED''"
| "audit_event_text AUDIT_RUN_FAILED = ''RUN_FAILED''"

lemma audit_event_text_inj [simp]: "audit_event_text a = audit_event_text b \<longleftrightarrow> a = b"
  by (cases a; cases b) simp_all

datatype audit_run_status = AUDIT_SUCCEEDED | AUDIT_FAILED

text \<open>\<open>_freeze\<close>: mappings are rebuilt with their keys in order, at every depth.\<close>

fun freeze :: "json \<Rightarrow> json" where
  "freeze (JObject items) = JObject (sort_key fst (map (\<lambda>(k, v). (k, freeze v)) items))"
| "freeze (JList items) = JList (map freeze items)"
| "freeze v = v"

record audit_event =
  ae_run_id :: uuid
  ae_event :: audit_event_type
  ae_timestamp :: instant
  ae_details :: json

definition audit_event_post_init :: "audit_event \<Rightarrow> audit_event" where
  "audit_event_post_init e = e \<lparr> ae_details := freeze (ae_details e) \<rparr>"

definition event_to_dict :: "audit_event \<Rightarrow> json" where
  "event_to_dict e = JObject
     [(''run_id'', JText (uuid_text (ae_run_id e))), (''event'', JText (audit_event_text (ae_event e))),
      (''timestamp'', JTime (ae_timestamp e)), (''details'', ae_details e)]"

record audit_record =
  ar_run_id :: uuid
  ar_status :: audit_run_status
  ar_started_at :: instant
  ar_finished_at :: instant
  ar_duration_ms :: int
  ar_bank_filename :: string
  ar_erp_filename :: string
  ar_gateway_filename :: "string option"
  ar_output_filename :: string
  ar_output_format :: string
  ar_bank_transactions_loaded :: int
  ar_erp_invoices_loaded :: int
  ar_gateway_entries_loaded :: int
  ar_reconciliation_results :: int
  ar_result_counts_by_status :: "(string \<times> int) list"
  ar_results_requiring_review :: int
  ar_reconciliation_config :: "(string \<times> json) list"
  ar_failure_type :: "string option"
  ar_failure_stage :: "string option"
  ar_failure_message :: "string option"

definition audit_record_post_init :: "audit_record \<Rightarrow> audit_record" where
  "audit_record_post_init r = r
     \<lparr> ar_result_counts_by_status := sort_key fst (ar_result_counts_by_status r),
       ar_reconciliation_config := sort_key fst (ar_reconciliation_config r) \<rparr>"

section \<open>The trail\<close>

text \<open>What \<open>start\<close> remembers of the run's inputs and outputs.\<close>

record trail_metadata =
  tm_bank_filename :: string
  tm_erp_filename :: string
  tm_gateway_filename :: "string option"
  tm_output_filename :: string
  tm_output_format :: string
  tm_reconciliation_config :: "(string \<times> json) list"

datatype trail_source = BANK_SOURCE | ERP_SOURCE | GATEWAY_SOURCE

record trail =
  tr_run_id :: uuid
  tr_events :: "audit_event list"
  tr_record :: "audit_record option"
  tr_started_at :: "instant option"
  tr_started_ns :: "int option"
  tr_metadata :: "trail_metadata option"
  tr_loaded :: "trail_source \<Rightarrow> int"
  tr_results :: int
  tr_review :: int
  tr_status_counts :: "(string \<times> int) list"
  tr_stage :: string

definition new_trail :: "uuid \<Rightarrow> trail" where
  "new_trail rid = \<lparr> tr_run_id = rid, tr_events = [], tr_record = None, tr_started_at = None,
     tr_started_ns = None, tr_metadata = None, tr_loaded = (\<lambda>_. 0), tr_results = 0, tr_review = 0,
     tr_status_counts = [], tr_stage = ''initialization'' \<rparr>"

text \<open>\<open>Path(p).name\<close>: the last component that is not empty or a single dot.\<close>

fun path_parts :: "string \<Rightarrow> string list" where
  "path_parts [] = [[]]"
| "path_parts (c # cs) =
     (if c = CHR ''/'' then [] # path_parts cs
      else (case path_parts cs of p # ps \<Rightarrow> (c # p) # ps | [] \<Rightarrow> [[c]]))"

definition path_name :: "string \<Rightarrow> string" where
  "path_name p =
     (case rev (filter (\<lambda>x. x \<noteq> [] \<and> x \<noteq> ''.'') (path_parts p)) of [] \<Rightarrow> [] | x # _ \<Rightarrow> x)"

definition emit :: "instant \<Rightarrow> audit_event_type \<Rightarrow> (string \<times> json) list \<Rightarrow> trail \<Rightarrow> trail" where
  "emit now ty details t = t \<lparr> tr_events := tr_events t @
     [audit_event_post_init \<lparr> ae_run_id = tr_run_id t, ae_event = ty, ae_timestamp = now,
        ae_details = JObject details \<rparr>] \<rparr>"

definition start_trail ::
  "instant \<Rightarrow> int \<Rightarrow> string \<Rightarrow> string \<Rightarrow> string option \<Rightarrow> string \<Rightarrow> string \<Rightarrow> config \<Rightarrow> trail \<Rightarrow> trail outcome" where
  "start_trail now ns bank_path erp_path gateway_path output_path output_format cfg t =
     and_then (guard_else (tr_started_at t = None) (RuntimeError ''audit trail has already started'')) (\<lambda>_.
     Inr (emit now RUN_STARTED [] (t
       \<lparr> tr_started_at := Some now, tr_started_ns := Some ns,
         tr_metadata := Some
           \<lparr> tm_bank_filename = path_name bank_path, tm_erp_filename = path_name erp_path,
             tm_gateway_filename = map_option path_name gateway_path,
             tm_output_filename = path_name output_path, tm_output_format = output_format,
             tm_reconciliation_config =
               [(''amount_tolerance'', JText (dec_fixed (amount_tolerance cfg))),
                (''date_tolerance_days'', JInt (date_tolerance_days cfg)),
                (''maximum_group_size'', JInt (maximum_group_size cfg))] \<rparr> \<rparr>)))"

definition begin_stage :: "string \<Rightarrow> trail \<Rightarrow> trail" where
  "begin_stage stage t = t \<lparr> tr_stage := stage \<rparr>"

fun ingestion_event :: "trail_source \<Rightarrow> audit_event_type" where
  "ingestion_event BANK_SOURCE = BANK_INGESTION_COMPLETED"
| "ingestion_event ERP_SOURCE = ERP_INGESTION_COMPLETED"
| "ingestion_event GATEWAY_SOURCE = GATEWAY_INGESTION_COMPLETED"

definition ingestion_completed :: "instant \<Rightarrow> trail_source \<Rightarrow> int \<Rightarrow> trail \<Rightarrow> trail" where
  "ingestion_completed now source n t =
     emit now (ingestion_event source) [(''records_loaded'', JInt n)]
       (t \<lparr> tr_loaded := (tr_loaded t) (source := n) \<rparr>)"

definition gateway_skipped :: "instant \<Rightarrow> trail \<Rightarrow> trail" where
  "gateway_skipped now t = emit now GATEWAY_INGESTION_SKIPPED [] t"

definition reconciliation_completed ::
  "instant \<Rightarrow> int \<Rightarrow> (string \<times> int) list \<Rightarrow> int \<Rightarrow> trail \<Rightarrow> trail" where
  "reconciliation_completed now result_total counts review t =
     emit now RECONCILIATION_COMPLETED
       [(''results'', JInt result_total), (''results_requiring_review'', JInt review),
        (''status_counts'', JObject (map (\<lambda>(k, n). (k, JInt n)) (sort_key fst counts)))]
       (t \<lparr> tr_results := result_total, tr_review := review, tr_status_counts := counts \<rparr>)"

definition export_completed :: "instant \<Rightarrow> trail \<Rightarrow> trail outcome" where
  "export_completed now t =
     (case tr_metadata t of
        None \<Rightarrow> Inl (KeyError ''output_format'')
      | Some m \<Rightarrow> Inr (emit now EXPORT_COMPLETED
          [(''output_format'', JText (tm_output_format m)), (''output_filename'', JText (tm_output_filename m))] t))"

definition finish_record ::
  "instant \<Rightarrow> int \<Rightarrow> audit_run_status \<Rightarrow> string option \<Rightarrow> string option \<Rightarrow> string option \<Rightarrow> trail \<Rightarrow> audit_record outcome" where
  "finish_record now ns status failure_type failure_stage failure_message t =
     (case (tr_started_at t, tr_started_ns t, tr_metadata t) of
        (Some started, Some started_ns, Some m) \<Rightarrow> Inr (audit_record_post_init
          \<lparr> ar_run_id = tr_run_id t, ar_status = status, ar_started_at = started, ar_finished_at = now,
            ar_duration_ms = max 0 ((ns - started_ns) div 1000000),
            ar_bank_filename = tm_bank_filename m, ar_erp_filename = tm_erp_filename m,
            ar_gateway_filename = tm_gateway_filename m, ar_output_filename = tm_output_filename m,
            ar_output_format = tm_output_format m,
            ar_bank_transactions_loaded = tr_loaded t BANK_SOURCE,
            ar_erp_invoices_loaded = tr_loaded t ERP_SOURCE,
            ar_gateway_entries_loaded = tr_loaded t GATEWAY_SOURCE,
            ar_reconciliation_results = tr_results t, ar_result_counts_by_status = tr_status_counts t,
            ar_results_requiring_review = tr_review t,
            ar_reconciliation_config = tm_reconciliation_config m, ar_failure_type = failure_type,
            ar_failure_stage = failure_stage, ar_failure_message = failure_message \<rparr>)
      | _ \<Rightarrow> Inl (RuntimeError ''audit trail has not started''))"

text \<open>Both endings log their event before they build the record, and keep it if that fails.\<close>

definition succeed_trail :: "instant \<Rightarrow> int \<Rightarrow> (trail, audit_record) task" where
  "succeed_trail now ns t =
     (let t' = emit now AUDIT_RUN_SUCCEEDED [] t in
      case finish_record now ns AUDIT_SUCCEEDED None None None t' of
        Inl e \<Rightarrow> (Inl e, t')
      | Inr r \<Rightarrow> (Inr r, t' \<lparr> tr_record := Some r \<rparr>))"

text \<open>\<open>type(error).__name__\<close>.\<close>

fun error_name :: "py_error \<Rightarrow> string" where
  "error_name (ValueError _) = ''ValueError''"
| "error_name (TypeError _) = ''TypeError''"
| "error_name (RuntimeError _) = ''RuntimeError''"
| "error_name RecordNotFoundError = ''RecordNotFoundError''"
| "error_name PersistenceConflictError = ''PersistenceConflictError''"
| "error_name InvalidStatusTransitionError = ''InvalidStatusTransitionError''"
| "error_name StorageQuotaExceededError = ''StorageQuotaExceededError''"
| "error_name IntegrityError = ''IntegrityError''"
| "error_name (APIError _ _) = ''APIError''"
| "error_name (AttributeError _) = ''AttributeError''"
| "error_name (KeyError _) = ''KeyError''"
| "error_name (StorageError c) = c"
| "error_name (IngestionError _) = ''IngestionError''"
| "error_name (ResultExportError _) = ''ResultExportError''"
| "error_name TokenValidationError = ''TokenValidationError''"
| "error_name (AIInferenceError _) = ''AIInferenceError''"
| "error_name AIInferenceDisabledError = ''AIInferenceDisabledError''"
| "error_name AIInferenceResponseError = ''AIInferenceResponseError''"
| "error_name (AIUsageLimitError _) = ''AIUsageLimitError''"
| "error_name TimeoutError = ''TimeoutError''"
| "error_name (FileExistsError _) = ''FileExistsError''"
| "error_name (CsvError _) = ''Error''"
| "error_name InvalidOperation = ''InvalidOperation''"
| "error_name (OverflowError _) = ''OverflowError''"
| "error_name JobCancelled = ''JobCancelled''"
| "error_name JobTimedOut = ''JobTimedOut''"

definition fail_trail :: "instant \<Rightarrow> int \<Rightarrow> py_error \<Rightarrow> (trail, audit_record) task" where
  "fail_trail now ns err t =
     (let safe_message = ''Processing failed during '' @ tr_stage t @ ''.'';
          t' = emit now AUDIT_RUN_FAILED
            [(''failure_type'', JText (error_name err)), (''failure_stage'', JText (tr_stage t)),
             (''failure_message'', JText safe_message)] t
      in case finish_record now ns AUDIT_FAILED (Some (error_name err)) (Some (tr_stage t)) (Some safe_message) t' of
           Inl e \<Rightarrow> (Inl e, t')
         | Inr r \<Rightarrow> (Inr r, t' \<lparr> tr_record := Some r \<rparr>))"

section \<open>Facts about trails\<close>

text \<open>The types of the recorded events, in order.\<close>

definition event_types :: "trail \<Rightarrow> audit_event_type list" where
  "event_types t = map ae_event (tr_events t)"

text \<open>
  A trail in good order: every event carries the run's identifier and the trail is started
  exactly when it has events, the first of which says so.
\<close>

definition trail_ok :: "trail \<Rightarrow> bool" where
  "trail_ok t \<longleftrightarrow>
     list_all (\<lambda>e. ae_run_id e = tr_run_id t) (tr_events t) \<and>
     (tr_started_at t = None \<longleftrightarrow> tr_events t = []) \<and>
     (tr_started_at t = None \<longleftrightarrow> tr_started_ns t = None) \<and>
     (tr_started_at t = None \<longleftrightarrow> tr_metadata t = None) \<and>
     (tr_events t \<noteq> [] \<longrightarrow> ae_event (hd (tr_events t)) = RUN_STARTED)"

lemma emit_types [simp]: "event_types (emit now ty ds t) = event_types t @ [ty]"
  by (simp add: emit_def event_types_def audit_event_post_init_def)

lemma emit_fields [simp]:
  "tr_run_id (emit now ty ds t) = tr_run_id t" "tr_started_at (emit now ty ds t) = tr_started_at t"
  "tr_started_ns (emit now ty ds t) = tr_started_ns t" "tr_metadata (emit now ty ds t) = tr_metadata t"
  "tr_stage (emit now ty ds t) = tr_stage t"
  by (simp_all add: emit_def)

lemma event_types_update [simp]:
  "event_types (t \<lparr> tr_record := r \<rparr>) = event_types t" "event_types (begin_stage s t) = event_types t"
  "event_types (t \<lparr> tr_loaded := l \<rparr>) = event_types t"
  by (simp_all add: event_types_def begin_stage_def)

lemma trail_ok_new: "trail_ok (new_trail rid)"
  by (simp add: trail_ok_def new_trail_def)

lemma trail_ok_emit: "trail_ok t \<Longrightarrow> tr_started_at t \<noteq> None \<Longrightarrow> trail_ok (emit now ty ds t)"
  by (auto simp: trail_ok_def emit_def audit_event_post_init_def)

lemma trail_ok_stage: "trail_ok t \<Longrightarrow> trail_ok (begin_stage s t)"
  by (auto simp: trail_ok_def begin_stage_def)

lemma trail_ok_loaded:
  "trail_ok t \<Longrightarrow> trail_ok (t \<lparr> tr_loaded := l \<rparr>)"
  "trail_ok t \<Longrightarrow> trail_ok (t \<lparr> tr_results := n, tr_review := m, tr_status_counts := cs \<rparr>)"
  "trail_ok t \<Longrightarrow> trail_ok (t \<lparr> tr_record := r \<rparr>)"
  by (auto simp: trail_ok_def)

lemma start_trail_Inr:
  assumes "start_trail now ns bank_path erp_path gateway_path output_path output_format cfg t = Inr t'" and "trail_ok t"
  shows "trail_ok t'" "event_types t' = [RUN_STARTED]" "tr_started_at t' = Some now" "tr_run_id t' = tr_run_id t"
  using assms
  by (auto simp: start_trail_def and_then_Inr_iff guard_else_Inr_iff trail_ok_def emit_def event_types_def
      audit_event_post_init_def)

lemma finish_record_started:
  assumes "trail_ok t" and "tr_started_at t \<noteq> None"
  obtains r where "finish_record now ns status ty stage msg t = Inr r" "ar_status r = status"
    "ar_failure_type r = ty" "ar_run_id r = tr_run_id t"
  using assms by (auto simp: trail_ok_def finish_record_def audit_record_post_init_def)

lemma fail_trail_started:
  assumes "trail_ok t" and "tr_started_at t \<noteq> None"
  obtains r t' where "fail_trail now ns err t = (Inr r, t')" "trail_ok t'" "ar_status r = AUDIT_FAILED"
    "event_types t' = event_types t @ [AUDIT_RUN_FAILED]" "tr_run_id t' = tr_run_id t"
proof -
  let ?ds = "[(''failure_type'', JText (error_name err)), (''failure_stage'', JText (tr_stage t)),
             (''failure_message'', JText (''Processing failed during '' @ tr_stage t @ ''.''))]"
  let ?t = "emit now AUDIT_RUN_FAILED ?ds t"
  have ok: "trail_ok ?t" using assms by (rule trail_ok_emit)
  obtain r where "finish_record now ns AUDIT_FAILED (Some (error_name err)) (Some (tr_stage t))
      (Some (''Processing failed during '' @ tr_stage t @ ''.'')) ?t = Inr r" "ar_status r = AUDIT_FAILED"
    by (rule finish_record_started [OF ok]) (use assms(2) in auto)
  then show ?thesis using ok by (intro that [of r "?t \<lparr> tr_record := Some r \<rparr>"])
    (simp_all add: fail_trail_def Let_def trail_ok_loaded(3))
qed

lemma succeed_trail_started:
  assumes "trail_ok t" and "tr_started_at t \<noteq> None"
  obtains r t' where "succeed_trail now ns t = (Inr r, t')" "trail_ok t'" "ar_status r = AUDIT_SUCCEEDED"
    "event_types t' = event_types t @ [AUDIT_RUN_SUCCEEDED]" "tr_run_id t' = tr_run_id t"
proof -
  let ?t = "emit now AUDIT_RUN_SUCCEEDED [] t"
  have ok: "trail_ok ?t" using assms by (rule trail_ok_emit)
  obtain r where "finish_record now ns AUDIT_SUCCEEDED None None None ?t = Inr r" "ar_status r = AUDIT_SUCCEEDED"
    by (rule finish_record_started [OF ok]) (use assms(2) in auto)
  then show ?thesis using ok by (intro that [of r "?t \<lparr> tr_record := Some r \<rparr>"])
    (simp_all add: succeed_trail_def Let_def trail_ok_loaded(3))
qed

text \<open>Freezing twice is freezing once.\<close>

lemma freeze_freeze: "freeze (freeze v) = freeze v"
proof (induction v rule: freeze.induct)
  case (1 items)
  let ?f = "\<lambda>(k, v). (k, freeze v)"
  have key: "fst (?f p) = fst p" for p :: "string \<times> json" by (cases p) simp
  have sorted: "sorted (map fst (sort_key fst (map ?f items)))" by simp
  have "map ?f (sort_key fst (map ?f items)) = sort_key fst (map ?f items)"
  proof (rule map_idI)
    fix p
    assume "p \<in> set (sort_key fst (map ?f items))"
    then obtain k v where kv: "(k, v) \<in> set items" "p = (k, freeze v)" by auto
    with 1 [OF kv(1) refl] show "?f p = p" by simp
  qed
  with sorted show ?case by (simp add: sort_key_id_if_sorted)
next
  case (2 items)
  then show ?case by simp
qed simp_all

end
