(* ===== verification/Run_Processor.thy ===== *)
theory Run_Processor
  imports Worker_Service Audit_Trail Source_Files
begin

text \<open>
  The processor of reconciliation jobs: \<open>worker/reconciliation.py\<close>.  One call is a sequence of
  transactions; between any two of them other processes may commit.  What they do before the
  \<open>k\<close>-th transaction is the function \<open>sr_others k\<close> of the surroundings, which also hold the clock
  readings, the identifiers of new rows, the file storage and the loaders of source files.
\<close>

section \<open>The surroundings of a call\<close>

record surroundings =
  sr_clock :: "nat \<Rightarrow> instant"
  sr_stamp :: "nat \<Rightarrow> instant"
  sr_ns :: "nat \<Rightarrow> int"
  sr_event_id :: "nat \<Rightarrow> uuid"
  sr_audit_id :: "nat \<Rightarrow> uuid"
  sr_result_id :: "nat \<Rightarrow> uuid"
  sr_others :: "nat \<Rightarrow> db \<Rightarrow> db"
  sr_materialize :: "string \<Rightarrow> string outcome"
  sr_load_banks :: "string \<Rightarrow> bank list outcome"
  sr_load_invoices :: "string \<Rightarrow> invoice list outcome"
  sr_load_gateways :: "string \<Rightarrow> gateway list outcome"

text \<open>A task that keeps a trail beside the state it works on; for the processor this is the database.\<close>

type_synonym ('s, 'a) logged = "('s \<times> trail, 'a) task"
type_synonym 'a processing = "(db, 'a) logged"

text \<open>The \<open>k\<close>-th transaction, and steps that only write the trail.\<close>

definition transaction :: "surroundings \<Rightarrow> nat \<Rightarrow> (db, 'a) task \<Rightarrow> 'a processing" where
  "transaction sr k body s =
     (case body (sr_others sr k (fst s)) of (r, db') \<Rightarrow> (r, (db', snd s)))"

definition log_with :: "surroundings \<Rightarrow> (instant \<Rightarrow> trail \<Rightarrow> trail) \<Rightarrow> ('s, unit) logged" where
  "log_with sr f s = (Inr (), (fst s, f (sr_stamp sr (length (tr_events (snd s)))) (snd s)))"

definition log_stage :: "string \<Rightarrow> ('s, unit) logged" where
  "log_stage stage s = (Inr (), (fst s, begin_stage stage (snd s)))"

section \<open>The transactions\<close>

definition begin_processing :: "instant \<Rightarrow> worker_job \<Rightarrow> (source_file list \<times> configuration) option db_action" where
  "begin_processing now j db =
     and_then (get_run (wj_run_id j) (Some (wj_organization_id j)) db) (\<lambda>r.
     if run_status r = RUN_SUCCEEDED then Inr (None, db)
     else
       and_then (if run_status r = RUN_PENDING
           then and_then (transition_run now (wj_run_id j) RUN_RUNNING None None None (Some (wj_organization_id j)) db)
             (\<lambda>p. Inr (snd p))
           else if run_status r = RUN_RUNNING then Inr db
           else Inl (RuntimeError ''reconciliation run cannot be processed'')) (\<lambda>db1.
       and_then (configuration_for_run (wj_run_id j) db1) (\<lambda>c.
       Inr (Some (files_of_run (wj_run_id j) db1, c), db1))))"

definition details_of :: "audit_event \<Rightarrow> (string \<times> json) list" where
  "details_of e = (case ae_details e of JObject items \<Rightarrow> items | _ \<Rightarrow> [])"

definition append_events :: "(nat \<Rightarrow> uuid) \<Rightarrow> audit_event list \<Rightarrow> db \<Rightarrow> db outcome" where
  "append_events ids es =
     fold_err (\<lambda>(i, e) s. and_then (append_audit_row (ids i) (ae_run_id e) (audit_event_text (ae_event e))
       (ae_timestamp e) (details_of e) s) (\<lambda>p. Inr (snd p))) (zip [0 ..< length es] es)"

definition save_body ::
  "instant \<Rightarrow> (nat \<Rightarrow> uuid) \<Rightarrow> (nat \<Rightarrow> uuid) \<Rightarrow> worker_job \<Rightarrow> reconciliation_result list \<Rightarrow> audit_event list \<Rightarrow> unit db_action" where
  "save_body now result_ids audit_ids j rs es db =
     and_then (get_run (wj_run_id j) (Some (wj_organization_id j)) db) (\<lambda>r.
     if run_status r = RUN_SUCCEEDED then Inr ((), db)
     else
       and_then (guard_else (run_status r = RUN_RUNNING)
           (RuntimeError ''reconciliation run cannot be completed'')) (\<lambda>_.
       and_then (add_results now (map result_ids [0 ..< length rs]) (wj_run_id j) rs db) (\<lambda>p.
       and_then (append_events audit_ids es (snd p)) (\<lambda>db2.
       and_then (transition_run now (wj_run_id j) RUN_SUCCEEDED None None None (Some (wj_organization_id j)) db2) (\<lambda>q.
       Inr ((), snd q))))))"

definition failure_message :: "string \<Rightarrow> string" where
  "failure_message code =
     (if code = ''EXECUTION_CANCELLED'' then ''Reconciliation execution was cancelled.''
      else if code = ''EXECUTION_TIMEOUT'' then ''Reconciliation execution exceeded its timeout.''
      else ''Reconciliation execution failed.'')"

definition fail_body ::
  "instant \<Rightarrow> (nat \<Rightarrow> uuid) \<Rightarrow> worker_job \<Rightarrow> string \<Rightarrow> audit_event list \<Rightarrow> unit db_action" where
  "fail_body now audit_ids j code es db =
     and_then (get_run (wj_run_id j) (Some (wj_organization_id j)) db) (\<lambda>r.
     if run_status r \<noteq> RUN_RUNNING then Inr ((), db)
     else
       and_then (append_events audit_ids (filter (\<lambda>e. ae_event e \<noteq> AUDIT_RUN_SUCCEEDED) es) db) (\<lambda>db1.
       and_then (transition_run now (wj_run_id j) RUN_FAILED None (Some code) (Some (failure_message code))
           (Some (wj_organization_id j)) db1) (\<lambda>q.
       Inr ((), snd q))))"

section \<open>The steps of a run\<close>

text \<open>\<open>int(settings["maximum_group_size"])\<close>.\<close>

fun digit_groups :: "bool \<Rightarrow> string \<Rightarrow> string option" where
  "digit_groups after_digit [] = (if after_digit then Some [] else None)"
| "digit_groups after_digit (c # cs) =
     (if is_digit c then map_option ((#) c) (digit_groups True cs)
      else if c = CHR ''_'' \<and> after_digit \<and> cs \<noteq> [] then digit_groups False cs
      else None)"

definition parse_int :: "string \<Rightarrow> int outcome" where
  "parse_int s =
     (let t = strip s;
          negative = starts_with ''-'' t;
          body = (if negative \<or> starts_with ''+'' t then tl t else t)
      in case digit_groups False body of
           None \<Rightarrow> Inl (ValueError ''invalid literal for int() with base 10'')
         | Some ds \<Rightarrow> Inr (if negative then - int (digits_value ds) else int (digits_value ds)))"

fun int_of_setting :: "json \<Rightarrow> int outcome" where
  "int_of_setting (JInt n) = Inr n"
| "int_of_setting (JBool b) = Inr (if b then 1 else 0)"
| "int_of_setting (JText s) = parse_int s"
| "int_of_setting _ = Inl (TypeError ''int() argument must be a string, a bytes-like object or a real number'')"

definition run_config :: "configuration \<Rightarrow> config outcome" where
  "run_config c =
     (case map_of (cfg_settings c) ''maximum_group_size'' of
        None \<Rightarrow> Inl (KeyError ''maximum_group_size'')
      | Some v \<Rightarrow> and_then (int_of_setting v) (\<lambda>n.
          config_post_init \<lparr> amount_tolerance = cfg_amount_tolerance c,
            date_tolerance_days = cfg_date_tolerance_days c, maximum_group_size = n \<rparr>))"

definition materialize_files :: "surroundings \<Rightarrow> source_file list \<Rightarrow> (source_type \<times> string) list outcome" where
  "materialize_files sr files =
     map_err (\<lambda>f. and_then (sr_materialize sr (case file_storage_key f of None \<Rightarrow> '''' | Some k \<Rightarrow> k))
       (\<lambda>p. Inr (file_source_type f, p))) files"

definition path_of :: "source_type \<Rightarrow> string \<Rightarrow> (source_type \<times> string) list \<Rightarrow> string outcome" where
  "path_of ty name paths =
     (case map_of (rev paths) ty of None \<Rightarrow> Inl (KeyError name) | Some p \<Rightarrow> Inr p)"

definition start_processing ::
  "surroundings \<Rightarrow> config \<Rightarrow> source_file list \<Rightarrow> (string \<times> string \<times> string option) processing" where
  "start_processing sr cfg files s =
     (case and_then (materialize_files sr files) (\<lambda>paths.
        and_then (path_of BANK_TRANSACTIONS ''BANK_TRANSACTIONS'' paths) (\<lambda>bank.
        and_then (path_of ERP_INVOICES ''ERP_INVOICES'' paths) (\<lambda>erp.
        let gateway = map_of (rev paths) GATEWAY_SETTLEMENTS in
        and_then (start_trail (sr_stamp sr 0) (sr_ns sr 0) bank erp gateway ''database'' ''DATABASE'' cfg (snd s)) (\<lambda>t.
        Inr ((bank, erp, gateway), t))))) of
        Inl e \<Rightarrow> (Inl e, s)
      | Inr (x, t) \<Rightarrow> (Inr x, (fst s, t)))"

text \<open>The \<open>k\<close>-th checkpoint, and an ingestion stage behind it.\<close>

definition check ::
  "surroundings \<Rightarrow> string \<Rightarrow> worker_job \<Rightarrow> nat \<Rightarrow> int \<Rightarrow> string \<Rightarrow> unit processing" where
  "check sr wid j k progress message =
     transaction sr k (checkpoint (sr_event_id sr k) wid j progress (Some message) (sr_clock sr k))"

definition ingest :: "surroundings \<Rightarrow> string \<Rightarrow> trail_source \<Rightarrow> 'a list outcome \<Rightarrow> ('s, 'a list) logged" where
  "ingest sr stage source load =
     and_also (log_stage stage) (\<lambda>_.
     and_also (lift_outcome load) (\<lambda>xs.
     and_also (log_with sr (\<lambda>now. ingestion_completed now source (int (length xs)))) (\<lambda>_.
     give xs)))"

definition ingest_gateways :: "surroundings \<Rightarrow> string option \<Rightarrow> ('s, gateway list) logged" where
  "ingest_gateways sr path =
     (case path of
        Some p \<Rightarrow> ingest sr ''gateway_ingestion'' GATEWAY_SOURCE (sr_load_gateways sr p)
      | None \<Rightarrow> and_also (log_stage ''gateway_ingestion'') (\<lambda>_.
          and_also (log_with sr gateway_skipped) (\<lambda>_. give [])))"

text \<open>\<open>Counter(item.status.value for item in results)\<close>, in order of first appearance.\<close>

fun result_status_text :: "reconciliation_status \<Rightarrow> string" where
  "result_status_text EXACT_MATCH = ''EXACT_MATCH''"
| "result_status_text SETTLEMENT_MATCH = ''SETTLEMENT_MATCH''"
| "result_status_text TOLERANCE_MATCH = ''TOLERANCE_MATCH''"
| "result_status_text MANY_TO_ONE_MATCH = ''MANY_TO_ONE_MATCH''"
| "result_status_text ONE_TO_MANY_MATCH = ''ONE_TO_MANY_MATCH''"
| "result_status_text DUPLICATE = ''DUPLICATE''"
| "result_status_text REQUIRES_REVIEW = ''REQUIRES_REVIEW''"

definition status_counts :: "reconciliation_result list \<Rightarrow> (string \<times> int) list" where
  "status_counts rs = map (\<lambda>(k, g). (k, int (length g))) (group_rows (=) (result_status_text \<circ> res_status) rs)"

definition review_count :: "reconciliation_result list \<Rightarrow> int" where
  "review_count rs = int (length (filter res_requires_review rs))"

definition reconcile_stage ::
  "surroundings \<Rightarrow> config \<Rightarrow> bank list \<Rightarrow> invoice list \<Rightarrow> gateway list \<Rightarrow> ('s, reconciliation_result list) logged" where
  "reconcile_stage sr cfg banks erp gateways =
     and_also (log_stage ''reconciliation'') (\<lambda>_.
     and_also (lift_outcome (reconcile cfg banks erp gateways)) (\<lambda>rs.
     and_also (log_with sr (\<lambda>now. reconciliation_completed now (int (length rs)) (status_counts rs) (review_count rs))) (\<lambda>_.
     give rs)))"

definition succeed_stage :: "surroundings \<Rightarrow> ('s, unit) logged" where
  "succeed_stage sr s =
     (case succeed_trail (sr_stamp sr (length (tr_events (snd s)))) (sr_ns sr 1) (snd s) of
        (Inl e, t) \<Rightarrow> (Inl e, (fst s, t)) | (Inr _, t) \<Rightarrow> (Inr (), (fst s, t)))"

definition save_stage :: "surroundings \<Rightarrow> worker_job \<Rightarrow> reconciliation_result list \<Rightarrow> unit processing" where
  "save_stage sr j rs s =
     transaction sr 7 (unit_of_work (save_body (sr_clock sr 7) (sr_result_id sr) (sr_audit_id sr) j rs (tr_events (snd s)))) s"

text \<open>The body of the \<open>try\<close> up to the last transaction.\<close>

definition prepare_results ::
  "surroundings \<Rightarrow> string \<Rightarrow> worker_job \<Rightarrow> config \<Rightarrow> (string \<times> string \<times> string option) \<Rightarrow> reconciliation_result list processing" where
  "prepare_results sr wid j cfg paths =
     and_also (check sr wid j 1 10 ''Loading bank transactions'') (\<lambda>_.
     and_also (ingest sr ''bank_ingestion'' BANK_SOURCE (sr_load_banks sr (fst paths))) (\<lambda>banks.
     and_also (check sr wid j 2 35 ''Loading ERP invoices'') (\<lambda>_.
     and_also (ingest sr ''erp_ingestion'' ERP_SOURCE (sr_load_invoices sr (fst (snd paths)))) (\<lambda>erp.
     and_also (check sr wid j 3 60 ''Loading gateway settlements'') (\<lambda>_.
     and_also (ingest_gateways sr (snd (snd paths))) (\<lambda>gateways.
     and_also (check sr wid j 4 75 ''Reconciling records'') (\<lambda>_.
     and_also (reconcile_stage sr cfg banks erp gateways) (\<lambda>rs.
     and_also (check sr wid j 5 95 ''Saving results'') (\<lambda>_.
     and_also (succeed_stage sr) (\<lambda>_.
     and_also (check sr wid j 6 99 ''Finalizing results'') (\<lambda>_.
     give rs)))))))))))"

definition process_body ::
  "surroundings \<Rightarrow> string \<Rightarrow> worker_job \<Rightarrow> config \<Rightarrow> source_file list \<Rightarrow> unit processing" where
  "process_body sr wid j cfg files =
     and_also (start_processing sr cfg files) (\<lambda>paths.
     and_also (prepare_results sr wid j cfg paths) (\<lambda>rs.
     save_stage sr j rs))"

section \<open>Failure\<close>

definition fail_run :: "surroundings \<Rightarrow> worker_job \<Rightarrow> py_error \<Rightarrow> string \<Rightarrow> unit processing" where
  "fail_run sr j err code s =
     (let (failed, t) =
        (if tr_events (snd s) = [] then (None, snd s)
         else (case fail_trail (sr_stamp sr (length (tr_events (snd s)))) (sr_ns sr 2) err (snd s) of
                 (Inl e, t) \<Rightarrow> (Some e, t) | (Inr _, t) \<Rightarrow> (None, t)))
      in case failed of
           Some e \<Rightarrow> (Inl e, (fst s, t))
         | None \<Rightarrow> transaction sr 8 (unit_of_work (fail_body (sr_clock sr 8) (sr_audit_id sr) j code (tr_events t))) (fst s, t))"

definition handle_failure :: "surroundings \<Rightarrow> worker_job \<Rightarrow> py_error \<Rightarrow> unit processing" where
  "handle_failure sr j err =
     and_also
       (case err of
          JobCancelled \<Rightarrow> fail_run sr j err ''EXECUTION_CANCELLED''
        | JobTimedOut \<Rightarrow>
            if wj_max_attempts j \<le> wj_attempt_count j then fail_run sr j err ''EXECUTION_TIMEOUT'' else give ()
        | _ \<Rightarrow> if wj_max_attempts j \<le> wj_attempt_count j then fail_run sr j err ''EXECUTION_FAILED'' else give ())
       (\<lambda>_. raising err)"

section \<open>The processor\<close>

definition process_job :: "surroundings \<Rightarrow> string \<Rightarrow> worker_job \<Rightarrow> (db, unit) task" where
  "process_job sr wid j db =
     (case unit_of_work (begin_processing (sr_clock sr 0) j) (sr_others sr 0 db) of
        (Inl e, db1) \<Rightarrow> (Inl e, db1)
      | (Inr None, db1) \<Rightarrow> (Inr (), db1)
      | (Inr (Some (files, c)), db1) \<Rightarrow>
          (case run_config c of
             Inl e \<Rightarrow> (Inl e, db1)
           | Inr cfg \<Rightarrow>
               (case on_error (process_body sr wid j cfg files) (handle_failure sr j) (db1, new_trail (wj_run_id j)) of
                  (r, s) \<Rightarrow> (r, fst s))))"

section \<open>What the transactions do\<close>

definition run_has :: "run_status \<Rightarrow> worker_job \<Rightarrow> db \<Rightarrow> bool" where
  "run_has st j db \<longleftrightarrow> (case get_run (wj_run_id j) (Some (wj_organization_id j)) db of
     Inl _ \<Rightarrow> False | Inr r \<Rightarrow> run_status r = st)"

lemma run_has_iff: "run_has st j db \<longleftrightarrow> (\<exists>r. get_run (wj_run_id j) (Some (wj_organization_id j)) db = Inr r \<and> run_status r = st)"
  by (auto simp: run_has_def split: sum.split)

lemma get_run_put:
  assumes "get_run rid (Some org) db = Inr r" and "run_id r' = run_id r" and "run_organization_id r' = run_organization_id r"
  shows "get_run rid (Some org) (db \<lparr> runs := put_row run_id r' (runs db) \<rparr>) = Inr r'"
proof -
  have found: "find (\<lambda>x. run_id x = rid \<and> run_organization_id x = org) rs = Some r \<Longrightarrow>
    find (\<lambda>x. run_id x = rid \<and> run_organization_id x = org) (put_row run_id r' rs) = Some r'" for rs
  proof (induction rs)
    case (Cons x xs)
    then show ?case
      using assms(2,3) by (auto simp: put_row_def find_Some_iff split: if_splits)
  qed simp
  with assms(1) show ?thesis by (auto simp: get_run_def scoped_get_def split: option.splits)
qed

lemma transition_run_has:
  assumes "transition_run now (wj_run_id j) status None code msg (Some (wj_organization_id j)) db = Inr (r', db')"
  shows "run_has status j db'" "result_rows db' = result_rows db" "audit_rows db' = audit_rows db"
proof -
  obtain r where r: "get_run (wj_run_id j) (Some (wj_organization_id j)) db = Inr r" "run_id r' = run_id r"
    "run_organization_id r' = run_organization_id r" "run_status r' = status"
    and db': "db' = db \<lparr> runs := put_row run_id r' (runs db) \<rparr>"
    by (rule transition_run_Inr [OF assms])
  show "run_has status j db'" using get_run_put [OF r(1-3)] r(4) by (simp add: run_has_def db')
  show "result_rows db' = result_rows db" "audit_rows db' = audit_rows db" by (simp_all add: db')
qed

lemma begin_processing_Inr:
  assumes "begin_processing now j db = Inr (x, db')"
  shows "result_rows db' = result_rows db" "audit_rows db' = audit_rows db" "x = None \<Longrightarrow> run_has RUN_SUCCEEDED j db'"
proof -
  from assms have "(x = None \<and> db' = db \<and> run_has RUN_SUCCEEDED j db) \<or>
      (x \<noteq> None \<and> result_rows db' = result_rows db \<and> audit_rows db' = audit_rows db)"
    by (auto simp: begin_processing_def and_then_Inr_iff run_has_def dest: transition_run_has(2,3) split: if_splits)
  then show "result_rows db' = result_rows db" "audit_rows db' = audit_rows db" "x = None \<Longrightarrow> run_has RUN_SUCCEEDED j db'"
    by auto
qed

lemma append_errors:
  assumes "fold_err (\<lambda>(i, e) s. and_then (append_audit_row (ids i) (ae_run_id e) (audit_event_text (ae_event e))
       (ae_timestamp e) (details_of e) s) (\<lambda>p. Inr (snd p))) xs db = Inl err"
  shows "err = RecordNotFoundError \<or> err = IntegrityError"
  using assms
  by (induction xs arbitrary: db)
    (auto simp: and_then_Inl_iff append_audit_row_def guard_else_Inl_iff Let_def split: if_splits)

text \<open>The rows \<open>append_events\<close> writes, and nothing else.\<close>

definition rows_for :: "audit_event list \<Rightarrow> audit_row list \<Rightarrow> bool" where
  "rows_for es rows \<longleftrightarrow>
     list_all2 (\<lambda>e a. aud_run_id a = ae_run_id e \<and> aud_event_type a = audit_event_text (ae_event e)) es rows"

lemma append_audit_row_Inr:
  assumes "append_audit_row aid rid ty at_time ds db = Inr (a, db')"
  shows "db' = db \<lparr> audit_rows := audit_rows db @ [a] \<rparr>" "aud_run_id a = rid" "aud_event_type a = ty"
  using assms by (auto simp: append_audit_row_def and_then_Inr_iff guard_else_Inr_iff Let_def split: if_splits)

lemma append_events_from:
  assumes "fold_err (\<lambda>(i, e) s. and_then (append_audit_row (ids i) (ae_run_id e) (audit_event_text (ae_event e))
       (ae_timestamp e) (details_of e) s) (\<lambda>p. Inr (snd p))) (zip is es) db = Inr db'" and "length is = length es"
  shows "\<exists>rows. db' = db \<lparr> audit_rows := audit_rows db @ rows \<rparr> \<and> rows_for es rows"
  using assms(2,1)
proof (induction "is" es arbitrary: db rule: list_induct2)
  case Nil
  then show ?case by (auto simp: rows_for_def intro!: exI [of _ "[]"])
next
  case (Cons i "is" e es)
  then obtain a db1 where a: "append_audit_row (ids i) (ae_run_id e) (audit_event_text (ae_event e)) (ae_timestamp e)
      (details_of e) db = Inr (a, db1)"
    and rest: "\<exists>rows. db' = db1 \<lparr> audit_rows := audit_rows db1 @ rows \<rparr> \<and> rows_for es rows"
    by (auto simp: and_then_Inr_iff)
  from rest obtain rows where "db' = db1 \<lparr> audit_rows := audit_rows db1 @ rows \<rparr>" "rows_for es rows" by blast
  with append_audit_row_Inr [OF a] show ?case
    by (intro exI [of _ "a # rows"]) (simp add: rows_for_def)
qed

lemma append_events_Inr:
  "append_events ids es db = Inr db' \<Longrightarrow> \<exists>rows. db' = db \<lparr> audit_rows := audit_rows db @ rows \<rparr> \<and> rows_for es rows"
  unfolding append_events_def by (erule append_events_from) simp

lemma add_results_Inr:
  assumes "add_results now ids rid rs db = Inr (recs, db')" and "length ids = length rs"
  shows "db' = db \<lparr> result_rows := result_rows db @ recs \<rparr>" "map rr_result recs = rs" "list_all (\<lambda>x. rr_run_id x = rid) recs"
proof -
  have "map (rr_result \<circ> (\<lambda>(i, r). \<lparr> rr_id = i, rr_run_id = rid, rr_result = r, rr_created_at = now \<rparr>)) (zip ids rs) = rs"
    using assms(2) by (induction ids rs rule: list_induct2) simp_all
  then show "db' = db \<lparr> result_rows := result_rows db @ recs \<rparr>" "map rr_result recs = rs" "list_all (\<lambda>x. rr_run_id x = rid) recs"
    using assms(1) by (auto simp: add_results_def Let_def list_all_iff split: if_splits)
qed

lemma save_body_Inr:
  assumes "save_body now result_ids audit_ids j rs es db = Inr (u, db')"
  shows "run_has RUN_SUCCEEDED j db' \<and>
    (result_rows db' = result_rows db \<and> audit_rows db' = audit_rows db \<or>
     (\<exists>recs rows. result_rows db' = result_rows db @ recs \<and> map rr_result recs = rs \<and>
        list_all (\<lambda>x. rr_run_id x = wj_run_id j) recs \<and> audit_rows db' = audit_rows db @ rows \<and> rows_for es rows))"
proof -
  from assms obtain r where r: "get_run (wj_run_id j) (Some (wj_organization_id j)) db = Inr r"
    and rest: "(if run_status r = RUN_SUCCEEDED then Inr ((), db)
     else
       and_then (guard_else (run_status r = RUN_RUNNING)
           (RuntimeError ''reconciliation run cannot be completed'')) (\<lambda>_.
       and_then (add_results now (map result_ids [0 ..< length rs]) (wj_run_id j) rs db) (\<lambda>p.
       and_then (append_events audit_ids es (snd p)) (\<lambda>db2.
       and_then (transition_run now (wj_run_id j) RUN_SUCCEEDED None None None (Some (wj_organization_id j)) db2) (\<lambda>q.
       Inr ((), snd q)))))) = Inr (u, db')"
    unfolding save_body_def and_then_Inr_iff by blast
  show ?thesis
  proof (cases "run_status r = RUN_SUCCEEDED")
    case True
    with r rest show ?thesis by (auto simp: run_has_def)
  next
    case False
    with rest obtain recs db1 db2 q where
      a: "add_results now (map result_ids [0 ..< length rs]) (wj_run_id j) rs db = Inr (recs, db1)"
      and e: "append_events audit_ids es db1 = Inr db2"
      and t: "transition_run now (wj_run_id j) RUN_SUCCEEDED None None None (Some (wj_organization_id j)) db2 = Inr (q, db')"
      by (auto simp: and_then_Inr_iff)
    obtain rows where rows: "db2 = db1 \<lparr> audit_rows := audit_rows db1 @ rows \<rparr>" "rows_for es rows"
      using append_events_Inr [OF e] by blast
    have "db1 = db \<lparr> result_rows := result_rows db @ recs \<rparr>" "map rr_result recs = rs"
      "list_all (\<lambda>x. rr_run_id x = wj_run_id j) recs"
      by (rule add_results_Inr [OF a], simp)+
    with rows transition_run_has [OF t] show ?thesis by auto
  qed
qed

lemma fail_body_Inr:
  assumes "fail_body now audit_ids j code es db = Inr (u, db')"
  shows "\<not> run_has RUN_RUNNING j db' \<and> result_rows db' = result_rows db \<and>
    (audit_rows db' = audit_rows db \<or>
     run_has RUN_FAILED j db' \<and> (\<exists>rows. audit_rows db' = audit_rows db @ rows \<and>
        rows_for (filter (\<lambda>e. ae_event e \<noteq> AUDIT_RUN_SUCCEEDED) es) rows))"
proof -
  from assms obtain r where r: "get_run (wj_run_id j) (Some (wj_organization_id j)) db = Inr r"
    and rest: "(if run_status r \<noteq> RUN_RUNNING then Inr ((), db)
     else
       and_then (append_events audit_ids (filter (\<lambda>e. ae_event e \<noteq> AUDIT_RUN_SUCCEEDED) es) db) (\<lambda>db1.
       and_then (transition_run now (wj_run_id j) RUN_FAILED None (Some code) (Some (failure_message code))
           (Some (wj_organization_id j)) db1) (\<lambda>q. Inr ((), snd q)))) = Inr (u, db')"
    unfolding fail_body_def and_then_Inr_iff by blast
  show ?thesis
  proof (cases "run_status r = RUN_RUNNING")
    case False
    with r rest show ?thesis by (auto simp: run_has_def)
  next
    case True
    with rest obtain db1 q where
      e: "append_events audit_ids (filter (\<lambda>e. ae_event e \<noteq> AUDIT_RUN_SUCCEEDED) es) db = Inr db1"
      and t: "transition_run now (wj_run_id j) RUN_FAILED None (Some code) (Some (failure_message code))
           (Some (wj_organization_id j)) db1 = Inr (q, db')"
      by (auto simp: and_then_Inr_iff)
    obtain rows where "db1 = db \<lparr> audit_rows := audit_rows db @ rows \<rparr>"
      "rows_for (filter (\<lambda>e. ae_event e \<noteq> AUDIT_RUN_SUCCEEDED) es) rows"
      using append_events_Inr [OF e] by blast
    with transition_run_has [OF t] show ?thesis by (auto simp: run_has_iff)
  qed
qed

section \<open>What the steps of a run do\<close>

lemma heartbeat_job_frame: "heartbeat_job now jid org wid at_time db = Inr (r, db') \<Longrightarrow> \<exists>js. db' = db \<lparr> jobs := js \<rparr>"
  by (auto simp: heartbeat_job_def and_then_Inr_iff Let_def save_job_def split: if_splits)

lemma append_event_frame: "append_event eid r ty t ds db = Inr db' \<Longrightarrow> \<exists>es. db' = db \<lparr> job_events := es \<rparr>"
  by (auto simp: append_event_def Let_def split: if_splits)

lemma update_progress_frame:
  assumes "update_progress now eid jid org progress message at_time db = Inr (r, db')"
  shows "\<exists>js es. db' = db \<lparr> jobs := js, job_events := es \<rparr>"
proof -
  from assms obtain r1 db1 t ds where "save_job r1 db = Inr db1" and log: "append_event eid r1 JOB_PROGRESS_UPDATED t ds db1 = Inr db'"
    by (auto simp: update_progress_def and_then_Inr_iff Let_def)
  then have "\<exists>js. db1 = db \<lparr> jobs := js \<rparr>" by (auto simp: save_job_def split: if_splits)
  with append_event_frame [OF log] show ?thesis by auto
qed

text \<open>A checkpoint touches workers, jobs and their events only.\<close>

lemma checkpoint_frame:
  shows "\<exists>ws js es. snd (checkpoint eid wid j progress message t db) = db \<lparr> workers := ws, jobs := js, job_events := es \<rparr>"
proof -
  have idem: "\<exists>ws js es. db = db \<lparr> workers := ws, jobs := js, job_events := es \<rparr>"
    by (intro exI [of _ "workers db"] exI [of _ "jobs db"] exI [of _ "job_events db"]) simp
  have "\<exists>ws js es. snd (unit_of_work (checkpoint_body eid wid j progress message t) db) =
      db \<lparr> workers := ws, jobs := js, job_events := es \<rparr>"
  proof (rule unit_of_work_preserves [where P = "\<lambda>d. \<exists>ws js es. d = db \<lparr> workers := ws, jobs := js, job_events := es \<rparr>", OF idem])
    fix r db'
    assume run: "checkpoint_body eid wid j progress message t db = Inr (r, db')"
    from run obtain p q where beat: "worker_heartbeat t wid (Some (aware_utc t)) db = Inr p"
      and hb: "heartbeat_job t (wj_id j) (wj_organization_id j) wid (Some (aware_utc t)) (snd p) = Inr q"
      and up: "update_progress t eid (wj_id j) (wj_organization_id j) progress message (Some (aware_utc t)) (snd q) = Inr (r, db')"
      by (auto simp: checkpoint_body_def and_then_Inr_iff)
    have "\<exists>ws. snd p = db \<lparr> workers := ws \<rparr>" using worker_heartbeat_Inr [of t wid _ db "fst p" "snd p"] beat by simp
    moreover have "\<exists>js. snd q = snd p \<lparr> jobs := js \<rparr>" using heartbeat_job_frame [of t _ _ wid _ "snd p" "fst q" "snd q"] hb by simp
    moreover have "\<exists>js es. db' = snd q \<lparr> jobs := js, job_events := es \<rparr>" by (rule update_progress_frame [OF up])
    ultimately show "\<exists>ws js es. db' = db \<lparr> workers := ws, jobs := js, job_events := es \<rparr>" by force
  qed
  then show ?thesis
    by (cases "unit_of_work (checkpoint_body eid wid j progress message t) db")
      (auto simp: checkpoint_def and_also_def raising_def give_def split: sum.split)
qed

text \<open>
  The surroundings are quiet about a view of the database when what other processes commit
  does not change it.
\<close>

definition quiet :: "(db \<Rightarrow> 'v) \<Rightarrow> surroundings \<Rightarrow> bool" where
  "quiet view sr \<longleftrightarrow> (\<forall>k db. view (sr_others sr k db) = view db)"

definition outputs :: "db \<Rightarrow> result_row list \<times> audit_row list" where
  "outputs db = (result_rows db, audit_rows db)"

definition no_output :: "db \<times> trail \<Rightarrow> db \<times> trail \<Rightarrow> bool" where
  "no_output s s' \<longleftrightarrow> outputs (fst s') = outputs (fst s)"

lemma no_output_order: "transp no_output" "reflp no_output"
  by (auto simp: no_output_def transp_def reflp_def)

definition trail_live :: "trail \<Rightarrow> bool" where
  "trail_live t \<longleftrightarrow> trail_ok t \<and> tr_started_at t \<noteq> None"

definition keeps_live :: "'s \<times> trail \<Rightarrow> 's \<times> trail \<Rightarrow> bool" where
  "keeps_live s s' \<longleftrightarrow> (trail_live (snd s) \<longrightarrow> trail_live (snd s'))"

lemma keeps_live_order: "transp keeps_live" "reflp keeps_live"
  by (auto simp: keeps_live_def transp_def reflp_def)

lemma check_step:
  "snd (snd (check sr wid j k progress message s)) = snd s"
  "quiet outputs sr \<Longrightarrow> no_output s (snd (check sr wid j k progress message s))"
proof -
  obtain o' db' where c: "checkpoint (sr_event_id sr k) wid j progress (Some message) (sr_clock sr k) (sr_others sr k (fst s)) = (o', db')"
    by (rule prod.exhaust)
  then show "snd (snd (check sr wid j k progress message s)) = snd s" by (simp add: check_def transaction_def)
  have "outputs db' = outputs (sr_others sr k (fst s))"
    using checkpoint_frame [of "sr_event_id sr k" wid j progress "Some message" "sr_clock sr k" "sr_others sr k (fst s)"] c
    by (auto simp: outputs_def)
  then show "quiet outputs sr \<Longrightarrow> no_output s (snd (check sr wid j k progress message s))"
    using c by (simp add: check_def transaction_def no_output_def quiet_def)
qed

lemma log_steps:
  "no_output s (snd (log_with sr f s))" "no_output s (snd (log_stage stage s))" "keeps_live s' (snd (log_stage stage s'))"
  by (auto simp: log_with_def log_stage_def no_output_def keeps_live_def trail_live_def trail_ok_def begin_stage_def)

lemma log_with_live: "(\<And>now t. trail_live t \<Longrightarrow> trail_live (f now t)) \<Longrightarrow> keeps_live s (snd (log_with sr f s))"
  by (simp add: log_with_def keeps_live_def)

lemma trail_live_steps:
  "trail_live t \<Longrightarrow> trail_live (ingestion_completed now source n t)"
  "trail_live t \<Longrightarrow> trail_live (gateway_skipped now t)"
  "trail_live t \<Longrightarrow> trail_live (reconciliation_completed now m cs k t)"
  by (auto simp: trail_live_def ingestion_completed_def gateway_skipped_def reconciliation_completed_def
      intro!: trail_ok_emit trail_ok_loaded)

lemma succeed_stage_no_output: "no_output s (snd (succeed_stage sr s))"
  by (auto simp: succeed_stage_def no_output_def split: prod.split sum.split)

lemma succeed_stage_step:
  "keeps_live s (snd (succeed_stage sr s))"
  "event_types (snd (snd (succeed_stage sr s))) = event_types (snd s) @ [AUDIT_RUN_SUCCEEDED]"
proof -
  show "event_types (snd (snd (succeed_stage sr s))) = event_types (snd s) @ [AUDIT_RUN_SUCCEEDED]"
    by (auto simp: succeed_stage_def succeed_trail_def Let_def split: prod.split sum.split)
  have "trail_live (snd (snd (succeed_stage sr s)))" if "trail_live (snd s)"
    by (rule succeed_trail_started [of "snd s" "sr_stamp sr (length (tr_events (snd s)))" "sr_ns sr 1"])
      (use that in \<open>auto simp: trail_live_def succeed_stage_def trail_ok_def event_types_def split: prod.splits sum.splits\<close>)
  then show "keeps_live s (snd (succeed_stage sr s))" by (simp add: keeps_live_def)
qed

lemma prepare_no_output:
  assumes "quiet outputs sr"
  shows "task_rel no_output (prepare_results sr wid j cfg paths)"
proof -
  have c: "task_rel no_output (check sr wid j k p m)" for k p m by (simp add: task_rel_def check_step assms)
  have l: "task_rel no_output (log_with sr f)" "task_rel no_output (log_stage stage)" for f stage
    by (simp_all add: task_rel_def log_steps)
  have s: "task_rel no_output (succeed_stage sr)" by (simp add: task_rel_def succeed_stage_no_output)
  note rules = task_rel_and_also no_output_order task_rel_simple c l s
  have i: "task_rel no_output (ingest sr stage source load)" for stage source and load :: "'c list outcome"
    unfolding ingest_def by (intro rules)
  have g: "task_rel no_output (ingest_gateways sr path)" for path
    unfolding ingest_gateways_def by (cases path) (auto intro!: rules i)
  have r: "task_rel no_output (reconcile_stage sr cfg bs es gs)" for bs es gs
    unfolding reconcile_stage_def by (intro rules)
  show ?thesis unfolding prepare_results_def by (intro rules i g r)
qed

lemma prepare_live: "task_rel keeps_live (prepare_results sr wid j cfg paths)"
proof -
  have c: "task_rel keeps_live (check sr wid j k p m)" for k p m by (simp add: task_rel_def check_step keeps_live_def)
  have s: "task_rel keeps_live (succeed_stage sr)" "task_rel keeps_live (log_stage stage)" for stage
    by (simp_all add: task_rel_def succeed_stage_step log_steps)
  have l: "task_rel keeps_live (log_with sr f)" if "\<And>now t. trail_live t \<Longrightarrow> trail_live (f now t)" for f
    by (simp add: task_rel_def log_with_live that)
  note rules = task_rel_and_also keeps_live_order task_rel_simple c s
  have i: "task_rel keeps_live (ingest sr stage source load)" for stage source and load :: "'c list outcome"
    unfolding ingest_def by (intro rules l trail_live_steps)
  have g: "task_rel keeps_live (ingest_gateways sr path)" for path
    unfolding ingest_gateways_def by (cases path) (auto intro!: rules i l trail_live_steps)
  have r: "task_rel keeps_live (reconcile_stage sr cfg bs es gs)" for bs es gs
    unfolding reconcile_stage_def by (intro rules l trail_live_steps)
  show ?thesis unfolding prepare_results_def by (intro rules i g r)
qed

section \<open>Runs that complete\<close>

lemma check_Inr: "check sr wid j k progress message s = (Inr u, s') \<Longrightarrow> snd s' = snd s"
  using check_step(1) [of sr wid j k progress message s] by simp

lemma ingest_Inr:
  assumes "ingest sr stage source load s = (Inr xs, s')"
  shows "load = Inr xs" "event_types (snd s') = event_types (snd s) @ [ingestion_event source]"
  using assms
  by (auto simp: ingest_def and_also_def log_stage_def lift_outcome_def log_with_def give_def ingestion_completed_def
      split: sum.splits)

text \<open>The gateway file of a run, if it has one, and the event its stage records.\<close>

definition gateways_loaded :: "surroundings \<Rightarrow> string option \<Rightarrow> gateway list \<Rightarrow> bool" where
  "gateways_loaded sr path gs \<longleftrightarrow> (case path of None \<Rightarrow> gs = [] | Some p \<Rightarrow> sr_load_gateways sr p = Inr gs)"

definition gateway_event :: "string option \<Rightarrow> audit_event_type" where
  "gateway_event path = (case path of None \<Rightarrow> GATEWAY_INGESTION_SKIPPED | Some _ \<Rightarrow> GATEWAY_INGESTION_COMPLETED)"

lemma ingest_gateways_Inr:
  assumes "ingest_gateways sr path s = (Inr gs, s')"
  shows "gateways_loaded sr path gs" "event_types (snd s') = event_types (snd s) @ [gateway_event path]"
proof -
  have "gateways_loaded sr path gs \<and> event_types (snd s') = event_types (snd s) @ [gateway_event path]"
  proof (cases path)
    case None
    with assms show ?thesis
      by (auto simp: ingest_gateways_def and_also_def log_stage_def log_with_def give_def gateway_skipped_def
          gateways_loaded_def gateway_event_def)
  next
    case (Some p)
    with assms have "ingest sr ''gateway_ingestion'' GATEWAY_SOURCE (sr_load_gateways sr p) s = (Inr gs, s')"
      by (simp add: ingest_gateways_def)
    from ingest_Inr [OF this] Some show ?thesis by (simp add: gateways_loaded_def gateway_event_def)
  qed
  then show "gateways_loaded sr path gs" "event_types (snd s') = event_types (snd s) @ [gateway_event path]" by blast+
qed

lemma event_types_counts [simp]:
  "event_types (t \<lparr> tr_results := n, tr_review := m, tr_status_counts := cs \<rparr>) = event_types t"
  by (simp add: event_types_def)

lemma reconcile_stage_Inr:
  assumes "reconcile_stage sr cfg bs es gs s = (Inr rs, s')"
  shows "reconcile cfg bs es gs = Inr rs" "event_types (snd s') = event_types (snd s) @ [RECONCILIATION_COMPLETED]"
  using assms
  by (auto simp: reconcile_stage_def and_also_def log_stage_def lift_outcome_def log_with_def give_def
      reconciliation_completed_def split: sum.splits)

lemma prepare_results_Inr:
  assumes "prepare_results sr wid j cfg (bank, erp, gateway) s = (Inr rs, s')"
  obtains bs es gs where "sr_load_banks sr bank = Inr bs" "sr_load_invoices sr erp = Inr es"
    "gateways_loaded sr gateway gs" "reconcile cfg bs es gs = Inr rs"
    "event_types (snd s') = event_types (snd s) @ [BANK_INGESTION_COMPLETED, ERP_INGESTION_COMPLETED,
       gateway_event gateway, RECONCILIATION_COMPLETED, AUDIT_RUN_SUCCEEDED]"
proof -
  from assms obtain s1 bs s2 s3 es s4 s5 gs s6 s7 rs' s8 s9 s10 s11 where
    c1: "check sr wid j 1 10 ''Loading bank transactions'' s = (Inr (), s1)"
    and b: "ingest sr ''bank_ingestion'' BANK_SOURCE (sr_load_banks sr bank) s1 = (Inr bs, s2)"
    and c2: "check sr wid j 2 35 ''Loading ERP invoices'' s2 = (Inr (), s3)"
    and e: "ingest sr ''erp_ingestion'' ERP_SOURCE (sr_load_invoices sr erp) s3 = (Inr es, s4)"
    and c3: "check sr wid j 3 60 ''Loading gateway settlements'' s4 = (Inr (), s5)"
    and g: "ingest_gateways sr gateway s5 = (Inr gs, s6)"
    and c4: "check sr wid j 4 75 ''Reconciling records'' s6 = (Inr (), s7)"
    and r: "reconcile_stage sr cfg bs es gs s7 = (Inr rs', s8)"
    and c5: "check sr wid j 5 95 ''Saving results'' s8 = (Inr (), s9)"
    and su: "succeed_stage sr s9 = (Inr (), s10)"
    and c6: "check sr wid j 6 99 ''Finalizing results'' s10 = (Inr (), s11)"
    and fin: "give rs' s11 = (Inr rs, s')"
    unfolding prepare_results_def fst_conv snd_conv by (elim and_also_Inr) simp
  have last: "rs' = rs" "s11 = s'" using fin by (simp_all add: give_def)
  have "event_types (snd s10) = event_types (snd s9) @ [AUDIT_RUN_SUCCEEDED]"
    using succeed_stage_step(2) [of sr s9] su by simp
  then show ?thesis
    using that ingest_Inr [OF b] ingest_Inr [OF e] ingest_gateways_Inr [OF g] reconcile_stage_Inr [OF r]
      check_Inr [OF c1] check_Inr [OF c2] check_Inr [OF c3] check_Inr [OF c4] check_Inr [OF c5] check_Inr [OF c6] last
    by simp
qed

lemma start_processing_cases:
  assumes "start_processing sr cfg files s = (o', s')" and "trail_ok (snd s)" and "tr_events (snd s) = []"
  shows "fst s' = fst s" "o' = Inl e \<Longrightarrow> snd s' = snd s"
    "o' = Inr p \<Longrightarrow> trail_live (snd s') \<and> event_types (snd s') = [RUN_STARTED]"
  using assms
  by (auto simp: start_processing_def and_then_Inr_iff Let_def trail_live_def split: sum.splits dest: start_trail_Inr)

text \<open>The events of a complete run, in order.\<close>

definition complete_story :: "string option \<Rightarrow> audit_event_type list" where
  "complete_story gateway = [RUN_STARTED, BANK_INGESTION_COMPLETED, ERP_INGESTION_COMPLETED,
     gateway_event gateway, RECONCILIATION_COMPLETED, AUDIT_RUN_SUCCEEDED]"

lemma rows_for_types: "rows_for es rows \<Longrightarrow> map aud_event_type rows = map (audit_event_text \<circ> ae_event) es"
  unfolding rows_for_def by (induction es rows rule: list_all2_induct) auto

definition full_report :: "surroundings \<Rightarrow> worker_job \<Rightarrow> db \<Rightarrow> db \<Rightarrow> bool" where
  "full_report sr j db db' \<longleftrightarrow>
     (\<exists>cfg bank erp gateway bs es gs recs rows.
        sr_load_banks sr bank = Inr bs \<and> sr_load_invoices sr erp = Inr es \<and> gateways_loaded sr gateway gs \<and>
        reconcile cfg bs es gs = Inr (map rr_result recs) \<and> list_all (\<lambda>x. rr_run_id x = wj_run_id j) recs \<and>
        outputs db' = (result_rows db @ recs, audit_rows db @ rows) \<and>
        map aud_event_type rows = map audit_event_text (complete_story gateway))"

lemma process_body_Inr:
  assumes "process_body sr wid j cfg files (db, new_trail rid) = (Inr (), s')" and "quiet outputs sr"
  shows "run_has RUN_SUCCEEDED j (fst s') \<and> (outputs (fst s') = outputs db \<or> full_report sr j db (fst s'))"
proof -
  let ?s = "(db, new_trail rid)"
  from assms(1) obtain paths s1 rs s2 where st: "start_processing sr cfg files ?s = (Inr paths, s1)"
    and pr: "prepare_results sr wid j cfg paths s1 = (Inr rs, s2)" and sv: "save_stage sr j rs s2 = (Inr (), s')"
    unfolding process_body_def by (elim and_also_Inr)
  obtain bank erp gateway where paths: "paths = (bank, erp, gateway)" by (cases paths)
  have new: "trail_ok (snd ?s)" "tr_events (snd ?s) = []" by (simp add: trail_ok_new) (simp add: new_trail_def)
  have s1: "fst s1 = db" "event_types (snd s1) = [RUN_STARTED]"
    using start_processing_cases(1) [OF st new] start_processing_cases(3) [OF st new refl] by simp_all
  obtain bs es gs where loads: "sr_load_banks sr bank = Inr bs" "sr_load_invoices sr erp = Inr es"
    "gateways_loaded sr gateway gs" "reconcile cfg bs es gs = Inr rs"
    and types: "event_types (snd s2) = complete_story gateway"
    by (rule prepare_results_Inr [OF pr [unfolded paths]]) (simp add: s1 complete_story_def)
  have "no_output s1 s2" using task_relD [OF prepare_no_output [OF assms(2)], of s1 wid j cfg paths] pr by simp
  then have same: "outputs (sr_others sr 7 (fst s2)) = outputs db" using assms(2) s1 by (simp add: no_output_def quiet_def)
  obtain d where body: "save_body (sr_clock sr 7) (sr_result_id sr) (sr_audit_id sr) j rs (tr_events (snd s2))
      (sr_others sr 7 (fst s2)) = Inr ((), d)" and s': "fst s' = d"
    using sv unit_of_work_ok [of "save_body (sr_clock sr 7) (sr_result_id sr) (sr_audit_id sr) j rs (tr_events (snd s2))"
        "sr_others sr 7 (fst s2)" "()"]
    by (auto simp: save_stage_def transaction_def split: prod.splits)
  from save_body_Inr [OF body] have has: "run_has RUN_SUCCEEDED j d"
    and rest: "outputs d = outputs db \<or> (\<exists>recs rows. outputs d = (result_rows db @ recs, audit_rows db @ rows) \<and>
      map rr_result recs = rs \<and> list_all (\<lambda>x. rr_run_id x = wj_run_id j) recs \<and> rows_for (tr_events (snd s2)) rows)"
    using same by (auto simp: outputs_def)
  from rest show ?thesis
  proof
    assume "\<exists>recs rows. outputs d = (result_rows db @ recs, audit_rows db @ rows) \<and>
      map rr_result recs = rs \<and> list_all (\<lambda>x. rr_run_id x = wj_run_id j) recs \<and> rows_for (tr_events (snd s2)) rows"
    then obtain recs rows where r: "outputs d = (result_rows db @ recs, audit_rows db @ rows)" "map rr_result recs = rs"
      "list_all (\<lambda>x. rr_run_id x = wj_run_id j) recs" "rows_for (tr_events (snd s2)) rows" by blast
    have "map aud_event_type rows = map audit_event_text (complete_story gateway)"
      using rows_for_types [OF r(4)] types by (simp add: event_types_def [symmetric] map_map [symmetric] del: map_map)
    with r loads have "full_report sr j db d" unfolding full_report_def by blast
    with has s' show ?thesis by simp
  qed (use has s' in simp)
qed

section \<open>Runs that fail\<close>

lemma save_stage_Inl:
  assumes "save_stage sr j rs s = (Inl e, s')"
  shows "quiet outputs sr \<Longrightarrow> no_output s s'" "snd s' = snd s"
proof -
  let ?body = "save_body (sr_clock sr 7) (sr_result_id sr) (sr_audit_id sr) j rs (tr_events (snd s))"
  obtain o' d where u: "unit_of_work ?body (sr_others sr 7 (fst s)) = (o', d)" by (rule prod.exhaust)
  with assms(1) have s': "o' = Inl e" "s' = (d, snd s)" by (auto simp: save_stage_def transaction_def)
  then have "d = sr_others sr 7 (fst s)" using unit_of_work_error_keeps [of ?body "sr_others sr 7 (fst s)" e] u by simp
  with s' show "quiet outputs sr \<Longrightarrow> no_output s s'" "snd s' = snd s" by (simp_all add: no_output_def quiet_def)
qed

text \<open>A failing body leaves no output, and a trail that is new or in good order.\<close>

lemma process_body_Inl:
  assumes "process_body sr wid j cfg files (db, new_trail rid) = (Inl e, s')"
  shows "quiet outputs sr \<Longrightarrow> outputs (fst s') = outputs db" "tr_events (snd s') = [] \<or> trail_live (snd s')"
proof -
  let ?s = "(db, new_trail rid)"
  have new: "trail_ok (snd ?s)" "tr_events (snd ?s) = []" by (simp add: trail_ok_new) (simp add: new_trail_def)
  obtain o1 s1 where st: "start_processing sr cfg files ?s = (o1, s1)" by (rule prod.exhaust)
  have db1: "fst s1 = db" using start_processing_cases(1) [OF st new] by simp
  have "(quiet outputs sr \<longrightarrow> outputs (fst s') = outputs db) \<and> (tr_events (snd s') = [] \<or> trail_live (snd s'))"
  proof (cases o1)
    case (Inl e1)
    then have "s' = s1" using assms(1) st by (simp add: process_body_def and_also_def)
    then show ?thesis using db1 start_processing_cases(2) [OF st new Inl] by (simp add: new_trail_def)
  next
    case (Inr paths)
    have live1: "trail_live (snd s1)" using start_processing_cases(3) [OF st new Inr] by simp
    obtain o2 s2 where pr: "prepare_results sr wid j cfg paths s1 = (o2, s2)" by (rule prod.exhaust)
    have s2: "quiet outputs sr \<Longrightarrow> outputs (fst s2) = outputs db" "trail_live (snd s2)"
      using task_relD [OF prepare_no_output, of sr s1 wid j cfg paths]
        task_relD [OF prepare_live, of s1 sr wid j cfg paths] pr db1 live1
      by (auto simp: no_output_def keeps_live_def)
    show ?thesis
    proof (cases o2)
      case (Inl e2)
      then have "s' = s2" using assms(1) st Inr pr by (simp add: process_body_def and_also_def)
      with s2 show ?thesis by simp
    next
      case (Inr rs)
      then have "save_stage sr j rs s2 = (Inl e, s')"
        using assms(1) st \<open>o1 = Inr paths\<close> pr by (simp add: process_body_def and_also_def)
      from save_stage_Inl [OF this] s2 show ?thesis by (simp add: no_output_def)
    qed
  qed
  then show "quiet outputs sr \<Longrightarrow> outputs (fst s') = outputs db" "tr_events (snd s') = [] \<or> trail_live (snd s')" by blast+
qed

definition failure_report :: "worker_job \<Rightarrow> db \<Rightarrow> db \<Rightarrow> bool" where
  "failure_report j db db' \<longleftrightarrow>
     run_has RUN_FAILED j db' \<and> result_rows db' = result_rows db \<and>
     (\<exists>rows. audit_rows db' = audit_rows db @ rows \<and> ''RUN_SUCCEEDED'' \<notin> set (map aud_event_type rows) \<and>
        (rows = [] \<or> aud_event_type (last rows) = ''RUN_FAILED''))"

lemma failure_rows:
  assumes "rows_for (filter (\<lambda>e. ae_event e \<noteq> AUDIT_RUN_SUCCEEDED) es) rows"
    and "es = [] \<or> ae_event (last es) = AUDIT_RUN_FAILED"
  shows "''RUN_SUCCEEDED'' \<notin> set (map aud_event_type rows)" "rows = [] \<or> aud_event_type (last rows) = ''RUN_FAILED''"
proof -
  let ?fs = "filter (\<lambda>e. ae_event e \<noteq> AUDIT_RUN_SUCCEEDED) es"
  have types: "map aud_event_type rows = map (audit_event_text \<circ> ae_event) ?fs" by (rule rows_for_types [OF assms(1)])
  have "''RUN_SUCCEEDED'' = audit_event_text AUDIT_RUN_SUCCEEDED" by simp
  then show "''RUN_SUCCEEDED'' \<notin> set (map aud_event_type rows)"
    unfolding types by (auto simp del: audit_event_text.simps)
  show "rows = [] \<or> aud_event_type (last rows) = ''RUN_FAILED''"
  proof (cases "es = []")
    case True
    with types show ?thesis by simp
  next
    case False
    then obtain es' e where es: "es = es' @ [e]" by (metis rev_exhaust)
    with assms(2) have "ae_event e = AUDIT_RUN_FAILED" by simp
    with es types have "map aud_event_type rows = map (audit_event_text \<circ> ae_event) (filter (\<lambda>e. ae_event e \<noteq> AUDIT_RUN_SUCCEEDED) es') @ [''RUN_FAILED'']"
      by simp
    then have "rows \<noteq> []" "last (map aud_event_type rows) = ''RUN_FAILED''" by auto
    then show ?thesis by (simp add: last_map)
  qed
qed

lemma fail_run_step:
  assumes "fail_run sr j err code s = (o', s')" and "tr_events (snd s) = [] \<or> trail_live (snd s)"
  shows "o' = Inr () \<Longrightarrow> \<not> run_has RUN_RUNNING j (fst s')" "o' \<noteq> Inl JobCancelled"
    "quiet outputs sr \<Longrightarrow> outputs (fst s') = outputs (fst s) \<or> failure_report j (fst s) (fst s')"
proof -
  obtain t where t: "tr_events t = [] \<or> ae_event (last (tr_events t)) = AUDIT_RUN_FAILED"
    and tx: "transaction sr 8 (unit_of_work (fail_body (sr_clock sr 8) (sr_audit_id sr) j code (tr_events t))) (fst s, t) = (o', s')"
  proof (cases "tr_events (snd s) = []")
    case True
    with assms(1) show ?thesis by (intro that [of "snd s"]) (simp_all add: fail_run_def)
  next
    case False
    with assms(2) have "trail_ok (snd s)" "tr_started_at (snd s) \<noteq> None" by (auto simp: trail_live_def)
    then obtain r t where f: "fail_trail (sr_stamp sr (length (tr_events (snd s)))) (sr_ns sr 2) err (snd s) = (Inr r, t)"
      "event_types t = event_types (snd s) @ [AUDIT_RUN_FAILED]"
      by (rule fail_trail_started)
    have "tr_events t \<noteq> []" "last (event_types t) = AUDIT_RUN_FAILED" using f(2) by (auto simp: event_types_def)
    then have "ae_event (last (tr_events t)) = AUDIT_RUN_FAILED" by (simp add: event_types_def last_map)
    with f(1) False assms(1) show ?thesis by (intro that [of t]) (simp_all add: fail_run_def)
  qed
  let ?body = "fail_body (sr_clock sr 8) (sr_audit_id sr) j code (tr_events t)" and ?d = "sr_others sr 8 (fst s)"
  have u: "unit_of_work ?body ?d = (o', fst s')" using tx by (auto simp: transaction_def split: prod.splits)
  show "\<not> run_has RUN_RUNNING j (fst s')" if "o' = Inr ()"
    using unit_of_work_ok [of ?body ?d "()"] u that fail_body_Inr by simp
  show "o' \<noteq> Inl JobCancelled"
  proof
    assume "o' = Inl JobCancelled"
    with u have "?body ?d = Inl JobCancelled"
      by (auto simp: unit_of_work_def split: sum.splits py_error.splits)
    then show False
      by (auto simp: fail_body_def and_then_Inl_iff get_run_def scoped_get_Inl transition_run_def guard_else_Inl_iff
          utc_or_def Let_def save_run_def append_events_def dest!: append_errors split: if_splits)
  qed
  show "outputs (fst s') = outputs (fst s) \<or> failure_report j (fst s) (fst s')" if q: "quiet outputs sr"
  proof (cases o')
    case (Inl e)
    then have "fst s' = ?d" using unit_of_work_error_keeps [of ?body ?d e] u by simp
    with q show ?thesis by (simp add: quiet_def)
  next
    case (Inr v)
    then have body: "?body ?d = Inr ((), fst s')" using unit_of_work_ok [of ?body ?d "()"] u by simp
    have same: "result_rows ?d = result_rows (fst s)" "audit_rows ?d = audit_rows (fst s)"
      using q by (simp_all add: quiet_def outputs_def)
    from fail_body_Inr [OF body] failure_rows [OF _ t] show ?thesis
      by (auto simp: outputs_def failure_report_def same)
  qed
qed

text \<open>A call splits into its first transaction and the body with its handler.\<close>

lemma process_job_cases:
  assumes "process_job sr wid j db = (r, db')"
  obtains (early) e where "r = Inl e" "e \<noteq> JobCancelled" "quiet outputs sr \<Longrightarrow> outputs db' = outputs db"
  | (done_before) "r = Inr ()" "run_has RUN_SUCCEEDED j db'" "quiet outputs sr \<Longrightarrow> outputs db' = outputs db"
  | (body) db1 cfg files s' where "quiet outputs sr \<Longrightarrow> outputs db1 = outputs db"
      "on_error (process_body sr wid j cfg files) (handle_failure sr j) (db1, new_trail (wj_run_id j)) = (r, s')"
      "db' = fst s'"
proof -
  let ?first = "begin_processing (sr_clock sr 0) j" and ?d = "sr_others sr 0 db"
  obtain o0 db1 where b: "unit_of_work ?first ?d = (o0, db1)" by (rule prod.exhaust)
  have q: "outputs ?d = outputs db" if "quiet outputs sr" using that by (simp add: quiet_def)
  show ?thesis
  proof (cases o0)
    case (Inl e)
    then have "?first ?d = Inl e \<or> e = PersistenceConflictError"
      using b by (auto simp: unit_of_work_def split: sum.splits py_error.splits)
    then have "e \<noteq> JobCancelled"
      by (auto simp: begin_processing_def and_then_Inl_iff get_run_def scoped_get_Inl transition_run_def
          guard_else_Inl_iff utc_or_def Let_def save_run_def configuration_for_run_def split: if_splits option.splits)
    moreover have "db1 = ?d" using unit_of_work_error_keeps [of ?first ?d e] b Inl by simp
    ultimately show ?thesis using assms b Inl q by (intro early [of e]) (simp_all add: process_job_def)
  next
    case (Inr x)
    have ok: "?first ?d = Inr (x, db1)" using unit_of_work_ok [of ?first ?d x] b Inr by simp
    have same: "outputs db1 = outputs db" if "quiet outputs sr"
      using begin_processing_Inr(1,2) [OF ok] q [OF that] by (simp add: outputs_def)
    show ?thesis
    proof (cases x)
      case None
      then show ?thesis using assms b Inr begin_processing_Inr(3) [OF ok] same
        by (intro done_before) (simp_all add: process_job_def)
    next
      case (Some fc)
      obtain files c where fc: "fc = (files, c)" by (rule prod.exhaust)
      show ?thesis
      proof (cases "run_config c")
        case (Inl e)
        then have "e \<noteq> JobCancelled"
          by (auto simp: run_config_def and_then_Inl_iff config_post_init_def parse_int_def Let_def
              elim!: int_of_setting.elims split: option.splits if_splits)
        then show ?thesis using assms b Inr Some fc Inl same by (intro early [of e]) (simp_all add: process_job_def)
      next
        case (Inr cfg)
        obtain s' where "on_error (process_body sr wid j cfg files) (handle_failure sr j) (db1, new_trail (wj_run_id j)) = (r, s')"
          "db' = fst s'"
          using assms b \<open>o0 = Inr x\<close> Some fc Inr by (auto simp: process_job_def split: prod.splits)
        with same show ?thesis by (rule body)
      qed
    qed
  qed
qed

text \<open>The handler of a failed body.\<close>

lemma handle_failure_cases:
  obtains code where "handle_failure sr j err = and_also (fail_run sr j err code) (\<lambda>_. raising err)"
  | "err \<noteq> JobCancelled" "handle_failure sr j err = and_also (give ()) (\<lambda>_. raising err)"
proof (cases "wj_max_attempts j \<le> wj_attempt_count j")
  case True
  then have "handle_failure sr j err = and_also (fail_run sr j err
      (case err of JobCancelled \<Rightarrow> ''EXECUTION_CANCELLED'' | JobTimedOut \<Rightarrow> ''EXECUTION_TIMEOUT'' | _ \<Rightarrow> ''EXECUTION_FAILED''))
      (\<lambda>_. raising err)"
    by (simp add: handle_failure_def split: py_error.split)
  then show ?thesis by (rule that(1))
next
  case False
  show ?thesis
  proof (cases "err = JobCancelled")
    case True
    then show ?thesis by (intro that(1) [of "''EXECUTION_CANCELLED''"]) (simp add: handle_failure_def)
  next
    case False
    with \<open>\<not> wj_max_attempts j \<le> wj_attempt_count j\<close> show ?thesis
      by (intro that(2)) (simp_all add: handle_failure_def split: py_error.split)
  qed
qed

lemma handled:
  assumes "on_error (process_body sr wid j cfg files) (handle_failure sr j) (db1, new_trail rid) = (r, s')"
    and "process_body sr wid j cfg files (db1, new_trail rid) = (Inl err, s1)"
  shows "\<exists>e. r = Inl e" "r = Inl JobCancelled \<Longrightarrow> \<not> run_has RUN_RUNNING j (fst s')"
    "quiet outputs sr \<Longrightarrow> outputs (fst s') = outputs db1 \<or> failure_report j db1 (fst s')"
proof -
  from process_body_Inl [OF assms(2)] have same: "quiet outputs sr \<Longrightarrow> outputs (fst s1) = outputs db1"
    and ok: "tr_events (snd s1) = [] \<or> trail_live (snd s1)" by auto
  have run: "handle_failure sr j err s1 = (r, s')" using assms by (simp add: on_error_def)
  have "(\<exists>e. r = Inl e) \<and> (r = Inl JobCancelled \<longrightarrow> \<not> run_has RUN_RUNNING j (fst s')) \<and>
    (quiet outputs sr \<longrightarrow> outputs (fst s') = outputs (fst s1) \<or> failure_report j (fst s1) (fst s'))"
  proof (cases rule: handle_failure_cases [of sr j err])
    case (1 code)
    obtain o2 s2 where f: "fail_run sr j err code s1 = (o2, s2)" by (rule prod.exhaust)
    with 1 have "s' = s2" "r = (case o2 of Inl e \<Rightarrow> Inl e | Inr _ \<Rightarrow> Inl err)"
      using run by (auto simp: and_also_def raising_def split: sum.splits)
    with fail_run_step [OF f ok] show ?thesis by (cases o2) auto
  next
    case 2
    with run show ?thesis by (auto simp: and_also_def raising_def give_def)
  qed
  then show "\<exists>e. r = Inl e" "r = Inl JobCancelled \<Longrightarrow> \<not> run_has RUN_RUNNING j (fst s')"
    "quiet outputs sr \<Longrightarrow> outputs (fst s') = outputs db1 \<or> failure_report j db1 (fst s')"
    using same by (auto simp: failure_report_def outputs_def)
qed

section \<open>Properties of the processor\<close>


text \<open>
  C8: a processor that raises has written no result; if it has written audit rows, the run is
  failed, none of the rows claims that it succeeded, and the last one says that it failed.
\<close>

theorem processor_failure_writes_no_results:
  assumes "process_job sr wid j db = (Inl e, db')" and "quiet outputs sr"
  shows "outputs db' = outputs db \<or> failure_report j db db'"
  using assms(1)
proof (cases rule: process_job_cases)
  case early
  with assms(2) show ?thesis by simp
next
  case done_before
  then show ?thesis by simp
next
  case (body db1 cfg files s')
  obtain o1 s1 where p: "process_body sr wid j cfg files (db1, new_trail (wj_run_id j)) = (o1, s1)" by (rule prod.exhaust)
  show ?thesis
  proof (cases o1)
    case (Inl err)
    with handled(3) [OF body(2)] p body(1,3) assms(2) show ?thesis
      by (auto simp: failure_report_def outputs_def)
  next
    case (Inr u)
    with body p show ?thesis by (simp add: on_error_def)
  qed
qed

text \<open>
  When the processor stops because its job was cancelled, the run is no longer running,
  whatever other processes have committed.
\<close>

theorem cancelled_run_is_not_left_running:
  assumes "process_job sr wid j db = (Inl JobCancelled, db')"
  shows "\<not> run_has RUN_RUNNING j db'"
  using assms
proof (cases rule: process_job_cases)
  case early
  then show ?thesis by simp
next
  case done_before
  then show ?thesis by simp
next
  case (body db1 cfg files s')
  obtain o1 s1 where p: "process_body sr wid j cfg files (db1, new_trail (wj_run_id j)) = (o1, s1)" by (rule prod.exhaust)
  show ?thesis
  proof (cases o1)
    case (Inl err)
    with handled(2) [OF body(2)] p body(3) show ?thesis by auto
  next
    case (Inr u)
    with body p show ?thesis by (simp add: on_error_def)
  qed
qed

section \<open>Concrete calls\<close>

definition sample_surroundings :: "bank list outcome \<Rightarrow> surroundings" where
  "sample_surroundings banks = \<lparr> sr_clock = (\<lambda>k. 100 + int k), sr_stamp = (\<lambda>k. 200 + int k), sr_ns = (\<lambda>k. 0),
     sr_event_id = (\<lambda>k. 1000 + k), sr_audit_id = (\<lambda>k. 2000 + k), sr_result_id = (\<lambda>k. 3000 + k),
     sr_others = (\<lambda>_ db. db), sr_materialize = (\<lambda>k. Inr k), sr_load_banks = (\<lambda>_. banks),
     sr_load_invoices = (\<lambda>_. Inr []), sr_load_gateways = (\<lambda>_. Inr []) \<rparr>"

definition sample_file :: "uuid \<Rightarrow> source_type \<Rightarrow> source_file" where
  "sample_file i ty = \<lparr> file_id = i, file_run_id = 101, file_source_type = ty, file_original_filename = ''f.csv'',
     file_content_type = None, file_checksum_sha256 = '''', file_size_bytes = 1, file_row_count = None,
     file_storage_key = Some ''f.csv'', file_created_at = 0 \<rparr>"

definition sample_world :: "job \<Rightarrow> db" where
  "sample_world r = (sample_queue [r])
     \<lparr> configurations := [\<lparr> cfg_id = 1, cfg_run_id = 101, cfg_amount_tolerance = Dec 1 0,
         cfg_date_tolerance_days = 14, cfg_settings = [(''maximum_group_size'', JInt 5)], cfg_created_at = 0 \<rparr>],
       source_files := [sample_file 1 BANK_TRANSACTIONS, sample_file 2 ERP_INVOICES] \<rparr>"

lemma sample_quiet: "quiet view (sample_surroundings banks)"
  by (simp add: quiet_def sample_surroundings_def)


theorem processor_failure_writes_no_results_witness:
  "\<exists>db'. process_job (sample_surroundings (Inl (IngestionError ''x''))) ''w'' (sample_view (sample_job 1 1 RUNNING LOW 3))
      (sample_world (sample_job 1 1 RUNNING LOW 3)) = (Inl (IngestionError ''x''), db') \<and>
    failure_report (sample_view (sample_job 1 1 RUNNING LOW 3)) (sample_world (sample_job 1 1 RUNNING LOW 3)) db'"
proof -
  let ?j = "sample_job 1 1 RUNNING LOW 3"
  have "case process_job (sample_surroundings (Inl (IngestionError ''x''))) ''w'' (sample_view ?j) (sample_world ?j) of
      (Inl e, db') \<Rightarrow> e = IngestionError ''x'' \<and> length (audit_rows db') = 2 | (Inr _, _) \<Rightarrow> False"
    by code_simp
  moreover obtain r db' where run: "process_job (sample_surroundings (Inl (IngestionError ''x''))) ''w'' (sample_view ?j)
      (sample_world ?j) = (r, db')"
    by (rule prod.exhaust)
  ultimately have ok: "r = Inl (IngestionError ''x'')" "length (audit_rows db') = 2" by (cases r; simp)+
  have "audit_rows (sample_world ?j) = []" by (simp add: sample_world_def sample_queue_def empty_db_def)
  then have "outputs db' \<noteq> outputs (sample_world ?j)" using ok(2) by (auto simp: outputs_def)
  with processor_failure_writes_no_results [OF run [unfolded ok(1)] sample_quiet] ok run show ?thesis by blast
qed

theorem cancelled_run_is_not_left_running_witness:
  "\<exists>db'. process_job (sample_surroundings (Inr [])) ''w'' (sample_view (sample_job 1 1 CANCEL_REQUESTED LOW 1))
      (sample_world (sample_job 1 1 CANCEL_REQUESTED LOW 1)) = (Inl JobCancelled, db') \<and>
    \<not> run_has RUN_RUNNING (sample_view (sample_job 1 1 CANCEL_REQUESTED LOW 1)) db'"
proof -
  let ?j = "sample_job 1 1 CANCEL_REQUESTED LOW 1"
  have "case process_job (sample_surroundings (Inr [])) ''w'' (sample_view ?j) (sample_world ?j) of
      (Inl e, db') \<Rightarrow> e = JobCancelled | (Inr _, _) \<Rightarrow> False"
    by code_simp
  moreover obtain r db' where run: "process_job (sample_surroundings (Inr [])) ''w'' (sample_view ?j) (sample_world ?j) = (r, db')"
    by (rule prod.exhaust)
  ultimately have ok: "r = Inl JobCancelled" by (cases r) simp_all
  from cancelled_run_is_not_left_running [OF run [unfolded ok]] ok run show ?thesis by blast
qed

end
