(* ===== verification/Run_Routes.thy ===== *)
theory Run_Routes
  imports Run_Processor Tenancy
begin

text \<open>
  The routes over runs, their execution and the background jobs: \<open>api/routes/runs.py\<close>,
  \<open>execution.py\<close> and \<open>jobs.py\<close>, with the request bodies of their schemas.  Field bounds the
  schemas declare are checked before a route is called and are not repeated.
\<close>

section \<open>Runs: \<open>api/routes/runs.py\<close>\<close>

text \<open>
  \<open>Decimal.quantize(Decimal("0.0001"))\<close>: four places, half to even; a result of more digits
  than the context holds is an invalid operation.
\<close>

definition quantize_places :: "nat \<Rightarrow> decimal \<Rightarrow> decimal outcome" where
  "quantize_places n x =
     (let m = nat \<bar>coeff x\<bar>;
          q = (if - int n \<le> expo x then m * 10 ^ nat (expo x + int n)
               else half_even m (10 ^ nat (- int n - expo x)))
      in if context_precision < num_digits q then Inl (RuntimeError ''InvalidOperation'')
         else Inr (Dec (sgn (coeff x) * int q) (- int n)))"

record run_configuration =
  rc_amount_tolerance :: decimal
  rc_date_tolerance_days :: int
  rc_maximum_group_size :: int

definition configuration_response :: "configuration \<Rightarrow> run_configuration outcome" where
  "configuration_response c =
     and_then (quantize_places 4 (cfg_amount_tolerance c)) (\<lambda>amount.
     case map_of (cfg_settings c) ''maximum_group_size'' of
       None \<Rightarrow> Inl (KeyError ''maximum_group_size'')
     | Some v \<Rightarrow> and_then (int_of_setting v) (\<lambda>n.
         Inr \<lparr> rc_amount_tolerance = amount, rc_date_tolerance_days = cfg_date_tolerance_days c,
               rc_maximum_group_size = n \<rparr>))"

record run_item =
  ri_id :: uuid
  ri_organization_id :: uuid
  ri_status :: run_status
  ri_started_at :: "instant option"
  ri_finished_at :: "instant option"
  ri_created_at :: instant

record run_response = run_item +
  rn_configuration :: run_configuration
  rn_error_code :: "string option"
  rn_error_message :: "string option"

definition run_item_of :: "run \<Rightarrow> run_item" where
  "run_item_of r =
     \<lparr> ri_id = run_id r, ri_organization_id = run_organization_id r, ri_status = run_status r,
       ri_started_at = run_started_at r, ri_finished_at = run_finished_at r, ri_created_at = run_created_at r \<rparr>"

definition run_response_of :: "run \<Rightarrow> configuration \<Rightarrow> run_response outcome" where
  "run_response_of r c =
     and_then (configuration_response c) (\<lambda>cfg.
     Inr (run_item.extend (run_item_of r)
       \<lparr> rn_configuration = cfg, rn_error_code = run_error_code r, rn_error_message = run_error_message r \<rparr>))"

definition create_reconciliation_run ::
  "instant \<Rightarrow> uuid \<Rightarrow> uuid \<Rightarrow> config \<Rightarrow> tenant_context \<Rightarrow> (db, run_response) task" where
  "create_reconciliation_run now rid cid requested tenant =
     and_also (lift_outcome (config_post_init requested)) (\<lambda>cfg.
     and_also (unit_of_work (\<lambda>db.
       and_then (create_run now (tc_organization_id tenant) rid db) (\<lambda>(r, db1).
       and_then (add_configuration now cid (run_id r) cfg [] db1) (\<lambda>(c, db2).
       Inr ((r, c), db2))))) (\<lambda>(r, c).
     lift_outcome (run_response_of r c)))"

definition get_reconciliation_run :: "uuid \<Rightarrow> tenant_context \<Rightarrow> db \<Rightarrow> run_response outcome" where
  "get_reconciliation_run rid tenant db =
     and_then (get_run rid (Some (tc_organization_id tenant)) db) (\<lambda>r.
     and_then (configuration_for_run rid db) (\<lambda>c.
     run_response_of r c))"

fun run_status_text :: "run_status \<Rightarrow> string" where
  "run_status_text RUN_PENDING = ''PENDING''"
| "run_status_text RUN_RUNNING = ''RUNNING''"
| "run_status_text RUN_SUCCEEDED = ''SUCCEEDED''"
| "run_status_text RUN_FAILED = ''FAILED''"

definition list_reconciliation_runs ::
  "tenant_context \<Rightarrow> page \<Rightarrow> run_status option \<Rightarrow> db \<Rightarrow> (run_item list \<times> nat) outcome" where
  "list_reconciliation_runs tenant p status db =
     (let org = Some (tc_organization_id tenant); value = map_option run_status_text status in
      and_then (page_post_init p) (\<lambda>p.
      and_then (list_runs org p value db) (\<lambda>records.
      and_then (count_runs org value db) (\<lambda>total.
      Inr (map run_item_of records, total)))))"

section \<open>Execution: \<open>api/routes/execution.py\<close>\<close>

record execution_request =
  er_scheduled_at :: "datetime option"
  er_timeout_seconds :: "int option"
  er_priority :: job_priority

text \<open>The validator \<open>require_timezone\<close>.\<close>

definition require_timezone :: "datetime option \<Rightarrow> unit outcome" where
  "require_timezone t =
     guard_else (case t of None \<Rightarrow> True | Some d \<Rightarrow> utc_offset d \<noteq> None)
       (ValueError ''scheduled_at must include a timezone offset'')"

record execution_limits =
  el_default_timeout_seconds :: int
  el_maximum_timeout_seconds :: int

record execution_accepted =
  ea_job_id :: uuid
  ea_run_id :: uuid
  ea_scheduled_at :: instant
  ea_timeout_seconds :: int
  ea_priority :: job_priority

definition days_in_microseconds :: "int \<Rightarrow> int" where
  "days_in_microseconds n = n * 86400 * 1000000"

text \<open>\<open>request.scheduled_at.astimezone(UTC)\<close>, now without one; the validator gave it a zone.\<close>

definition scheduled_instant :: "instant \<Rightarrow> execution_request option \<Rightarrow> instant outcome" where
  "scheduled_instant now q =
     (case q of None \<Rightarrow> Inr now
      | Some r \<Rightarrow> (case er_scheduled_at r of None \<Rightarrow> Inr now | Some d \<Rightarrow> utc d))"

definition requested_timeout :: "execution_limits \<Rightarrow> execution_request option \<Rightarrow> int" where
  "requested_timeout limits q =
     (case q of None \<Rightarrow> el_default_timeout_seconds limits
      | Some r \<Rightarrow> (case er_timeout_seconds r of None \<Rightarrow> el_default_timeout_seconds limits | Some n \<Rightarrow> n))"

definition check_request ::
  "instant \<Rightarrow> execution_limits \<Rightarrow> execution_request option \<Rightarrow> (instant \<times> int) outcome" where
  "check_request now limits q =
     and_then (scheduled_instant now q) (\<lambda>scheduled.
     and_then (guard_else (now \<le> scheduled) (APIError 422 ''SCHEDULE_IN_PAST'')) (\<lambda>_.
     and_then (guard_else (scheduled \<le> now + days_in_microseconds 365) (APIError 422 ''SCHEDULE_TOO_DISTANT'')) (\<lambda>_.
     and_then (guard_else (requested_timeout limits q \<le> el_maximum_timeout_seconds limits)
       (APIError 422 ''JOB_TIMEOUT_TOO_LARGE'')) (\<lambda>_.
     Inr (scheduled, requested_timeout limits q)))))"

definition required_sources :: "source_type list" where
  "required_sources = [BANK_TRANSACTIONS, ERP_INVOICES]"

definition missing_sources :: "uuid \<Rightarrow> db \<Rightarrow> source_type list" where
  "missing_sources rid db = filter (\<lambda>ty. file_of_type ty (files_of_run rid db) = None) required_sources"

definition queue_execution ::
  "instant \<Rightarrow> uuid \<Rightarrow> uuid \<Rightarrow> uuid \<Rightarrow> tenant_context \<Rightarrow> instant \<Rightarrow> int \<Rightarrow> job_priority \<Rightarrow> job db_action" where
  "queue_execution now jid eid rid tenant scheduled timeout priority db =
     (let org = tc_organization_id tenant in
      and_then (get_run rid (Some org) db) (\<lambda>r.
      and_then (guard_else (run_status r = RUN_PENDING) (APIError 409 ''RUN_NOT_PENDING'')) (\<lambda>_.
      and_then (guard_else (missing_sources rid db = []) (APIError 422 ''MISSING_SOURCE_FILES'')) (\<lambda>_.
      and_then (configuration_for_run rid db) (\<lambda>_.
      and_then (guard_else (job_for_run rid org db = None) (APIError 409 ''EXECUTION_ALREADY_QUEUED'')) (\<lambda>_.
      create_job now jid eid org rid (Some (aware_utc scheduled)) 3 timeout (priority_text priority) db))))))"

definition execute_run ::
  "instant \<Rightarrow> uuid \<Rightarrow> uuid \<Rightarrow> execution_limits \<Rightarrow> uuid \<Rightarrow> tenant_context \<Rightarrow> execution_request option \<Rightarrow>
   (db, execution_accepted) task" where
  "execute_run now jid eid limits rid tenant q =
     and_also (lift_outcome (check_request now limits q)) (\<lambda>(scheduled, timeout).
     and_also (unit_of_work (queue_execution now jid eid rid tenant scheduled timeout
         (case q of None \<Rightarrow> NORMAL | Some r \<Rightarrow> er_priority r))) (\<lambda>j.
     give \<lparr> ea_job_id = job_id j, ea_run_id = rid, ea_scheduled_at = job_scheduled_at j,
            ea_timeout_seconds = job_timeout_seconds j, ea_priority = job_priority j \<rparr>))"

text \<open>The results and the audit rows of a run; a response repeats its row.\<close>

definition list_run_results ::
  "uuid \<Rightarrow> tenant_context \<Rightarrow> page \<Rightarrow> reconciliation_status option \<Rightarrow> bool option \<Rightarrow> db \<Rightarrow>
   (result_row list \<times> nat) outcome" where
  "list_run_results rid tenant p status review db =
     and_then (get_run rid (Some (tc_organization_id tenant)) db) (\<lambda>_.
     and_then (page_post_init p) (\<lambda>p.
     and_then (list_results rid p (map_option result_status_text status) review db) (\<lambda>records.
     and_then (count_results rid (map_option result_status_text status) review db) (\<lambda>total.
     Inr (records, total)))))"

definition get_run_result :: "uuid \<Rightarrow> tenant_context \<Rightarrow> db \<Rightarrow> result_row outcome" where
  "get_run_result i tenant db = get_result i (Some (tc_organization_id tenant)) db"

definition list_audit_events :: "uuid \<Rightarrow> tenant_context \<Rightarrow> page \<Rightarrow> db \<Rightarrow> (audit_row list \<times> nat) outcome" where
  "list_audit_events rid tenant p db =
     and_then (get_run rid (Some (tc_organization_id tenant)) db) (\<lambda>_.
     and_then (page_post_init p) (\<lambda>p.
     Inr (list_audit_rows rid p db, count_audit_rows rid db)))"

section \<open>Jobs: \<open>api/routes/jobs.py\<close>\<close>

record job_response =
  jr_id :: uuid
  jr_run_id :: uuid
  jr_organization_id :: uuid
  jr_status :: job_status
  jr_priority :: job_priority
  jr_progress_percentage :: int
  jr_status_message :: "string option"
  jr_attempt_count :: int
  jr_total_attempt_count :: int
  jr_manual_retry_count :: int
  jr_max_attempts :: int
  jr_timeout_seconds :: int
  jr_deadline_at :: "instant option"
  jr_last_manual_retry_at :: "instant option"
  jr_failure_code :: "string option"
  jr_failure_message :: "string option"
  jr_scheduled_at :: instant
  jr_started_at :: "instant option"
  jr_completed_at :: "instant option"
  jr_cancellation_requested_at :: "instant option"
  jr_retry_at :: "instant option"
  jr_created_at :: instant

definition job_response_of :: "job \<Rightarrow> job_response" where
  "job_response_of j =
     \<lparr> jr_id = job_id j, jr_run_id = job_run_id j, jr_organization_id = job_organization_id j,
       jr_status = job_status j, jr_priority = job_priority j,
       jr_progress_percentage = job_progress_percentage j, jr_status_message = job_status_message j,
       jr_attempt_count = job_attempt_count j, jr_total_attempt_count = job_total_attempt_count j,
       jr_manual_retry_count = job_manual_retry_count j, jr_max_attempts = job_max_attempts j,
       jr_timeout_seconds = job_timeout_seconds j, jr_deadline_at = job_deadline_at j,
       jr_last_manual_retry_at = job_last_manual_retry_at j, jr_failure_code = job_failure_code j,
       jr_failure_message = job_failure_message j, jr_scheduled_at = job_scheduled_at j,
       jr_started_at = job_started_at j, jr_completed_at = job_completed_at j,
       jr_cancellation_requested_at = job_cancellation_requested_at j, jr_retry_at = job_retry_at j,
       jr_created_at = job_created_at j \<rparr>"

definition list_background_jobs ::
  "tenant_context \<Rightarrow> page \<Rightarrow> job_status option \<Rightarrow> db \<Rightarrow> (job_response list \<times> nat) outcome" where
  "list_background_jobs tenant p status db =
     (let org = tc_organization_id tenant; value = map_option status_text status in
      and_then (page_post_init p) (\<lambda>p.
      and_then (list_jobs org value p db) (\<lambda>records.
      and_then (count_jobs org value db) (\<lambda>total.
      Inr (map job_response_of records, total)))))"

record queue_summary_response =
  qs_queued :: nat
  qs_running :: nat
  qs_retrying :: nat
  qs_succeeded :: nat
  qs_failed :: nat
  qs_cancel_requested :: nat
  qs_cancelled :: nat
  qs_oldest_eligible_age_seconds :: "int option"
  qs_queued_low_priority :: nat
  qs_queued_normal_priority :: nat
  qs_queued_high_priority :: nat

definition counted :: "'k \<Rightarrow> ('k \<times> nat) list \<Rightarrow> nat" where
  "counted k counts = (case map_of counts k of None \<Rightarrow> 0 | Some n \<Rightarrow> n)"

definition get_background_job_summary :: "instant \<Rightarrow> tenant_context \<Rightarrow> db \<Rightarrow> queue_summary_response outcome" where
  "get_background_job_summary now tenant db =
     and_then (summarize_jobs now (tc_organization_id tenant) None db) (\<lambda>s.
     Inr \<lparr> qs_queued = counted QUEUED (sum_counts s), qs_running = counted RUNNING (sum_counts s),
           qs_retrying = sum_retrying s, qs_succeeded = counted SUCCEEDED (sum_counts s),
           qs_failed = counted FAILED (sum_counts s),
           qs_cancel_requested = counted CANCEL_REQUESTED (sum_counts s),
           qs_cancelled = counted CANCELLED (sum_counts s),
           qs_oldest_eligible_age_seconds = sum_oldest_eligible_age_seconds s,
           qs_queued_low_priority = counted LOW (sum_priority_counts s),
           qs_queued_normal_priority = counted NORMAL (sum_priority_counts s),
           qs_queued_high_priority = counted HIGH (sum_priority_counts s) \<rparr>)"

definition get_background_job :: "uuid \<Rightarrow> tenant_context \<Rightarrow> db \<Rightarrow> job_response outcome" where
  "get_background_job jid tenant db =
     and_then (get_job jid (tc_organization_id tenant) db) (\<lambda>j. Inr (job_response_of j))"

text \<open>An event is shown without its organization.\<close>

record event_response =
  er_id :: uuid
  er_job_id :: uuid
  er_sequence_number :: int
  er_event_type :: job_event_type
  er_occurred_at :: instant
  er_details :: "(string \<times> json) list"

definition event_response_of :: "job_event \<Rightarrow> event_response" where
  "event_response_of e =
     \<lparr> er_id = ev_id e, er_job_id = ev_job_id e, er_sequence_number = ev_sequence_number e,
       er_event_type = ev_event_type e, er_occurred_at = ev_occurred_at e, er_details = ev_details e \<rparr>"

definition list_background_job_events ::
  "uuid \<Rightarrow> tenant_context \<Rightarrow> page \<Rightarrow> string option \<Rightarrow> db \<Rightarrow> (event_response list \<times> nat) outcome" where
  "list_background_job_events jid tenant p event_type db =
     (let org = tc_organization_id tenant in
      and_then (page_post_init p) (\<lambda>p.
      and_then (list_job_events jid org event_type p db) (\<lambda>records.
      and_then (count_job_events jid org event_type db) (\<lambda>total.
      Inr (map event_response_of records, total)))))"

definition invalid_transition_as :: "string \<Rightarrow> py_error \<Rightarrow> (db, 'a) task" where
  "invalid_transition_as code e =
     raising (if e = InvalidStatusTransitionError then APIError 409 code else e)"

definition cancel_background_job ::
  "instant \<Rightarrow> uuid \<Rightarrow> uuid \<Rightarrow> uuid \<Rightarrow> tenant_context \<Rightarrow> (db, job_response) task" where
  "cancel_background_job now eid eid' jid tenant =
     and_also (on_error (unit_of_work (request_cancellation now eid eid' jid (tc_organization_id tenant) None))
       (invalid_transition_as ''JOB_NOT_CANCELLABLE'')) (\<lambda>j.
     give (job_response_of j))"

definition retry_background_job ::
  "instant \<Rightarrow> uuid \<Rightarrow> uuid \<Rightarrow> int \<Rightarrow> uuid \<Rightarrow> tenant_context \<Rightarrow> (db, job_response) task" where
  "retry_background_job now eid sid limit jid tenant =
     and_also (on_error (unit_of_work (\<lambda>db.
         and_then (retry_failed now eid jid (tc_organization_id tenant) limit None db) (\<lambda>(j, db1).
         and_then (append_security_event now sid (tc_organization_id tenant) (tc_user_id tenant)
             ''BACKGROUND_JOB_MANUAL_RETRY_REQUESTED''
             [(''job_id'', JText (uuid_text (job_id j))), (''run_id'', JText (uuid_text (job_run_id j))),
              (''manual_retry_count'', JInt (job_manual_retry_count j))] db1) (\<lambda>(_, db2).
         Inr (j, db2)))))
       (invalid_transition_as ''JOB_NOT_RETRYABLE'')) (\<lambda>j.
     give (job_response_of j))"

section \<open>What the routes do to the queue\<close>

text \<open>A unit of work between checks and a response, seen as one change of the database.\<close>

lemma route_cases:
  assumes "and_also (on_error (unit_of_work body) h) k db = (r, db')" and "\<And>e s. snd (h e s) = s" "\<And>e s. \<exists>e'. fst (h e s) = Inl e'"
    and "\<And>x s. snd (k x s) = s"
  obtains x where "body db = Inr (x, db')" "r = fst (k x db')" | e where "r = Inl e" "db' = db"
proof (rule unit_of_work_cases [of body db])
  fix x db1
  assume *: "body db = Inr (x, db1)" "unit_of_work body db = (Inr x, db1)"
  with assms(1) have "k x db1 = (r, db')" by (simp add: and_also_def on_error_def)
  with * assms(4) [of x db1] show ?thesis using that(1) [of x] by simp
next
  fix e e'
  assume *: "body db = Inl e" "unit_of_work body db = (Inl e', db)"
  obtain e2 where "h e' db = (Inl e2, db)" using assms(2,3) [of e' db] by (metis prod.collapse)
  with assms(1) * have "r = Inl e2" "db' = db" by (simp_all add: and_also_def on_error_def)
  then show ?thesis by (rule that(2))
qed

lemma handled_transition:
  "snd (invalid_transition_as code e s) = s" "\<exists>e'. fst (invalid_transition_as code e s) = Inl e'"
  by (simp_all add: invalid_transition_as_def raising_def)

lemma cancel_cases:
  assumes "cancel_background_job now eid eid' jid tenant db = (r, db')"
  obtains j where "request_cancellation now eid eid' jid (tc_organization_id tenant) None db = Inr (j, db')"
      "r = Inr (job_response_of j)"
  | e where "r = Inl e" "db' = db"
  using assms unfolding cancel_background_job_def
  by (rule route_cases) (auto simp: handled_transition give_def intro: that)

lemma retry_cases:
  assumes "retry_background_job now eid sid limit jid tenant db = (r, db')"
  obtains j db1 ev where "retry_failed now eid jid (tc_organization_id tenant) limit None db = Inr (j, db1)"
      "db' = db1 \<lparr> security_events := security_events db1 @ [ev] \<rparr>" "r = Inr (job_response_of j)"
  | e where "r = Inl e" "db' = db"
  using assms unfolding retry_background_job_def
  by (rule route_cases)
     (auto simp: handled_transition give_def and_then_Inr_iff dest!: append_security_Inr(1) intro: that)

lemma execute_cases:
  assumes "execute_run now jid eid limits rid tenant q db = (r, db')"
  obtains scheduled timeout j where "check_request now limits q = Inr (scheduled, timeout)"
    "queue_execution now jid eid rid tenant scheduled timeout (case q of None \<Rightarrow> NORMAL | Some r \<Rightarrow> er_priority r) db = Inr (j, db')"
    "r = Inr \<lparr> ea_job_id = job_id j, ea_run_id = rid, ea_scheduled_at = job_scheduled_at j,
               ea_timeout_seconds = job_timeout_seconds j, ea_priority = job_priority j \<rparr>"
  | e where "r = Inl e" "db' = db"
proof (cases "check_request now limits q")
  case (Inl e)
  with assms have "r = Inl e" "db' = db" by (simp_all add: execute_run_def and_also_def lift_outcome_def)
  then show ?thesis by (rule that(2))
next
  case (Inr p)
  obtain scheduled timeout where p: "p = (scheduled, timeout)" by (cases p)
  let ?body = "queue_execution now jid eid rid tenant scheduled timeout (case q of None \<Rightarrow> NORMAL | Some r \<Rightarrow> er_priority r)"
  have run: "execute_run now jid eid limits rid tenant q db =
      (case unit_of_work ?body db of (Inl e, s') \<Rightarrow> (Inl e, s')
       | (Inr j, s') \<Rightarrow> (Inr \<lparr> ea_job_id = job_id j, ea_run_id = rid, ea_scheduled_at = job_scheduled_at j,
           ea_timeout_seconds = job_timeout_seconds j, ea_priority = job_priority j \<rparr>, s'))"
    by (simp add: execute_run_def and_also_def lift_outcome_def Inr p give_def split: prod.split sum.split)
  show ?thesis
  proof (rule unit_of_work_cases [of ?body db])
    fix j db1
    assume "?body db = Inr (j, db1)" "unit_of_work ?body db = (Inr j, db1)"
    with run assms Inr p show ?thesis using that(1) [of scheduled timeout j] by simp
  next
    fix e e'
    assume "unit_of_work ?body db = (Inl e', db)"
    with run assms have "r = Inl e'" "db' = db" by simp_all
    then show ?thesis by (rule that(2))
  qed
qed

lemma queue_execution_Inr:
  assumes "queue_execution now jid eid rid tenant scheduled timeout priority db = Inr (j, db')"
  obtains run where "get_run rid (Some (tc_organization_id tenant)) db = Inr run" "run_status run = RUN_PENDING"
    "missing_sources rid db = []" "job_for_run rid (tc_organization_id tenant) db = None"
    "create_job now jid eid (tc_organization_id tenant) rid (Some (aware_utc scheduled)) 3 timeout (priority_text priority) db = Inr (j, db')"
  using assms by (auto simp: queue_execution_def Let_def and_then_Inr_iff guard_else_Inr_iff)

lemma created_job_fields:
  assumes "create_job now jid eid org rid (Some (aware_utc scheduled)) attempts timeout priority db = Inr (j, db')"
  shows "job_scheduled_at j = scheduled" "job_timeout_seconds j = timeout" "job_attempt_count j = 0" "job_max_attempts j = attempts"
  using assms unfolding create_job_def Let_def
  by (auto simp only: and_then_Inr_iff guard_else_Inr_iff sum.inject prod.inject utc_or_aware job.simps)

lemma check_request_Inr:
  assumes "check_request now limits q = Inr (scheduled, timeout)"
  shows "now \<le> scheduled" "scheduled \<le> now + days_in_microseconds 365" "timeout \<le> el_maximum_timeout_seconds limits"
  using assms by (auto simp: check_request_def and_then_Inr_iff guard_else_Inr_iff)

text \<open>A row that replaces the one a lookup finds is found in its place.\<close>

lemma scoped_get_put:
  assumes "scoped_get key org i t rows = Inr r" and "key r' = key r" and "org r' = org r"
  shows "scoped_get key org i t (put_row key r' rows) = Inr r'"
proof -
  have "find (\<lambda>x. key x = i \<and> org x = t) rs = Some r \<Longrightarrow> find (\<lambda>x. key x = i \<and> org x = t) (put_row key r' rs) = Some r'" for rs
  proof (induction rs)
    case (Cons x xs)
    then show ?case
      using assms(2,3) by (auto simp: put_row_def find_Some_iff split: if_splits)
  qed simp
  with assms(1) show ?thesis by (auto simp: scoped_get_def split: option.splits)
qed

text \<open>A run that has a job of its tenant cannot be executed again.\<close>

lemma execute_with_job_refused:
  assumes "j \<in> set (jobs db)" and "job_run_id j = rid" and "job_organization_id j = tc_organization_id tenant"
  shows "\<exists>e. execute_run now jid eid limits rid tenant q db = (Inl e, db)"
proof -
  obtain r db' where run: "execute_run now jid eid limits rid tenant q db = (r, db')" by (metis prod.collapse)
  from run show ?thesis
  proof (rule execute_cases)
    fix scheduled timeout j'
    assume "queue_execution now jid eid rid tenant scheduled timeout (case q of None \<Rightarrow> NORMAL | Some r \<Rightarrow> er_priority r) db = Inr (j', db')"
    then obtain "job_for_run rid (tc_organization_id tenant) db = None" by (rule queue_execution_Inr)
    with assms show ?thesis by (auto simp: job_for_run_def find_None_iff)
  qed (use run in simp)
qed

datatype job_request =
    ExecuteRun instant uuid uuid execution_limits uuid tenant_context "execution_request option"
  | CancelJob instant uuid uuid uuid tenant_context
  | RetryJob instant uuid uuid int uuid tenant_context
  | CreateRun instant uuid uuid config tenant_context

fun serve_job :: "job_request \<Rightarrow> db \<Rightarrow> db" where
  "serve_job (ExecuteRun now jid eid limits rid tenant q) db = snd (execute_run now jid eid limits rid tenant q db)"
| "serve_job (CancelJob now eid eid' jid tenant) db = snd (cancel_background_job now eid eid' jid tenant db)"
| "serve_job (RetryJob now eid sid limit jid tenant) db = snd (retry_background_job now eid sid limit jid tenant db)"
| "serve_job (CreateRun now rid cid cfg tenant) db = snd (create_reconciliation_run now rid cid cfg tenant db)"

lemma create_run_frame:
  "jobs (snd (create_reconciliation_run now rid cid cfg tenant db)) = jobs db \<and>
   job_events (snd (create_reconciliation_run now rid cid cfg tenant db)) = job_events db"
proof -
  define body where "body c = (\<lambda>(db :: db). and_then (create_run now (tc_organization_id tenant) rid db) (\<lambda>(r, db1).
       and_then (add_configuration now cid (run_id r) c [] db1) (\<lambda>(c, db2). Inr ((r, c), db2))))" for c
  have "jobs (snd (unit_of_work (body c) db)) = jobs db \<and> job_events (snd (unit_of_work (body c) db)) = job_events db" for c
    by (rule unit_of_work_preserves [where P = "\<lambda>db'. jobs db' = jobs db \<and> job_events db' = job_events db"])
       (auto simp: body_def and_then_Inr_iff create_run_def add_configuration_def Let_def split: if_splits)
  then show ?thesis
    unfolding create_reconciliation_run_def body_def [symmetric]
    by (auto simp: and_also_def lift_outcome_def split: sum.split prod.split) (metis snd_conv)+
qed

lemma serve_job_reachable: "queue_reachable db \<Longrightarrow> queue_reachable (serve_job q db)"
proof (cases q)
  case (ExecuteRun now jid eid limits rid tenant p)
  assume db: "queue_reachable db"
  obtain r db' where run: "execute_run now jid eid limits rid tenant p db = (r, db')" by (metis prod.collapse)
  then have "queue_reachable db'"
    by (rule execute_cases) (use db in \<open>auto elim!: queue_execution_Inr intro: reach_step step_create\<close>)
  then show ?thesis by (simp add: ExecuteRun run)
next
  case (CancelJob now eid eid' jid tenant)
  assume db: "queue_reachable db"
  obtain r db' where run: "cancel_background_job now eid eid' jid tenant db = (r, db')" by (metis prod.collapse)
  then have "queue_reachable db'" by (rule cancel_cases) (use db in \<open>auto intro: reach_step step_cancel\<close>)
  then show ?thesis by (simp add: CancelJob run)
next
  case (RetryJob now eid sid limit jid tenant)
  assume db: "queue_reachable db"
  obtain r db' where run: "retry_background_job now eid sid limit jid tenant db = (r, db')" by (metis prod.collapse)
  then have "queue_reachable db'"
  proof (rule retry_cases)
    fix j db1 ev
    assume "retry_failed now eid jid (tc_organization_id tenant) limit None db = Inr (j, db1)"
      and db': "db' = db1 \<lparr> security_events := security_events db1 @ [ev] \<rparr>"
    from this(1) have "queue_reachable db1" using db by (blast intro: reach_step step_retry)
    then show "queue_reachable db'" by (rule reach_step) (simp add: db' step_other)
  qed (use db in simp)
  then show ?thesis by (simp add: RetryJob run)
next
  case (CreateRun now rid cid cfg tenant)
  assume db: "queue_reachable db"
  show ?thesis using create_run_frame [of now rid cid cfg tenant db]
    by (auto simp: CreateRun intro!: reach_step [OF db] step_other)
qed

section \<open>Properties\<close>

definition desk_tenant :: tenant_context where
  "desk_tenant = \<lparr> tc_organization_id = 1, tc_user_id = 5, tc_role = ANALYST \<rparr>"

definition desk_run :: run where
  "desk_run =
     \<lparr> run_id = 3, run_organization_id = 1, run_status = RUN_PENDING, run_started_at = None, run_finished_at = None,
       run_error_code = None, run_error_message = None, run_created_at = 0 \<rparr>"

definition desk_file :: "uuid \<Rightarrow> source_type \<Rightarrow> source_file" where
  "desk_file i ty =
     \<lparr> file_id = i, file_run_id = 3, file_source_type = ty, file_original_filename = ''a.csv'',
       file_content_type = Some ''text/csv'', file_checksum_sha256 = replicate 64 (CHR ''a''), file_size_bytes = 9,
       file_row_count = None, file_storage_key = None, file_created_at = 0 \<rparr>"

definition desk_configuration :: configuration where
  "desk_configuration =
     \<lparr> cfg_id = 6, cfg_run_id = 3, cfg_amount_tolerance = Dec 100 (- 2), cfg_date_tolerance_days = 14,
       cfg_settings = [(''maximum_group_size'', JInt 5)], cfg_created_at = 0 \<rparr>"

definition desk_org :: organization where
  "desk_org =
     \<lparr> org_id = 1, org_name = ''Acme'', org_slug = ''acme'', org_is_active = True,
       org_storage_quota_bytes = None, org_storage_used_bytes = 18, org_hosted_ai_enabled = False,
       org_ai_daily_request_limit = 100, org_ai_monthly_request_limit = 1000, org_ai_daily_token_limit = 100000,
       org_ai_monthly_token_limit = 1000000, org_created_at = 0 \<rparr>"

definition desk_db :: db where
  "desk_db = empty_db \<lparr> organizations := [desk_org], runs := [desk_run],
     source_files := [desk_file 7 BANK_TRANSACTIONS, desk_file 8 ERP_INVOICES],
     configurations := [desk_configuration] \<rparr>"

definition desk_limits :: execution_limits where
  "desk_limits = \<lparr> el_default_timeout_seconds = 900, el_maximum_timeout_seconds = 3600 \<rparr>"



text \<open>
  C15: Cancelling a job before it starts strands its run.  The job is cancelled at once while
  the run stays pending; from then on every execution of the run is refused because it still
  has a job, and the job cannot be retried because it did not fail.
\<close>

theorem cancelled_before_start_strands_run:
  assumes "get_job jid (tc_organization_id tenant) db = Inr j" and "job_status j = QUEUED"
    and "cancel_background_job now eid eid' jid tenant db = (Inr a, db')" and "1 \<le> limit"
  shows "jr_status a = CANCELLED \<and> runs db' = runs db \<and>
    (\<exists>e. execute_run now2 jid2 eid2 limits (job_run_id j) tenant q db' = (Inl e, db')) \<and>
    retry_background_job now3 eid3 sid limit jid tenant db' = (Inl (APIError 409 ''JOB_NOT_RETRYABLE''), db')"
  using assms(3)
proof (rule cancel_cases)
  fix r
  assume cancel: "request_cancellation now eid eid' jid (tc_organization_id tenant) None db = Inr (r, db')"
    and a: "Inr a = Inr (job_response_of r)"
  from cancel obtain t where r: "r = j \<lparr> job_cancellation_requested_at := Some t, job_status := CANCELLED,
             job_completed_at := Some t, job_status_message := Some ''Cancelled before processing'', job_deadline_at := None \<rparr>"
    by (auto simp: request_cancellation_def assms(1,2) and_then_Inr_iff Let_def)
  have fields: "job_id r = job_id j" "job_organization_id r = job_organization_id j" "job_run_id r = job_run_id j"
    "job_status r = CANCELLED" by (simp_all add: r)
  from cancelling.law [OF cancel] have rows: "jobs db' = put_row job_id r (jobs db)" by (auto simp: changed_def)
  have found: "get_job jid (tc_organization_id tenant) db' = Inr r"
    using scoped_get_put [of job_id job_organization_id jid _ "jobs db" j r] assms(1) fields
    by (simp add: get_job_def rows)
  have "runs db' = runs db"
    using cancel append_event_Inr(2)
    by (fastforce simp: request_cancellation_def assms(1,2) and_then_Inr_iff Let_def save_job_Inr)
  moreover have "\<exists>e. execute_run now2 jid2 eid2 limits (job_run_id j) tenant q db' = (Inl e, db')"
    using get_job_Inr [OF found] fields(3) by (intro execute_with_job_refused [of r]) simp_all
  moreover have "retry_failed now3 eid3 jid (tc_organization_id tenant) limit None db' = Inl InvalidStatusTransitionError"
    using assms(4) by (simp add: retry_failed_def found fields)
  then have "retry_background_job now3 eid3 sid limit jid tenant db' = (Inl (APIError 409 ''JOB_NOT_RETRYABLE''), db')"
    by (simp add: retry_background_job_def and_also_def on_error_def unit_of_work_def invalid_transition_as_def raising_def)
  ultimately show ?thesis using a fields(4) by (simp add: job_response_of_def)
qed simp

theorem cancelled_before_start_strands_run_witness:
  "\<exists>a db'. cancel_background_job 60 24 25 20 desk_tenant (snd (execute_run 50 20 21 desk_limits 3 desk_tenant None desk_db)) = (Inr a, db') \<and>
     jr_status a = CANCELLED \<and> map run_status (runs db') = [RUN_PENDING] \<and>
     (\<exists>e. execute_run 70 26 27 desk_limits 3 desk_tenant None db' = (Inl e, db'))"
proof -
  let ?db = "snd (execute_run 50 20 21 desk_limits 3 desk_tenant None desk_db)"
  have "(case get_job 20 (tc_organization_id desk_tenant) ?db of
      Inl _ \<Rightarrow> False | Inr j \<Rightarrow> job_status j = QUEUED \<and> job_run_id j = 3)" by code_simp
  then obtain j where j: "get_job 20 (tc_organization_id desk_tenant) ?db = Inr j" "job_status j = QUEUED" "job_run_id j = 3"
    by (auto split: sum.splits)
  have "case fst (cancel_background_job 60 24 25 20 desk_tenant ?db) of Inl _ \<Rightarrow> False | Inr _ \<Rightarrow> True" by code_simp
  then obtain a db' where run: "cancel_background_job 60 24 25 20 desk_tenant ?db = (Inr a, db')"
    by (cases "cancel_background_job 60 24 25 20 desk_tenant ?db") (auto split: sum.splits)
  have "map run_status (runs ?db) = [RUN_PENDING]" by code_simp
  with cancelled_before_start_strands_run [OF j(1,2) run, of 1 70 26 27 desk_limits None 80 28 29] run j(3)
  show ?thesis by auto
qed



text \<open>
  A created run is read back.  The response of the creation is what a later read of the run
  by the same tenant answers: pending, with the configuration that was asked for, the amount
  written with four places.
\<close>

theorem created_run_is_read_back:
  assumes "create_reconciliation_run now rid cid cfg tenant db = (Inr a, db')"
  shows "get_reconciliation_run rid tenant db' = Inr a \<and> ri_id a = rid \<and> ri_status a = RUN_PENDING \<and>
    ri_organization_id a = tc_organization_id tenant \<and>
    rc_date_tolerance_days (rn_configuration a) = date_tolerance_days cfg \<and>
    rc_maximum_group_size (rn_configuration a) = maximum_group_size cfg \<and>
    quantize_places 4 (amount_tolerance cfg) = Inr (rc_amount_tolerance (rn_configuration a))"
proof -
  let ?body = "\<lambda>(db :: db). and_then (create_run now (tc_organization_id tenant) rid db) (\<lambda>(r, db1).
       and_then (add_configuration now cid (run_id r) cfg [] db1) (\<lambda>(c, db2). Inr ((r, c), db2)))"
  have "config_post_init cfg = Inr cfg"
    using assms by (cases "config_post_init cfg")
      (auto simp: create_reconciliation_run_def and_also_def lift_outcome_def config_post_init_def split: if_splits)
  then have route: "and_also (unit_of_work ?body) (\<lambda>(r, c). lift_outcome (run_response_of r c)) db = (Inr a, db')"
    using assms by (simp add: create_reconciliation_run_def and_also_def lift_outcome_def)
  then obtain p s1 where "unit_of_work ?body db = (Inr p, s1)" and "(case p of (r, c) \<Rightarrow> lift_outcome (run_response_of r c)) s1 = (Inr a, db')"
    by (rule and_also_Inr)
  moreover obtain r c where p: "p = (r, c)" by (cases p)
  ultimately have made: "?body db = Inr ((r, c), db')" and a: "run_response_of r c = Inr a"
    using unit_of_work_ok [of ?body db p] by (simp_all add: lift_outcome_def)
  from made obtain db1 where create: "create_run now (tc_organization_id tenant) rid db = Inr (r, db1)"
    and add: "add_configuration now cid (run_id r) cfg [] db1 = Inr (c, db')"
    by (auto simp: and_then_Inr_iff)
  from create have r: "run_id r = rid" "run_organization_id r = tc_organization_id tenant" "run_status r = RUN_PENDING"
      "runs db1 = runs db @ [r]" "rid \<notin> set (map run_id (runs db))" "configurations db1 = configurations db"
    by (auto simp: create_run_def Let_def split: if_splits)
  from add r(1) have c: "cfg_run_id c = rid" "cfg_amount_tolerance c = amount_tolerance cfg"
      "cfg_date_tolerance_days c = date_tolerance_days cfg" "cfg_settings c = [(''maximum_group_size'', JInt (maximum_group_size cfg))]"
      "configurations db' = configurations db @ [c]" "runs db' = runs db @ [r]"
      "\<not> list_ex (\<lambda>r. cfg_run_id r = rid) (configurations db)"
    by (auto simp: add_configuration_def and_then_Inr_iff guard_else_Inr_iff Let_def r(4,6) split: if_splits)
  have "find (\<lambda>x. run_id x = rid \<and> run_organization_id x = tc_organization_id tenant) (runs db') = Some r"
    unfolding c(6) using r(1,2,5) by (intro find_snoc) (auto, metis image_eqI)
  moreover have "find (\<lambda>x. cfg_run_id x = rid) (configurations db') = Some c"
    unfolding c(5) using c(1,7) by (intro find_snoc) (auto simp: list_ex_iff)
  ultimately have "get_reconciliation_run rid tenant db' = Inr a"
    using a by (simp add: get_reconciliation_run_def get_run_def scoped_get_def configuration_for_run_def)
  moreover from a obtain amount where "quantize_places 4 (amount_tolerance cfg) = Inr amount"
      "a = run_item.extend (run_item_of r) \<lparr> rn_configuration = \<lparr> rc_amount_tolerance = amount,
        rc_date_tolerance_days = date_tolerance_days cfg, rc_maximum_group_size = maximum_group_size cfg \<rparr>,
        rn_error_code = run_error_code r, rn_error_message = run_error_message r \<rparr>"
    by (auto simp: run_response_of_def configuration_response_def and_then_Inr_iff c)
  ultimately show ?thesis using r by (simp add: run_item.defs run_item_of_def)
qed

theorem created_run_is_read_back_witness:
  "\<exists>a db'. create_reconciliation_run 90 30 31 default_config desk_tenant desk_db = (Inr a, db') \<and>
     get_reconciliation_run 30 desk_tenant db' = Inr a \<and> rc_maximum_group_size (rn_configuration a) = 5"
proof -
  let ?body = "\<lambda>(db :: db). and_then (create_run 90 (tc_organization_id desk_tenant) 30 db) (\<lambda>(r, db1).
       and_then (add_configuration 90 31 (run_id r) default_config [] db1) (\<lambda>(c, db2). Inr ((r, c), db2)))"
  have "case ?body desk_db of Inl _ \<Rightarrow> False | Inr ((r, c), _) \<Rightarrow> cfg_amount_tolerance c = Dec 100 (- 2) \<and>
      cfg_settings c = [(''maximum_group_size'', JInt 5)]" by code_simp
  then obtain r c db' where body: "?body desk_db = Inr ((r, c), db')"
      and c: "cfg_amount_tolerance c = Dec 100 (- 2)" "cfg_settings c = [(''maximum_group_size'', JInt 5)]"
    by (auto split: sum.splits)
  have "config_post_init default_config = Inr default_config" by code_simp
  moreover have "unit_of_work ?body desk_db = (Inr (r, c), db')"
    using body by (simp only: unit_of_work_def) simp
  moreover have "quantize_places 4 (Dec 100 (- 2)) = Inr (Dec 10000 (- 4))"
    by (simp add: quantize_places_def num_digits.simps context_precision_def)
  ultimately obtain a where run: "create_reconciliation_run 90 30 31 default_config desk_tenant desk_db = (Inr a, db')"
    using c by (simp only: create_reconciliation_run_def and_also_def lift_outcome_def)
      (simp add: run_response_of_def configuration_response_def lift_outcome_def)
  note read = created_run_is_read_back [OF run]
  have "maximum_group_size default_config = 5" by (simp add: default_config_def)
  then have "rc_maximum_group_size (rn_configuration a) = 5"
    by (rule trans [OF read [THEN conjunct2, THEN conjunct2, THEN conjunct2, THEN conjunct2, THEN conjunct2, THEN conjunct1]])
  with run read [THEN conjunct1] show ?thesis by (intro exI conjI)
qed

end
