(* ===== verification/AI_Usage.thy ===== *)
theory AI_Usage
  imports Runs Tenancy
begin

text \<open>
  The budget of hosted inference: \<open>AIUsageRepository\<close> and \<open>AIInferenceEventRepository\<close> of
  \<open>persistence/repositories.py\<close>, the controller of \<open>ai/usage.py\<close>, the observer of
  \<open>ai/observability.py\<close> and the pages of \<open>api/routes/organizations.py\<close> that show them.  A row
  is stamped with the clock of the database, a window starts by the clock of the service; both
  readings are arguments.  Instants count from the start of 1970.
\<close>

section \<open>\<open>AIUsageRepository\<close>\<close>

definition reserve_usage ::
  "instant \<Rightarrow> uuid \<Rightarrow> uuid \<Rightarrow> uuid \<Rightarrow> string \<Rightarrow> string \<Rightarrow> int \<Rightarrow> int \<Rightarrow> instant \<Rightarrow> ai_usage db_action" where
  "reserve_usage stamp uid oid rid provider model tokens candidates expires db =
     and_then (guard_else (run_of_tenant rid oid db) RecordNotFoundError) (\<lambda>_.
     (let r = \<lparr> use_id = uid, use_organization_id = oid, use_run_id = rid, use_status = USAGE_RESERVED,
                use_provider = provider, use_model_version = model, use_reserved_requests = 1,
                use_reserved_tokens = tokens, use_input_tokens = 0, use_output_tokens = 0,
                use_candidate_count = candidates, use_expires_at = expires, use_finalized_at = None,
                use_released_at = None, use_created_at = stamp \<rparr>
      in if ai_usage_row_ok r \<and> uid \<notin> set (map use_id (ai_usages db)) \<and>
            oid \<in> set (map org_id (organizations db))
         then Inr (r, db \<lparr> ai_usages := ai_usages db @ [r] \<rparr>)
         else Inl IntegrityError))"

definition get_usage :: "uuid \<Rightarrow> uuid \<Rightarrow> db \<Rightarrow> ai_usage outcome" where
  "get_usage uid oid db = scoped_get use_id use_organization_id uid oid (ai_usages db)"

definition save_usage :: "ai_usage \<Rightarrow> ai_usage db_action" where
  "save_usage r db =
     (if ai_usage_row_ok r then Inr (r, db \<lparr> ai_usages := put_row use_id r (ai_usages db) \<rparr>)
      else Inl IntegrityError)"

definition finalize_usage :: "uuid \<Rightarrow> uuid \<Rightarrow> int \<Rightarrow> int \<Rightarrow> instant \<Rightarrow> ai_usage db_action" where
  "finalize_usage uid oid input output finalized db =
     and_then (get_usage uid oid db) (\<lambda>r.
     and_then (guard_else (use_status r = USAGE_RESERVED) PersistenceConflictError) (\<lambda>_.
     save_usage (r \<lparr> use_status := USAGE_FINALIZED, use_input_tokens := input,
                    use_output_tokens := output, use_finalized_at := Some finalized \<rparr>) db))"

definition release_usage :: "uuid \<Rightarrow> uuid \<Rightarrow> instant \<Rightarrow> ai_usage db_action" where
  "release_usage uid oid released db =
     and_then (get_usage uid oid db) (\<lambda>r.
     if use_status r = USAGE_RESERVED
     then save_usage (r \<lparr> use_status := USAGE_RELEASED, use_released_at := Some released \<rparr>) db
     else Inr (r, db))"

definition expired_reservation :: "uuid \<Rightarrow> instant \<Rightarrow> ai_usage \<Rightarrow> bool" where
  "expired_reservation oid now r \<longleftrightarrow>
     use_organization_id r = oid \<and> use_status r = USAGE_RESERVED \<and> use_expires_at r \<le> now"

definition release_expired :: "uuid \<Rightarrow> instant \<Rightarrow> nat db_action" where
  "release_expired oid now db =
     Inr (length (filter (expired_reservation oid now) (ai_usages db)),
       db \<lparr> ai_usages := map (\<lambda>r. if expired_reservation oid now r
              then r \<lparr> use_status := USAGE_RELEASED, use_released_at := Some now \<rparr> else r) (ai_usages db) \<rparr>)"

definition active_usage :: "instant \<Rightarrow> ai_usage \<Rightarrow> bool" where
  "active_usage now r \<longleftrightarrow>
     use_status r = USAGE_FINALIZED \<or> use_status r = USAGE_RESERVED \<and> now < use_expires_at r"

definition charged_tokens :: "ai_usage \<Rightarrow> int" where
  "charged_tokens r =
     (if use_status r = USAGE_FINALIZED then use_input_tokens r + use_output_tokens r else use_reserved_tokens r)"

definition summarize_usage :: "uuid \<Rightarrow> instant \<Rightarrow> instant \<Rightarrow> db \<Rightarrow> int \<times> int" where
  "summarize_usage oid since now db =
     (let rs = filter (\<lambda>r. use_organization_id r = oid \<and> since \<le> use_created_at r \<and> active_usage now r) (ai_usages db)
      in (sum_list (map use_reserved_requests rs), sum_list (map charged_tokens rs)))"

section \<open>The controller: \<open>ai/usage.py\<close>\<close>

text \<open>
  \<open>now.replace(hour=0, minute=0, second=0, microsecond=0)\<close> and its \<open>replace(day=1)\<close>.  The day of
  the month is found from the proleptic ordinal the way \<open>datetime\<close> does: by cycles of 400, 100,
  4 and 1 years, then month by month.
\<close>

definition day_start :: "instant \<Rightarrow> instant" where
  "day_start now = now - now mod days 1"

definition month_lengths :: "bool \<Rightarrow> int list" where
  "month_lengths leap = [31, if leap then 29 else 28, 31, 30, 31, 30, 31, 31, 30, 31, 30, 31]"

fun day_within :: "int list \<Rightarrow> int \<Rightarrow> int" where
  "day_within [] n = n + 1"
| "day_within (m # ms) n = (if n < m then n + 1 else day_within ms (n - m))"

definition day_of_month :: "date \<Rightarrow> int" where
  "day_of_month d =
     (let n400 = (d - 1) mod 146097; n100 = n400 div 36524; m100 = n400 mod 36524;
          n4 = m100 div 1461; m4 = m100 mod 1461; n1 = m4 div 365; m1 = m4 mod 365
      in if n1 = 4 \<or> n100 = 4 then 31
         else day_within (month_lengths (n1 = 3 \<and> (n4 \<noteq> 24 \<or> n100 = 3))) m1)"

definition ordinal_of :: "instant \<Rightarrow> date" where
  "ordinal_of t = t div days 1 + 719163"

definition month_start :: "instant \<Rightarrow> instant" where
  "month_start now = day_start now - days (day_of_month (ordinal_of now) - 1)"

record usage_summary =
  us_daily_requests :: int
  us_daily_tokens :: int
  us_monthly_requests :: int
  us_monthly_tokens :: int

definition summarize_windows :: "uuid \<Rightarrow> instant \<Rightarrow> db \<Rightarrow> usage_summary" where
  "summarize_windows oid now db =
     (let daily = summarize_usage oid (day_start now) now db; monthly = summarize_usage oid (month_start now) now db
      in \<lparr> us_daily_requests = fst daily, us_daily_tokens = snd daily,
           us_monthly_requests = fst monthly, us_monthly_tokens = snd monthly \<rparr>)"

record usage_controller =
  uc_provider_name :: string
  uc_model_version :: string
  uc_estimated_tokens_per_candidate :: int
  uc_reservation_ttl_seconds :: int

definition controller_init :: "usage_controller \<Rightarrow> usage_controller outcome" where
  "controller_init c =
     and_then (guard_else (1 \<le> uc_estimated_tokens_per_candidate c)
       (ValueError ''estimated_tokens_per_candidate must be positive'')) (\<lambda>_.
     and_then (guard_else (30 \<le> uc_reservation_ttl_seconds c)
       (ValueError ''reservation_ttl_seconds must be at least 30'')) (\<lambda>_.
     Inr c))"

definition is_metered :: "usage_controller \<Rightarrow> bool" where
  "is_metered c \<longleftrightarrow> uc_provider_name c = ''openai-compatible''"

definition within_limits :: "usage_summary \<Rightarrow> int \<Rightarrow> organization \<Rightarrow> bool" where
  "within_limits u estimated r \<longleftrightarrow>
     us_daily_requests u + 1 \<le> org_ai_daily_request_limit r \<and>
     us_monthly_requests u + 1 \<le> org_ai_monthly_request_limit r \<and>
     us_daily_tokens u + estimated \<le> org_ai_daily_token_limit r \<and>
     us_monthly_tokens u + estimated \<le> org_ai_monthly_token_limit r"

definition reserve_body ::
  "usage_controller \<Rightarrow> instant \<Rightarrow> instant \<Rightarrow> uuid \<Rightarrow> uuid \<Rightarrow> uuid \<Rightarrow> int \<Rightarrow> uuid db_action" where
  "reserve_body c now stamp uid oid rid candidates db =
     (let estimated = candidates * uc_estimated_tokens_per_candidate c in
      and_then (get_organization oid db) (\<lambda>r.
      and_then (guard_else (org_hosted_ai_enabled r)
        (AIUsageLimitError ''hosted AI inference is not enabled for this organization'')) (\<lambda>_.
      and_then (release_expired oid now db) (\<lambda>(_, db1).
      and_then (guard_else (within_limits (summarize_windows oid now db1) estimated r)
        (AIUsageLimitError ''hosted AI usage limit has been reached'')) (\<lambda>_.
      and_then (reserve_usage stamp uid oid rid (uc_provider_name c) (uc_model_version c) estimated candidates
        (now + seconds (uc_reservation_ttl_seconds c)) db1) (\<lambda>(u, db2).
      Inr (use_id u, db2)))))))"

definition reserve ::
  "usage_controller \<Rightarrow> instant \<Rightarrow> instant \<Rightarrow> uuid \<Rightarrow> uuid \<Rightarrow> uuid \<Rightarrow> int \<Rightarrow> (db, uuid option) task" where
  "reserve c now stamp uid oid rid candidates =
     (if \<not> is_metered c then give None
      else if candidates < 1 then raising (ValueError ''candidate_count must be positive'')
      else and_also (unit_of_work (reserve_body c now stamp uid oid rid candidates)) (\<lambda>i. give (Some i)))"

definition finalize :: "instant \<Rightarrow> uuid \<Rightarrow> uuid \<Rightarrow> int \<Rightarrow> int \<Rightarrow> (db, unit) task" where
  "finalize now uid oid input output =
     unit_of_work (\<lambda>db. and_then (finalize_usage uid oid input output now db) (\<lambda>(_, db1). Inr ((), db1)))"

definition release :: "instant \<Rightarrow> uuid \<Rightarrow> uuid \<Rightarrow> (db, unit) task" where
  "release now uid oid =
     unit_of_work (\<lambda>db. and_then (release_usage uid oid now db) (\<lambda>(_, db1). Inr ((), db1)))"

definition usage_summary_of :: "instant \<Rightarrow> uuid \<Rightarrow> (db, usage_summary) task" where
  "usage_summary_of now oid =
     unit_of_work (\<lambda>db.
       and_then (get_organization oid db) (\<lambda>_.
       and_then (release_expired oid now db) (\<lambda>(_, db1).
       Inr (summarize_windows oid now db1, db1))))"

section \<open>\<open>AIInferenceEventRepository\<close> and the observer\<close>

definition create_inference_event ::
  "instant \<Rightarrow> uuid \<Rightarrow> uuid \<Rightarrow> uuid \<Rightarrow> string \<Rightarrow> string \<Rightarrow> string \<Rightarrow> string \<Rightarrow> int \<Rightarrow> inference_event db_action" where
  "create_inference_event stamp eid oid rid provider model prompt cfg candidates db =
     and_then (guard_else (run_of_tenant rid oid db) RecordNotFoundError) (\<lambda>_.
     (let r = \<lparr> inf_id = eid, inf_organization_id = oid, inf_run_id = rid, inf_outcome = INFERENCE_REQUESTED,
                inf_provider = provider, inf_model_version = model, inf_prompt_version = prompt,
                inf_inference_config_version = cfg, inf_candidate_count = candidates, inf_suggestion_count = 0,
                inf_input_tokens = 0, inf_output_tokens = 0, inf_duration_ms = None, inf_error_code = None,
                inf_completed_at = None, inf_created_at = stamp \<rparr>
      in if inference_event_row_ok r \<and> eid \<notin> set (map inf_id (inference_events db)) \<and>
            oid \<in> set (map org_id (organizations db))
         then Inr (r, db \<lparr> inference_events := inference_events db @ [r] \<rparr>)
         else Inl IntegrityError))"

definition complete_inference_event ::
  "uuid \<Rightarrow> uuid \<Rightarrow> inference_outcome \<Rightarrow> int \<Rightarrow> int \<Rightarrow> int \<Rightarrow> int \<Rightarrow> string option \<Rightarrow> instant \<Rightarrow>
   inference_event db_action" where
  "complete_inference_event eid oid result suggested input output duration code completed db =
     and_then (scoped_get inf_id inf_organization_id eid oid (inference_events db)) (\<lambda>r.
     and_then (guard_else (inf_outcome r = INFERENCE_REQUESTED) PersistenceConflictError) (\<lambda>_.
     (let r' = r \<lparr> inf_outcome := result, inf_suggestion_count := suggested, inf_input_tokens := input,
                   inf_output_tokens := output, inf_duration_ms := Some duration, inf_error_code := code,
                   inf_completed_at := Some completed \<rparr>
      in if inference_event_row_ok r'
         then Inr (r', db \<lparr> inference_events := put_row inf_id r' (inference_events db) \<rparr>)
         else Inl IntegrityError)))"

fun inference_outcome_text :: "inference_outcome \<Rightarrow> string" where
  "inference_outcome_text INFERENCE_REQUESTED = ''REQUESTED''"
| "inference_outcome_text INFERENCE_SUCCEEDED = ''SUCCEEDED''"
| "inference_outcome_text INFERENCE_FAILED = ''FAILED''"
| "inference_outcome_text INFERENCE_TIMED_OUT = ''TIMED_OUT''"
| "inference_outcome_text INFERENCE_DISABLED = ''DISABLED''"
| "inference_outcome_text INFERENCE_QUOTA_REJECTED = ''QUOTA_REJECTED''"

definition list_inference_events :: "uuid \<Rightarrow> page \<Rightarrow> string option \<Rightarrow> db \<Rightarrow> inference_event list" where
  "list_inference_events oid p result db =
     paginate p (rev (sort_key (\<lambda>e. (inf_created_at e, inf_id e))
       (filter (\<lambda>e. inf_organization_id e = oid \<and>
          (case result of None \<Rightarrow> True | Some t \<Rightarrow> inference_outcome_text (inf_outcome e) = t)) (inference_events db))))"

record observer =
  ob_provider :: string
  ob_model_version :: string
  ob_prompt_version :: string
  ob_inference_config_version :: string

definition start_event :: "observer \<Rightarrow> instant \<Rightarrow> uuid \<Rightarrow> uuid \<Rightarrow> uuid \<Rightarrow> int \<Rightarrow> (db, uuid) task" where
  "start_event ob stamp eid oid rid candidates =
     unit_of_work (\<lambda>db.
       and_then (create_inference_event stamp eid oid rid (ob_provider ob) (ob_model_version ob)
         (ob_prompt_version ob) (ob_inference_config_version ob) candidates db) (\<lambda>(e, db1).
       Inr (inf_id e, db1)))"

text \<open>The milliseconds since the start, read from a monotonic clock, are an argument.\<close>

definition complete_event ::
  "instant \<Rightarrow> int \<Rightarrow> uuid \<Rightarrow> uuid \<Rightarrow> inference_outcome \<Rightarrow> int \<Rightarrow> int \<Rightarrow> int \<Rightarrow> string option \<Rightarrow> (db, unit) task" where
  "complete_event now elapsed eid oid result suggested input output code =
     unit_of_work (\<lambda>db.
       and_then (complete_inference_event eid oid result suggested input output (max 0 elapsed) code now db) (\<lambda>(_, db1).
       Inr ((), db1)))"

section \<open>Pages of an organization: \<open>api/routes/organizations.py\<close>\<close>

record ai_usage_page = ai_policy +
  ap_summary :: usage_summary

definition get_ai_usage :: "instant \<Rightarrow> uuid \<Rightarrow> tenant_context \<Rightarrow> (db, ai_usage_page) task" where
  "get_ai_usage now oid tenant db =
     and_also (lift_outcome (ensure_selected oid (tc_organization_id tenant))) (\<lambda>_.
     and_also (lift_outcome (get_organization oid db)) (\<lambda>r.
     and_also (usage_summary_of now oid) (\<lambda>u.
     give (ai_policy.extend (ai_policy_of r) \<lparr> ap_summary = u \<rparr>)))) db"

definition list_ai_inference_events ::
  "uuid \<Rightarrow> tenant_context \<Rightarrow> page \<Rightarrow> string option \<Rightarrow> db \<Rightarrow> inference_event list outcome" where
  "list_ai_inference_events oid tenant p result db =
     and_then (ensure_selected oid (tc_organization_id tenant)) (\<lambda>_.
     and_then (page_post_init p) (\<lambda>p.
     Inr (list_inference_events oid p result db)))"

section \<open>Windows of the budget\<close>

text \<open>
  A window of the budget is named by the instant it starts at, which is never after the
  instants it holds.
\<close>

locale budget_window =
  fixes start :: "instant \<Rightarrow> instant"
  assumes starts_before: "start t \<le> t"
    and within_a_day: "day_start s = day_start t \<Longrightarrow> start s = start t"
definition usage_ok :: "db \<Rightarrow> bool" where
  "usage_ok db \<longleftrightarrow> list_all ai_usage_row_ok (ai_usages db) \<and> distinct (map use_id (ai_usages db))"

text \<open>What the rows of an organization that were not released charge to the window \<open>w\<close>.\<close>

definition counted_row :: "(instant \<Rightarrow> instant) \<Rightarrow> uuid \<Rightarrow> instant \<Rightarrow> ai_usage \<Rightarrow> bool" where
  "counted_row start oid w r \<longleftrightarrow>
     use_organization_id r = oid \<and> use_status r \<noteq> USAGE_RELEASED \<and> start (use_created_at r) = w"

definition charged_in ::
  "(ai_usage \<Rightarrow> int) \<Rightarrow> (instant \<Rightarrow> instant) \<Rightarrow> uuid \<Rightarrow> instant \<Rightarrow> db \<Rightarrow> int" where
  "charged_in f start oid w db = sum_list (map f (filter (counted_row start oid w) (ai_usages db)))"

definition budget_kept :: "(ai_usage \<Rightarrow> int) \<Rightarrow> (instant \<Rightarrow> instant) \<Rightarrow> uuid \<Rightarrow> int \<Rightarrow> db \<Rightarrow> bool" where
  "budget_kept f start oid limit db \<longleftrightarrow> (\<forall>w. charged_in f start oid w db \<le> limit)"

lemma sum_filter_mono:
  fixes f :: "'a \<Rightarrow> int"
  assumes "\<And>x. x \<in> set xs \<Longrightarrow> 0 \<le> f x" and "\<And>x. x \<in> set xs \<Longrightarrow> P x \<Longrightarrow> Q x"
  shows "sum_list (map f (filter P xs)) \<le> sum_list (map f (filter Q xs))"
  using assms by (induction xs) (auto intro: add_mono add_increasing)

lemma sum_filter_map_le:
  fixes f :: "'a \<Rightarrow> int"
  assumes "\<And>x. x \<in> set xs \<Longrightarrow> 0 \<le> f x" and "\<And>x. x \<in> set xs \<Longrightarrow> P (g x) \<Longrightarrow> P x \<and> f (g x) \<le> f x"
  shows "sum_list (map f (filter P (map g xs))) \<le> sum_list (map f (filter P xs))"
  using assms by (induction xs) (auto intro: add_mono add_increasing)

text \<open>The charges the budget is about are never negative on rows the table accepts.\<close>

definition charge :: "(ai_usage \<Rightarrow> int) \<Rightarrow> bool" where
  "charge f \<longleftrightarrow> (\<forall>r. ai_usage_row_ok r \<longrightarrow> 0 \<le> f r)"

lemma charge_requests [simp, intro]: "charge use_reserved_requests"
  by (simp add: charge_def ai_usage_row_ok_def)

lemma charge_tokens [simp, intro]: "charge charged_tokens"
  by (simp add: charge_def ai_usage_row_ok_def charged_tokens_def)

context budget_window
begin

lemma swept_rows_are_active:
  assumes "x \<in> set (ai_usages db)" and "release_expired oid now db' = Inr (n, db)"
    and "counted_row start oid (start now) x"
  shows "use_organization_id x = oid \<and> start now \<le> use_created_at x \<and> active_usage now x"
proof -
  from assms(2) have "ai_usages db = map (\<lambda>r. if expired_reservation oid now r
              then r \<lparr> use_status := USAGE_RELEASED, use_released_at := Some now \<rparr> else r) (ai_usages db')"
    by (auto simp: release_expired_def)
  with assms(1) have "x \<in> (\<lambda>r. if expired_reservation oid now r
              then r \<lparr> use_status := USAGE_RELEASED, use_released_at := Some now \<rparr> else r) ` set (ai_usages db')"
    by simp
  with assms(3) have "\<not> expired_reservation oid now x"
    by (auto simp: counted_row_def split: if_splits)
  moreover have "start now \<le> use_created_at x"
    using starts_before [of "use_created_at x"] assms(3) by (simp add: counted_row_def)
  ultimately show ?thesis using assms(3)
    by (cases "use_status x") (auto simp: counted_row_def expired_reservation_def active_usage_def)
qed

text \<open>Once the expired reservations are released, the summary sees every row of the window.\<close>

lemma summary_covers_window:
  assumes "charge f" and "usage_ok db" and "release_expired oid now db' = Inr (n, db)"
  shows "charged_in f start oid (start now) db \<le>
    sum_list (map f (filter (\<lambda>r. use_organization_id r = oid \<and> start now \<le> use_created_at r \<and> active_usage now r)
      (ai_usages db)))"
  unfolding charged_in_def
proof (rule sum_filter_mono)
  show "0 \<le> f x" if "x \<in> set (ai_usages db)" for x
    using that assms(1,2) by (auto simp: charge_def usage_ok_def list_all_iff)
qed (rule swept_rows_are_active [OF _ assms(3)])

lemma reserved_in_budget:
  assumes "budget_kept f start oid limit db" and "start (use_created_at u) = start now"
    and "charged_in f start oid (start now) db + f u \<le> limit" and "0 \<le> f u"
    and "ai_usages db' = ai_usages db @ [u]"
  shows "budget_kept f start oid limit db'"
  using assms by (auto simp: budget_kept_def charged_in_def counted_row_def)

end

lemma day_start_le: "day_start t \<le> t"
  by (simp add: day_start_def days_def seconds_def)

lemma day_within_pos: "list_all (\<lambda>m. 0 \<le> m) ms \<Longrightarrow> 0 \<le> n \<Longrightarrow> 1 \<le> day_within ms n"
  by (induction ms n rule: day_within.induct) auto

lemma if_weak: "A \<le> x \<Longrightarrow> A \<le> y \<Longrightarrow> A \<le> (if b then x else y)" for A :: int
  by simp

lemma day_within_year: "0 \<le> n \<Longrightarrow> 1 \<le> day_within (month_lengths leap) n"
  by (rule day_within_pos) (simp_all add: month_lengths_def)

lemma day_of_month_pos: "1 \<le> day_of_month d"
proof -
  have "0 \<le> (((d - 1) mod 146097) mod 36524) mod 1461 mod 365" by (rule pos_mod_sign) simp
  from day_within_year [OF this] show ?thesis
    unfolding day_of_month_def Let_def by (intro if_weak) (rule one_le_numeral, assumption)
qed

lemma month_start_le: "month_start t \<le> t"
  using day_start_le [of t] day_of_month_pos [of "ordinal_of t"] by (simp add: month_start_def days_def seconds_def)


lemma month_of_same_day: "day_start s = day_start t \<Longrightarrow> month_start s = month_start t"
proof -
  assume same: "day_start s = day_start t"
  have "t div days 1 = day_start t div days 1" for t
    by (simp add: day_start_def minus_mod_eq_mult_div days_def seconds_def)
  with same have "ordinal_of s = ordinal_of t" by (simp add: ordinal_of_def) metis
  with same show ?thesis by (simp add: month_start_def)
qed

interpretation daily: budget_window day_start
  by unfold_locales (rule day_start_le)

interpretation monthly: budget_window month_start
  by unfold_locales (rule month_start_le, rule month_of_same_day)
section \<open>Requests against the budget\<close>

datatype usage_request =
    Reserve usage_controller instant instant uuid uuid uuid int
  | Finalize instant uuid uuid int int
  | Release instant uuid uuid
  | Summary instant uuid

fun serve_usage :: "usage_request \<Rightarrow> db \<Rightarrow> db" where
  "serve_usage (Reserve c now stamp uid oid rid n) db = snd (reserve c now stamp uid oid rid n db)"
| "serve_usage (Finalize now uid oid i n) db = snd (finalize now uid oid i n db)"
| "serve_usage (Release now uid oid) db = snd (release now uid oid db)"
| "serve_usage (Summary now oid) db = snd (usage_summary_of now oid db)"

text \<open>The clocks of the service and of the database are on the same day.\<close>

fun same_day :: "usage_request \<Rightarrow> bool" where
  "same_day (Reserve c now stamp uid oid rid n) = (day_start stamp = day_start now)"
| "same_day _ = True"

text \<open>A finalized request used no more tokens than were reserved for it.\<close>

fun reports_reserved :: "usage_request \<Rightarrow> db \<Rightarrow> bool" where
  "reports_reserved (Finalize now uid oid i n) db =
     (case get_usage uid oid db of Inl _ \<Rightarrow> True | Inr r \<Rightarrow> i + n \<le> use_reserved_tokens r)"
| "reports_reserved _ db = True"

fun all_report_reserved :: "usage_request list \<Rightarrow> db \<Rightarrow> bool" where
  "all_report_reserved [] db = True"
| "all_report_reserved (q # qs) db = (reports_reserved q db \<and> all_report_reserved qs (serve_usage q db))"

section \<open>Requests keep the budget\<close>

lemma reserve_usage_Inr:
  assumes "reserve_usage stamp uid oid rid provider model tokens candidates expires db = Inr (u, db')"
  shows "use_organization_id u = oid" and "use_status u = USAGE_RESERVED" and "use_created_at u = stamp"
    and "use_reserved_requests u = 1" and "use_reserved_tokens u = tokens" and "ai_usage_row_ok u"
    and "use_id u = uid" and "uid \<notin> use_id ` set (ai_usages db)"
    and "db' = db \<lparr> ai_usages := ai_usages db @ [u] \<rparr>"
  using assms by (auto simp: reserve_usage_def and_then_Inr_iff Let_def split: if_splits)

lemma reserved_usage_ok:
  "reserve_usage stamp uid oid rid provider model tokens candidates expires db = Inr (u, db') \<Longrightarrow>
   usage_ok db \<Longrightarrow> usage_ok db'"
  using reserve_usage_Inr [of stamp uid oid rid provider model tokens candidates expires db u db']
  by (auto simp: usage_ok_def)

lemma swept_budget:
  assumes "release_expired oid' now db = Inr (n, db')" and "usage_ok db" and "charge f"
    and "budget_kept f start oid limit db"
  shows "budget_kept f start oid limit db'"
proof -
  let ?g = "\<lambda>r. if expired_reservation oid' now r
              then r \<lparr> use_status := USAGE_RELEASED, use_released_at := Some now \<rparr> else r"
  have "charged_in f start oid w db' \<le> charged_in f start oid w db" for w
  proof -
    have "sum_list (map f (filter (counted_row start oid w) (map ?g (ai_usages db)))) \<le>
        sum_list (map f (filter (counted_row start oid w) (ai_usages db)))"
    proof (rule sum_filter_map_le)
      show "0 \<le> f x" if "x \<in> set (ai_usages db)" for x
        using that assms(2,3) by (auto simp: charge_def usage_ok_def list_all_iff)
    qed (auto simp: counted_row_def split: if_splits)
    then show ?thesis using assms(1) by (auto simp: charged_in_def release_expired_def)
  qed
  with assms(4) show ?thesis by (meson budget_kept_def order_trans)
qed

lemma swept_usage_ok: "release_expired oid now db = Inr (n, db') \<Longrightarrow> usage_ok db \<Longrightarrow> usage_ok db'"
  by (auto simp: release_expired_def usage_ok_def list_all_iff ai_usage_row_ok_def comp_def if_distrib [of use_id]
    split: if_splits cong: if_cong)

lemma settled_usage_ok:
  "usage_ok db \<Longrightarrow> ai_usage_row_ok r' \<Longrightarrow> usage_ok (db \<lparr> ai_usages := put_row use_id r' (ai_usages db) \<rparr>)"
  by (auto simp: usage_ok_def list_all_iff dest: in_put_row)

lemma settled_budget:
  assumes "get_usage uid oid' db = Inr r" and "usage_ok db" and "charge f" and "budget_kept f start oid limit db"
    and "use_id r' = use_id r" and "use_organization_id r' = use_organization_id r"
    and "use_created_at r' = use_created_at r" and "use_status r = USAGE_RESERVED"
    and "use_status r' = USAGE_RELEASED \<or> f r' \<le> f r"
  shows "budget_kept f start oid limit (db \<lparr> ai_usages := put_row use_id r' (ai_usages db) \<rparr>)"
proof -
  have r: "r \<in> set (ai_usages db)" using assms(1) by (auto simp: get_usage_def dest: scoped_get_Inr)
  have same: "x = r" if "x \<in> set (ai_usages db)" "use_id x = use_id r'" for x
    using that r assms(2,5) by (metis distinct_map inj_onD usage_ok_def)
  have "charged_in f start oid w (db \<lparr> ai_usages := put_row use_id r' (ai_usages db) \<rparr>) \<le> charged_in f start oid w db" for w
    unfolding charged_in_def put_row_def
  proof (simp, rule sum_filter_map_le)
    show "0 \<le> f x" if "x \<in> set (ai_usages db)" for x
      using that assms(2,3) by (auto simp: charge_def usage_ok_def list_all_iff)
    show "counted_row start oid w x \<and> f (if use_id x = use_id r' then r' else x) \<le> f x"
      if "x \<in> set (ai_usages db)" "counted_row start oid w (if use_id x = use_id r' then r' else x)" for x
      using that same [OF that(1)] assms(5-9) by (auto simp: counted_row_def split: if_splits)
  qed
  with assms(4) show ?thesis by (meson budget_kept_def order_trans)
qed

context budget_window
begin

lemma reserve_body_budget:
  assumes body: "reserve_body c now stamp uid oid' rid n db = Inr (i, db')" and ok: "usage_ok db"
    and f: "charge f" and kept: "budget_kept f start oid limit db" and same: "start stamp = start now"
    and checked: "\<And>r u db1. oid' = oid \<Longrightarrow> get_organization oid db = Inr r \<Longrightarrow>
      within_limits (summarize_windows oid now db1) (n * uc_estimated_tokens_per_candidate c) r \<Longrightarrow>
      use_reserved_requests u = 1 \<Longrightarrow> charged_tokens u = n * uc_estimated_tokens_per_candidate c \<Longrightarrow>
      sum_list (map f (filter (\<lambda>r. use_organization_id r = oid \<and> start now \<le> use_created_at r \<and> active_usage now r)
        (ai_usages db1))) + f u \<le> limit"
  shows "budget_kept f start oid limit db' \<and> usage_ok db'"
proof -
  let ?n = "n * uc_estimated_tokens_per_candidate c"
  from body obtain r k db1 u where r: "get_organization oid' db = Inr r"
    and sweep: "release_expired oid' now db = Inr (k, db1)"
    and limits: "within_limits (summarize_windows oid' now db1) ?n r"
    and new: "reserve_usage stamp uid oid' rid (uc_provider_name c) (uc_model_version c) ?n n
        (now + seconds (uc_reservation_ttl_seconds c)) db1 = Inr (u, db')"
    by (auto simp: reserve_body_def Let_def and_then_Inr_iff guard_else_Inr_iff)
  note u = reserve_usage_Inr [OF new] and ok1 = swept_usage_ok [OF sweep ok]
  have "0 \<le> f u" using f u(6) by (auto simp: charge_def)
  have kept1: "budget_kept f start oid limit db1" by (rule swept_budget [OF sweep ok f kept])
  have "budget_kept f start oid limit db'"
  proof (cases "oid' = oid")
    case True
    have "charged_tokens u = ?n" using u(2,5) by (simp add: charged_tokens_def)
    with checked [OF True, of r db1 u] r limits u(4) True
    have "sum_list (map f (filter (\<lambda>r. use_organization_id r = oid \<and> start now \<le> use_created_at r \<and> active_usage now r)
        (ai_usages db1))) + f u \<le> limit" by simp
    moreover from summary_covers_window [OF f ok1] sweep True
    have "charged_in f start oid (start now) db1 \<le>
      sum_list (map f (filter (\<lambda>r. use_organization_id r = oid \<and> start now \<le> use_created_at r \<and> active_usage now r)
      (ai_usages db1)))" by simp
    ultimately have "charged_in f start oid (start now) db1 + f u \<le> limit" by linarith
    then show ?thesis
      using \<open>0 \<le> f u\<close> u(3,9) same by (intro reserved_in_budget [OF kept1, of u now]) simp_all
  next
    case False
    then show ?thesis using kept1 u(1,9) by (simp add: budget_kept_def charged_in_def counted_row_def)
  qed
  then show ?thesis using reserved_usage_ok [OF new ok1] by blast
qed

text \<open>
  A request keeps the window within its limit when the check of a reservation is about that
  limit and a finalized reservation is charged no more than before.
\<close>

lemma serve_usage_budget:
  assumes ok: "usage_ok db" and f: "charge f" and kept: "budget_kept f start oid limit db" and same: "same_day q"
    and checked: "\<And>r u db1 now estimated. get_organization oid db = Inr r \<Longrightarrow>
      within_limits (summarize_windows oid now db1) estimated r \<Longrightarrow>
      use_reserved_requests u = 1 \<Longrightarrow> charged_tokens u = estimated \<Longrightarrow>
      sum_list (map f (filter (\<lambda>r. use_organization_id r = oid \<and> start now \<le> use_created_at r \<and> active_usage now r)
        (ai_usages db1))) + f u \<le> limit"
    and reported: "\<And>now uid oid' i n r t. q = Finalize now uid oid' i n \<Longrightarrow> get_usage uid oid' db = Inr r \<Longrightarrow>
      use_status r = USAGE_RESERVED \<Longrightarrow> f (r \<lparr> use_status := USAGE_FINALIZED, use_input_tokens := i, use_output_tokens := n, use_finalized_at := t \<rparr>) \<le> f r"
  shows "budget_kept f start oid limit (serve_usage q db) \<and> usage_ok (serve_usage q db)"
proof (cases q)
  case (Reserve c now stamp uid oid' rid n)
  have "start stamp = start now" using same by (intro within_a_day) (simp add: Reserve)
  then have "budget_kept f start oid limit db' \<and> usage_ok db'"
    if "reserve_body c now stamp uid oid' rid n db = Inr (i, db')" for i db'
    using reserve_body_budget [OF that ok f kept] checked by blast
  then have "budget_kept f start oid limit (snd (unit_of_work (reserve_body c now stamp uid oid' rid n) db)) \<and>
      usage_ok (snd (unit_of_work (reserve_body c now stamp uid oid' rid n) db))"
    by (intro unit_of_work_preserves [where P = "\<lambda>db. budget_kept f start oid limit db \<and> usage_ok db"]) (use ok kept in auto)
  then show ?thesis using ok kept
    by (auto simp: Reserve reserve_def give_def raising_def and_also_def split: sum.split prod.split)
next
  case (Finalize now uid oid' i n)
  have "budget_kept f start oid limit db' \<and> usage_ok db'"
    if "and_then (finalize_usage uid oid' i n now db) (\<lambda>(_, db1). Inr ((), db1)) = Inr (x, db')" for x db'
  proof -
    from that obtain r u where r: "get_usage uid oid' db = Inr r" "use_status r = USAGE_RESERVED"
      and save: "save_usage (r \<lparr> use_status := USAGE_FINALIZED, use_input_tokens := i,
                    use_output_tokens := n, use_finalized_at := Some now \<rparr>) db = Inr (u, db')"
      by (auto simp: finalize_usage_def and_then_Inr_iff guard_else_Inr_iff)
    show ?thesis
      using save settled_usage_ok [OF ok] settled_budget [OF r(1) ok f kept _ _ _ r(2)] reported [OF Finalize r]
      by (auto simp: save_usage_def split: if_splits)
  qed
  then show ?thesis
    unfolding Finalize serve_usage.simps finalize_def
    by (intro unit_of_work_preserves [where P = "\<lambda>db. budget_kept f start oid limit db \<and> usage_ok db"]) (use ok kept in auto)
next
  case (Release now uid oid')
  have "budget_kept f start oid limit db' \<and> usage_ok db'"
    if "and_then (release_usage uid oid' now db) (\<lambda>(_, db1). Inr ((), db1)) = Inr (x, db')" for x db'
  proof -
    from that obtain r u where r: "get_usage uid oid' db = Inr r"
      and stored: "if use_status r = USAGE_RESERVED
         then save_usage (r \<lparr> use_status := USAGE_RELEASED, use_released_at := Some now \<rparr>) db = Inr (u, db') else db' = db"
      by (auto simp: release_usage_def and_then_Inr_iff split: if_split_asm) metis
    show ?thesis
    proof (cases "use_status r = USAGE_RESERVED")
      case True
      then show ?thesis using stored settled_usage_ok [OF ok] settled_budget [OF r ok f kept _ _ _ True]
        by (auto simp: save_usage_def split: if_splits)
    qed (use stored ok kept in simp)
  qed
  then show ?thesis
    unfolding Release serve_usage.simps release_def
    by (intro unit_of_work_preserves [where P = "\<lambda>db. budget_kept f start oid limit db \<and> usage_ok db"]) (use ok kept in auto)
next
  case (Summary now oid')
  have "budget_kept f start oid limit db' \<and> usage_ok db'"
    if "and_then (get_organization oid' db) (\<lambda>_. and_then (release_expired oid' now db) (\<lambda>(_, db1).
       Inr (summarize_windows oid' now db1, db1))) = Inr (x, db')" for x db'
    using that swept_budget [OF _ ok f kept] swept_usage_ok [OF _ ok] by (fastforce simp: and_then_Inr_iff)
  then show ?thesis
    unfolding Summary serve_usage.simps usage_summary_of_def
    by (intro unit_of_work_preserves [where P = "\<lambda>db. budget_kept f start oid limit db \<and> usage_ok db"]) (use ok kept in auto)
qed

end

lemma serve_usage_organizations [simp]: "organizations (serve_usage q db) = organizations db"
proof (cases q)
  case (Reserve c now stamp uid oid rid n)
  have "organizations (snd (unit_of_work (reserve_body c now stamp uid oid rid n) db)) = organizations db"
    by (rule unit_of_work_preserves [where P = "\<lambda>db'. organizations db' = organizations db"])
       (auto simp: reserve_body_def Let_def and_then_Inr_iff release_expired_def dest: reserve_usage_Inr(9))
  then show ?thesis
    by (auto simp: Reserve reserve_def give_def raising_def and_also_def split: sum.split prod.split)
next
  case (Finalize now uid oid i n)
  then show ?thesis
    by (auto intro!: unit_of_work_preserves [where P = "\<lambda>db'. organizations db' = organizations db"]
      simp: finalize_def finalize_usage_def and_then_Inr_iff save_usage_def split: if_splits)
next
  case (Release now uid oid)
  then show ?thesis
    by (auto intro!: unit_of_work_preserves [where P = "\<lambda>db'. organizations db' = organizations db"]
      simp: release_def release_usage_def and_then_Inr_iff save_usage_def split: if_splits)
next
  case (Summary now oid)
  then show ?thesis
    by (auto intro!: unit_of_work_preserves [where P = "\<lambda>db'. organizations db' = organizations db"]
      simp: usage_summary_of_def release_expired_def and_then_Inr_iff)
qed

lemma serve_usage_organization [simp]: "get_organization oid (serve_usage q db) = get_organization oid db"
  by (simp add: get_organization_def)

definition requests_within :: "organization \<Rightarrow> db \<Rightarrow> bool" where
  "requests_within r db \<longleftrightarrow>
     budget_kept use_reserved_requests day_start (org_id r) (org_ai_daily_request_limit r) db \<and>
     budget_kept use_reserved_requests month_start (org_id r) (org_ai_monthly_request_limit r) db"

definition tokens_within :: "organization \<Rightarrow> db \<Rightarrow> bool" where
  "tokens_within r db \<longleftrightarrow>
     budget_kept charged_tokens day_start (org_id r) (org_ai_daily_token_limit r) db \<and>
     budget_kept charged_tokens month_start (org_id r) (org_ai_monthly_token_limit r) db"

lemmas limit_simps = within_limits_def summarize_windows_def summarize_usage_def Let_def

lemma serve_requests_within:
  assumes "usage_ok db" and "get_organization oid db = Inr r" and "requests_within r db" and "same_day q"
  shows "requests_within r (serve_usage q db) \<and> usage_ok (serve_usage q db)"
proof -
  have id: "org_id r = oid" using get_organization_Inr [OF assms(2)] by blast
  have "budget_kept use_reserved_requests day_start oid (org_ai_daily_request_limit r) (serve_usage q db) \<and>
      usage_ok (serve_usage q db)"
    using assms id by (intro daily.serve_usage_budget) (auto simp: requests_within_def limit_simps)
  moreover have "budget_kept use_reserved_requests month_start oid (org_ai_monthly_request_limit r) (serve_usage q db) \<and>
      usage_ok (serve_usage q db)"
    using assms id by (intro monthly.serve_usage_budget) (auto simp: requests_within_def limit_simps)
  ultimately show ?thesis by (simp add: requests_within_def id)
qed

lemma serve_tokens_within:
  assumes "usage_ok db" and "get_organization oid db = Inr r" and "tokens_within r db" and "same_day q"
    and "reports_reserved q db"
  shows "tokens_within r (serve_usage q db) \<and> usage_ok (serve_usage q db)"
proof -
  have id: "org_id r = oid" using get_organization_Inr [OF assms(2)] by blast
  have reported: "charged_tokens (u \<lparr> use_status := USAGE_FINALIZED, use_input_tokens := i, use_output_tokens := n,
      use_finalized_at := t \<rparr>) \<le> charged_tokens u"
    if "q = Finalize now uid oid' i n" "get_usage uid oid' db = Inr u" "use_status u = USAGE_RESERVED"
    for now uid oid' i n u t
    using assms(5) that by (auto simp: charged_tokens_def)
  have "budget_kept charged_tokens day_start oid (org_ai_daily_token_limit r) (serve_usage q db) \<and>
      usage_ok (serve_usage q db)"
    using assms id by (intro daily.serve_usage_budget reported) (auto simp: tokens_within_def limit_simps)
  moreover have "budget_kept charged_tokens month_start oid (org_ai_monthly_token_limit r) (serve_usage q db) \<and>
      usage_ok (serve_usage q db)"
    using assms id by (intro monthly.serve_usage_budget reported) (auto simp: tokens_within_def limit_simps)
  ultimately show ?thesis by (simp add: tokens_within_def id)
qed

section \<open>Properties\<close>

definition metered :: usage_controller where
  "metered = \<lparr> uc_provider_name = ''openai-compatible'', uc_model_version = ''m1'',
     uc_estimated_tokens_per_candidate = 256, uc_reservation_ttl_seconds = 300 \<rparr>"

definition ai_organization :: organization where
  "ai_organization = team_organization \<lparr> org_hosted_ai_enabled := True, org_ai_daily_request_limit := 1,
     org_ai_daily_token_limit := 600 \<rparr>"

definition ai_run :: run where
  "ai_run =
     \<lparr> run_id = 3, run_organization_id = 1, run_status = RUN_SUCCEEDED, run_started_at = Some 1, run_finished_at = Some 2,
       run_error_code = None, run_error_message = None, run_created_at = 0 \<rparr>"

definition ai_db :: db where
  "ai_db = empty_db \<lparr> organizations := [ai_organization], users := [team_user 5 ''ann@acme.io''], runs := [ai_run] \<rparr>"

lemma ai_db_facts [simp]:
  "usage_ok ai_db" "get_organization 1 ai_db = Inr ai_organization" "org_id ai_organization = 1"
  "requests_within ai_organization ai_db" "tokens_within ai_organization ai_db"
  by (simp_all add: usage_ok_def ai_db_def empty_db_def get_organization_def ai_organization_def
    team_organization_def requests_within_def tokens_within_def budget_kept_def charged_in_def)



text \<open>
  When every finalized request reports at most the tokens reserved for it, the tokens an
  organization is charged for, reserved ones included, never exceed its limit in any day nor in
  any month.
\<close>

theorem tokens_stay_within_limits:
  assumes "usage_ok db" and "get_organization oid db = Inr r" and "tokens_within r db" and "list_all same_day qs"
    and "all_report_reserved qs db"
  shows "charged_in charged_tokens day_start oid d (fold serve_usage qs db) \<le> org_ai_daily_token_limit r \<and>
    charged_in charged_tokens month_start oid m (fold serve_usage qs db) \<le> org_ai_monthly_token_limit r"
proof -
  have "tokens_within r (fold serve_usage qs db)" using assms
  proof (induction qs arbitrary: db)
    case (Cons q qs)
    with serve_tokens_within [of db oid r q] show ?case by simp
  qed simp
  moreover have "org_id r = oid" using get_organization_Inr [OF assms(2)] by blast
  ultimately show ?thesis by (auto simp: tokens_within_def budget_kept_def)
qed

theorem tokens_stay_within_limits_witness:
  "let db = fold serve_usage [Reserve metered 10 10 40 1 3 2, Finalize 15 40 1 300 100] ai_db
   in charged_in charged_tokens day_start 1 0 db \<le> 600 \<and> map charged_tokens (ai_usages db) = [400]"
proof -
  let ?qs = "[Reserve metered 10 10 40 1 3 2, Finalize 15 40 1 300 100]"
  have "list_all same_day ?qs" by (simp add: day_start_def days_def seconds_def)
  moreover have "all_report_reserved ?qs ai_db" by code_simp
  ultimately have "charged_in charged_tokens day_start 1 0 (fold serve_usage ?qs ai_db) \<le> 600"
    using tokens_stay_within_limits [OF ai_db_facts(1,2,5), of ?qs 0] by (simp add: ai_organization_def del: fold.simps)
  moreover have "map charged_tokens (ai_usages (fold serve_usage ?qs ai_db)) = [400]" by code_simp
  ultimately show ?thesis unfolding Let_def by blast
qed

end
