(* ===== verification/Suggestions.thy ===== *)
theory Suggestions
  imports Worker_Service Tenancy
begin

text \<open>
  Advisory match suggestions: the values of \<open>ai/models.py\<close>, \<open>AIMatchSuggestionRepository\<close> of
  \<open>persistence/repositories.py\<close> and the routes of \<open>api/routes/ai_suggestions.py\<close> that list and
  decide them.  SHA-256 in hexadecimal is the argument \<open>sha\<close>.  A confidence keeps its value; the
  column rounds it to four places.
\<close>

section \<open>Candidate sets: \<open>ai/models.py\<close>\<close>

record candidate_set =
  bank_record_ids :: "string list"
  erp_invoice_ids :: "string list"
  gateway_record_ids :: "string list"

definition candidate_group_ok :: "string list \<Rightarrow> unit outcome" where
  "candidate_group_ok ids =
     and_then (guard_else (distinct ids) (ValueError ''candidate record identifiers must be unique'')) (\<lambda>_.
     guard_else (\<not> list_ex (\<lambda>v. strip v = [] \<or> 200 < length v) ids)
       (ValueError ''candidate record identifiers must be nonblank and at most 200 characters''))"

definition candidate_set_post_init :: "candidate_set \<Rightarrow> candidate_set outcome" where
  "candidate_set_post_init c =
     and_then (guard_else (bank_record_ids c \<noteq> [] \<or> erp_invoice_ids c \<noteq> [] \<or> gateway_record_ids c \<noteq> [])
       (ValueError ''at least one candidate record identifier is required'')) (\<lambda>_.
     and_then (candidate_group_ok (bank_record_ids c)) (\<lambda>_.
     and_then (candidate_group_ok (erp_invoice_ids c)) (\<lambda>_.
     and_then (candidate_group_ok (gateway_record_ids c)) (\<lambda>_.
     Inr c))))"

section \<open>The text that is hashed\<close>

text \<open>\<open>json.dumps\<close> of a text: printable ASCII as it is, the rest escaped.\<close>

definition quote :: char where "quote = CHR 0x22"

definition backslash :: char where "backslash = CHR 0x5C"

definition json_escape :: "char \<Rightarrow> string" where
  "json_escape c =
     (if c = quote then [backslash, quote]
      else if c = backslash then [backslash, backslash]
      else if c = CHR 0x0A then [backslash, CHR ''n'']
      else if c = CHR 0x0D then [backslash, CHR ''r'']
      else if c = CHR 0x09 then [backslash, CHR ''t'']
      else if c = CHR 0x0C then [backslash, CHR ''f'']
      else if c = CHR 0x08 then [backslash, CHR ''b'']
      else if 32 \<le> (of_char c :: nat) \<and> (of_char c :: nat) \<le> 126 then [c]
      else [backslash, CHR ''u''] @ hex_digits 4 (of_char c))"

definition json_string :: "string \<Rightarrow> string" where
  "json_string s = quote # concat (map json_escape s) @ [quote]"

fun json_strings :: "string list \<Rightarrow> string" where
  "json_strings [] = '']''"
| "json_strings [s] = json_string s @ '']''"
| "json_strings (s # ss) = json_string s @ '','' @ json_strings ss"

definition fingerprint_payload :: "candidate_set \<Rightarrow> string" where
  "fingerprint_payload c =
     ''{'' @ json_string ''bank'' @ '':['' @ json_strings (sort (bank_record_ids c)) @
     '','' @ json_string ''erp'' @ '':['' @ json_strings (sort (erp_invoice_ids c)) @
     '','' @ json_string ''gateway'' @ '':['' @ json_strings (sort (gateway_record_ids c)) @ ''}''"

section \<open>\<open>AIMatchSuggestionRepository\<close>\<close>

definition forbidden_metadata_terms :: "string list" where
  "forbidden_metadata_terms =
     [''authorization'', ''credential'', ''endpoint'', ''key'', ''path'', ''prompt'',
      ''raw'', ''response'', ''secret'', ''token'', ''url'']"

definition forbidden_key :: "string \<Rightarrow> bool" where
  "forbidden_key k \<longleftrightarrow>
     (let normalized = map (\<lambda>c. if c = CHR ''-'' then CHR ''_'' else c) (casefold k)
      in list_ex (\<lambda>t. occurs_in t normalized) forbidden_metadata_terms)"

fun inspect_value :: "string \<Rightarrow> json \<Rightarrow> unit outcome"
  and inspect_items :: "string \<Rightarrow> (string \<times> json) list \<Rightarrow> unit outcome"
  and inspect_values :: "string \<Rightarrow> json list \<Rightarrow> unit outcome" where
  "inspect_value field (JObject items) = inspect_items field items"
| "inspect_value field (JList values) =
     (if 100 < length values then Inl (ValueError (field @ '' contains too many values''))
      else inspect_values field values)"
| "inspect_value field (JText s) =
     (if 500 < length s then Inl (ValueError (field @ '' text values must not exceed 500 characters'')) else Inr ())"
| "inspect_value field (JDecimal d) = Inl (ValueError (field @ '' contains a non-JSON value''))"
| "inspect_value field JOther = Inl (ValueError (field @ '' contains a non-JSON value''))"
| "inspect_value field _ = Inr ()"
| "inspect_items field [] = Inr ()"
| "inspect_items field ((k, v) # items) =
     (if forbidden_key k then Inl (ValueError (field @ '' contains a forbidden field''))
      else and_then (inspect_value field v) (\<lambda>_. inspect_items field items))"
| "inspect_values field [] = Inr ()"
| "inspect_values field (v # vs) = and_then (inspect_value field v) (\<lambda>_. inspect_values field vs)"

definition validate_metadata :: "string \<Rightarrow> (string \<times> json) list \<Rightarrow> unit outcome" where
  "validate_metadata field value =
     and_then (guard_else (value \<noteq> []) (ValueError (field @ '' must be a non-empty structured object''))) (\<lambda>_.
     inspect_value field (JObject value))"

definition required_text :: "string \<Rightarrow> string \<Rightarrow> nat \<Rightarrow> string outcome" where
  "required_text value field maximum =
     (let normalized = strip value in
      and_then (guard_else (normalized \<noteq> [] \<and> length normalized \<le> maximum)
        (ValueError (field @ '' must be nonblank and at most '' @ int_str (int maximum) @ '' characters''))) (\<lambda>_.
      Inr normalized))"

definition insert_suggestion :: "suggestion \<Rightarrow> suggestion db_action" where
  "insert_suggestion r db =
     (if suggestion_row_ok r \<and> sug_id r \<notin> set (map sug_id (suggestions db)) \<and>
         (sug_organization_id r, sug_run_id r, sug_candidate_fingerprint r) \<notin>
           set (map (\<lambda>s. (sug_organization_id s, sug_run_id s, sug_candidate_fingerprint s)) (suggestions db)) \<and>
         sug_organization_id r \<in> set (map org_id (organizations db))
      then Inr (r, db \<lparr> suggestions := suggestions db @ [r] \<rparr>)
      else Inl IntegrityError)"

record suggestion_fields =
  sf_candidates :: candidate_set
  sf_confidence_score :: decimal
  sf_explanation :: "(string \<times> json) list"
  sf_features :: "(string \<times> json) list"
  sf_provider :: string
  sf_model_version :: string
  sf_prompt_template_version :: string
  sf_inference_config_version :: string
  sf_expires_at :: "datetime option"

fun optional_utc :: "datetime option \<Rightarrow> instant option outcome" where
  "optional_utc None = Inr None"
| "optional_utc (Some d) = and_then (utc d) (\<lambda>t. Inr (Some t))"

definition create_suggestion ::
  "(string \<Rightarrow> string) \<Rightarrow> instant \<Rightarrow> uuid \<Rightarrow> uuid \<Rightarrow> uuid \<Rightarrow> suggestion_fields \<Rightarrow> suggestion db_action" where
  "create_suggestion sha stamp sid oid rid f db =
     and_then (guard_else (run_of_tenant rid oid db) RecordNotFoundError) (\<lambda>_.
     and_then (guard_else (dec_zero \<le> sf_confidence_score f \<and> sf_confidence_score f \<le> Dec 1 0)
       (ValueError ''confidence_score must be between 0 and 1'')) (\<lambda>_.
     and_then (validate_metadata ''explanation'' (sf_explanation f)) (\<lambda>_.
     and_then (validate_metadata ''features'' (sf_features f)) (\<lambda>_.
     and_then (required_text (sf_provider f) ''provider'' 100) (\<lambda>provider.
     and_then (required_text (sf_model_version f) ''model_version'' 150) (\<lambda>model.
     and_then (required_text (sf_prompt_template_version f) ''prompt_template_version'' 100) (\<lambda>prompt.
     and_then (required_text (sf_inference_config_version f) ''inference_config_version'' 100) (\<lambda>cfg.
     and_then (optional_utc (sf_expires_at f)) (\<lambda>expires.
     insert_suggestion
       \<lparr> sug_id = sid, sug_organization_id = oid, sug_run_id = rid, sug_status = SUGGESTION_PENDING,
         sug_confidence_score = sf_confidence_score f,
         sug_candidate_fingerprint = sha (fingerprint_payload (sf_candidates f)),
         sug_bank_record_ids = bank_record_ids (sf_candidates f),
         sug_erp_invoice_ids = erp_invoice_ids (sf_candidates f),
         sug_gateway_record_ids = gateway_record_ids (sf_candidates f),
         sug_explanation = sf_explanation f, sug_features = sf_features f, sug_provider = provider,
         sug_model_version = model, sug_prompt_template_version = prompt,
         sug_inference_config_version = cfg, sug_reviewed_by_user_id = None, sug_reviewed_at = None,
         sug_expires_at = expires, sug_created_at = stamp \<rparr> db)))))))))"

definition get_suggestion_row :: "uuid \<Rightarrow> uuid \<Rightarrow> db \<Rightarrow> suggestion outcome" where
  "get_suggestion_row sid oid db = scoped_get sug_id sug_organization_id sid oid (suggestions db)"

definition suggestion_status_value :: "string \<Rightarrow> suggestion_status outcome" where
  "suggestion_status_value s =
     (if s = ''PENDING'' then Inr SUGGESTION_PENDING else if s = ''ACCEPTED'' then Inr SUGGESTION_ACCEPTED
      else if s = ''REJECTED'' then Inr SUGGESTION_REJECTED else if s = ''EXPIRED'' then Inr SUGGESTION_EXPIRED
      else Inl (ValueError ''invalid match suggestion status''))"

definition matching_suggestions :: "uuid \<Rightarrow> uuid \<Rightarrow> suggestion_status option \<Rightarrow> db \<Rightarrow> suggestion list" where
  "matching_suggestions rid oid status db =
     filter (\<lambda>r. sug_run_id r = rid \<and> sug_organization_id r = oid \<and>
       (case status of None \<Rightarrow> True | Some s \<Rightarrow> sug_status r = s)) (suggestions db)"

definition list_suggestion_rows ::
  "uuid \<Rightarrow> uuid \<Rightarrow> page \<Rightarrow> string option \<Rightarrow> db \<Rightarrow> suggestion list outcome" where
  "list_suggestion_rows rid oid p status db =
     and_then (optional_status suggestion_status_value status) (\<lambda>st.
     Inr (paginate p (sort_key (\<lambda>r. (sug_created_at r, sug_id r)) (matching_suggestions rid oid st db))))"

definition count_suggestion_rows :: "uuid \<Rightarrow> uuid \<Rightarrow> string option \<Rightarrow> db \<Rightarrow> nat outcome" where
  "count_suggestion_rows rid oid status db =
     and_then (optional_status suggestion_status_value status) (\<lambda>st. Inr (length (matching_suggestions rid oid st db)))"

definition save_suggestion :: "suggestion \<Rightarrow> suggestion db_action" where
  "save_suggestion r db =
     (if suggestion_row_ok r then Inr (r, db \<lparr> suggestions := put_row sug_id r (suggestions db) \<rparr>)
      else Inl IntegrityError)"

definition resolve ::
  "uuid \<Rightarrow> uuid \<Rightarrow> uuid \<Rightarrow> string \<Rightarrow> datetime \<Rightarrow> suggestion db_action" where
  "resolve sid oid reviewer decision reviewed db =
     and_then (suggestion_status_value decision) (\<lambda>st.
     and_then (guard_else (st = SUGGESTION_ACCEPTED \<or> st = SUGGESTION_REJECTED)
       (ValueError ''decision must be ACCEPTED or REJECTED'')) (\<lambda>_.
     and_then (get_suggestion_row sid oid db) (\<lambda>r.
     and_then (guard_else (sug_status r = SUGGESTION_PENDING) PersistenceConflictError) (\<lambda>_.
     and_then (guard_else (get_user reviewer db \<noteq> None) RecordNotFoundError) (\<lambda>_.
     and_then (utc reviewed) (\<lambda>t.
     save_suggestion (r \<lparr> sug_status := st, sug_reviewed_by_user_id := Some reviewer, sug_reviewed_at := Some t \<rparr>) db))))))"

definition expire :: "uuid \<Rightarrow> uuid \<Rightarrow> suggestion db_action" where
  "expire sid oid db =
     and_then (get_suggestion_row sid oid db) (\<lambda>r.
     and_then (guard_else (sug_status r = SUGGESTION_PENDING) PersistenceConflictError) (\<lambda>_.
     save_suggestion (r \<lparr> sug_status := SUGGESTION_EXPIRED \<rparr>) db))"

section \<open>Routes: \<open>api/routes/ai_suggestions.py\<close>\<close>

record suggestion_response =
  sr_id :: uuid
  sr_run_id :: uuid
  sr_status :: suggestion_status
  sr_bank_record_ids :: "string list"
  sr_erp_invoice_ids :: "string list"
  sr_gateway_record_ids :: "string list"
  sr_confidence_score :: decimal
  sr_summary :: string
  sr_reason_codes :: "string list"
  sr_model_version :: string
  sr_prompt_version :: string
  sr_reviewed_by_user_id :: "uuid option"
  sr_reviewed_at :: "instant option"
  sr_expires_at :: "instant option"
  sr_created_at :: instant

fun text_field :: "json \<Rightarrow> string outcome" where
  "text_field (JText s) = Inr s"
| "text_field _ = Inl (ValueError ''Input should be a valid string'')"

fun text_list_field :: "json \<Rightarrow> string list outcome" where
  "text_list_field (JList vs) = map_err text_field vs"
| "text_list_field _ = Inl (ValueError ''Input should be a valid list'')"

definition item_of :: "string \<Rightarrow> (string \<times> json) list \<Rightarrow> json outcome" where
  "item_of k items = (case map_of items k of None \<Rightarrow> Inl (KeyError k) | Some v \<Rightarrow> Inr v)"

definition suggestion_response_of :: "suggestion \<Rightarrow> suggestion_response outcome" where
  "suggestion_response_of r =
     and_then (item_of ''summary'' (sug_explanation r)) (\<lambda>summary.
     and_then (item_of ''reason_codes'' (sug_explanation r)) (\<lambda>codes.
     and_then (text_field summary) (\<lambda>summary.
     and_then (text_list_field codes) (\<lambda>codes.
     Inr \<lparr> sr_id = sug_id r, sr_run_id = sug_run_id r, sr_status = sug_status r,
           sr_bank_record_ids = sug_bank_record_ids r, sr_erp_invoice_ids = sug_erp_invoice_ids r,
           sr_gateway_record_ids = sug_gateway_record_ids r,
           sr_confidence_score = sug_confidence_score r, sr_summary = summary, sr_reason_codes = codes,
           sr_model_version = sug_model_version r, sr_prompt_version = sug_prompt_template_version r,
           sr_reviewed_by_user_id = sug_reviewed_by_user_id r, sr_reviewed_at = sug_reviewed_at r,
           sr_expires_at = sug_expires_at r, sr_created_at = sug_created_at r \<rparr>))))"

fun suggestion_status_text :: "suggestion_status \<Rightarrow> string" where
  "suggestion_status_text SUGGESTION_PENDING = ''PENDING''"
| "suggestion_status_text SUGGESTION_ACCEPTED = ''ACCEPTED''"
| "suggestion_status_text SUGGESTION_REJECTED = ''REJECTED''"
| "suggestion_status_text SUGGESTION_EXPIRED = ''EXPIRED''"

definition list_suggestions ::
  "uuid \<Rightarrow> tenant_context \<Rightarrow> page \<Rightarrow> suggestion_status option \<Rightarrow> db \<Rightarrow> (suggestion_response list \<times> nat) outcome" where
  "list_suggestions rid tenant p status db =
     (let oid = tc_organization_id tenant; value = map_option suggestion_status_text status in
      and_then (get_run rid (Some oid) db) (\<lambda>_.
      and_then (page_post_init p) (\<lambda>p.
      and_then (list_suggestion_rows rid oid p value db) (\<lambda>records.
      and_then (count_suggestion_rows rid oid value db) (\<lambda>total.
      and_then (map_err suggestion_response_of records) (\<lambda>items.
      Inr (items, total)))))))"

definition get_suggestion :: "uuid \<Rightarrow> tenant_context \<Rightarrow> db \<Rightarrow> suggestion_response outcome" where
  "get_suggestion sid tenant db =
     and_then (get_suggestion_row sid (tc_organization_id tenant) db) suggestion_response_of"

datatype decision = ACCEPTED | REJECTED

fun decision_text :: "decision \<Rightarrow> string" where
  "decision_text ACCEPTED = ''ACCEPTED''"
| "decision_text REJECTED = ''REJECTED''"

definition decide_suggestion ::
  "instant \<Rightarrow> uuid \<Rightarrow> uuid \<Rightarrow> decision \<Rightarrow> tenant_context \<Rightarrow> (db, suggestion_response) task" where
  "decide_suggestion now eid sid d tenant =
     and_also (unit_of_work (\<lambda>db.
       and_then (resolve sid (tc_organization_id tenant) (tc_user_id tenant) (decision_text d) (aware_utc now) db) (\<lambda>(r, db1).
       and_then (append_security_event now eid (tc_organization_id tenant) (tc_user_id tenant)
           (''AI_SUGGESTION_'' @ decision_text d)
           [(''suggestion_id'', JText (uuid_text sid)), (''run_id'', JText (uuid_text (sug_run_id r)))] db1) (\<lambda>(_, db2).
       Inr (r, db2))))) (\<lambda>r.
     lift_outcome (suggestion_response_of r))"

section \<open>The hashed text identifies the records\<close>

lemma json_escape_prefix:
  assumes "json_escape c @ xs = json_escape d @ ys"
  shows "c = d \<and> xs = ys"
proof -
  have hex: "hex_digits 4 (of_char c) @ xs = hex_digits 4 (of_char d) @ ys \<Longrightarrow> c = d \<and> xs = ys"
  proof -
    assume "hex_digits 4 (of_char c) @ xs = hex_digits 4 (of_char d) @ ys"
    then have eq: "hex_digits 4 (of_char c) = hex_digits 4 (of_char d)" "xs = ys" by simp_all
    have "(of_char e :: nat) < 16 ^ 4" for e :: char
      by (rule less_trans [OF nat_of_char_less_256]) simp
    with hex_digits_inj [OF _ _ eq(1)] have "(of_char c :: nat) = of_char d" by blast
    with eq(2) show ?thesis by simp
  qed
  show ?thesis using assms
    by (simp only: json_escape_def split: if_splits) (use hex in \<open>auto simp: quote_def backslash_def\<close>)
qed

lemma json_escape_start: "\<exists>x xs. json_escape c = x # xs \<and> x \<noteq> quote"
  by (simp add: json_escape_def quote_def backslash_def)

lemma json_body_prefix:
  "concat (map json_escape s) @ quote # xs = concat (map json_escape t) @ quote # ys \<Longrightarrow> s = t \<and> xs = ys"
proof (induction s arbitrary: t)
  case Nil
  then show ?case by (cases t) (use json_escape_start in \<open>auto, metis append_Cons list.inject\<close>)
next
  case (Cons c s)
  show ?case
  proof (cases t)
    case Nil
    with Cons.prems json_escape_start [of c] show ?thesis by auto
  next
    case (Cons d t')
    with Cons.prems have "json_escape c @ concat (map json_escape s) @ quote # xs =
        json_escape d @ concat (map json_escape t') @ quote # ys" by simp
    then have "c = d" and "concat (map json_escape s) @ quote # xs = concat (map json_escape t') @ quote # ys"
      using json_escape_prefix by blast+
    with Cons.IH [of t'] Cons show ?thesis by simp
  qed
qed

lemma json_string_prefix: "json_string s @ xs = json_string t @ ys \<longleftrightarrow> s = t \<and> xs = ys"
  using json_body_prefix [of s xs t ys] by (auto simp: json_string_def)

lemma json_strings_prefix: "json_strings ss @ xs = json_strings ts @ ys \<longleftrightarrow> ss = ts \<and> xs = ys"
proof
  assume "json_strings ss @ xs = json_strings ts @ ys"
  then show "ss = ts \<and> xs = ys"
  proof (induction ss arbitrary: ts rule: json_strings.induct)
    case 1
    then show ?case by (cases ts rule: json_strings.cases) (auto simp: json_string_def quote_def)
  next
    case (2 s)
    then show ?case
      by (cases ts rule: json_strings.cases) (auto simp: json_string_prefix, auto simp: json_string_def quote_def)
  next
    case (3 s s' ss)
    show ?case
    proof (cases ts rule: json_strings.cases)
      case (3 t t' ts')
      with "3.prems" have "s = t" "json_strings (s' # ss) @ xs = json_strings (t' # ts') @ ys"
        by (auto simp: json_string_prefix)
      with "3.IH" 3 show ?thesis by blast
    qed (use "3.prems" in \<open>auto simp: json_string_prefix\<close>, auto simp: json_string_def quote_def)
  qed
qed auto

lemma sort_eq_mset: "sort xs = sort ys \<longleftrightarrow> mset xs = mset ys" for xs :: "'a :: linorder list"
  by (metis mset_sort properties_for_sort sorted_sort)

lemma payload_identifies:
  "fingerprint_payload c = fingerprint_payload d \<longleftrightarrow>
   mset (bank_record_ids c) = mset (bank_record_ids d) \<and> mset (erp_invoice_ids c) = mset (erp_invoice_ids d) \<and>
   mset (gateway_record_ids c) = mset (gateway_record_ids d)"
  using json_strings_prefix [of _ "[]" _ "[]"]
  by (simp add: fingerprint_payload_def json_string_prefix json_strings_prefix sort_eq_mset)

section \<open>What a request may do to the suggestions\<close>

definition suggestion_key :: "suggestion \<Rightarrow> uuid \<times> uuid \<times> string" where
  "suggestion_key r = (sug_organization_id r, sug_run_id r, sug_candidate_fingerprint r)"

definition suggestions_ok :: "db \<Rightarrow> bool" where
  "suggestions_ok db \<longleftrightarrow> list_all suggestion_row_ok (suggestions db) \<and>
     distinct (map sug_id (suggestions db)) \<and> distinct (map suggestion_key (suggestions db))"

inductive suggestion_step :: "uuid \<Rightarrow> db \<Rightarrow> db \<Rightarrow> bool" for oid where
  proposed: "suggestion_row_ok r \<Longrightarrow> sug_status r = SUGGESTION_PENDING \<Longrightarrow> sug_organization_id r = oid \<Longrightarrow>
    sug_id r \<notin> sug_id ` set (suggestions db) \<Longrightarrow> suggestion_key r \<notin> suggestion_key ` set (suggestions db) \<Longrightarrow>
    suggestions db' = suggestions db @ [r] \<Longrightarrow> suggestion_step oid db db'"
| settled: "r \<in> set (suggestions db) \<Longrightarrow> sug_organization_id r = oid \<Longrightarrow> sug_status r = SUGGESTION_PENDING \<Longrightarrow>
    suggestion_row_ok r' \<Longrightarrow> sug_id r' = sug_id r \<Longrightarrow> suggestion_key r' = suggestion_key r \<Longrightarrow>
    suggestions db' = put_row sug_id r' (suggestions db) \<Longrightarrow> suggestion_step oid db db'"
| untouched: "suggestions db' = suggestions db \<Longrightarrow> suggestion_step oid db db'"

lemma put_row_same:
  assumes "distinct (map key rows)" and "r \<in> set rows" and "key r' = key r" and "g r' = g r"
  shows "map g (put_row key r' rows) = map g rows"
proof -
  have "g (if key x = key r' then r' else x) = g x" if "x \<in> set rows" for x
    using that assms by (cases "key x = key r'") (auto dest: map_inj_on distinct_map [THEN iffD1] inj_onD)
  then show ?thesis by (simp add: put_row_def comp_def)
qed

lemma suggestion_step_ok: "suggestion_step oid db db' \<Longrightarrow> suggestions_ok db \<Longrightarrow> suggestions_ok db'"
proof (induction rule: suggestion_step.induct)
  case (settled r db r' db')
  then show ?case
    using put_row_same [of sug_id "suggestions db" r r' suggestion_key]
    by (auto simp: suggestions_ok_def list_all_iff dest: in_put_row)
qed (auto simp: suggestions_ok_def)

lemma suggestion_step_final:
  assumes "suggestion_step oid db db'" and "suggestions_ok db" and "r \<in> set (suggestions db)"
    and "sug_status r \<noteq> SUGGESTION_PENDING \<or> sug_organization_id r \<noteq> oid"
  shows "r \<in> set (suggestions db')"
  using assms
proof (induction rule: suggestion_step.induct)
  case (settled p db p' db')
  then have "sug_id p \<noteq> sug_id r"
    by (auto simp: suggestions_ok_def dest: map_inj_on distinct_map [THEN iffD1] inj_onD)
  with settled show ?case by (simp add: put_row_other)
qed auto

text \<open>A client of the suggestions of one organization changes them by such steps alone.\<close>

locale suggestion_client =
  fixes oid :: uuid and serve :: "db \<Rightarrow> db"
  assumes steps: "(suggestion_step oid)\<^sup>*\<^sup>* db (serve db)"
begin

lemma keeps_ok: "suggestions_ok db \<Longrightarrow> suggestions_ok (serve db)"
  using steps [of db] by (induction rule: rtranclp_induct) (auto dest: suggestion_step_ok)

lemma keeps_final:
  assumes "suggestions_ok db" and "r \<in> set (suggestions db)"
    and "sug_status r \<noteq> SUGGESTION_PENDING \<or> sug_organization_id r \<noteq> oid"
  shows "r \<in> set (suggestions (serve db))"
proof -
  have "suggestions_ok (serve db) \<and> r \<in> set (suggestions (serve db))"
    using steps [of db]
    by (induction rule: rtranclp_induct) (use assms suggestion_step_ok suggestion_step_final in blast)+
  then show ?thesis ..
qed

end

lemma insert_suggestion_step:
  "insert_suggestion r db = Inr (s, db') \<Longrightarrow> sug_status r = SUGGESTION_PENDING \<Longrightarrow> suggestion_step (sug_organization_id r) db db'"
  by (rule suggestion_step.proposed [of r])
     (auto simp: insert_suggestion_def suggestion_key_def split: if_splits)

lemma create_suggestion_step:
  "create_suggestion sha stamp sid oid rid f db = Inr (r, db') \<Longrightarrow> suggestion_step oid db db'"
  by (auto simp: create_suggestion_def and_then_Inr_iff dest!: insert_suggestion_step)

lemma save_suggestion_step:
  assumes "get_suggestion_row sid oid db = Inr r" and "sug_status r = SUGGESTION_PENDING"
    and "save_suggestion r' db = Inr (s, db')" and "sug_id r' = sug_id r" and "suggestion_key r' = suggestion_key r"
  shows "suggestion_step oid db db'"
proof -
  from assms(1) have "r \<in> set (suggestions db)" "sug_organization_id r = oid"
    by (auto simp: get_suggestion_row_def dest: scoped_get_Inr)
  then show ?thesis
    using assms(2-5) by (intro suggestion_step.settled [where r = r and r' = r']) (auto simp: save_suggestion_def split: if_splits)
qed

lemma resolve_step: "resolve sid oid reviewer decision reviewed db = Inr (r, db') \<Longrightarrow> suggestion_step oid db db'"
  by (auto simp: resolve_def and_then_Inr_iff guard_else_Inr_iff suggestion_key_def elim!: save_suggestion_step)

lemma expire_step: "expire sid oid db = Inr (r, db') \<Longrightarrow> suggestion_step oid db db'"
  by (auto simp: expire_def and_then_Inr_iff guard_else_Inr_iff suggestion_key_def elim!: save_suggestion_step)

lemma security_event_step: "append_security_event now eid oid' actor t ds db = Inr (e, db') \<Longrightarrow> suggestion_step oid db db'"
  by (rule suggestion_step.untouched) (auto dest: append_security_Inr(1))

lemma unit_of_work_steps:
  assumes "\<And>x db'. body db = Inr (x, db') \<Longrightarrow> (suggestion_step oid)\<^sup>*\<^sup>* db db'"
  shows "(suggestion_step oid)\<^sup>*\<^sup>* db (snd (unit_of_work body db))"
  by (rule unit_of_work_preserves [where P = "(suggestion_step oid)\<^sup>*\<^sup>* db"]) (use assms in auto)

lemma decide_steps:
  "(suggestion_step (tc_organization_id tenant))\<^sup>*\<^sup>* db (snd (decide_suggestion now eid sid d tenant db))"
proof -
  let ?body = "\<lambda>(db :: db). and_then (resolve sid (tc_organization_id tenant) (tc_user_id tenant) (decision_text d) (aware_utc now) db)
       (\<lambda>(r, db1).
       and_then (append_security_event now eid (tc_organization_id tenant) (tc_user_id tenant)
           (''AI_SUGGESTION_'' @ decision_text d)
           [(''suggestion_id'', JText (uuid_text sid)), (''run_id'', JText (uuid_text (sug_run_id r)))] db1) (\<lambda>(_, db2).
       Inr (r, db2)))"
  have "(suggestion_step (tc_organization_id tenant))\<^sup>*\<^sup>* db (snd (unit_of_work ?body db))"
    by (rule unit_of_work_steps)
       (auto simp: and_then_Inr_iff dest!: resolve_step dest: security_event_step [where oid = "tc_organization_id tenant"]
         intro: rtranclp.intros)
  then show ?thesis
    by (auto simp: decide_suggestion_def and_also_def lift_outcome_def split: sum.split prod.split)
qed

interpretation deciding: suggestion_client "tc_organization_id tenant" "\<lambda>db. snd (decide_suggestion now eid sid d tenant db)"
  for now eid sid d tenant
  by unfold_locales (rule decide_steps)

interpretation proposing: suggestion_client oid "\<lambda>db. snd (unit_of_work (create_suggestion sha stamp sid oid rid f) db)"
  for sha stamp sid oid rid f
  by unfold_locales (rule unit_of_work_steps, blast dest: create_suggestion_step)

interpretation expiring: suggestion_client oid "\<lambda>db. snd (unit_of_work (expire sid oid) db)" for sid oid
  by unfold_locales (rule unit_of_work_steps, blast dest: expire_step)

section \<open>Properties\<close>

datatype suggestion_request =
    Propose "string \<Rightarrow> string" instant uuid uuid uuid suggestion_fields
  | Decide instant uuid uuid decision tenant_context
  | Expire uuid uuid

fun serve_suggestion :: "suggestion_request \<Rightarrow> db \<Rightarrow> db" where
  "serve_suggestion (Propose sha stamp sid oid rid f) db = snd (unit_of_work (create_suggestion sha stamp sid oid rid f) db)"
| "serve_suggestion (Decide now eid sid d tenant) db = snd (decide_suggestion now eid sid d tenant db)"
| "serve_suggestion (Expire sid oid) db = snd (unit_of_work (expire sid oid) db)"

fun acting_tenant :: "suggestion_request \<Rightarrow> uuid" where
  "acting_tenant (Propose sha stamp sid oid rid f) = oid"
| "acting_tenant (Decide now eid sid d tenant) = tc_organization_id tenant"
| "acting_tenant (Expire sid oid) = oid"

interpretation any_suggestion: suggestion_client "acting_tenant q" "serve_suggestion q" for q
proof
  show "(suggestion_step (acting_tenant q))\<^sup>*\<^sup>* db (serve_suggestion q db)" for db
    by (cases q) (simp_all add: deciding.steps proposing.steps expiring.steps)
qed

definition review_fields :: suggestion_fields where
  "review_fields =
     \<lparr> sf_candidates = \<lparr> bank_record_ids = [''B1''], erp_invoice_ids = [''I1''], gateway_record_ids = [] \<rparr>,
       sf_confidence_score = Dec 9 (- 1),
       sf_explanation = [(''summary'', JText ''same amount''), (''reason_codes'', JList [JText ''AMOUNT_SIMILAR''])],
       sf_features = [(''currency_matches'', JBool True)], sf_provider = ''deterministic'', sf_model_version = ''m1'',
       sf_prompt_template_version = ''p1'', sf_inference_config_version = ''c1'',
       sf_expires_at = Some (aware_utc 50) \<rparr>"

definition review_tenant :: tenant_context where
  "review_tenant = \<lparr> tc_organization_id = 1, tc_user_id = 21, tc_role = ANALYST \<rparr>"

definition review_db :: db where
  "review_db = team_db \<lparr> runs := [\<lparr> run_id = 3, run_organization_id = 1, run_status = RUN_SUCCEEDED,
     run_started_at = Some 1, run_finished_at = Some 2, run_error_code = None, run_error_message = None,
     run_created_at = 0 \<rparr>] \<rparr>"

definition constant_digest :: "string \<Rightarrow> string" where
  "constant_digest s = replicate 64 (CHR ''0'')"

definition proposed_db :: db where
  "proposed_db = serve_suggestion (Propose constant_digest 10 40 1 3 review_fields) review_db"

definition decided_db :: db where
  "decided_db = (case resolve 40 1 21 ''ACCEPTED'' (aware_utc 20) proposed_db of
     Inl _ \<Rightarrow> proposed_db | Inr (r, db) \<Rightarrow> db)"



text \<open>
  The text that is hashed into a fingerprint identifies the proposed records: two candidate
  sets have the same text exactly when they name the same records in each of the three groups.
\<close>

theorem fingerprint_identifies_records:
  assumes "candidate_set_post_init c0 = Inr c" and "candidate_set_post_init d0 = Inr d"
  shows "fingerprint_payload c = fingerprint_payload d \<longleftrightarrow>
    set (bank_record_ids c) = set (bank_record_ids d) \<and> set (erp_invoice_ids c) = set (erp_invoice_ids d) \<and>
    set (gateway_record_ids c) = set (gateway_record_ids d)"
proof -
  have "distinct (bank_record_ids x) \<and> distinct (erp_invoice_ids x) \<and> distinct (gateway_record_ids x)"
    if "candidate_set_post_init x0 = Inr x" for x0 x
    using that by (auto simp: candidate_set_post_init_def candidate_group_ok_def and_then_Inr_iff guard_else_Inr_iff)
  from this [OF assms(1)] this [OF assms(2)] show ?thesis
    by (simp add: payload_identifies set_eq_iff_mset_eq_distinct)
qed

theorem fingerprint_identifies_records_witness:
  "fingerprint_payload \<lparr> bank_record_ids = [''B1'', ''B2''], erp_invoice_ids = [], gateway_record_ids = [''G''] \<rparr> =
   fingerprint_payload \<lparr> bank_record_ids = [''B2'', ''B1''], erp_invoice_ids = [], gateway_record_ids = [''G''] \<rparr>"
  (is "fingerprint_payload ?c = fingerprint_payload ?d")
proof -
  have "candidate_set_post_init ?c = Inr ?c" "candidate_set_post_init ?d = Inr ?d" by code_simp+
  from fingerprint_identifies_records [OF this] show ?thesis by auto
qed

fun decided_status :: "decision \<Rightarrow> suggestion_status" where
  "decided_status ACCEPTED = SUGGESTION_ACCEPTED"
| "decided_status REJECTED = SUGGESTION_REJECTED"

lemma decided_status_value: "suggestion_status_value (decision_text d) = Inr (decided_status d)"
  by (cases d) (simp_all add: suggestion_status_value_def)

definition decided_row :: "instant \<Rightarrow> decision \<Rightarrow> uuid \<Rightarrow> suggestion \<Rightarrow> suggestion" where
  "decided_row now d reviewer r =
     r \<lparr> sug_status := decided_status d, sug_reviewed_by_user_id := Some reviewer, sug_reviewed_at := Some now \<rparr>"

lemma resolve_pending:
  "resolve sid oid reviewer (decision_text d) (aware_utc now) db = Inr (r', db') \<longleftrightarrow>
   (\<exists>r. get_suggestion_row sid oid db = Inr r \<and> sug_status r = SUGGESTION_PENDING \<and> get_user reviewer db \<noteq> None \<and>
     save_suggestion (decided_row now d reviewer r) db = Inr (r', db'))"
proof -
  have "decided_status d = SUGGESTION_ACCEPTED \<or> decided_status d = SUGGESTION_REJECTED" by (cases d) simp_all
  then show ?thesis
    by (auto simp: resolve_def decided_status_value and_then_Inr_iff guard_else_Inr_iff decided_row_def)
qed

lemma decide_succeeds:
  assumes "get_suggestion_row sid (tc_organization_id tenant) db = Inr r" and "sug_status r = SUGGESTION_PENDING"
    and "suggestion_row_ok r" and "suggestion_response_of r = Inr x" and "get_user (tc_user_id tenant) db \<noteq> None"
    and "tc_organization_id tenant \<in> set (map org_id (organizations db))"
    and "eid \<notin> set (map sec_id (security_events db))"
  shows "\<exists>a db'. decide_suggestion now eid sid d tenant db = (Inr a, db') \<and>
    sr_status a = decided_status d \<and> sr_reviewed_at a = Some now \<and> sr_expires_at a = sug_expires_at r"
proof -
  let ?r = "decided_row now d (tc_user_id tenant) r"
  let ?db = "db \<lparr> suggestions := put_row sug_id ?r (suggestions db) \<rparr>"
  have "suggestion_row_ok ?r" using assms(3) by (auto simp: suggestion_row_ok_def decided_row_def cong: option.case_cong)
  then have "resolve sid (tc_organization_id tenant) (tc_user_id tenant) (decision_text d) (aware_utc now) db = Inr (?r, ?db)"
    using assms(1,2,5) by (auto simp: resolve_pending save_suggestion_def)
  moreover have "tc_user_id tenant \<in> set (map user_id (users db))"
    using assms(5) by (auto simp: get_user_def find_None_iff intro: rev_image_eqI)
  then obtain e db' where "append_security_event now eid (tc_organization_id tenant) (tc_user_id tenant)
      (''AI_SUGGESTION_'' @ decision_text d)
      [(''suggestion_id'', JText (uuid_text sid)), (''run_id'', JText (uuid_text (sug_run_id ?r)))] ?db = Inr (e, db')"
    using assms(6,7) by (simp add: append_security_event_def Let_def)
  moreover from assms(4) obtain a where "suggestion_response_of ?r = Inr a" "sr_status a = decided_status d"
      "sr_reviewed_at a = Some now" "sr_expires_at a = sug_expires_at r"
    by (auto simp: suggestion_response_of_def and_then_Inr_iff decided_row_def)
  ultimately show ?thesis
    by (auto simp: decide_suggestion_def and_also_def unit_of_work_def lift_outcome_def)
qed

lemma proposed_suggestion:
  obtains r x where "get_suggestion_row 40 (tc_organization_id review_tenant) proposed_db = Inr r"
    and "sug_status r = SUGGESTION_PENDING" and "suggestion_row_ok r" and "suggestion_response_of r = Inr x"
    and "sug_expires_at r = Some 50"
proof -
  have "case get_suggestion_row 40 (tc_organization_id review_tenant) proposed_db of Inl _ \<Rightarrow> False
      | Inr r \<Rightarrow> sug_status r = SUGGESTION_PENDING \<and> suggestion_row_ok r \<and> sug_expires_at r = Some 50 \<and>
          (case suggestion_response_of r of Inl _ \<Rightarrow> False | Inr _ \<Rightarrow> True)"
    by code_simp
  then show ?thesis using that by (auto split: sum.splits)
qed

lemma proposed_db_facts:
  "get_user (tc_user_id review_tenant) proposed_db \<noteq> None"
  "tc_organization_id review_tenant \<in> set (map org_id (organizations proposed_db))"
  "60 \<notin> set (map sec_id (security_events proposed_db))"
  by code_simp+

text \<open>
  A decision is recorded once and whole.  It found a pending suggestion of the tenant; its row
  now has the decision, the reviewer and the time, every other row is as it was, and one security
  event of the tenant names the reviewer and the decision.
\<close>

theorem decision_is_recorded:
  assumes "decide_suggestion now eid sid d tenant db = (Inr a, db')"
  shows "\<exists>r e. get_suggestion_row sid (tc_organization_id tenant) db = Inr r \<and> sug_status r = SUGGESTION_PENDING \<and>
    suggestions db' = put_row sug_id (decided_row now d (tc_user_id tenant) r) (suggestions db) \<and>
    security_events db' = security_events db @ [e] \<and> sec_organization_id e = tc_organization_id tenant \<and>
    sec_actor_user_id e = tc_user_id tenant \<and> sec_event_type e = ''AI_SUGGESTION_'' @ decision_text d \<and>
    sr_id a = sid \<and> sr_status a = decided_status d \<and> sr_reviewed_by_user_id a = Some (tc_user_id tenant) \<and>
    sr_reviewed_at a = Some now"
proof -
  from assms obtain r' db1 e where "resolve sid (tc_organization_id tenant) (tc_user_id tenant) (decision_text d)
        (aware_utc now) db = Inr (r', db1)"
    and event: "append_security_event now eid (tc_organization_id tenant) (tc_user_id tenant) (''AI_SUGGESTION_'' @ decision_text d)
           [(''suggestion_id'', JText (uuid_text sid)), (''run_id'', JText (uuid_text (sug_run_id r')))] db1 = Inr (e, db')"
    and a: "suggestion_response_of r' = Inr a"
    unfolding decide_suggestion_def
    by (elim and_also_Inr) (auto dest!: unit_of_work_committed simp: and_then_Inr_iff lift_outcome_def)
  then obtain r where r: "get_suggestion_row sid (tc_organization_id tenant) db = Inr r" "sug_status r = SUGGESTION_PENDING"
    and save: "save_suggestion (decided_row now d (tc_user_id tenant) r) db = Inr (r', db1)"
    unfolding resolve_pending by blast
  have "sug_id r = sid" using r(1) by (auto simp: get_suggestion_row_def dest: scoped_get_Inr)
  with a save have "sr_id a = sid \<and> sr_status a = decided_status d \<and> sr_reviewed_by_user_id a = Some (tc_user_id tenant) \<and>
      sr_reviewed_at a = Some now"
    by (auto simp: suggestion_response_of_def and_then_Inr_iff save_suggestion_def decided_row_def split: if_splits)
  moreover from save have "db1 = db \<lparr> suggestions := put_row sug_id (decided_row now d (tc_user_id tenant) r) (suggestions db) \<rparr>"
    by (auto simp: save_suggestion_def split: if_splits)
  ultimately show ?thesis using r append_security_Inr [OF event] by auto
qed

theorem decision_is_recorded_witness:
  "\<exists>a db'. decide_suggestion 30 60 40 ACCEPTED review_tenant proposed_db = (Inr a, db') \<and>
     sr_status a = SUGGESTION_ACCEPTED \<and> sr_reviewed_at a = Some 30"
proof -
  obtain r x where "get_suggestion_row 40 (tc_organization_id review_tenant) proposed_db = Inr r"
    and "sug_status r = SUGGESTION_PENDING" and "suggestion_row_ok r" and "suggestion_response_of r = Inr x"
    by (rule proposed_suggestion)
  from decide_succeeds [OF this proposed_db_facts] obtain a db'
    where run: "decide_suggestion 30 60 40 ACCEPTED review_tenant proposed_db = (Inr a, db')" by blast
  with decision_is_recorded [OF run] show ?thesis by auto
qed

text \<open>
  The time a suggestion expires at is never looked at: a pending suggestion that expired
  before now is accepted, and the response still shows when it expired.
\<close>

theorem expired_suggestion_is_accepted:
  assumes "get_suggestion_row sid (tc_organization_id tenant) db = Inr r" and "sug_status r = SUGGESTION_PENDING"
    and "suggestion_row_ok r" and "suggestion_response_of r = Inr x"
    and "get_user (tc_user_id tenant) db \<noteq> None" and "tc_organization_id tenant \<in> set (map org_id (organizations db))"
    and "eid \<notin> set (map sec_id (security_events db))"
    and "sug_expires_at r = Some t" and "t < now"
  shows "\<exists>a db'. decide_suggestion now eid sid ACCEPTED tenant db = (Inr a, db') \<and>
    sr_status a = SUGGESTION_ACCEPTED \<and> sr_reviewed_at a = Some now \<and> sr_expires_at a = Some t"
proof -
  from decide_succeeds [OF assms(1-7), of now ACCEPTED] show ?thesis using assms(8) by auto
qed

theorem expired_suggestion_is_accepted_witness:
  "\<exists>a db'. decide_suggestion 70 60 40 ACCEPTED review_tenant proposed_db = (Inr a, db') \<and>
     sr_status a = SUGGESTION_ACCEPTED \<and> sr_expires_at a = Some 50"
proof -
  obtain r x where "get_suggestion_row 40 (tc_organization_id review_tenant) proposed_db = Inr r"
    and "sug_status r = SUGGESTION_PENDING" and "suggestion_row_ok r" and "suggestion_response_of r = Inr x"
    and t: "sug_expires_at r = Some 50"
    by (rule proposed_suggestion)
  from expired_suggestion_is_accepted [OF this(1-4) proposed_db_facts t, of 70] show ?thesis by auto
qed

end
