(* ===== verification/Inference.thy ===== *)
theory Inference
  imports Suggestions
begin

text \<open>
  The contract of an inference provider: the values of \<open>ai/inference.py\<close> with the checks of their
  constructors, and the two providers that need no network.  The floats they compute with are
  doubles: a finite one is the rational number it denotes, and every operation rounds to the
  nearest double, ties to even.  The numbers lie between 0 and 1, so neither overflow nor
  subnormal numbers are modelled.
\<close>

section \<open>Floats\<close>

datatype py_float = Finite rat | NotFinite

text \<open>The number of digits of a positive integer to a base.\<close>

function digit_count :: "int \<Rightarrow> int \<Rightarrow> int" where
  "digit_count b n = (if n \<le> 0 \<or> b \<le> 1 then 0 else 1 + digit_count b (n div b))"
  by auto

termination digit_count
  by (relation "measure (\<lambda>(b, n). nat n)") (auto simp: int_div_less_self)

declare digit_count.simps [simp del]

definition binary_exponent :: "rat \<Rightarrow> int" where
  "binary_exponent x =
     (let (p, q) = quotient_of x; k = digit_count 2 p - digit_count 2 q
      in if 2 powi k \<le> x then k else k - 1)"

definition round_even :: "rat \<Rightarrow> int" where
  "round_even x =
     (let f = \<lfloor>x\<rfloor>; r = x - of_int f in if r < 1 / 2 \<or> r = 1 / 2 \<and> even f then f else f + 1)"

text \<open>The double nearest to a number: 53 significant bits.\<close>

definition nearest :: "rat \<Rightarrow> rat" where
  "nearest x =
     (if x = 0 then 0
      else let a = \<bar>x\<bar>; u = 2 powi (binary_exponent a - 52) in sgn x * (of_int (round_even (a / u)) * u))"

fun float_op :: "(rat \<Rightarrow> rat \<Rightarrow> rat) \<Rightarrow> py_float \<Rightarrow> py_float \<Rightarrow> py_float" where
  "float_op f (Finite x) (Finite y) = Finite (nearest (f x y))"
| "float_op f _ _ = NotFinite"

definition float_mul :: "py_float \<Rightarrow> py_float \<Rightarrow> py_float" where
  "float_mul = float_op (*)"

definition float_add :: "py_float \<Rightarrow> py_float \<Rightarrow> py_float" where
  "float_add = float_op (+)"

definition float_literal :: "rat \<Rightarrow> py_float" where
  "float_literal x = Finite (nearest x)"

text \<open>\<open>round(x, n)\<close>: the double nearest to \<open>x\<close> rounded to \<open>n\<close> decimal places.\<close>

fun float_round :: "nat \<Rightarrow> py_float \<Rightarrow> py_float" where
  "float_round n (Finite x) = Finite (nearest (of_int (round_even (x * 10 ^ n)) / 10 ^ n))"
| "float_round n NotFinite = NotFinite"

definition unit_interval :: "py_float \<Rightarrow> bool" where
  "unit_interval f = (case f of Finite v \<Rightarrow> 0 \<le> v \<and> v \<le> 1 | NotFinite \<Rightarrow> False)"

fun float_value :: "py_float \<Rightarrow> rat" where
  "float_value (Finite v) = v"
| "float_value NotFinite = 0"

definition at_least :: "rat \<Rightarrow> py_float \<Rightarrow> bool" where
  "at_least bound f = (case f of Finite v \<Rightarrow> nearest bound \<le> v | NotFinite \<Rightarrow> False)"

section \<open>The values of a request and a response\<close>

record match_features =
  mf_candidate_reference :: string
  mf_amount_similarity :: py_float
  mf_date_similarity :: py_float
  mf_reference_similarity :: py_float
  mf_currency_matches :: bool

definition features_post_init :: "match_features \<Rightarrow> match_features outcome" where
  "features_post_init f =
     (let reference = strip (mf_candidate_reference f) in
      and_then (guard_else (reference \<noteq> [] \<and> length reference \<le> 200)
        (ValueError ''candidate_reference must be nonblank and at most 200 characters'')) (\<lambda>_.
      and_then (guard_else (unit_interval (mf_amount_similarity f))
        (ValueError ''amount_similarity must be a finite number between 0 and 1'')) (\<lambda>_.
      and_then (guard_else (unit_interval (mf_date_similarity f))
        (ValueError ''date_similarity must be a finite number between 0 and 1'')) (\<lambda>_.
      and_then (guard_else (unit_interval (mf_reference_similarity f))
        (ValueError ''reference_similarity must be a finite number between 0 and 1'')) (\<lambda>_.
      Inr (f \<lparr> mf_candidate_reference := reference \<rparr>))))))"

record inference_request =
  rq_features :: "match_features list"
  rq_prompt_version :: string

definition request_post_init :: "inference_request \<Rightarrow> inference_request outcome" where
  "request_post_init q =
     (let prompt = strip (rq_prompt_version q) in
      and_then (guard_else (rq_features q \<noteq> []) (ValueError ''at least one candidate feature set is required'')) (\<lambda>_.
      and_then (guard_else (distinct (map mf_candidate_reference (rq_features q)))
        (ValueError ''candidate references must be unique'')) (\<lambda>_.
      and_then (guard_else (prompt \<noteq> [] \<and> length prompt \<le> 100)
        (ValueError ''prompt_version must be nonblank and at most 100 characters'')) (\<lambda>_.
      Inr (q \<lparr> rq_prompt_version := prompt \<rparr>)))))"

record inference_suggestion =
  is_candidate_reference :: string
  is_confidence :: py_float
  is_reason_codes :: "string list"
  is_explanation :: string

text \<open>\<open>re.fullmatch("[A-Z][A-Z0-9_]{0,49}", code)\<close>.\<close>

fun reason_code_ok :: "string \<Rightarrow> bool" where
  "reason_code_ok [] = False"
| "reason_code_ok (c # cs) =
     (is_upper c \<and> length cs \<le> 49 \<and> list_all (\<lambda>d. is_upper d \<or> is_digit d \<or> d = CHR ''_'') cs)"

definition inference_suggestion_post_init :: "inference_suggestion \<Rightarrow> inference_suggestion outcome" where
  "inference_suggestion_post_init s =
     (let reference = strip (is_candidate_reference s); explanation = strip (is_explanation s) in
      and_then (guard_else (reference \<noteq> [] \<and> length reference \<le> 200) AIInferenceResponseError) (\<lambda>_.
      and_then (guard_else (unit_interval (is_confidence s)) AIInferenceResponseError) (\<lambda>_.
      and_then (guard_else (explanation \<noteq> [] \<and> length explanation \<le> 500) AIInferenceResponseError) (\<lambda>_.
      and_then (guard_else (is_reason_codes s \<noteq> [] \<and> length (is_reason_codes s) \<le> 10 \<and>
          list_all reason_code_ok (is_reason_codes s)) AIInferenceResponseError) (\<lambda>_.
      Inr (s \<lparr> is_candidate_reference := reference, is_explanation := explanation \<rparr>))))))"

record inference_response =
  rs_suggestions :: "inference_suggestion list"
  rs_model_version :: string
  rs_prompt_version :: string
  rs_input_tokens :: int
  rs_output_tokens :: int

definition response_post_init :: "inference_response \<Rightarrow> inference_response outcome" where
  "response_post_init r =
     and_then (guard_else (strip (rs_model_version r) \<noteq> [] \<and> length (rs_model_version r) \<le> 100)
       AIInferenceResponseError) (\<lambda>_.
     and_then (guard_else (strip (rs_prompt_version r) \<noteq> [] \<and> length (rs_prompt_version r) \<le> 100)
       AIInferenceResponseError) (\<lambda>_.
     and_then (guard_else (distinct (map is_candidate_reference (rs_suggestions r))) AIInferenceResponseError) (\<lambda>_.
     and_then (guard_else (0 \<le> rs_input_tokens r \<and> 0 \<le> rs_output_tokens r) AIInferenceResponseError) (\<lambda>_.
     Inr r))))"

section \<open>Providers\<close>

type_synonym inference_provider = "inference_request \<Rightarrow> inference_response outcome"

definition disabled_provider :: inference_provider where
  "disabled_provider q = Inl AIInferenceDisabledError"

definition deterministic_confidence :: "match_features \<Rightarrow> py_float" where
  "deterministic_confidence f =
     float_round 6
       (float_add
         (float_add
           (float_add (float_mul (mf_amount_similarity f) (float_literal (45 / 100)))
             (float_mul (mf_date_similarity f) (float_literal (25 / 100))))
           (float_mul (mf_reference_similarity f) (float_literal (25 / 100))))
         (if mf_currency_matches f then float_literal (5 / 100) else float_literal 0))"

definition deterministic_reasons :: "match_features \<Rightarrow> string list" where
  "deterministic_reasons f =
     (let codes = map fst (filter snd
            [(''AMOUNT_SIMILAR'', at_least (8 / 10) (mf_amount_similarity f)),
             (''DATE_SIMILAR'', at_least (8 / 10) (mf_date_similarity f)),
             (''REFERENCE_SIMILAR'', at_least (8 / 10) (mf_reference_similarity f)),
             (''CURRENCY_MATCH'', mf_currency_matches f)])
      in if codes = [] then [''WEAK_SIGNALS''] else codes)"

definition ranking_key :: "inference_suggestion \<Rightarrow> rat \<times> string" where
  "ranking_key s = (- float_value (is_confidence s), is_candidate_reference s)"

text \<open>A slice \<open>[:n]\<close> with a negative \<open>n\<close> drops from the end.\<close>

definition slice_to :: "int \<Rightarrow> 'a list \<Rightarrow> 'a list" where
  "slice_to n xs = (if 0 \<le> n then take (nat n) xs else take (length xs - nat (- n)) xs)"

definition deterministic_provider :: "string \<Rightarrow> int \<Rightarrow> int \<Rightarrow> inference_provider" where
  "deterministic_provider model max_candidates max_suggestions q =
     and_then (guard_else (int (length (rq_features q)) \<le> max_candidates)
       (AIInferenceError ''inference request exceeds the configured candidate limit'')) (\<lambda>_.
     and_then (map_err (\<lambda>f. inference_suggestion_post_init
         \<lparr> is_candidate_reference = mf_candidate_reference f, is_confidence = deterministic_confidence f,
           is_reason_codes = deterministic_reasons f,
           is_explanation = ''Deterministic score derived from normalized matching signals.'' \<rparr>) (rq_features q)) (\<lambda>ranked.
     response_post_init
       \<lparr> rs_suggestions = slice_to max_suggestions (sort_key ranking_key ranked), rs_model_version = model,
         rs_prompt_version = rq_prompt_version q, rs_input_tokens = 0, rs_output_tokens = 0 \<rparr>))"

text \<open>\<open>create_ai_inference_provider\<close>; the hosted client is given.\<close>

definition create_provider ::
  "string \<Rightarrow> string \<Rightarrow> int \<Rightarrow> int \<Rightarrow> string option \<Rightarrow> string option \<Rightarrow> (string \<Rightarrow> string \<Rightarrow> inference_provider outcome) \<Rightarrow>
   inference_provider outcome" where
  "create_provider name model max_candidates max_suggestions url api_key hosted =
     (if name = ''disabled'' then Inr disabled_provider
      else if name = ''deterministic'' then Inr (deterministic_provider model max_candidates max_suggestions)
      else if name = ''openai-compatible''
      then (case (url, api_key) of
          (Some (u # us), Some (k # ks)) \<Rightarrow> hosted (u # us) (k # ks)
        | _ \<Rightarrow> Inl (ValueError ''hosted AI inference requires an endpoint and API key''))
      else Inl (ValueError ''unsupported AI inference provider''))"

section \<open>The text of a float\<close>

definition decimal_exponent :: "rat \<Rightarrow> int" where
  "decimal_exponent x =
     (let (p, q) = quotient_of x; k = digit_count 10 p - digit_count 10 q
      in if 10 powi k \<le> x then k else k - 1)"

definition rounded_digits :: "rat \<Rightarrow> nat \<Rightarrow> int \<times> int" where
  "rounded_digits x n =
     (let e = decimal_exponent x - int n + 1; m = round_even (x / 10 powi e)
      in if m = 10 ^ n then (10 ^ (n - 1), e + 1) else (m, e))"

text \<open>
  \<open>Decimal(str(x))\<close>: the fewest digits that denote the double \<open>x\<close>, at most 17; a number without
  a fraction is written with one zero after the point unless it needs an exponent.
\<close>

definition decimal_of_float :: "rat \<Rightarrow> decimal" where
  "decimal_of_float x =
     (if x = 0 then Dec 0 (- 1)
      else let a = \<bar>x\<bar>;
               (m, e) = (case find (\<lambda>(m, e). nearest (of_int m * 10 powi e) = a) (map (rounded_digits a) [1 ..< 18]) of
                  None \<Rightarrow> rounded_digits a 17 | Some me \<Rightarrow> me);
               s = (if x < 0 then - m else m)
           in if 0 \<le> e \<and> decimal_exponent a < 16 then Dec (s * 10 ^ nat (e + 1)) (- 1) else Dec s e)"

end
