(* ===== verification/Candidates.thy ===== *)
theory Candidates
  imports Inference
begin

text \<open>
  The generator of candidate matches, \<open>ai/candidates.py\<close>: pairs of unresolved records of different
  sources that are close in date and amount, scored and ranked.  \<open>difflib.SequenceMatcher\<close> is
  modelled as far as the generator uses it.
\<close>

section \<open>The ratio of \<open>difflib.SequenceMatcher\<close>\<close>

text \<open>In a text of 200 or more characters, those that are more frequent than one percent plus one are popular.\<close>

definition popular :: "string \<Rightarrow> char \<Rightarrow> bool" where
  "popular b c \<longleftrightarrow> 200 \<le> length b \<and> length b div 100 + 1 < length (filter ((=) c) b)"

text \<open>How far the texts agree backwards from two ends, not counting popular characters.\<close>

fun agreement :: "(char \<Rightarrow> bool) \<Rightarrow> string \<Rightarrow> string \<Rightarrow> nat" where
  "agreement pop (x # xs) (y # ys) = (if x = y \<and> \<not> pop y then Suc (agreement pop xs ys) else 0)"
| "agreement pop _ _ = 0"

text \<open>The ends of two texts up to and with the positions \<open>i\<close> and \<open>j\<close>.\<close>

definition match_size :: "(char \<Rightarrow> bool) \<Rightarrow> string \<Rightarrow> string \<Rightarrow> nat \<Rightarrow> nat \<Rightarrow> nat" where
  "match_size pop a b i j = agreement pop (rev (take (Suc i) a)) (rev (take (Suc j) b))"

text \<open>The first longest run: rows of the first text in order, then columns of the second.\<close>

definition best_run :: "(char \<Rightarrow> bool) \<Rightarrow> string \<Rightarrow> string \<Rightarrow> nat \<times> nat \<times> nat" where
  "best_run pop a b =
     fold (\<lambda>(i, j) (besti, bestj, size).
         let k = match_size pop a b i j in if size < k then (Suc i - k, Suc j - k, k) else (besti, bestj, size))
       (concat (map (\<lambda>i. map (\<lambda>j. (i, j)) [0 ..< length b]) [0 ..< length a])) (0, 0, 0)"

text \<open>\<open>find_longest_match\<close>: the run is extended on both sides over equal characters, popular ones included.\<close>

definition longest_match :: "(char \<Rightarrow> bool) \<Rightarrow> string \<Rightarrow> string \<Rightarrow> nat \<times> nat \<times> nat" where
  "longest_match pop a b =
     (let (i, j, k) = best_run pop a b;
          lead = agreement (\<lambda>_. False) (rev (take i a)) (rev (take j b));
          trail = agreement (\<lambda>_. False) (drop (i + k) a) (drop (j + k) b)
      in (i - lead, j - lead, lead + k + trail))"

lemma agreement_le: "agreement pop xs ys \<le> length xs \<and> agreement pop xs ys \<le> length ys"
  by (induction pop xs ys rule: agreement.induct) auto

definition inside :: "string \<Rightarrow> string \<Rightarrow> nat \<times> nat \<times> nat \<Rightarrow> bool" where
  "inside a b r = (case r of (i, j, k) \<Rightarrow> i + k \<le> length a \<and> j + k \<le> length b)"

lemma best_run_inside: "inside a b (best_run pop a b)"
proof -
  let ?f = "\<lambda>(i, j) (besti, bestj, size).
         let k = match_size pop a b i j in if size < k then (Suc i - k, Suc j - k, k) else (besti, bestj, size)"
  have "inside a b (fold ?f ps r)" if "inside a b r" "\<forall>(i, j) \<in> set ps. i < length a \<and> j < length b" for ps r
    using that
  proof (induction ps arbitrary: r)
    case (Cons p ps)
    obtain i j where p: "p = (i, j)" by (cases p)
    have "match_size pop a b i j \<le> Suc i" "match_size pop a b i j \<le> Suc j"
      using agreement_le [of pop "rev (take (Suc i) a)" "rev (take (Suc j) b)"] by (auto simp: match_size_def)
    then have "inside a b (?f p r)"
      using Cons.prems by (auto simp: inside_def p Let_def split: prod.split)
    with Cons show ?case by simp
  qed simp
  from this [of "(0, 0, 0)" "concat (map (\<lambda>i. map (\<lambda>j. (i, j)) [0 ..< length b]) [0 ..< length a])"]
  show ?thesis unfolding best_run_def by (auto simp: inside_def)
qed

lemma longest_match_inside: "longest_match pop a b = (i, j, k) \<Longrightarrow> i + k \<le> length a \<and> j + k \<le> length b"
proof -
  obtain i0 j0 k0 where r: "best_run pop a b = (i0, j0, k0)" by (cases "best_run pop a b")
  have "i0 + k0 \<le> length a" "j0 + k0 \<le> length b" using best_run_inside [of a b pop] by (auto simp: r inside_def)
  moreover have "agreement (\<lambda>_. False) (rev (take i0 a)) (rev (take j0 b)) \<le> i0"
    "agreement (\<lambda>_. False) (rev (take i0 a)) (rev (take j0 b)) \<le> j0"
    using agreement_le [of "\<lambda>_. False" "rev (take i0 a)" "rev (take j0 b)"] by auto
  moreover have "agreement (\<lambda>_. False) (drop (i0 + k0) a) (drop (j0 + k0) b) \<le> length a - (i0 + k0)"
    "agreement (\<lambda>_. False) (drop (i0 + k0) a) (drop (j0 + k0) b) \<le> length b - (j0 + k0)"
    using agreement_le [of "\<lambda>_. False" "drop (i0 + k0) a" "drop (j0 + k0) b"] by auto
  ultimately show "longest_match pop a b = (i, j, k) \<Longrightarrow> i + k \<le> length a \<and> j + k \<le> length b"
    by (auto simp: longest_match_def r Let_def)
qed

text \<open>The sizes of the matching blocks, summed: the longest match, then what lies on either side of it.\<close>

function matched :: "(char \<Rightarrow> bool) \<Rightarrow> string \<Rightarrow> string \<Rightarrow> nat" where
  "matched pop a b =
     (case longest_match pop a b of (i, j, k) \<Rightarrow>
        if k = 0 then 0
        else k + matched pop (take i a) (take j b) + matched pop (drop (i + k) a) (drop (j + k) b))"
  by auto

termination matched
  by (relation "measure (\<lambda>(pop, a, b). length a)") (auto dest!: longest_match_inside [OF sym])

declare matched.simps [simp del]

definition sequence_ratio :: "string \<Rightarrow> string \<Rightarrow> rat" where
  "sequence_ratio a b =
     (let n = length a + length b in if n = 0 then 1 else nearest (of_nat (2 * matched (popular b) a b) / of_nat n))"

section \<open>Decimal division\<close>

text \<open>The exact quotient loses trailing zeros until it has the ideal exponent.\<close>

function to_ideal :: "int \<Rightarrow> int \<Rightarrow> int \<Rightarrow> int \<times> int" where
  "to_ideal ideal c e = (if e < ideal \<and> c mod 10 = 0 then to_ideal ideal (c div 10) (e + 1) else (c, e))"
  by auto

termination to_ideal
  by (relation "measure (\<lambda>(ideal, c, e). nat (ideal - e))") auto

declare to_ideal.simps [simp del]

definition dec_div :: "decimal \<Rightarrow> decimal \<Rightarrow> decimal" where
  "dec_div x y =
     (let ideal = expo x - expo y; s = sgn (coeff x) * sgn (coeff y);
          shift = int (num_digits (nat \<bar>coeff y\<bar>)) - int (num_digits (nat \<bar>coeff x\<bar>)) + int context_precision + 1;
          a = (if 0 \<le> shift then \<bar>coeff x\<bar> * 10 ^ nat shift else \<bar>coeff x\<bar>);
          b = (if 0 \<le> shift then \<bar>coeff y\<bar> else \<bar>coeff y\<bar> * 10 ^ nat (- shift));
          q = a div b; e = ideal - shift
      in if coeff x = 0 then Dec 0 ideal
         else dec_fix (if a mod b \<noteq> 0 then Dec (s * (if q mod 5 = 0 then q + 1 else q)) e
                       else case to_ideal ideal q e of (c, e') \<Rightarrow> Dec (s * c) e'))"

section \<open>Records to compare\<close>

datatype candidate_source = CANDIDATE_BANK | CANDIDATE_ERP | CANDIDATE_GATEWAY

record source_record =
  cs_organization_id :: uuid
  cs_run_id :: uuid
  cs_source_type :: candidate_source
  cs_record_id :: string
  cs_amount :: decimal
  cs_effective_date :: date
  cs_currency :: string
  cs_references :: "string list"

definition upper_text :: "string \<Rightarrow> string" where
  "upper_text = map (\<lambda>c. if is_lower c then char_of ((of_char c :: nat) - 32) else c)"

definition source_record_post_init :: "source_record \<Rightarrow> source_record outcome" where
  "source_record_post_init r =
     (let record_id = strip (cs_record_id r); currency = upper_text (strip (cs_currency r)) in
      and_then (guard_else (record_id \<noteq> [] \<and> length record_id \<le> 200)
        (ValueError ''record_id must be nonblank and at most 200 characters'')) (\<lambda>_.
      and_then (guard_else (currency \<noteq> [] \<and> length currency \<le> 3) (ValueError ''currency must be a valid short code'')) (\<lambda>_.
      and_then (guard_else (length (cs_references r) \<le> 20 \<and> list_all (\<lambda>v. length v \<le> 200) (cs_references r))
        (ValueError ''references exceed the safe local comparison bounds'')) (\<lambda>_.
      Inr (r \<lparr> cs_record_id := record_id, cs_currency := currency \<rparr>)))))"

record generator =
  cg_maximum_candidates :: int
  cg_maximum_date_difference_days :: int
  cg_maximum_amount_difference_ratio :: decimal

definition generator_init :: "generator \<Rightarrow> generator outcome" where
  "generator_init g =
     and_then (guard_else (1 \<le> cg_maximum_candidates g \<and> cg_maximum_candidates g \<le> 1000)
       (ValueError ''maximum_candidates must be between 1 and 1000'')) (\<lambda>_.
     and_then (guard_else (0 \<le> cg_maximum_date_difference_days g \<and> cg_maximum_date_difference_days g \<le> 365)
       (ValueError ''maximum_date_difference_days must be between 0 and 365'')) (\<lambda>_.
     and_then (guard_else (dec_zero \<le> cg_maximum_amount_difference_ratio g \<and>
         cg_maximum_amount_difference_ratio g \<le> Dec 1 0)
       (ValueError ''maximum_amount_difference_ratio must be between 0 and 1'')) (\<lambda>_.
     Inr g)))"

section \<open>Scores\<close>

text \<open>\<open>max\<close> and \<open>min\<close> keep the first of two equal values.\<close>

definition amount_difference_ratio :: "decimal \<Rightarrow> decimal \<Rightarrow> decimal" where
  "amount_difference_ratio x y =
     (let a = dec_abs x; b = dec_abs y; denominator = (if a < b then b else a) in
      if dec_eq denominator dec_zero then Dec 0 0
      else let r = dec_div (dec_abs (dec_sub x y)) denominator in if r < Dec 1 0 then r else Dec 1 0)"

definition normalized_references :: "string list \<Rightarrow> string list" where
  "normalized_references values =
     filter (\<lambda>v. v \<noteq> []) (map (\<lambda>v. filter (\<lambda>c. is_lower c \<or> is_digit c) (casefold v)) values)"

definition reference_similarity :: "string list \<Rightarrow> string list \<Rightarrow> py_float" where
  "reference_similarity xs ys =
     (let us = normalized_references xs; vs = normalized_references ys in
      if us = [] \<or> vs = [] then Finite 0
      else float_round 6 (Finite (Max (set (concat (map (\<lambda>u. map (sequence_ratio u) vs) us))))))"

definition amount_similarity :: "decimal \<Rightarrow> py_float" where
  "amount_similarity ratio = Finite (nearest (dec_val (dec_sub (Dec 1 0) ratio)))"

definition date_similarity :: "int \<Rightarrow> int \<Rightarrow> py_float" where
  "date_similarity difference maximum =
     (if maximum = 0 then Finite 1
      else float_round 6 (Finite (nearest (1 - nearest (of_int difference / of_int maximum)))))"

section \<open>Candidates\<close>

definition ids_of :: "candidate_source \<Rightarrow> source_record list \<Rightarrow> string list" where
  "ids_of ty rs = sort (map cs_record_id (filter (\<lambda>r. cs_source_type r = ty) rs))"

definition candidate_set_of :: "source_record \<Rightarrow> source_record \<Rightarrow> candidate_set outcome" where
  "candidate_set_of x y =
     candidate_set_post_init
       \<lparr> bank_record_ids = ids_of CANDIDATE_BANK [x, y], erp_invoice_ids = ids_of CANDIDATE_ERP [x, y],
         gateway_record_ids = ids_of CANDIDATE_GATEWAY [x, y] \<rparr>"

definition unit_separator :: char where "unit_separator = CHR 0x1F"

fun joined :: "string list \<Rightarrow> string" where
  "joined [] = []"
| "joined [s] = s"
| "joined (s # ss) = s @ unit_separator # joined ss"

definition opaque_reference :: "(string \<Rightarrow> string) \<Rightarrow> uuid \<Rightarrow> uuid \<Rightarrow> candidate_set \<Rightarrow> string" where
  "opaque_reference sha oid rid c =
     ''candidate-'' @ sha (joined ([uuid_text oid, uuid_text rid] @
       bank_record_ids c @ erp_invoice_ids c @ gateway_record_ids c))"

record generated_candidate =
  gc_records :: candidate_set
  gc_features :: match_features

definition consider_pair ::
  "(string \<Rightarrow> string) \<Rightarrow> generator \<Rightarrow> uuid \<Rightarrow> uuid \<Rightarrow> source_record \<times> source_record \<Rightarrow>
   generated_candidate list \<Rightarrow> generated_candidate list outcome" where
  "consider_pair sha g oid rid p generated =
     (case p of (x, y) \<Rightarrow>
      let difference = \<bar>cs_effective_date x - cs_effective_date y\<bar>;
          ratio = amount_difference_ratio (cs_amount x) (cs_amount y) in
      if cs_source_type x = cs_source_type y then Inr generated
      else if cg_maximum_date_difference_days g < difference then Inr generated
      else if cg_maximum_amount_difference_ratio g < ratio then Inr generated
      else
        and_then (candidate_set_of x y) (\<lambda>c.
        if c \<in> set (map gc_records generated) then Inr generated
        else
          and_then (features_post_init
            \<lparr> mf_candidate_reference = opaque_reference sha oid rid c,
              mf_amount_similarity = amount_similarity ratio,
              mf_date_similarity = date_similarity difference (cg_maximum_date_difference_days g),
              mf_reference_similarity = reference_similarity (cs_references x) (cs_references y),
              mf_currency_matches = (cs_currency x = cs_currency y) \<rparr>) (\<lambda>f.
          Inr (generated @ [\<lparr> gc_records = c, gc_features = f \<rparr>]))))"

text \<open>\<open>itertools.combinations(scoped, 2)\<close>.\<close>

fun pairs :: "'a list \<Rightarrow> ('a \<times> 'a) list" where
  "pairs [] = []"
| "pairs (x # xs) = map (Pair x) xs @ pairs xs"

definition scoped_records :: "uuid \<Rightarrow> uuid \<Rightarrow> string list \<Rightarrow> source_record list \<Rightarrow> source_record list" where
  "scoped_records oid rid excluded rs =
     filter (\<lambda>r. cs_organization_id r = oid \<and> cs_run_id r = rid \<and> cs_record_id r \<notin> set excluded) rs"

definition candidate_rank :: "generated_candidate \<Rightarrow> rat \<times> rat \<times> rat \<times> string" where
  "candidate_rank c =
     (let f = gc_features c in
      (- float_value (mf_amount_similarity f), - float_value (mf_date_similarity f),
       - float_value (mf_reference_similarity f), mf_candidate_reference f))"

definition generate_candidates ::
  "(string \<Rightarrow> string) \<Rightarrow> generator \<Rightarrow> uuid \<Rightarrow> uuid \<Rightarrow> source_record list \<Rightarrow> string list \<Rightarrow>
   generated_candidate list outcome" where
  "generate_candidates sha g oid rid rs excluded =
     and_then (fold_err (consider_pair sha g oid rid) (pairs (scoped_records oid rid excluded rs)) []) (\<lambda>generated.
     Inr (take (nat (cg_maximum_candidates g)) (sort_key candidate_rank generated)))"

section \<open>What is generated\<close>

text \<open>The pairs the loop keeps: of different sources, and close enough in date and amount.\<close>

definition eligible_pair :: "generator \<Rightarrow> source_record \<times> source_record \<Rightarrow> bool" where
  "eligible_pair g p \<longleftrightarrow>
     (case p of (x, y) \<Rightarrow> cs_source_type x \<noteq> cs_source_type y \<and>
        \<bar>cs_effective_date x - cs_effective_date y\<bar> \<le> cg_maximum_date_difference_days g \<and>
        \<not> cg_maximum_amount_difference_ratio g < amount_difference_ratio (cs_amount x) (cs_amount y))"

text \<open>A candidate built from a pair, with scores between 0 and 1.\<close>

definition built_from :: "(string \<Rightarrow> string) \<Rightarrow> uuid \<Rightarrow> uuid \<Rightarrow> generated_candidate \<Rightarrow> source_record \<times> source_record \<Rightarrow> bool" where
  "built_from sha oid rid c p \<longleftrightarrow>
     candidate_set_of (fst p) (snd p) = Inr (gc_records c) \<and>
     mf_candidate_reference (gc_features c) = strip (opaque_reference sha oid rid (gc_records c)) \<and>
     unit_interval (mf_amount_similarity (gc_features c)) \<and> unit_interval (mf_date_similarity (gc_features c)) \<and>
     unit_interval (mf_reference_similarity (gc_features c)) \<and>
     (mf_currency_matches (gc_features c) \<longleftrightarrow> cs_currency (fst p) = cs_currency (snd p))"

lemma consider_pair_cases:
  assumes "consider_pair sha g oid rid p gen = Inr gen'"
  obtains "\<not> eligible_pair g p" "gen' = gen"
    | c where "eligible_pair g p" "candidate_set_of (fst p) (snd p) = Inr c" "c \<in> gc_records ` set gen" "gen' = gen"
    | k where "eligible_pair g p" "built_from sha oid rid k p" "gc_records k \<notin> gc_records ` set gen" "gen' = gen @ [k]"
proof (cases "eligible_pair g p")
  case False
  with assms show ?thesis using that(1)
    by (auto simp: consider_pair_def eligible_pair_def Let_def split: prod.splits if_splits)
next
  case True
  obtain x y where p: "p = (x, y)" by (cases p)
  from True assms obtain c where c: "candidate_set_of x y = Inr c"
    and rest: "c \<in> set (map gc_records gen) \<and> gen' = gen \<or> c \<notin> set (map gc_records gen) \<and>
      (\<exists>f. gen' = gen @ [\<lparr> gc_records = c, gc_features = f \<rparr>] \<and>
        built_from sha oid rid \<lparr> gc_records = c, gc_features = f \<rparr> (x, y))"
    by (simp add: p consider_pair_def eligible_pair_def Let_def and_then_Inr_iff not_less split: if_splits del: set_map)
      (auto simp: features_post_init_def Let_def and_then_Inr_iff guard_else_Inr_iff built_from_def)
  then show ?thesis using that(2) [of c] that(3) True by (auto simp: p)
qed

lemma fold_pairs:
  assumes "fold_err (consider_pair sha g oid rid) ps gen = Inr gen'"
  shows "distinct (map gc_records gen) \<Longrightarrow> distinct (map gc_records gen')"
    and "Inr ` gc_records ` set gen' = Inr ` gc_records ` set gen \<union>
      (\<lambda>p. candidate_set_of (fst p) (snd p)) ` set (filter (eligible_pair g) ps)"
    and "\<forall>k \<in> set gen'. k \<in> set gen \<or> (\<exists>p \<in> set ps. eligible_pair g p \<and> built_from sha oid rid k p)"
  using assms
proof (atomize (full), induction ps arbitrary: gen)
  case (Cons p ps)
  then obtain mid where step: "consider_pair sha g oid rid p gen = Inr mid"
    and rest: "fold_err (consider_pair sha g oid rid) ps mid = Inr gen'" by (auto simp: and_then_Inr_iff)
  note ih = Cons.IH [OF rest]
  from step show ?case
  proof (cases rule: consider_pair_cases)
    case 1
    with ih show ?thesis by auto
  next
    case (2 c)
    then have "candidate_set_of (fst p) (snd p) \<in> Inr ` gc_records ` set gen" by auto
    with ih 2 show ?thesis by auto
  next
    case (3 k)
    then have "candidate_set_of (fst p) (snd p) = Inr (gc_records k)" by (simp add: built_from_def)
    with ih 3 show ?thesis by auto
  qed
qed auto

lemma pairs_subset: "(x, y) \<in> set (pairs xs) \<Longrightarrow> x \<in> set xs \<and> y \<in> set xs"
  by (induction xs) auto

lemma scoped_pair:
  "p \<in> set (pairs (scoped_records oid rid excluded rs)) \<Longrightarrow>
   \<forall>r \<in> {fst p, snd p}. r \<in> set rs \<and> cs_organization_id r = oid \<and> cs_run_id r = rid \<and> cs_record_id r \<notin> set excluded"
  by (cases p) (auto dest!: pairs_subset simp: scoped_records_def)

lemma generated_from:
  assumes "generate_candidates sha g oid rid rs excluded = Inr cs" and "k \<in> set cs"
  obtains p where "p \<in> set (pairs (scoped_records oid rid excluded rs))" and "eligible_pair g p"
    and "built_from sha oid rid k p"
proof -
  from assms(1) obtain gen
    where run: "fold_err (consider_pair sha g oid rid) (pairs (scoped_records oid rid excluded rs)) [] = Inr gen"
    and cs: "cs = take (nat (cg_maximum_candidates g)) (sort_key candidate_rank gen)"
    by (auto simp: generate_candidates_def and_then_Inr_iff)
  have "k \<in> set gen" using assms(2) in_set_takeD [of k _ "sort_key candidate_rank gen"] by (auto simp: cs)
  with fold_pairs(3) [OF run] that show ?thesis by auto
qed

section \<open>Properties\<close>

definition ranked :: "generated_candidate list \<Rightarrow> bool" where
  "ranked cs \<longleftrightarrow> sorted (map candidate_rank cs)"

definition desk_record :: "candidate_source \<Rightarrow> string \<Rightarrow> source_record" where
  "desk_record ty i =
     \<lparr> cs_organization_id = 1, cs_run_id = 3, cs_source_type = ty, cs_record_id = i, cs_amount = Dec 0 0,
       cs_effective_date = 700000, cs_currency = ''EUR'', cs_references = [] \<rparr>"

definition desk_generator :: generator where
  "desk_generator = \<lparr> cg_maximum_candidates = 10, cg_maximum_date_difference_days = 0,
     cg_maximum_amount_difference_ratio = Dec 25 (- 2) \<rparr>"

definition desk_records :: "source_record list" where
  "desk_records = [desk_record CANDIDATE_BANK ''B'', desk_record CANDIDATE_ERP ''7'', desk_record CANDIDATE_GATEWAY ''7'']"

definition desk_candidates :: "generated_candidate list" where
  "desk_candidates =
     (case generate_candidates constant_digest desk_generator 1 3 desk_records [] of Inl _ \<Rightarrow> [] | Inr cs \<Rightarrow> cs)"

lemma desk_generated: "generate_candidates constant_digest desk_generator 1 3 desk_records [] = Inr desk_candidates"
proof -
  have "case generate_candidates constant_digest desk_generator 1 3 desk_records [] of Inl _ \<Rightarrow> False | Inr _ \<Rightarrow> True"
    by code_simp
  then show ?thesis by (auto simp: desk_candidates_def split: sum.splits)
qed

lemma desk_candidate_records:
  "map gc_records desk_candidates =
     [\<lparr> bank_record_ids = [''B''], erp_invoice_ids = [''7''], gateway_record_ids = [] \<rparr>,
      \<lparr> bank_record_ids = [''B''], erp_invoice_ids = [], gateway_record_ids = [''7''] \<rparr>,
      \<lparr> bank_record_ids = [], erp_invoice_ids = [''7''], gateway_record_ids = [''7''] \<rparr>]"
  by code_simp

lemma desk_candidate_count: "length desk_candidates = 3"
  using arg_cong [OF desk_candidate_records, of length] by simp

text \<open>
  C21: The generated candidates are sound and ranked.  They are at most as many as asked for, in
  order of their scores, no two for the same records, and each joins two records of the tenant and
  run that are not excluded, of different sources, within the date and amount limits, with scores
  between 0 and 1.
\<close>

theorem candidates_are_sound:
  assumes "generate_candidates sha g oid rid rs excluded = Inr cs"
  shows "length cs \<le> nat (cg_maximum_candidates g) \<and> ranked cs \<and> distinct (map gc_records cs) \<and>
    (\<forall>k \<in> set cs. \<exists>x y. x \<in> set rs \<and> y \<in> set rs \<and> eligible_pair g (x, y) \<and> built_from sha oid rid k (x, y) \<and>
       {cs_organization_id x, cs_organization_id y} = {oid} \<and> {cs_run_id x, cs_run_id y} = {rid} \<and>
       cs_record_id x \<notin> set excluded \<and> cs_record_id y \<notin> set excluded)"
proof -
  let ?ps = "pairs (scoped_records oid rid excluded rs)"
  from assms obtain gen where run: "fold_err (consider_pair sha g oid rid) ?ps [] = Inr gen"
    and cs: "cs = take (nat (cg_maximum_candidates g)) (sort_key candidate_rank gen)"
    by (auto simp: generate_candidates_def and_then_Inr_iff)
  note f = fold_pairs [OF run]
  have "distinct (map gc_records (sort_key candidate_rank gen))"
    using f(1) by (simp add: distinct_map)
  then have "distinct (map gc_records cs)" by (simp add: cs take_map [symmetric] distinct_take)
  moreover have "ranked cs" unfolding ranked_def cs take_map [symmetric] by (rule sorted_wrt_take) (rule sorted_sort_key)
  moreover have "\<exists>x y. x \<in> set rs \<and> y \<in> set rs \<and> eligible_pair g (x, y) \<and> built_from sha oid rid k (x, y) \<and>
       {cs_organization_id x, cs_organization_id y} = {oid} \<and> {cs_run_id x, cs_run_id y} = {rid} \<and>
       cs_record_id x \<notin> set excluded \<and> cs_record_id y \<notin> set excluded" if "k \<in> set cs" for k
  proof -
    from assms that obtain p where p: "p \<in> set ?ps" "eligible_pair g p" "built_from sha oid rid k p" by (rule generated_from)
    with scoped_pair [OF p(1)] show ?thesis by (intro exI [of _ "fst p"] exI [of _ "snd p"]) auto
  qed
  ultimately show ?thesis by (simp add: cs)
qed

theorem candidates_are_sound_witness:
  "distinct (map gc_records desk_candidates) \<and> ranked desk_candidates \<and> length desk_candidates = 3"
  using candidates_are_sound [OF desk_generated] desk_candidate_count by blast

text \<open>
  C22: No eligible pair is missed: unless the limit on their number is reached, the candidates are
  the record sets of exactly the eligible pairs of the run's records.
\<close>

theorem candidates_are_complete:
  assumes "generate_candidates sha g oid rid rs excluded = Inr cs" and "length cs < nat (cg_maximum_candidates g)"
  shows "Inr ` gc_records ` set cs =
    (\<lambda>p. candidate_set_of (fst p) (snd p)) ` set (filter (eligible_pair g) (pairs (scoped_records oid rid excluded rs)))"
proof -
  from assms(1) obtain gen
    where run: "fold_err (consider_pair sha g oid rid) (pairs (scoped_records oid rid excluded rs)) [] = Inr gen"
    and cs: "cs = take (nat (cg_maximum_candidates g)) (sort_key candidate_rank gen)"
    by (auto simp: generate_candidates_def and_then_Inr_iff)
  from assms(2) cs have "cs = sort_key candidate_rank gen" by simp
  with fold_pairs(2) [OF run] show ?thesis by simp
qed

theorem candidates_are_complete_witness:
  "(\<lambda>p. candidate_set_of (fst p) (snd p)) ` set (filter (eligible_pair desk_generator) (pairs (scoped_records 1 3 [] desk_records))) =
   Inr ` {\<lparr> bank_record_ids = [''B''], erp_invoice_ids = [''7''], gateway_record_ids = [] \<rparr>,
      \<lparr> bank_record_ids = [''B''], erp_invoice_ids = [], gateway_record_ids = [''7''] \<rparr>,
      \<lparr> bank_record_ids = [], erp_invoice_ids = [''7''], gateway_record_ids = [''7''] \<rparr>}"
proof -
  have "length desk_candidates < nat (cg_maximum_candidates desk_generator)"
    by (simp add: desk_candidate_count desk_generator_def)
  from candidates_are_complete [OF desk_generated this] arg_cong [OF desk_candidate_records, of set]
  show ?thesis by simp
qed

text \<open>
  C23: An invoice and a settlement entry with the same identifier break the request.  The candidates
  that join one bank transaction with either of them get the same opaque reference, and a request
  with both is refused, so nothing can be suggested for the run.
\<close>

theorem shared_identifier_blocks_request:
  assumes "generate_candidates sha g oid rid rs excluded = Inr cs" and "c \<in> set cs" and "d \<in> set cs"
    and "gc_records c = \<lparr> bank_record_ids = [b], erp_invoice_ids = [i], gateway_record_ids = [] \<rparr>"
    and "gc_records d = \<lparr> bank_record_ids = [b], erp_invoice_ids = [], gateway_record_ids = [i] \<rparr>"
  shows "mf_candidate_reference (gc_features c) = mf_candidate_reference (gc_features d) \<and>
    request_post_init \<lparr> rq_features = map gc_features cs, rq_prompt_version = prompt \<rparr> =
      Inl (ValueError ''candidate references must be unique'')"
proof -
  have "mf_candidate_reference (gc_features k) = strip (opaque_reference sha oid rid (gc_records k))" if "k \<in> set cs" for k
    using generated_from [OF assms(1) that] by (auto simp: built_from_def)
  with assms(2-5) have same: "mf_candidate_reference (gc_features c) = mf_candidate_reference (gc_features d)"
    by (simp add: opaque_reference_def)
  have "c \<noteq> d" using assms(4,5) by auto
  with same assms(2,3) have "\<not> distinct (map (mf_candidate_reference \<circ> gc_features) cs)"
    by (auto simp: distinct_map dest!: inj_onD [of _ _ c d])
  moreover have "cs \<noteq> []" using assms(2) by auto
  ultimately show ?thesis by (simp add: same request_post_init_def Let_def)
qed

theorem shared_identifier_blocks_request_witness:
  "request_post_init \<lparr> rq_features = map gc_features desk_candidates, rq_prompt_version = ''p1'' \<rparr> =
    Inl (ValueError ''candidate references must be unique'')"
proof -
  from desk_candidate_records obtain c d e where cs: "desk_candidates = [c, d, e]"
    and c: "gc_records c = \<lparr> bank_record_ids = [''B''], erp_invoice_ids = [''7''], gateway_record_ids = [] \<rparr>"
    and d: "gc_records d = \<lparr> bank_record_ids = [''B''], erp_invoice_ids = [], gateway_record_ids = [''7''] \<rparr>"
    by auto
  have "c \<in> set desk_candidates" "d \<in> set desk_candidates" unfolding cs by simp_all
  from shared_identifier_blocks_request [OF desk_generated this c d] show ?thesis by blast
qed

end
