(* ===== verification/Suggestion_Workflow.thy ===== *)
theory Suggestion_Workflow
  imports AI_Usage Candidates File_Routes Run_Processor
begin

text \<open>
  Generating suggestions: the orchestration of \<open>ai/workflow.py\<close> over the candidates, the provider,
  the usage budget, the observer and the repository, and the route of \<open>api/routes/ai_suggestions.py\<close>
  that starts it.  A generation is a sequence of transactions; what other processes commit before
  the \<open>k\<close>-th one is the function \<open>gn_others k\<close> of the surroundings, which also hold the clock
  readings and the identifiers of new rows.  The provider is a function of the request; a call
  that exceeds the timeout is the error \<open>TimeoutError\<close>.
\<close>

section \<open>The workflow and its surroundings\<close>

record workflow =
  wf_generator :: generator
  wf_infer :: inference_provider
  wf_provider_name :: string
  wf_prompt_version :: string
  wf_inference_config_version :: string
  wf_timeout_seconds :: rat
  wf_suggestion_ttl_days :: int
  wf_usage_controller :: "usage_controller option"
  wf_observer :: "observer option"

definition required_version :: "string \<Rightarrow> string \<Rightarrow> string outcome" where
  "required_version value field =
     (let normalized = strip value in
      and_then (guard_else (normalized \<noteq> [] \<and> length normalized \<le> 100)
        (ValueError (field @ '' must be nonblank and at most 100 characters''))) (\<lambda>_.
      Inr normalized))"

definition workflow_init :: "workflow \<Rightarrow> workflow outcome" where
  "workflow_init flow =
     and_then (required_version (wf_provider_name flow) ''provider_name'') (\<lambda>provider.
     and_then (required_version (wf_prompt_version flow) ''prompt_version'') (\<lambda>prompt.
     and_then (required_version (wf_inference_config_version flow) ''inference_config_version'') (\<lambda>cfg.
     and_then (guard_else (nearest (1 / 10) \<le> wf_timeout_seconds flow \<and> wf_timeout_seconds flow \<le> 120)
       (ValueError ''timeout_seconds must be between 0.1 and 120'')) (\<lambda>_.
     and_then (guard_else (1 \<le> wf_suggestion_ttl_days flow \<and> wf_suggestion_ttl_days flow \<le> 90)
       (ValueError ''suggestion_ttl_days must be between 1 and 90'')) (\<lambda>_.
     Inr (flow \<lparr> wf_provider_name := provider, wf_prompt_version := prompt,
               wf_inference_config_version := cfg \<rparr>))))))"

record generation =
  gn_sha :: "string \<Rightarrow> string"
  gn_clock :: "nat \<Rightarrow> instant"
  gn_stamp :: "nat \<Rightarrow> instant"
  gn_elapsed :: int
  gn_event_id :: uuid
  gn_usage_id :: uuid
  gn_suggestion_id :: "nat \<Rightarrow> uuid"
  gn_security_id :: uuid
  gn_others :: "nat \<Rightarrow> db \<Rightarrow> db"

definition after_others :: "generation \<Rightarrow> nat \<Rightarrow> (db, 'a) task \<Rightarrow> (db, 'a) task" where
  "after_others gn k m s = m (gn_others gn k s)"

section \<open>\<open>generate_and_persist\<close>\<close>

definition map_response ::
  "inference_response \<Rightarrow> generated_candidate list \<Rightarrow> string \<Rightarrow> (generated_candidate \<times> inference_suggestion) list outcome" where
  "map_response response candidates prompt =
     and_then (guard_else (rs_prompt_version response = prompt)
       (AIInferenceError ''AI inference returned incompatible version metadata'')) (\<lambda>_.
     map_err (\<lambda>s.
       case find (\<lambda>c. mf_candidate_reference (gc_features c) = is_candidate_reference s) (rev candidates) of
         None \<Rightarrow> Inl (AIInferenceError ''AI inference returned an unknown candidate reference'')
       | Some c \<Rightarrow> Inr (c, s)) (rs_suggestions response))"

definition start_observed :: "workflow \<Rightarrow> generation \<Rightarrow> uuid \<Rightarrow> uuid \<Rightarrow> int \<Rightarrow> (db, uuid option) task" where
  "start_observed flow gn oid rid candidates =
     (case wf_observer flow of
        None \<Rightarrow> give None
      | Some ob \<Rightarrow> after_others gn 0
          (and_also (start_event ob (gn_stamp gn 0) (gn_event_id gn) oid rid candidates) (\<lambda>e. give (Some e))))"

definition reserve_budget :: "workflow \<Rightarrow> generation \<Rightarrow> uuid \<Rightarrow> uuid \<Rightarrow> int \<Rightarrow> (db, uuid option) task" where
  "reserve_budget flow gn oid rid candidates =
     (case wf_usage_controller flow of
        None \<Rightarrow> give None
      | Some c \<Rightarrow> after_others gn 1 (reserve c (gn_clock gn 1) (gn_stamp gn 1) (gn_usage_id gn) oid rid candidates))"

definition release_budget :: "generation \<Rightarrow> uuid \<Rightarrow> uuid option \<Rightarrow> (db, unit) task" where
  "release_budget gn oid reservation =
     (case reservation of None \<Rightarrow> give () | Some u \<Rightarrow> after_others gn 2 (release (gn_clock gn 2) u oid))"

definition complete_observed ::
  "generation \<Rightarrow> nat \<Rightarrow> uuid \<Rightarrow> uuid option \<Rightarrow> inference_outcome \<Rightarrow> int \<Rightarrow> int \<Rightarrow> int \<Rightarrow> string option \<Rightarrow> (db, unit) task" where
  "complete_observed gn k oid event result suggested input output code =
     (case event of
        None \<Rightarrow> give ()
      | Some e \<Rightarrow> after_others gn k (complete_event (gn_clock gn k) (gn_elapsed gn) e oid result suggested input output code))"

text \<open>How a failed call is recorded, and what is raised to the caller.\<close>

fun failure_outcome :: "py_error \<Rightarrow> inference_outcome \<times> string" where
  "failure_outcome TimeoutError = (INFERENCE_TIMED_OUT, ''INFERENCE_TIMEOUT'')"
| "failure_outcome (AIUsageLimitError _) = (INFERENCE_QUOTA_REJECTED, ''USAGE_POLICY_REJECTED'')"
| "failure_outcome AIInferenceDisabledError = (INFERENCE_DISABLED, ''INFERENCE_DISABLED'')"
| "failure_outcome _ = (INFERENCE_FAILED, ''INFERENCE_FAILED'')"

fun raised_error :: "py_error \<Rightarrow> py_error" where
  "raised_error TimeoutError = AIInferenceError ''AI inference exceeded the configured timeout''"
| "raised_error e = e"

definition inference_failed :: "generation \<Rightarrow> uuid \<Rightarrow> uuid option \<Rightarrow> uuid option \<Rightarrow> py_error \<Rightarrow> (db, 'a) task" where
  "inference_failed gn oid reservation event e =
     and_also (release_budget gn oid reservation) (\<lambda>_.
     and_also (complete_observed gn 3 oid event (fst (failure_outcome e)) 0 0 0 (Some (snd (failure_outcome e)))) (\<lambda>_.
     raising (raised_error e)))"

definition suggestion_fields_of ::
  "workflow \<Rightarrow> inference_response \<Rightarrow> instant \<Rightarrow> generated_candidate \<times> inference_suggestion \<Rightarrow> suggestion_fields" where
  "suggestion_fields_of flow response expires p =
     (case p of (c, s) \<Rightarrow> let f = gc_features c in
      \<lparr> sf_candidates = gc_records c, sf_confidence_score = decimal_of_float (float_value (is_confidence s)),
        sf_explanation = [(''summary'', JText (is_explanation s)),
                          (''reason_codes'', JList (map JText (is_reason_codes s)))],
        sf_features =
          [(''amount_similarity'', JFloat (decimal_of_float (float_value (mf_amount_similarity f)))),
           (''date_similarity'', JFloat (decimal_of_float (float_value (mf_date_similarity f)))),
           (''reference_similarity'', JFloat (decimal_of_float (float_value (mf_reference_similarity f)))),
           (''currency_matches'', JBool (mf_currency_matches f))],
        sf_provider = wf_provider_name flow, sf_model_version = rs_model_version response,
        sf_prompt_template_version = rs_prompt_version response,
        sf_inference_config_version = wf_inference_config_version flow,
        sf_expires_at = Some (aware_utc expires) \<rparr>)"

definition persist_suggestions ::
  "generation \<Rightarrow> uuid \<Rightarrow> uuid \<Rightarrow> suggestion_fields list \<Rightarrow> suggestion list db_action" where
  "persist_suggestions gn oid rid fs db =
     fold_err (\<lambda>(i, f) (rows, s).
         and_then (create_suggestion (gn_sha gn) (gn_stamp gn 4) (gn_suggestion_id gn i) oid rid f s) (\<lambda>(r, s').
         Inr (rows @ [r], s'))) (zip [0 ..< length fs] fs) ([], db)"

text \<open>The reservation, the call and the mapping of its response: what the \<open>try\<close> encloses.\<close>

definition attempt ::
  "workflow \<Rightarrow> generation \<Rightarrow> uuid \<Rightarrow> uuid \<Rightarrow> generated_candidate list \<Rightarrow> inference_request \<Rightarrow> uuid option \<Rightarrow>
   (db, uuid option \<times> inference_response \<times> (generated_candidate \<times> inference_suggestion) list) task" where
  "attempt flow gn oid rid candidates q event =
     and_also (on_error (reserve_budget flow gn oid rid (int (length candidates))) (inference_failed gn oid None event)) (\<lambda>reservation.
     and_also (on_error
       (and_also (lift_outcome (wf_infer flow q)) (\<lambda>response.
        and_also (lift_outcome (map_response response candidates (wf_prompt_version flow))) (\<lambda>validated.
        give (response, validated))))
       (inference_failed gn oid reservation event)) (\<lambda>(response, validated).
     give (reservation, response, validated)))"

definition finalize_budget :: "generation \<Rightarrow> uuid \<Rightarrow> uuid option \<Rightarrow> inference_response \<Rightarrow> (db, unit) task" where
  "finalize_budget gn oid reservation response =
     (case reservation of
        None \<Rightarrow> give ()
      | Some u \<Rightarrow> after_others gn 2
          (finalize (gn_clock gn 2) u oid (rs_input_tokens response) (rs_output_tokens response)))"

definition infer_and_persist ::
  "workflow \<Rightarrow> generation \<Rightarrow> uuid \<Rightarrow> uuid \<Rightarrow> generated_candidate list \<Rightarrow> inference_request \<Rightarrow> (db, suggestion list) task" where
  "infer_and_persist flow gn oid rid candidates q =
     and_also (start_observed flow gn oid rid (int (length candidates))) (\<lambda>event.
     and_also (attempt flow gn oid rid candidates q event) (\<lambda>(reservation, response, validated).
     and_also (finalize_budget gn oid reservation response) (\<lambda>_.
     and_also (after_others gn 4 (unit_of_work (persist_suggestions gn oid rid
       (map (suggestion_fields_of flow response (gn_clock gn 4 + days (wf_suggestion_ttl_days flow))) validated)))) (\<lambda>rows.
     and_also (complete_observed gn 5 oid event INFERENCE_SUCCEEDED (int (length rows))
       (rs_input_tokens response) (rs_output_tokens response) None) (\<lambda>_.
     give rows)))))"

definition generate_and_persist ::
  "workflow \<Rightarrow> generation \<Rightarrow> uuid \<Rightarrow> uuid \<Rightarrow> source_record list \<Rightarrow> string list \<Rightarrow> (db, suggestion list) task" where
  "generate_and_persist flow gn oid rid records excluded =
     and_also (lift_outcome (generate_candidates (gn_sha gn) (wf_generator flow) oid rid records excluded)) (\<lambda>candidates.
     if candidates = [] then give []
     else
       and_also (lift_outcome (request_post_init
         \<lparr> rq_features = map gc_features candidates, rq_prompt_version = wf_prompt_version flow \<rparr>)) (\<lambda>q.
       infer_and_persist flow gn oid rid candidates q))"

section \<open>The route\<close>

definition texts_of :: "string option list \<Rightarrow> string list" where
  "texts_of values = filter (\<lambda>v. v \<noteq> []) (map (\<lambda>v. case v of None \<Rightarrow> [] | Some s \<Rightarrow> s) values)"

definition bank_record :: "uuid \<Rightarrow> uuid \<Rightarrow> bank \<Rightarrow> source_record outcome" where
  "bank_record oid rid b =
     source_record_post_init
       \<lparr> cs_organization_id = oid, cs_run_id = rid, cs_source_type = CANDIDATE_BANK,
         cs_record_id = bank_source_record_id b, cs_amount = bank_amount b,
         cs_effective_date = bank_booking_date b, cs_currency = bank_currency b,
         cs_references = texts_of [Some (bank_transaction_id b), bank_entry_reference b, bank_end_to_end_id b,
           bank_invoice_reference b, bank_customer_reference b, bank_bank_reference b] \<rparr>"

definition invoice_record :: "uuid \<Rightarrow> uuid \<Rightarrow> invoice \<Rightarrow> source_record outcome" where
  "invoice_record oid rid i =
     source_record_post_init
       \<lparr> cs_organization_id = oid, cs_run_id = rid, cs_source_type = CANDIDATE_ERP,
         cs_record_id = inv_invoice_id i, cs_amount = inv_amount_due i,
         cs_effective_date = inv_issue_date i, cs_currency = inv_currency i,
         cs_references = texts_of [Some (inv_invoice_id i), Some (inv_invoice_number i), inv_payment_reference i,
           inv_purchase_order_reference i, inv_sales_order_reference i] \<rparr>"

definition gateway_record :: "uuid \<Rightarrow> uuid \<Rightarrow> gateway \<Rightarrow> source_record outcome" where
  "gateway_record oid rid e =
     source_record_post_init
       \<lparr> cs_organization_id = oid, cs_run_id = rid, cs_source_type = CANDIDATE_GATEWAY,
         cs_record_id = gw_source_record_id e, cs_amount = gw_net_amount e,
         cs_effective_date = gw_settlement_date e, cs_currency = gw_settlement_currency e,
         cs_references = texts_of [Some (gw_settlement_id e), Some (gw_gateway_payment_id e), gw_invoice_reference e,
           gw_order_reference e, gw_gateway_reference e, gw_bank_reference e] \<rparr>"

definition candidate_records ::
  "uuid \<Rightarrow> uuid \<Rightarrow> bank list \<Rightarrow> invoice list \<Rightarrow> gateway list \<Rightarrow> source_record list outcome" where
  "candidate_records oid rid banks invoices gateways =
     and_then (map_err (bank_record oid rid) banks) (\<lambda>bs.
     and_then (map_err (invoice_record oid rid) invoices) (\<lambda>es.
     and_then (map_err (gateway_record oid rid) gateways) (\<lambda>gs.
     Inr (bs @ es @ gs))))"

text \<open>The identifiers of the lines that need no review; their records are not compared again.\<close>

definition resolved_ids :: "uuid \<Rightarrow> db \<Rightarrow> string list" where
  "resolved_ids rid db =
     concat (map (\<lambda>r. res_bank_ids (rr_result r) @ res_invoice_ids (rr_result r) @ res_gateway_ids (rr_result r))
       (filter (\<lambda>r. rr_run_id r = rid \<and> \<not> res_requires_review (rr_result r)) (result_rows db)))"

definition check_generation ::
  "uuid \<Rightarrow> tenant_context \<Rightarrow> db \<Rightarrow> ((source_type \<times> source_file) list \<times> string list) outcome" where
  "check_generation rid tenant db =
     and_then (get_run rid (Some (tc_organization_id tenant)) db) (\<lambda>r.
     and_then (guard_else (run_status r = RUN_SUCCEEDED) (APIError 409 ''RUN_NOT_COMPLETED'')) (\<lambda>_.
     let files = files_of_run rid db;
         present = map (\<lambda>ty. (ty, the (file_of_type ty files))) (remdups (map file_source_type files)) in
     and_then (guard_else (set [BANK_TRANSACTIONS, ERP_INVOICES] \<subseteq> set (map fst present))
       (APIError 422 ''MISSING_SOURCE_FILES'')) (\<lambda>_.
     Inr (present, resolved_ids rid db))))"

record loaders =
  ld_materialize :: "string \<Rightarrow> string outcome"
  ld_banks :: "string \<Rightarrow> bank list outcome"
  ld_invoices :: "string \<Rightarrow> invoice list outcome"
  ld_gateways :: "string \<Rightarrow> gateway list outcome"

definition load_records ::
  "loaders \<Rightarrow> uuid \<Rightarrow> uuid \<Rightarrow> (source_type \<times> source_file) list \<Rightarrow> source_record list outcome" where
  "load_records ld oid rid files =
     and_then (map_err (\<lambda>(ty, f). and_then (ld_materialize ld (case file_storage_key f of None \<Rightarrow> [] | Some k \<Rightarrow> k))
       (\<lambda>p. Inr (ty, p))) files) (\<lambda>paths.
     and_then (path_of BANK_TRANSACTIONS ''BANK_TRANSACTIONS'' paths) (\<lambda>bank_path.
     and_then (ld_banks ld bank_path) (\<lambda>banks.
     and_then (path_of ERP_INVOICES ''ERP_INVOICES'' paths) (\<lambda>erp_path.
     and_then (ld_invoices ld erp_path) (\<lambda>invoices.
     and_then (case map_of paths GATEWAY_SETTLEMENTS of None \<Rightarrow> Inr [] | Some p \<Rightarrow> ld_gateways ld p) (\<lambda>gateways.
     candidate_records oid rid banks invoices gateways))))))"

fun inference_error :: "py_error \<Rightarrow> bool" where
  "inference_error (AIInferenceError _) = True"
| "inference_error AIInferenceDisabledError = True"
| "inference_error AIInferenceResponseError = True"
| "inference_error (AIUsageLimitError _) = True"
| "inference_error _ = False"

definition generation_error :: "py_error \<Rightarrow> py_error" where
  "generation_error e =
     (if inference_error e then APIError 503 ''AI_INFERENCE_UNAVAILABLE''
      else if storage_operation_error e then APIError 503 ''STORAGE_UNAVAILABLE'' else e)"

definition record_generation ::
  "generation \<Rightarrow> uuid \<Rightarrow> tenant_context \<Rightarrow> suggestion list \<Rightarrow> (db, unit) task" where
  "record_generation gn rid tenant created =
     (if created = [] then give ()
      else after_others gn 6 (unit_of_work (\<lambda>db.
        and_then (append_security_event (gn_clock gn 6) (gn_security_id gn) (tc_organization_id tenant) (tc_user_id tenant)
          ''AI_SUGGESTIONS_GENERATED''
          [(''run_id'', JText (uuid_text rid)), (''suggestion_count'', JInt (int (length created)))] db) (\<lambda>(_, db1).
        Inr ((), db1)))))"

definition generate_suggestions ::
  "workflow \<Rightarrow> generation \<Rightarrow> loaders \<Rightarrow> uuid \<Rightarrow> tenant_context \<Rightarrow> (db, suggestion_response list \<times> nat) task" where
  "generate_suggestions flow gn ld rid tenant db =
     and_also (lift_outcome (check_generation rid tenant db)) (\<lambda>(files, excluded).
     on_error
       (and_also (lift_outcome (load_records ld (tc_organization_id tenant) rid files)) (\<lambda>records.
        and_also (generate_and_persist flow gn (tc_organization_id tenant) rid records excluded) (\<lambda>created.
        and_also (record_generation gn rid tenant created) (\<lambda>_.
        and_also (lift_outcome (map_err suggestion_response_of created)) (\<lambda>items.
        give (items, length created))))))
       (\<lambda>e. raising (generation_error e))) db"

section \<open>What a generation leaves alone\<close>

text \<open>No other process commits in between.\<close>

definition quiet :: "generation \<Rightarrow> bool" where
  "quiet gn \<longleftrightarrow> gn_others gn = (\<lambda>_ s. s)"

lemma after_others_quiet [simp]: "quiet gn \<Longrightarrow> after_others gn k m = m"
  by (rule ext) (simp add: quiet_def after_others_def)

definition keeps :: "(db \<Rightarrow> 'x) \<Rightarrow> db \<Rightarrow> db \<Rightarrow> bool" where
  "keeps f s s' \<longleftrightarrow> f s' = f s"

lemma keeps_relation [simp, intro]: "reflp (keeps f)" "transp (keeps f)"
  by (auto simp: keeps_def intro: reflpI transpI)

lemma keeps_unit:
  "(\<And>x db db'. body db = Inr (x, db') \<Longrightarrow> f db' = f db) \<Longrightarrow> task_rel (keeps f) (unit_of_work body)"
  unfolding task_rel_def keeps_def
  by (intro allI unit_of_work_preserves [where P = "\<lambda>s'. f s' = f _"]) auto

lemmas keeps_intros = task_rel_and_also [OF keeps_relation(2)] task_rel_on_error [OF keeps_relation(2)]
  task_rel_simple [OF keeps_relation(1)] keeps_unit

lemma event_tasks_keep:
  "task_rel (keeps suggestions) (start_event ob stamp eid oid rid n)"
  "task_rel (keeps ai_usages) (start_event ob stamp eid oid rid n)"
  "task_rel (keeps suggestions) (complete_event now ms eid oid result k i n' code)"
  "task_rel (keeps ai_usages) (complete_event now ms eid oid result k i n' code)"
  unfolding start_event_def complete_event_def
  by (rule keeps_unit, auto simp: create_inference_event_def complete_inference_event_def and_then_Inr_iff Let_def
      split: if_splits)+

lemma budget_tasks_keep:
  "task_rel (keeps suggestions) (reserve c now stamp uid oid rid n)"
  "task_rel (keeps inference_events) (reserve c now stamp uid oid rid n)"
  "task_rel (keeps suggestions) (release now uid oid)"
  "task_rel (keeps inference_events) (release now uid oid)"
  "task_rel (keeps suggestions) (finalize now uid oid i n')"
  "task_rel (keeps inference_events) (finalize now uid oid i n')"
  unfolding reserve_def release_def finalize_def
  by (auto intro!: keeps_intros simp: reserve_body_def release_usage_def finalize_usage_def save_usage_def release_expired_def
      and_then_Inr_iff Let_def dest!: reserve_usage_Inr(9) split: if_splits)

lemma quiet_tasks_keep_suggestions:
  assumes "quiet gn"
  shows "task_rel (keeps suggestions) (start_observed flow gn oid rid n)"
    and "task_rel (keeps suggestions) (reserve_budget flow gn oid rid n)"
    and "task_rel (keeps suggestions) (finalize_budget gn oid reservation response)"
    and "task_rel (keeps suggestions) (release_budget gn oid reservation)"
    and "task_rel (keeps suggestions) (complete_observed gn k oid event result a b c code)"
  using assms
  by (auto simp: start_observed_def reserve_budget_def finalize_budget_def release_budget_def complete_observed_def
      intro!: keeps_intros event_tasks_keep budget_tasks_keep split: option.split)

lemma attempt_keeps_suggestions:
  assumes "quiet gn"
  shows "task_rel (keeps suggestions) (attempt flow gn oid rid candidates q event)"
  unfolding attempt_def inference_failed_def
  by (auto intro!: keeps_intros quiet_tasks_keep_suggestions [OF assms] split: prod.split)

section \<open>Persisting\<close>

lemma create_suggestion_row:
  assumes "create_suggestion sha stamp sid oid rid f db = Inr (r, db')"
  shows "suggestions db' = suggestions db @ [r]" and "sug_organization_id r = oid" and "sug_run_id r = rid"
    and "sug_status r = SUGGESTION_PENDING" and "sug_candidate_fingerprint r = sha (fingerprint_payload (sf_candidates f))"
    and "suggestion_key r \<notin> suggestion_key ` set (suggestions db)"
  using assms by (auto simp: create_suggestion_def insert_suggestion_def and_then_Inr_iff suggestion_key_def split: if_splits)

lemma create_suggestion_keeps:
  "create_suggestion sha stamp sid oid rid f db = Inr (r, db') \<Longrightarrow>
   ai_usages db' = ai_usages db \<and> inference_events db' = inference_events db"
  by (auto simp: create_suggestion_def insert_suggestion_def and_then_Inr_iff split: if_splits)

lemma persist_fold:
  assumes "fold_err (\<lambda>(i, f) (rows, s).
         and_then (create_suggestion sha stamp (ids i) oid rid f s) (\<lambda>(r, s').
         Inr (rows @ [r], s'))) xs (rows, db) = Inr (rows', db')"
  shows "\<exists>new. rows' = rows @ new \<and> suggestions db' = suggestions db @ new \<and> length new = length xs \<and>
    ai_usages db' = ai_usages db \<and> inference_events db' = inference_events db \<and>
    map sug_candidate_fingerprint new = map (\<lambda>(i, f). sha (fingerprint_payload (sf_candidates f))) xs \<and>
    (\<forall>r \<in> set new. sug_organization_id r = oid \<and> sug_run_id r = rid \<and> sug_status r = SUGGESTION_PENDING \<and>
       suggestion_key r \<notin> suggestion_key ` set (suggestions db))"
  using assms
proof (induction xs arbitrary: rows db)
  case (Cons x xs)
  obtain i f where x: "x = (i, f)" by (cases x)
  from Cons.prems obtain r s where step: "create_suggestion sha stamp (ids i) oid rid f db = Inr (r, s)"
    and rest: "fold_err (\<lambda>(i, f) (rows, s).
         and_then (create_suggestion sha stamp (ids i) oid rid f s) (\<lambda>(r, s').
         Inr (rows @ [r], s'))) xs (rows @ [r], s) = Inr (rows', db')"
    by (auto simp: x and_then_Inr_iff)
  from Cons.IH [OF rest] create_suggestion_row [OF step] create_suggestion_keeps [OF step] show ?case
    by (auto simp: x)
qed simp

lemma persist_suggestions_Inr:
  assumes "persist_suggestions gn oid rid fs db = Inr (rows, db')"
  shows "suggestions db' = suggestions db @ rows \<and> length rows = length fs \<and>
    ai_usages db' = ai_usages db \<and> inference_events db' = inference_events db \<and>
    map sug_candidate_fingerprint rows = map (\<lambda>f. gn_sha gn (fingerprint_payload (sf_candidates f))) fs \<and>
    (\<forall>r \<in> set rows. sug_organization_id r = oid \<and> sug_run_id r = rid \<and> sug_status r = SUGGESTION_PENDING \<and>
       suggestion_key r \<notin> suggestion_key ` set (suggestions db))"
proof -
  have "map (\<lambda>(i, f). gn_sha gn (fingerprint_payload (sf_candidates f))) (zip [0 ..< length fs] fs) =
      map (\<lambda>f. gn_sha gn (fingerprint_payload (sf_candidates f))) fs"
    by (rule nth_equalityI) simp_all
  with persist_fold [OF assms [unfolded persist_suggestions_def]] show ?thesis by auto
qed

section \<open>The steps of a generation\<close>

text \<open>What the constructor of a response guarantees of every response a provider returns.\<close>

definition valid_responses :: "workflow \<Rightarrow> bool" where
  "valid_responses flow \<longleftrightarrow> (\<forall>q r. wf_infer flow q = Inr r \<longrightarrow> response_post_init r = Inr r)"

lemma valid_response_tokens:
  "valid_responses flow \<Longrightarrow> wf_infer flow q = Inr r \<Longrightarrow> 0 \<le> rs_input_tokens r \<and> 0 \<le> rs_output_tokens r"
proof -
  assume "valid_responses flow" and "wf_infer flow q = Inr r"
  then have "response_post_init r = Inr r" by (auto simp: valid_responses_def)
  then show ?thesis by (auto simp: response_post_init_def and_then_Inr_iff guard_else_Inr_iff)
qed

text \<open>The event of the generation is there and still open.\<close>

definition event_open :: "uuid \<Rightarrow> uuid option \<Rightarrow> db \<Rightarrow> bool" where
  "event_open oid event db \<longleftrightarrow>
     (case event of None \<Rightarrow> True
      | Some e \<Rightarrow> \<exists>r. scoped_get inf_id inf_organization_id e oid (inference_events db) = Inr r \<and>
          inf_outcome r = INFERENCE_REQUESTED \<and> inference_event_row_ok r)"

lemma event_open_cong: "inference_events db' = inference_events db \<Longrightarrow> event_open oid event db' = event_open oid event db"
  by (simp add: event_open_def split: option.split)

lemma started_event_open:
  assumes "quiet gn" and "start_observed flow gn oid rid n db = (Inr event, db1)"
  shows "event_open oid event db1"
proof (cases "wf_observer flow")
  case None
  with assms(2) show ?thesis by (simp add: start_observed_def give_def event_open_def)
next
  case (Some ob)
  with assms obtain e where event: "event = Some e"
    and start: "start_event ob (gn_stamp gn 0) (gn_event_id gn) oid rid n db = (Inr e, db1)"
    by (auto simp: start_observed_def give_def elim!: and_also_Inr)
  then obtain r where r: "inference_events db1 = inference_events db @ [r]" "inf_id r = e" "inf_organization_id r = oid"
      "inf_outcome r = INFERENCE_REQUESTED" "inference_event_row_ok r" "e \<notin> inf_id ` set (inference_events db)"
    by (auto simp: start_event_def create_inference_event_def and_then_Inr_iff Let_def dest!: unit_of_work_committed
        split: if_splits)
  have "find (\<lambda>x. inf_id x = e \<and> inf_organization_id x = oid) (inference_events db1) = Some r"
    unfolding r(1) using r(2,3,6) by (intro find_snoc) (auto, metis image_eqI)
  then show ?thesis using r(4,5) by (simp add: event_open_def event scoped_get_def)
qed

lemma complete_open_event:
  assumes "quiet gn" and "event_open oid event db" and "0 \<le> a" "0 \<le> b" "0 \<le> c"
  shows "\<exists>db'. complete_observed gn k oid event result a b c code db = (Inr (), db') \<and> suggestions db' = suggestions db \<and>
    ai_usages db' = ai_usages db \<and>
    (\<forall>e. event = Some e \<longrightarrow> (\<exists>r \<in> set (inference_events db'). inf_id r = e \<and> inf_outcome r = result \<and> inf_error_code r = code))"
proof (cases event)
  case None
  with assms(1) show ?thesis by (simp add: complete_observed_def give_def)
next
  case (Some e)
  with assms(2) obtain r where r: "scoped_get inf_id inf_organization_id e oid (inference_events db) = Inr r"
      "inf_outcome r = INFERENCE_REQUESTED" "inference_event_row_ok r" by (auto simp: event_open_def)
  let ?r = "r \<lparr> inf_outcome := result, inf_suggestion_count := a, inf_input_tokens := b, inf_output_tokens := c,
    inf_duration_ms := Some (max 0 (gn_elapsed gn)), inf_error_code := code, inf_completed_at := Some (gn_clock gn k) \<rparr>"
  let ?db = "db \<lparr> inference_events := put_row inf_id ?r (inference_events db) \<rparr>"
  have "inference_event_row_ok ?r" using r(3) assms(3-5) by (simp add: inference_event_row_ok_def)
  then have run: "complete_observed gn k oid event result a b c code db = (Inr (), ?db)"
    using assms(1) r by (simp add: complete_observed_def Some complete_event_def complete_inference_event_def unit_of_work_def Let_def)
  have "?r \<in> set (inference_events ?db)"
    using scoped_get_Inr [OF r(1)] put_row_member [of r "inference_events db" inf_id ?r] by simp
  moreover have "inf_id ?r = e" using scoped_get_Inr [OF r(1)] by simp
  ultimately have "\<exists>x \<in> set (inference_events ?db). inf_id x = e \<and> inf_outcome x = result \<and> inf_error_code x = code"
    by (intro bexI [of _ ?r]) simp_all
  then show ?thesis by (intro exI [of _ ?db]) (use run Some in simp)
qed

lemma inference_failed_error: "inference_failed gn oid reservation event e s \<noteq> (Inr x, s')"
  by (auto simp: inference_failed_def raising_def elim!: and_also_Inr)

lemma handled_Inr: "on_error m (inference_failed gn oid reservation event) s = (Inr x, s') \<Longrightarrow> m s = (Inr x, s')"
  by (auto simp: on_error_def inference_failed_error split: prod.splits sum.splits)

lemma attempt_Inr:
  assumes "attempt flow gn oid rid candidates q event db = (Inr (reservation, response, validated), db')"
  shows "reserve_budget flow gn oid rid (int (length candidates)) db = (Inr reservation, db')"
    and "wf_infer flow q = Inr response" and "map_response response candidates (wf_prompt_version flow) = Inr validated"
proof -
  from assms have "reserve_budget flow gn oid rid (int (length candidates)) db = (Inr reservation, db') \<and>
      wf_infer flow q = Inr response \<and> map_response response candidates (wf_prompt_version flow) = Inr validated"
    unfolding attempt_def
    by (elim and_also_Inr) (auto dest!: handled_Inr simp: give_def lift_outcome_def elim!: and_also_Inr)
  then show "reserve_budget flow gn oid rid (int (length candidates)) db = (Inr reservation, db')"
    "wf_infer flow q = Inr response" "map_response response candidates (wf_prompt_version flow) = Inr validated"
    by blast+
qed

lemma on_error_cases:
  assumes "on_error m h s = (r, s2)"
  obtains e s1 where "m s = (Inl e, s1)" "h e s1 = (r, s2)" | x where "m s = (Inr x, s2)" "r = Inr x"
  using assms by (auto simp: on_error_def split: prod.splits sum.splits)

lemma quiet_events_kept:
  assumes "quiet gn"
  shows "inference_events (snd (reserve_budget flow gn oid rid n db)) = inference_events db"
    and "inference_events (snd (finalize_budget gn oid reservation response db)) = inference_events db"
    and "inference_events (snd (release_budget gn oid reservation db)) = inference_events db"
  using assms task_relD [OF budget_tasks_keep(2)] task_relD [OF budget_tasks_keep(4)] task_relD [OF budget_tasks_keep(6)]
  by (simp_all add: reserve_budget_def finalize_budget_def release_budget_def give_def keeps_def split: option.split)

lemma and_also_cases:
  assumes "and_also m k s = (r, s2)"
  obtains e where "m s = (Inl e, s2)" "r = Inl e" | x s1 where "m s = (Inr x, s1)" "k x s1 = (r, s2)"
  using assms by (auto simp: and_also_def split: prod.splits sum.splits)

lemma kept_by: "task_rel (keeps f) m \<Longrightarrow> m s = (r, s') \<Longrightarrow> f s' = f s"
  using task_relD [of "keeps f" m s] by (simp add: keeps_def)

text \<open>
  A generation raises before anything was persisted, or persists every suggestion in one
  transaction and completes its event.
\<close>

lemma infer_and_persist_cases:
  assumes "quiet gn" and "valid_responses flow" and "infer_and_persist flow gn oid rid candidates q db = (result, db')"
  obtains e where "result = Inl e" "suggestions db' = suggestions db"
    | rows fs s s' where "result = Inr rows" "suggestions s = suggestions db"
        "persist_suggestions gn oid rid fs s = Inr (rows, s')" "suggestions db' = suggestions s'"
proof -
  note start_kept = kept_by [OF quiet_tasks_keep_suggestions(1) [OF assms(1)]]
    and attempt_kept = kept_by [OF attempt_keeps_suggestions [OF assms(1)]]
    and finalize_kept = kept_by [OF quiet_tasks_keep_suggestions(3) [OF assms(1)]]
  from assms(3) [unfolded infer_and_persist_def] show ?thesis
  proof (cases rule: and_also_cases)
    case (1 e)
    with that(1) start_kept show ?thesis by blast
  next
    case (2 event s1)
    have s1: "suggestions s1 = suggestions db" by (rule start_kept [OF 2(1)])
    from 2(2) show ?thesis
    proof (cases rule: and_also_cases)
      case (1 e)
      with that(1) attempt_kept s1 show ?thesis by metis
    next
      case attempted: (2 x s2)
      obtain reservation response validated where x: "x = (reservation, response, validated)" by (cases x)
      note a = attempt_Inr [OF attempted(1) [unfolded x]]
      have s2: "suggestions s2 = suggestions db" "event_open oid event s2"
        using attempt_kept [OF attempted(1)] s1 event_open_cong [of s2 s1] quiet_events_kept(1) [OF assms(1)] a(1)
          started_event_open [OF assms(1) 2(1)] by (simp, metis snd_conv)
      from attempted(2) [unfolded x prod.case] show ?thesis
      proof (cases rule: and_also_cases)
        case (1 e)
        with that(1) finalize_kept s2(1) show ?thesis by metis
      next
        case (2 u s3)
        have s3: "suggestions s3 = suggestions db" "event_open oid event s3"
          using finalize_kept [OF 2(1)] s2 event_open_cong [of s3 s2] quiet_events_kept(2) [OF assms(1)] 2(1)
          by (simp, metis snd_conv)
        from 2(2) [unfolded after_others_quiet [OF assms(1)]] show ?thesis
        proof (cases rule: and_also_cases)
          case (1 e)
          with unit_of_work_error_keeps that(1) s3(1) show ?thesis by (metis fst_conv snd_conv)
        next
          case (2 rows s4)
          note made = unit_of_work_committed [OF 2(1)]
          note p = persist_suggestions_Inr [OF made]
          have "event_open oid event s4" using event_open_cong [of s4 s3] p s3(2) by blast
          from complete_open_event [OF assms(1) this, of "int (length rows)" "rs_input_tokens response" "rs_output_tokens response"]
            valid_response_tokens [OF assms(2) a(2)]
          obtain s5 where "complete_observed gn 5 oid event INFERENCE_SUCCEEDED (int (length rows)) (rs_input_tokens response)
              (rs_output_tokens response) None s4 = (Inr (), s5)" "suggestions s5 = suggestions s4" by fastforce
          with 2(2) have "result = Inr rows" "suggestions db' = suggestions s4" by (auto simp: and_also_def give_def)
          with that(2) s3(1) made show ?thesis by blast
        qed
      qed
    qed
  qed
qed

text \<open>What a generation leaves in the table of suggestions.\<close>

lemma generation_rows:
  assumes "quiet gn" and "valid_responses flow"
    and "generate_and_persist flow gn oid rid records excluded db = (result, db')"
  shows "(case result of Inl e \<Rightarrow> suggestions db' = suggestions db
    | Inr rows \<Rightarrow> suggestions db' = suggestions db @ rows \<and>
        list_all (\<lambda>r. sug_organization_id r = oid \<and> sug_run_id r = rid \<and> sug_status r = SUGGESTION_PENDING \<and>
          suggestion_key r \<notin> set (map suggestion_key (suggestions db))) rows)"
proof -
  have persisted: "case result of Inl e \<Rightarrow> suggestions db' = suggestions db
    | Inr rows \<Rightarrow> suggestions db' = suggestions db @ rows \<and>
        list_all (\<lambda>r. sug_organization_id r = oid \<and> sug_run_id r = rid \<and> sug_status r = SUGGESTION_PENDING \<and>
          suggestion_key r \<notin> set (map suggestion_key (suggestions db))) rows"
    if "infer_and_persist flow gn oid rid candidates q db = (result, db')" for candidates q
    using that
  proof (rule infer_and_persist_cases [OF assms(1,2)])
    fix rows fs s s'
    assume "result = Inr rows" "suggestions s = suggestions db" "persist_suggestions gn oid rid fs s = Inr (rows, s')"
      "suggestions db' = suggestions s'"
    then show ?thesis using persist_suggestions_Inr [of gn oid rid fs s rows s'] by (simp add: list_all_iff)
  qed simp
  show ?thesis
    using assms(3) persisted
    by (auto simp: generate_and_persist_def give_def lift_outcome_def elim!: and_also_cases split: if_splits)
qed

text \<open>The fingerprints a generation writes depend on the records and the provider only.\<close>

definition planned_fingerprints ::
  "workflow \<Rightarrow> (string \<Rightarrow> string) \<Rightarrow> uuid \<Rightarrow> uuid \<Rightarrow> source_record list \<Rightarrow> string list \<Rightarrow> string list outcome" where
  "planned_fingerprints flow sha oid rid records excluded =
     and_then (generate_candidates sha (wf_generator flow) oid rid records excluded) (\<lambda>candidates.
     if candidates = [] then Inr []
     else
       and_then (request_post_init
         \<lparr> rq_features = map gc_features candidates, rq_prompt_version = wf_prompt_version flow \<rparr>) (\<lambda>q.
       and_then (wf_infer flow q) (\<lambda>response.
       and_then (map_response response candidates (wf_prompt_version flow)) (\<lambda>validated.
       Inr (map (\<lambda>(c, s). sha (fingerprint_payload (gc_records c))) validated)))))"

lemma generation_fingerprints:
  assumes "quiet gn" and "generate_and_persist flow gn oid rid records excluded db = (Inr rows, db')"
  shows "planned_fingerprints flow (gn_sha gn) oid rid records excluded = Inr (map sug_candidate_fingerprint rows)"
proof -
  have inferred: "\<exists>response validated. wf_infer flow q = Inr response \<and>
      map_response response candidates (wf_prompt_version flow) = Inr validated \<and>
      map (\<lambda>(c, s). gn_sha gn (fingerprint_payload (gc_records c))) validated = map sug_candidate_fingerprint rows"
    if "infer_and_persist flow gn oid rid candidates q db = (Inr rows, db')" for candidates q
  proof -
    from that [unfolded infer_and_persist_def] obtain event s1 reservation response validated s2 fs s3 s4
      where attempted: "attempt flow gn oid rid candidates q event s1 = (Inr (reservation, response, validated), s2)"
        and fs: "fs = map (suggestion_fields_of flow response (gn_clock gn 4 + days (wf_suggestion_ttl_days flow))) validated"
        and made: "unit_of_work (persist_suggestions gn oid rid fs) s3 = (Inr rows, s4)"
      by (auto simp: assms(1) give_def elim!: and_also_Inr)
    have "map sug_candidate_fingerprint rows = map (\<lambda>f. gn_sha gn (fingerprint_payload (sf_candidates f))) fs"
      using persist_suggestions_Inr [OF unit_of_work_committed [OF made]] by blast
    then have "map (\<lambda>(c, s). gn_sha gn (fingerprint_payload (gc_records c))) validated = map sug_candidate_fingerprint rows"
      by (simp add: fs suggestion_fields_of_def Let_def case_prod_beta)
    with attempt_Inr [OF attempted] show ?thesis by blast
  qed
  from assms(2) [unfolded generate_and_persist_def] show ?thesis
    by (elim and_also_cases)
      (auto simp: planned_fingerprints_def give_def lift_outcome_def dest!: inferred elim!: and_also_cases split: sum.splits if_splits)
qed

section \<open>Properties\<close>

definition desk_provider :: inference_provider where
  "desk_provider q = response_post_init
     \<lparr> rs_suggestions = map (\<lambda>f. \<lparr> is_candidate_reference = mf_candidate_reference f, is_confidence = Finite 1,
         is_reason_codes = [''AMOUNT_SIMILAR''], is_explanation = ''Equal amounts.'' \<rparr>) (rq_features q),
       rs_model_version = ''m1'', rs_prompt_version = rq_prompt_version q, rs_input_tokens = 120, rs_output_tokens = 30 \<rparr>"

definition desk_flow :: workflow where
  "desk_flow = \<lparr> wf_generator = desk_generator, wf_infer = desk_provider,
     wf_provider_name = ''openai-compatible'', wf_prompt_version = ''p1'', wf_inference_config_version = ''c1'',
     wf_timeout_seconds = 10, wf_suggestion_ttl_days = 30, wf_usage_controller = Some metered,
     wf_observer = None \<rparr>"

definition desk_generation :: generation where
  "desk_generation = \<lparr> gn_sha = constant_digest, gn_clock = (\<lambda>k. 1000 + int k), gn_stamp = (\<lambda>k. 1000 + int k), gn_elapsed = 5,
     gn_event_id = 50, gn_usage_id = 60, gn_suggestion_id = (\<lambda>k. 70 + k), gn_security_id = 90, gn_others = (\<lambda>_ s. s) \<rparr>"

definition invoice_desk :: "source_record list" where
  "invoice_desk = [desk_record CANDIDATE_BANK ''B'', desk_record CANDIDATE_ERP ''7'']"

lemma desk_facts: "quiet desk_generation" "valid_responses desk_flow"
  by (auto simp: quiet_def desk_generation_def valid_responses_def desk_flow_def desk_provider_def
      response_post_init_def and_then_Inr_iff guard_else_Inr_iff)

definition disabled_flow :: workflow where
  "disabled_flow = desk_flow \<lparr> wf_infer := disabled_provider \<rparr>"

lemma disabled_valid: "valid_responses disabled_flow"
  by (simp add: valid_responses_def disabled_flow_def disabled_provider_def)


lemma desk_generation_rows:
  "case generate_and_persist desk_flow desk_generation 1 3 invoice_desk [] ai_db of
     (Inl e, _) \<Rightarrow> False | (Inr rows, _) \<Rightarrow> map sug_id rows = [70]"
  by code_simp


text \<open>
  Suggestions cannot be generated twice.  Once a generation has added suggestions for a run and
  they are still there, whatever their status, another one over the same records with the same provider raises and
  adds nothing: the fingerprints of the pending suggestions are in its way.
\<close>

theorem regeneration_conflicts:
  assumes "quiet gn" and "valid_responses flow"
    and "generate_and_persist flow gn oid rid records excluded db = (Inr rows, db1)" and "rows \<noteq> []"
    and "quiet gn'" and "gn_sha gn' = gn_sha gn" and "suggestion_key ` set rows \<subseteq> suggestion_key ` set (suggestions db2)"
  shows "\<exists>e db3. generate_and_persist flow gn' oid rid records excluded db2 = (Inl e, db3) \<and>
    suggestions db3 = suggestions db2"
proof -
  obtain result db3 where again: "generate_and_persist flow gn' oid rid records excluded db2 = (result, db3)"
    by (cases "generate_and_persist flow gn' oid rid records excluded db2")
  note outcome = generation_rows [OF assms(5,2) again]
  show ?thesis
  proof (cases result)
    case (Inr rows')
    have "map sug_candidate_fingerprint rows' = map sug_candidate_fingerprint rows"
      using generation_fingerprints [OF assms(1,3)] generation_fingerprints [OF assms(5) again [unfolded Inr]] assms(6) by simp
    moreover have "list_all (\<lambda>r. sug_organization_id r = oid \<and> sug_run_id r = rid) rows"
      using generation_rows [OF assms(1-3)] by (simp add: list_all_iff)
    ultimately have "map suggestion_key rows' = map suggestion_key rows"
      using outcome Inr by (auto simp: list_all_iff suggestion_key_def list_eq_iff_nth_eq)
    then have "suggestion_key (hd rows') \<in> set (map suggestion_key (suggestions db2))" "hd rows' \<in> set rows'"
      using assms(4,7) by (cases rows; cases rows'; auto)+
    with outcome Inr show ?thesis by (auto simp: list_all_iff)
  qed (use outcome again in simp)
qed

definition free_flow :: workflow where
  "free_flow = desk_flow \<lparr> wf_usage_controller := None \<rparr>"

definition later_generation :: generation where
  "later_generation = desk_generation \<lparr> gn_clock := (\<lambda>k. 5000 + int k), gn_stamp := (\<lambda>k. 5000 + int k),
     gn_suggestion_id := (\<lambda>k. 80 + k) \<rparr>"

theorem regeneration_conflicts_witness:
  "case generate_and_persist free_flow desk_generation 1 3 invoice_desk [] ai_db of
     (Inl e, _) \<Rightarrow> False
   | (Inr rows, db1) \<Rightarrow> map sug_id rows = [70] \<and>
      (case generate_and_persist free_flow later_generation 1 3 invoice_desk [] db1 of
         (Inl e, db2) \<Rightarrow> suggestions db2 = rows | (Inr _, _) \<Rightarrow> False)"
proof -
  obtain result db1 where run: "generate_and_persist free_flow desk_generation 1 3 invoice_desk [] ai_db = (result, db1)"
    by (cases "generate_and_persist free_flow desk_generation 1 3 invoice_desk [] ai_db")
  have "case generate_and_persist free_flow desk_generation 1 3 invoice_desk [] ai_db of
      (Inl e, _) \<Rightarrow> False | (Inr rows, db1) \<Rightarrow> map sug_id rows = [70] \<and> suggestions db1 = rows" by code_simp
  then obtain rows where rows: "result = Inr rows" "map sug_id rows = [70]" "suggestions db1 = rows"
    unfolding run prod.case by (cases result) simp_all
  have "valid_responses free_flow" using desk_facts(2) by (simp add: valid_responses_def free_flow_def)
  moreover have "quiet later_generation" "gn_sha later_generation = gn_sha desk_generation"
    by (simp_all add: quiet_def later_generation_def desk_generation_def)
  moreover have "rows \<noteq> []" "suggestion_key ` set rows \<subseteq> suggestion_key ` set (suggestions db1)" using rows by auto
  ultimately obtain e db2 where "generate_and_persist free_flow later_generation 1 3 invoice_desk [] db1 = (Inl e, db2)"
    "suggestions db2 = suggestions db1"
    using regeneration_conflicts [OF desk_facts(1) _ run [unfolded rows(1)]] by blast
  with rows show ?thesis unfolding run by simp
qed

section \<open>Reservations are settled\<close>

definition open_usage :: "ai_usage \<Rightarrow> bool" where
  "open_usage u \<longleftrightarrow> use_status u = USAGE_RESERVED"

lemma reserve_budget_opens:
  assumes "quiet gn" and "usage_ok db" and "reserve_budget flow gn oid rid n db = (Inr reservation, db')"
  shows "usage_ok db' \<and> (case reservation of None \<Rightarrow> set (filter open_usage (ai_usages db')) \<subseteq> set (ai_usages db)
    | Some u \<Rightarrow> (\<exists>r. get_usage u oid db' = Inr r \<and> open_usage r) \<and>
        set (filter (\<lambda>x. open_usage x \<and> use_id x \<noteq> u) (ai_usages db')) \<subseteq> set (ai_usages db))"
proof -
  from assms(1,3) consider "reservation = None" "db' = db"
    | c u where "reservation = Some u" "reserve_body c (gn_clock gn 1) (gn_stamp gn 1) (gn_usage_id gn) oid rid n db = Inr (u, db')"
    by (auto simp: reserve_budget_def reserve_def give_def raising_def dest!: unit_of_work_committed elim!: and_also_Inr
        split: option.splits if_splits)
  then show ?thesis
  proof cases
    case (2 c u)
    then obtain k db1 r stamp provider model tokens expires where sweep: "release_expired oid (gn_clock gn 1) db = Inr (k, db1)"
      and new: "reserve_usage stamp (gn_usage_id gn) oid rid provider model tokens n expires db1 = Inr (r, db')"
      and u: "u = use_id r"
      by (auto simp: reserve_body_def Let_def and_then_Inr_iff)
    note f = reserve_usage_Inr [OF new]
    have "usage_ok db'" by (rule reserved_usage_ok [OF new swept_usage_ok [OF sweep assms(2)]])
    moreover have "find (\<lambda>x. use_id x = u \<and> use_organization_id x = oid) (ai_usages db1 @ [r]) = Some r"
      using f(1,7,8) u by (intro find_snoc) (auto, metis image_eqI)
    then have "get_usage u oid db' = Inr r \<and> open_usage r"
      using f(2,9) by (simp add: get_usage_def scoped_get_def open_usage_def)
    moreover have "set (filter (\<lambda>x. open_usage x \<and> use_id x \<noteq> u) (ai_usages db')) \<subseteq> set (ai_usages db)"
      using sweep by (auto simp: f(9) u release_expired_def open_usage_def split: if_splits)
    ultimately show ?thesis by (simp add: 2(1))
  qed (use assms(2) in simp)
qed

lemma settling_closes:
  assumes "usage_ok db" and "get_usage u oid db = Inr r" and "use_id r' = use_id r" and "\<not> open_usage r'"
    and "set (filter (\<lambda>x. open_usage x \<and> use_id x \<noteq> u) (ai_usages db)) \<subseteq> old"
  shows "set (filter open_usage (ai_usages (db \<lparr> ai_usages := put_row use_id r' (ai_usages db) \<rparr>))) \<subseteq> old"
proof -
  have "use_id r = u" using assms(2) by (auto simp: get_usage_def dest: scoped_get_Inr)
  with assms(3-5) show ?thesis by (auto dest!: in_put_row)
qed

lemma release_budget_closes:
  assumes "quiet gn" and "usage_ok db" and "\<exists>r. get_usage u oid db = Inr r \<and> open_usage r"
    and "set (filter (\<lambda>x. open_usage x \<and> use_id x \<noteq> u) (ai_usages db)) \<subseteq> old"
  shows "\<exists>db'. release_budget gn oid (Some u) db = (Inr (), db') \<and> set (filter open_usage (ai_usages db')) \<subseteq> old"
proof -
  from assms(3) obtain r where r: "get_usage u oid db = Inr r" "open_usage r" by blast
  let ?r = "r \<lparr> use_status := USAGE_RELEASED, use_released_at := Some (gn_clock gn 2) \<rparr>"
  have "r \<in> set (ai_usages db)" using r(1) by (auto simp: get_usage_def dest: scoped_get_Inr)
  then have "ai_usage_row_ok ?r" using assms(2) by (auto simp: usage_ok_def list_all_iff ai_usage_row_ok_def)
  then have "release_budget gn oid (Some u) db = (Inr (), db \<lparr> ai_usages := put_row use_id ?r (ai_usages db) \<rparr>)"
    using r assms(1) by (simp add: release_budget_def release_def release_usage_def save_usage_def unit_of_work_def open_usage_def)
  moreover have "set (filter open_usage (ai_usages (db \<lparr> ai_usages := put_row use_id ?r (ai_usages db) \<rparr>))) \<subseteq> old"
    by (rule settling_closes [OF assms(2) r(1) _ _ assms(4)]) (simp_all add: open_usage_def)
  ultimately show ?thesis by blast
qed

lemma finalize_budget_closes:
  assumes "quiet gn" and "usage_ok db" and "\<exists>r. get_usage u oid db = Inr r \<and> open_usage r"
    and "set (filter (\<lambda>x. open_usage x \<and> use_id x \<noteq> u) (ai_usages db)) \<subseteq> old"
    and "0 \<le> rs_input_tokens response" and "0 \<le> rs_output_tokens response"
  shows "\<exists>db'. finalize_budget gn oid (Some u) response db = (Inr (), db') \<and> set (filter open_usage (ai_usages db')) \<subseteq> old"
proof -
  from assms(3) obtain r where r: "get_usage u oid db = Inr r" "open_usage r" by blast
  let ?r = "r \<lparr> use_status := USAGE_FINALIZED, use_input_tokens := rs_input_tokens response,
    use_output_tokens := rs_output_tokens response, use_finalized_at := Some (gn_clock gn 2) \<rparr>"
  have "r \<in> set (ai_usages db)" using r(1) by (auto simp: get_usage_def dest: scoped_get_Inr)
  then have "ai_usage_row_ok ?r" using assms(2,5,6) by (auto simp: usage_ok_def list_all_iff ai_usage_row_ok_def)
  then have "finalize_budget gn oid (Some u) response db = (Inr (), db \<lparr> ai_usages := put_row use_id ?r (ai_usages db) \<rparr>)"
    using r assms(1)
    by (simp add: finalize_budget_def finalize_def finalize_usage_def save_usage_def unit_of_work_def open_usage_def)
  moreover have "set (filter open_usage (ai_usages (db \<lparr> ai_usages := put_row use_id ?r (ai_usages db) \<rparr>))) \<subseteq> old"
    by (rule settling_closes [OF assms(2) r(1) _ _ assms(4)]) (simp_all add: open_usage_def)
  ultimately show ?thesis by blast
qed

text \<open>What is left of a reservation: none is open but those there were, and its own if it is not settled yet.\<close>

definition only_open :: "ai_usage set \<Rightarrow> uuid \<Rightarrow> uuid option \<Rightarrow> db \<Rightarrow> bool" where
  "only_open old oid reservation db \<longleftrightarrow>
     usage_ok db \<and> (case reservation of None \<Rightarrow> set (filter open_usage (ai_usages db)) \<subseteq> old
    | Some u \<Rightarrow> (\<exists>r. get_usage u oid db = Inr r \<and> open_usage r) \<and>
        set (filter (\<lambda>x. open_usage x \<and> use_id x \<noteq> u) (ai_usages db)) \<subseteq> old)"

lemma complete_keeps_usage: "quiet gn \<Longrightarrow> complete_observed gn k oid event result a b c code s = (r, s') \<Longrightarrow> ai_usages s' = ai_usages s"
  by (auto simp: complete_observed_def give_def split: option.splits dest: kept_by [OF event_tasks_keep(4)])

lemma start_keeps_usage: "quiet gn \<Longrightarrow> start_observed flow gn oid rid n s = (r, s') \<Longrightarrow> ai_usages s' = ai_usages s"
  by (auto simp: start_observed_def give_def split: option.splits elim!: and_also_cases dest: kept_by [OF event_tasks_keep(2)])

lemma inference_failed_closes:
  assumes "quiet gn" and "only_open old oid reservation db" and "inference_failed gn oid reservation event e db = (r, db')"
  shows "set (filter open_usage (ai_usages db')) \<subseteq> old"
proof -
  have "\<exists>s. release_budget gn oid reservation db = (Inr (), s) \<and> set (filter open_usage (ai_usages s)) \<subseteq> old"
    using assms(2) release_budget_closes [OF assms(1)]
    by (cases reservation) (auto simp: only_open_def release_budget_def give_def)
  with assms(3) complete_keeps_usage [OF assms(1)] show ?thesis
    unfolding inference_failed_def by (auto simp: raising_def elim!: and_also_cases)
qed

lemma attempt_closes:
  assumes "quiet gn" and "usage_ok db" and "attempt flow gn oid rid candidates q event db = (Inl e, db')"
  shows "set (filter open_usage (ai_usages db')) \<subseteq> set (ai_usages db)"
proof -
  let ?n = "int (length candidates)"
  obtain r s where reserved: "reserve_budget flow gn oid rid ?n db = (r, s)" by (cases "reserve_budget flow gn oid rid ?n db")
  show ?thesis
  proof (cases r)
    case (Inl x)
    have "s = db"
      using reserved Inl assms(1)
      by (auto simp: reserve_budget_def reserve_def give_def raising_def dest!: unit_of_work_failed
          elim!: and_also_cases split: option.splits if_splits)
    then have "only_open (set (ai_usages db)) oid None s" using assms(2) by (simp add: only_open_def)
    moreover from assms(3) reserved Inl obtain r' :: "py_error + uuid option" where "inference_failed gn oid None event x s = (r', db')"
      unfolding attempt_def by (elim and_also_cases on_error_cases) (auto simp: inference_failed_error)
    ultimately show ?thesis using inference_failed_closes [OF assms(1)] by blast
  next
    case (Inr reservation)
    from reserve_budget_opens [OF assms(1,2)] reserved Inr
    have "only_open (set (ai_usages db)) oid reservation s" by (auto simp: only_open_def split: option.splits)
    moreover from assms(3) reserved Inr obtain x and r' :: "py_error + (inference_response \<times> (generated_candidate \<times> inference_suggestion) list)"
        where "inference_failed gn oid reservation event x s = (r', db')"
      unfolding attempt_def
      by (elim and_also_cases on_error_cases)
        (auto simp: lift_outcome_def give_def elim!: and_also_cases split: sum.splits)
    ultimately show ?thesis using inference_failed_closes [OF assms(1)] by blast
  qed
qed

lemma infer_and_persist_closes:
  assumes "quiet gn" and "valid_responses flow" and "usage_ok db"
    and "infer_and_persist flow gn oid rid candidates q db = (result, db')"
  shows "set (filter open_usage (ai_usages db')) \<subseteq> set (ai_usages db)"
  using assms(4) [unfolded infer_and_persist_def]
proof (cases rule: and_also_cases)
  case (1 e)
  with start_keeps_usage [OF assms(1)] show ?thesis by force
next
  case (2 event s1)
  have s1: "ai_usages s1 = ai_usages db" by (rule start_keeps_usage [OF assms(1) 2(1)])
  then have ok1: "usage_ok s1" using assms(3) by (simp add: usage_ok_def)
  from 2(2) show ?thesis
  proof (cases rule: and_also_cases)
    case (1 e)
    with attempt_closes [OF assms(1) ok1] s1 show ?thesis by metis
  next
    case attempted: (2 x s2)
    obtain reservation response validated where x: "x = (reservation, response, validated)" by (cases x)
    note a = attempt_Inr [OF attempted(1) [unfolded x]]
    have "\<exists>s3. finalize_budget gn oid reservation response s2 = (Inr (), s3) \<and>
        set (filter open_usage (ai_usages s3)) \<subseteq> set (ai_usages db)"
      using reserve_budget_opens [OF assms(1) ok1 a(1)] finalize_budget_closes [OF assms(1), where old = "set (ai_usages db)"]
        valid_response_tokens [OF assms(2) a(2)] s1
      by (cases reservation) (auto simp: finalize_budget_def give_def)
    then obtain s3 where fin: "finalize_budget gn oid reservation response s2 = (Inr (), s3)"
      and closed: "set (filter open_usage (ai_usages s3)) \<subseteq> set (ai_usages db)" by blast
    from attempted(2) [unfolded x prod.case] fin have
      "and_also (unit_of_work (persist_suggestions gn oid rid
         (map (suggestion_fields_of flow response (gn_clock gn 4 + days (wf_suggestion_ttl_days flow))) validated)))
         (\<lambda>rows. and_also (complete_observed gn 5 oid event INFERENCE_SUCCEEDED (int (length rows))
            (rs_input_tokens response) (rs_output_tokens response) None) (\<lambda>_. give rows)) s3 = (result, db')"
      by (simp add: assms(1) and_also_def [of "finalize_budget gn oid reservation response"])
    then have "ai_usages db' = ai_usages s3"
    proof (cases rule: and_also_cases)
      case (1 e)
      then show ?thesis by (auto dest: unit_of_work_failed)
    next
      case (2 rows s4)
      have "ai_usages s4 = ai_usages s3" using persist_suggestions_Inr [OF unit_of_work_committed [OF 2(1)]] by blast
      moreover have "ai_usages db' = ai_usages s4"
        using 2(2) complete_keeps_usage [OF assms(1)] by (auto simp: give_def elim!: and_also_cases)
      ultimately show ?thesis by simp
    qed
    with closed show ?thesis by simp
  qed
qed

text \<open>
  C20: No reservation is left open.  However a generation ends, with suggestions, without any, with a
  provider that fails or times out, or with an error of a later step, every reservation it made
  has been finalized or released.
\<close>

theorem generation_settles_reservations:
  assumes "quiet gn" and "valid_responses flow" and "usage_ok db"
    and "generate_and_persist flow gn oid rid records excluded db = (result, db')"
  shows "set (filter open_usage (ai_usages db')) \<subseteq> set (ai_usages db)"
proof -
  note main = infer_and_persist_closes [OF assms(1-3)]
  have "filter open_usage (ai_usages db') = filter open_usage (ai_usages db) \<or>
      set (filter open_usage (ai_usages db')) \<subseteq> set (ai_usages db)"
    using assms(4) [unfolded generate_and_persist_def]
    by (elim and_also_cases) (auto simp: give_def lift_outcome_def dest!: main elim!: and_also_cases split: sum.splits if_splits, blast)
  then show ?thesis by (metis filter_is_subset)
qed

theorem generation_settles_reservations_witness:
  "case generate_and_persist disabled_flow desk_generation 1 3 invoice_desk [] ai_db of (result, db') \<Rightarrow>
     result = Inl AIInferenceDisabledError \<and> filter open_usage (ai_usages db') = [] \<and>
     map (\<lambda>u. (use_id u, use_status u)) (ai_usages db') = [(60, USAGE_RELEASED)]"
proof -
  let ?run = "generate_and_persist disabled_flow desk_generation 1 3 invoice_desk [] ai_db"
  have "set (filter open_usage (ai_usages (snd ?run))) \<subseteq> set (ai_usages ai_db)"
    by (rule generation_settles_reservations [OF desk_facts(1) disabled_valid ai_db_facts(1) prod.collapse [symmetric]])
  moreover have "ai_usages ai_db = []" by (simp add: ai_db_def empty_db_def)
  ultimately have "filter open_usage (ai_usages (snd ?run)) = []" by simp
  moreover have "case ?run of (result, db') \<Rightarrow> result = Inl AIInferenceDisabledError \<and>
      map (\<lambda>u. (use_id u, use_status u)) (ai_usages db') = [(60, USAGE_RELEASED)]" by code_simp
  ultimately show ?thesis by (simp add: case_prod_beta)
qed

end
