(* ===== verification/Retention.thy ===== *)
theory Retention
  imports Queue_Life Worker_Service
begin

text \<open>
  The retention cleanup of \<open>maintenance/cleanup.py\<close>.  A cleanup is a sequence of transactions; what
  other processes commit in between and which rows they have locked is an argument, as is the
  clock.  Its loops delete in batches and end only when a batch is not full, so they are partial
  functions and that they end is a theorem.
\<close>

section \<open>\<open>RetentionCleanup\<close>\<close>

record retention =
  rt_succeeded_days :: int
  rt_failed_days :: int
  rt_cancelled_days :: int
  rt_worker_days :: int
  rt_batch_size :: int

record cleanup_result =
  cr_eligible_jobs :: nat
  cr_deleted_jobs :: nat
  cr_eligible_workers :: nat
  cr_deleted_workers :: nat
  cr_dry_run :: bool

definition retention_init :: "retention \<Rightarrow> retention outcome" where
  "retention_init c =
     and_then (guard_else (list_all (\<lambda>v. 1 \<le> v)
         [rt_succeeded_days c, rt_failed_days c, rt_cancelled_days c, rt_worker_days c, rt_batch_size c])
       (ValueError ''retention values and batch_size must be positive integers'')) (\<lambda>_.
     Inr c)"

definition maintenance_now :: "string \<Rightarrow> datetime \<Rightarrow> instant outcome" where
  "maintenance_now owner clock =
     (case utc_offset clock of
        None \<Rightarrow> Inl (ValueError (owner @ '' clock must return a timezone-aware timestamp''))
      | Some o' \<Rightarrow> Inr (wall clock - o'))"

definition retention_cutoffs :: "retention \<Rightarrow> instant \<Rightarrow> (job_status \<times> datetime) list" where
  "retention_cutoffs c now =
     [(SUCCEEDED, aware_utc (now - days (rt_succeeded_days c))),
      (FAILED, aware_utc (now - days (rt_failed_days c))),
      (CANCELLED, aware_utc (now - days (rt_cancelled_days c)))]"

text \<open>
  The surroundings of a cleanup: the clock, what is committed before the \<open>k\<close>-th batch of jobs or
  workers, and the jobs other transactions have locked at that moment.
\<close>

record retention_world =
  rw_clock :: datetime
  rw_job_others :: "nat \<Rightarrow> db \<Rightarrow> db"
  rw_locked :: "nat \<Rightarrow> uuid set"
  rw_worker_others :: "nat \<Rightarrow> db \<Rightarrow> db"

text \<open>The loop both deletions share: until a batch is not full.\<close>

partial_function (option) delete_batches ::
  "(nat \<Rightarrow> (db, nat) task) \<Rightarrow> int \<Rightarrow> nat \<Rightarrow> nat \<Rightarrow> db \<Rightarrow> (nat outcome \<times> db) option" where
  "delete_batches batch limit k tally db =
     (case batch k db of
        (Inl e, db') \<Rightarrow> Some (Inl e, db')
      | (Inr deleted, db') \<Rightarrow>
          if int deleted < limit then Some (Inr (tally + deleted), db')
          else delete_batches batch limit (Suc k) (tally + deleted) db')"

definition delete_jobs ::
  "retention \<Rightarrow> retention_world \<Rightarrow> (job_status \<times> datetime) list \<Rightarrow> db \<Rightarrow> (nat outcome \<times> db) option" where
  "delete_jobs c w cutoffs db =
     delete_batches (\<lambda>k s. unit_of_work (delete_expired_terminal cutoffs (rt_batch_size c) (rw_locked w k))
       (rw_job_others w k s)) (rt_batch_size c) 0 0 db"

definition delete_workers :: "retention \<Rightarrow> retention_world \<Rightarrow> datetime \<Rightarrow> db \<Rightarrow> (nat outcome \<times> db) option" where
  "delete_workers c w cutoff db =
     delete_batches (\<lambda>k s. unit_of_work (delete_expired_workers cutoff (rt_batch_size c)) (rw_worker_others w k s))
       (rt_batch_size c) 0 0 db"

definition run_deletions ::
  "retention \<Rightarrow> retention_world \<Rightarrow> instant \<Rightarrow> nat \<Rightarrow> nat \<Rightarrow> db \<Rightarrow> (cleanup_result outcome \<times> db) option" where
  "run_deletions c w now eligible_jobs eligible_workers db =
     (case delete_jobs c w (retention_cutoffs c now) db of
        None \<Rightarrow> None
      | Some (Inl e, db1) \<Rightarrow> Some (Inl e, db1)
      | Some (Inr deleted_jobs, db1) \<Rightarrow>
          (case delete_workers c w (aware_utc (now - days (rt_worker_days c))) db1 of
             None \<Rightarrow> None
           | Some (Inl e, db2) \<Rightarrow> Some (Inl e, db2)
           | Some (Inr deleted_workers, db2) \<Rightarrow>
               Some (Inr \<lparr> cr_eligible_jobs = eligible_jobs, cr_deleted_jobs = deleted_jobs,
                 cr_eligible_workers = eligible_workers, cr_deleted_workers = deleted_workers,
                 cr_dry_run = False \<rparr>, db2)))"

definition run_retention :: "retention \<Rightarrow> retention_world \<Rightarrow> bool \<Rightarrow> db \<Rightarrow> (cleanup_result outcome \<times> db) option" where
  "run_retention c w dry_run db =
     (case maintenance_now ''cleanup'' (rw_clock w) of
        Inl e \<Rightarrow> Some (Inl e, db)
      | Inr now \<Rightarrow>
          (case and_then (count_expired_terminal (retention_cutoffs c now) db) (\<lambda>eligible_jobs.
                and_then (count_expired_workers (aware_utc (now - days (rt_worker_days c))) db) (\<lambda>eligible_workers.
                Inr (eligible_jobs, eligible_workers))) of
             Inl e \<Rightarrow> Some (Inl e, db)
           | Inr (eligible_jobs, eligible_workers) \<Rightarrow>
               if dry_run
               then Some (Inr \<lparr> cr_eligible_jobs = eligible_jobs, cr_deleted_jobs = 0,
                 cr_eligible_workers = eligible_workers, cr_deleted_workers = 0, cr_dry_run = True \<rparr>, db)
               else run_deletions c w now eligible_jobs eligible_workers db))"

section \<open>Batches end\<close>

text \<open>
  A batch that never adds rows, whatever is committed before it: the loop is left after at most
  one batch more than there are full ones.
\<close>

lemma delete_batches_end:
  assumes "\<And>k db n db'. batch k db = (Inr n, db') \<Longrightarrow> rows db' + n \<le> (rows db :: nat)" and "0 < limit"
  shows "\<exists>r. delete_batches batch limit k tally db = Some r"
proof (induction "rows db" arbitrary: k tally db rule: less_induct)
  case less
  obtain r db' where b: "batch k db = (r, db')" by (cases "batch k db")
  show ?case
  proof (cases r)
    case (Inr n)
    have "rows db' < rows db" if "\<not> int n < limit"
      using assms(1) [OF b [unfolded Inr]] assms(2) that by linarith
    then show ?thesis using less [of db' "Suc k" "tally + n"] b Inr
      by (subst delete_batches.simps) auto
  qed (subst delete_batches.simps, simp add: b)
qed

lemma length_partition: "(\<And>x. x \<in> set xs \<Longrightarrow> Q x = (\<not> P x)) \<Longrightarrow> length (filter P xs) + length (filter Q xs) = length xs"
  using sum_length_filter_compl [of P xs] by (simp cong: filter_cong)

lemma delete_expired_jobs_count:
  "delete_expired_terminal cutoffs limit locked db = Inr (n, db') \<Longrightarrow> length (jobs db') + n = length (jobs db)"
  by (auto simp: delete_expired_terminal_def and_then_Inr_iff Let_def add.commute split: if_splits intro!: length_partition)

lemma delete_expired_workers_count:
  assumes "delete_expired_workers cutoff limit db = Inr (n, db')"
  shows "length (workers db') + n = length (workers db)"
proof -
  have "length (workers db') + n = length (workers db)"
    if "(if none then Inr (0, db) else Inr (length (filter P (workers db)), db \<lparr> workers := filter (\<lambda>w. \<not> P w) (workers db) \<rparr>)) =
      (Inr (n, db') :: (nat \<times> db) outcome)" for none P
    using that by (auto simp: add.commute sum_length_filter_compl split: if_splits)
  with assms show ?thesis unfolding delete_expired_workers_def and_then_Inr_iff Let_def by (elim exE conjE) blast
qed

text \<open>What other processes commit adds no job and no worker.\<close>

definition adds_no_rows :: "retention_world \<Rightarrow> bool" where
  "adds_no_rows w \<longleftrightarrow>
     (\<forall>k db. length (jobs (rw_job_others w k db)) \<le> length (jobs db)) \<and>
     (\<forall>k db. length (workers (rw_worker_others w k db)) \<le> length (workers db))"

lemma delete_jobs_ends:
  assumes "adds_no_rows w"
  shows "\<exists>r. delete_jobs c w cutoffs db = Some r"
proof (cases "0 < rt_batch_size c")
  case True
  have fewer: "length (jobs db2) + n \<le> length (jobs db1)"
    if run: "unit_of_work (delete_expired_terminal cutoffs (rt_batch_size c) (rw_locked w k)) (rw_job_others w k db1) = (Inr n, db2)"
    for k db1 n db2
  proof -
    have "length (jobs (rw_job_others w k db1)) \<le> length (jobs db1)" using assms by (simp add: adds_no_rows_def)
    with delete_expired_jobs_count [OF unit_of_work_committed [OF run]] show ?thesis by linarith
  qed
  show ?thesis unfolding delete_jobs_def by (rule delete_batches_end [where rows = "\<lambda>db. length (jobs db)", OF fewer True])
next
  case False
  then show ?thesis
    by (auto simp: delete_jobs_def delete_batches.simps unit_of_work_def delete_expired_terminal_def guard_else_def
        and_then_def split: py_error.splits sum.splits)
qed

lemma delete_workers_ends:
  assumes "adds_no_rows w"
  shows "\<exists>r. delete_workers c w cutoff db = Some r"
proof (cases "0 < rt_batch_size c")
  case True
  have fewer: "length (workers db2) + n \<le> length (workers db1)"
    if run: "unit_of_work (delete_expired_workers cutoff (rt_batch_size c)) (rw_worker_others w k db1) = (Inr n, db2)"
    for k db1 n db2
  proof -
    have "length (workers (rw_worker_others w k db1)) \<le> length (workers db1)" using assms by (simp add: adds_no_rows_def)
    with delete_expired_workers_count [OF unit_of_work_committed [OF run]] show ?thesis by linarith
  qed
  show ?thesis unfolding delete_workers_def by (rule delete_batches_end [where rows = "\<lambda>db. length (workers db)", OF fewer True])
next
  case False
  then show ?thesis
    by (auto simp: delete_workers_def delete_batches.simps unit_of_work_def delete_expired_workers_def guard_else_def
        and_then_def split: py_error.splits sum.splits)
qed

section \<open>What undisturbed batches delete\<close>

text \<open>
  The contract of a batch: it deletes as many of the remaining rows as it may, and the state that
  is left when none remains stays the same.
\<close>

locale batch_deletion =
  fixes batch :: "nat db_action" and limit :: int and inv :: "db \<Rightarrow> bool" and remaining :: "db \<Rightarrow> nat" and target :: "db \<Rightarrow> db"
  assumes deletes: "inv db \<Longrightarrow> \<exists>db'. batch db = Inr (min (nat limit) (remaining db), db') \<and> inv db' \<and>
      remaining db' = remaining db - nat limit \<and> target db' = target db"
    and cleared: "inv db \<Longrightarrow> remaining db = 0 \<Longrightarrow> target db = db"
    and positive: "inv db \<Longrightarrow> 1 \<le> limit"
begin

lemma batches_delete_all:
  "inv db \<Longrightarrow> delete_batches (\<lambda>k. unit_of_work batch) limit k tally db = Some (Inr (tally + remaining db), target db)"
proof (induction "remaining db" arbitrary: k tally db rule: less_induct)
  case less
  from deletes [OF less.prems] obtain db' where b: "batch db = Inr (min (nat limit) (remaining db), db')" and inv: "inv db'"
    and left: "remaining db' = remaining db - nat limit" and target: "target db' = target db" by blast
  have run: "unit_of_work batch db = (Inr (min (nat limit) (remaining db)), db')" by (simp add: unit_of_work_def b)
  show ?case
  proof (cases "int (min (nat limit) (remaining db)) < limit")
    case True
    then have "remaining db < nat limit" by linarith
    with left inv target cleared [OF inv] True show ?thesis
      by (subst delete_batches.simps) (simp add: run min_def split: if_splits)
  next
    case False
    then have "min (nat limit) (remaining db) = nat limit" "nat limit \<le> remaining db" "1 \<le> nat limit"
      using positive [OF less.prems] by linarith+
    moreover from this have "remaining db' < remaining db" using left by linarith
    moreover note less.hyps [OF this inv, of "Suc k" "tally + nat limit"]
    ultimately show ?thesis using False left target
      by (subst delete_batches.simps) (simp add: run)
  qed
qed

end

text \<open>One batch over rows with distinct keys: the first \<open>m\<close> of the expired ones in some order.\<close>

lemma one_batch:
  fixes f :: "'r \<Rightarrow> 'k" and key :: "'r \<Rightarrow> 'o::linorder"
  assumes "distinct (map f xs)" and "ids = map f (take m (sort_key key (filter E xs)))"
  shows "length (filter (\<lambda>x. f x \<in> set ids \<and> E x) xs) = min m (length (filter E xs))"
    and "filter (\<lambda>x. \<not> (f x \<in> set ids \<and> E x)) xs = filter (\<lambda>x. f x \<notin> set ids) xs"
    and "length (filter E (filter (\<lambda>x. f x \<notin> set ids) xs)) = length (filter E xs) - m"
    and "filter (\<lambda>x. \<not> E x) (filter (\<lambda>x. f x \<notin> set ids) xs) = filter (\<lambda>x. \<not> E x) xs"
    and "set ids \<union> f ` set (filter E (filter (\<lambda>x. f x \<notin> set ids) xs)) = f ` set (filter E xs)"
proof -
  have inj: "x = y" if "x \<in> set xs" "y \<in> set xs" "f x = f y" for x y
    using assms(1) that by (auto simp: distinct_map dest: inj_onD)
  have ids: "set ids \<subseteq> f ` set (filter E xs)" using set_take_subset [of m "sort_key key (filter E xs)"] by (auto simp: assms(2))
  have chosen: "E x" if x: "x \<in> set xs" "f x \<in> set ids" for x
  proof -
    from x(2) ids obtain y where "y \<in> set xs" "E y" "f x = f y" by auto
    with inj [OF x(1)] show ?thesis by metis
  qed
  have "distinct (map f (sort_key key (filter E xs)))"
    using assms(1) by (auto simp: distinct_map intro: inj_on_subset)
  then have "distinct ids" by (simp add: assms(2) take_map [symmetric] distinct_take)
  have "f ` set (filter (\<lambda>x. f x \<in> set ids \<and> E x) xs) = set ids" using ids chosen by auto
  moreover have "distinct (map f (filter (\<lambda>x. f x \<in> set ids \<and> E x) xs))"
    using assms(1) by (simp add: distinct_map_filter)
  ultimately have "length (filter (\<lambda>x. f x \<in> set ids \<and> E x) xs) = length ids"
    using distinct_card [of "map f (filter (\<lambda>x. f x \<in> set ids \<and> E x) xs)"] distinct_card [OF \<open>distinct ids\<close>] by simp
  also have "\<dots> = min m (length (filter E xs))" by (simp add: assms(2))
  finally show n: "length (filter (\<lambda>x. f x \<in> set ids \<and> E x) xs) = min m (length (filter E xs))" .
  show "filter (\<lambda>x. \<not> (f x \<in> set ids \<and> E x)) xs = filter (\<lambda>x. f x \<notin> set ids) xs"
    using chosen by (auto intro: filter_cong)
  have "length (filter (\<lambda>x. f x \<in> set ids) (filter E xs)) + length (filter (\<lambda>x. f x \<notin> set ids) (filter E xs)) = length (filter E xs)"
    by (rule length_partition) simp
  with n show "length (filter E (filter (\<lambda>x. f x \<notin> set ids) xs)) = length (filter E xs) - m"
    by (simp add: conj_commute)
  show "filter (\<lambda>x. \<not> E x) (filter (\<lambda>x. f x \<notin> set ids) xs) = filter (\<lambda>x. \<not> E x) xs"
    using chosen by (auto intro: filter_cong)
  show "set ids \<union> f ` set (filter E (filter (\<lambda>x. f x \<notin> set ids) xs)) = f ` set (filter E xs)"
    using ids by auto
qed

text \<open>What is expired, and what the database is without it.\<close>

definition job_expired :: "retention \<Rightarrow> instant \<Rightarrow> job \<Rightarrow> bool" where
  "job_expired c now j =
     (case job_status j of
        SUCCEEDED \<Rightarrow> (case job_completed_at j of Some t \<Rightarrow> t \<le> now - days (rt_succeeded_days c) | None \<Rightarrow> False)
      | FAILED \<Rightarrow> (case job_completed_at j of Some t \<Rightarrow> t \<le> now - days (rt_failed_days c) | None \<Rightarrow> False)
      | CANCELLED \<Rightarrow>
          (case job_completed_at j of
             Some t \<Rightarrow> t \<le> now - days (rt_cancelled_days c)
           | None \<Rightarrow> (case job_cancellation_requested_at j of Some t \<Rightarrow> t \<le> now - days (rt_cancelled_days c) | None \<Rightarrow> False))
      | _ \<Rightarrow> False)"

definition without_expired_jobs :: "retention \<Rightarrow> instant \<Rightarrow> db \<Rightarrow> db" where
  "without_expired_jobs c now db =
     db \<lparr> job_events := filter (\<lambda>e. ev_job_id e \<notin> job_id ` set (filter (job_expired c now) (jobs db))) (job_events db),
          jobs := filter (\<lambda>j. \<not> job_expired c now j) (jobs db) \<rparr>"

definition without_expired_workers :: "instant \<Rightarrow> db \<Rightarrow> db" where
  "without_expired_workers cutoff db = db \<lparr> workers := filter (\<lambda>w. \<not> worker_expired cutoff w) (workers db) \<rparr>"

text \<open>The condition of one cutoff, and the three of a cleanup.\<close>

definition past_cutoff :: "instant \<Rightarrow> job_status \<Rightarrow> int \<Rightarrow> job \<Rightarrow> bool" where
  "past_cutoff now status n j \<longleftrightarrow>
     job_status j = status \<and>
     (case job_completed_at j of
        Some t \<Rightarrow> t \<le> now - days n
      | None \<Rightarrow> status = CANCELLED \<and> (case job_cancellation_requested_at j of Some t \<Rightarrow> t \<le> now - days n | None \<Rightarrow> False))"

lemma retention_cutoff_conditions:
  "retention_conditions (retention_cutoffs c now) =
     Inr [past_cutoff now SUCCEEDED (rt_succeeded_days c), past_cutoff now FAILED (rt_failed_days c),
       past_cutoff now CANCELLED (rt_cancelled_days c)]"
  by (simp add: retention_conditions_def retention_cutoffs_def terminal_def guard_else_def past_cutoff_def [abs_def])

lemma past_some_cutoff:
  "past_cutoff now SUCCEEDED (rt_succeeded_days c) j \<or> past_cutoff now FAILED (rt_failed_days c) j \<or>
   past_cutoff now CANCELLED (rt_cancelled_days c) j \<longleftrightarrow> job_expired c now j"
  by (cases "job_status j") (simp_all add: past_cutoff_def job_expired_def split: option.split)

lemma cutoff_conditions:
  obtains cs where "retention_conditions (retention_cutoffs c now) = Inr cs" "\<And>j. list_ex (\<lambda>P. P j) cs = job_expired c now j"
  by (rule that [OF retention_cutoff_conditions]) (simp add: past_some_cutoff)

interpretation jobs: batch_deletion "delete_expired_terminal (retention_cutoffs c now) (rt_batch_size c) {}"
  "rt_batch_size c" "\<lambda>db. 1 \<le> rt_batch_size c \<and> distinct (map job_id (jobs db))"
  "\<lambda>db. length (filter (job_expired c now) (jobs db))" "without_expired_jobs c now"
proof unfold_locales
  fix db :: db
  let ?m = "nat (rt_batch_size c)"
  assume inv: "1 \<le> rt_batch_size c \<and> distinct (map job_id (jobs db))"
  obtain cs where cs: "retention_conditions (retention_cutoffs c now) = Inr cs"
    and ex: "\<And>j. list_ex (\<lambda>P. P j) cs = job_expired c now j" using cutoff_conditions [of c now] by blast
  define ids where "ids = expired_batch cs (rt_batch_size c) {} db"
  have form: "ids = map job_id (take ?m (sort_key
       (\<lambda>j. (job_completed_at j \<noteq> None, case job_completed_at j of Some t \<Rightarrow> t | None \<Rightarrow> 0, job_id j))
       (filter (job_expired c now) (jobs db))))"
    by (simp add: ids_def expired_batch_def expired_jobs_def ex)
  note b = one_batch [OF conjunct2 [OF inv] form]
  let ?db = "db \<lparr> job_events := filter (\<lambda>e. ev_job_id e \<notin> set ids) (job_events db), jobs := filter (\<lambda>j. job_id j \<notin> set ids) (jobs db) \<rparr>"
  have "delete_expired_terminal (retention_cutoffs c now) (rt_batch_size c) {} db =
      Inr (min ?m (length (filter (job_expired c now) (jobs db))), ?db)"
  proof (cases "ids = []")
    case True
    then have "min ?m (length (filter (job_expired c now) (jobs db))) = 0" using b(1) by simp
    then show ?thesis using inv True
      by (simp add: delete_expired_terminal_def cs guard_else_def ids_def [symmetric] del: min_0R min_0L)
  next
    case False
    then show ?thesis using inv b(1,2)
      by (simp add: delete_expired_terminal_def cs guard_else_def ids_def [symmetric] ex)
  qed
  moreover have "distinct (map job_id (jobs ?db))" using inv by (simp add: distinct_map_filter)
  moreover have "without_expired_jobs c now ?db = without_expired_jobs c now db"
    using b(4) by (simp add: without_expired_jobs_def b(5) [symmetric] image_Un del: set_filter cong: filter_cong)
  ultimately show "\<exists>db'. delete_expired_terminal (retention_cutoffs c now) (rt_batch_size c) {} db =
      Inr (min ?m (length (filter (job_expired c now) (jobs db))), db') \<and>
      (1 \<le> rt_batch_size c \<and> distinct (map job_id (jobs db'))) \<and>
      length (filter (job_expired c now) (jobs db')) = length (filter (job_expired c now) (jobs db)) - ?m \<and>
      without_expired_jobs c now db' = without_expired_jobs c now db"
    using inv b(3) by (intro exI [of _ ?db]) simp
qed (auto simp: without_expired_jobs_def filter_empty_conv)

interpretation workers: batch_deletion "delete_expired_workers (aware_utc cutoff) limit"
  limit "\<lambda>db. 1 \<le> limit \<and> distinct (map wk_worker_id (workers db))"
  "\<lambda>db. length (filter (worker_expired cutoff) (workers db))" "without_expired_workers cutoff"
proof unfold_locales
  fix db :: db
  assume inv: "1 \<le> limit \<and> distinct (map wk_worker_id (workers db))"
  define ids where "ids = map wk_worker_id (take (nat limit)
           (sort_key (\<lambda>w. (wk_heartbeat_at w, wk_worker_id w)) (filter (worker_expired cutoff) (workers db))))"
  note b = one_batch [OF conjunct2 [OF inv] ids_def]
  let ?db = "db \<lparr> workers := filter (\<lambda>w. wk_worker_id w \<notin> set ids) (workers db) \<rparr>"
  have "delete_expired_workers (aware_utc cutoff) limit db =
      Inr (min (nat limit) (length (filter (worker_expired cutoff) (workers db))), ?db)"
  proof (cases "ids = []")
    case True
    then have "min (nat limit) (length (filter (worker_expired cutoff) (workers db))) = 0" using b(1) by simp
    then show ?thesis using inv True
      by (simp add: delete_expired_workers_def guard_else_def ids_def [symmetric] Let_def del: min_0R min_0L)
  next
    case False
    then have "sort_key (\<lambda>w. (wk_heartbeat_at w, wk_worker_id w)) (filter (worker_expired cutoff) (workers db)) \<noteq> []"
      by (auto simp: ids_def)
    with False show ?thesis using inv b(1,2)
      by (simp add: delete_expired_workers_def guard_else_def ids_def [symmetric] Let_def)
  qed
  moreover have "distinct (map wk_worker_id (workers ?db))" using inv by (simp add: distinct_map_filter)
  moreover have "without_expired_workers cutoff ?db = without_expired_workers cutoff db"
    using b(4) by (simp add: without_expired_workers_def)
  ultimately show "\<exists>db'. delete_expired_workers (aware_utc cutoff) limit db =
      Inr (min (nat limit) (length (filter (worker_expired cutoff) (workers db))), db') \<and>
      (1 \<le> limit \<and> distinct (map wk_worker_id (workers db'))) \<and>
      length (filter (worker_expired cutoff) (workers db')) = length (filter (worker_expired cutoff) (workers db)) - nat limit \<and>
      without_expired_workers cutoff db' = without_expired_workers cutoff db"
    using inv b(3) by (intro exI [of _ ?db]) simp
qed (auto simp: without_expired_workers_def filter_empty_conv)

definition undisturbed :: "retention_world \<Rightarrow> bool" where
  "undisturbed w \<longleftrightarrow>
     rw_job_others w = (\<lambda>_ s. s) \<and> rw_worker_others w = (\<lambda>_ s. s) \<and> rw_locked w = (\<lambda>_. {})"

definition cleanup_counts :: "nat \<Rightarrow> nat \<Rightarrow> bool \<Rightarrow> cleanup_result" where
  "cleanup_counts n m dry_run =
     \<lparr> cr_eligible_jobs = n, cr_deleted_jobs = (if dry_run then 0 else n), cr_eligible_workers = m,
       cr_deleted_workers = (if dry_run then 0 else m), cr_dry_run = dry_run \<rparr>"

lemma expired_counts:
  "count_expired_terminal (retention_cutoffs c now) db = Inr (length (filter (job_expired c now) (jobs db)))"
  "count_expired_workers (aware_utc cutoff) db = Inr (length (filter (worker_expired cutoff) (workers db)))"
proof -
  obtain cs where "retention_conditions (retention_cutoffs c now) = Inr cs"
    "\<And>j. list_ex (\<lambda>P. P j) cs = job_expired c now j" using cutoff_conditions [of c now] by blast
  then show "count_expired_terminal (retention_cutoffs c now) db = Inr (length (filter (job_expired c now) (jobs db)))"
    by (simp add: count_expired_terminal_def expired_jobs_def)
qed (simp add: count_expired_workers_def)

section \<open>Properties of the retention cleanup\<close>

text \<open>
  C25: The cleanup ends.  Its two loops return after finitely many batches, with a result or an
  error, as long as the transactions of other processes in between add no jobs and no workers,
  whatever else they change and whichever rows they lock.
\<close>

theorem retention_ends:
  assumes "adds_no_rows w"
  shows "\<exists>r. run_retention c w dry_run db = Some r"
proof -
  have "\<exists>r. run_deletions c w now n m s = Some r" for now n m s
  proof -
    obtain x s1 where jobs: "delete_jobs c w (retention_cutoffs c now) s = Some (x, s1)"
      using delete_jobs_ends [OF assms] by force
    obtain y s2 where "delete_workers c w (aware_utc (now - days (rt_worker_days c))) s1 = Some (y, s2)"
      using delete_workers_ends [OF assms] by force
    with jobs show ?thesis by (cases x; cases y) (simp_all add: run_deletions_def)
  qed
  then show ?thesis by (simp add: run_retention_def expired_counts split: sum.split)
qed

text \<open>
  C24: The cleanup removes what is due and nothing else.  Undisturbed, it deletes, in batches of
  any positive size, exactly the finished jobs and the silent workers whose retention has passed,
  and the history of those jobs; it reports as many as it counted, every other row of every table stays as
  it was, and a dry run only counts.
\<close>

theorem retention_deletes_what_is_due:
  assumes "retention_init c = Inr c'" and "undisturbed w" and "maintenance_now ''cleanup'' (rw_clock w) = Inr now"
    and "distinct (map job_id (jobs db))" and "distinct (map wk_worker_id (workers db))"
  shows "run_retention c w dry_run db =
    Some (Inr (cleanup_counts (length (filter (job_expired c now) (jobs db)))
        (length (filter (worker_expired (now - days (rt_worker_days c))) (workers db))) dry_run),
      if dry_run then db else without_expired_workers (now - days (rt_worker_days c)) (without_expired_jobs c now db))"
proof (cases dry_run)
  case False
  let ?cutoff = "now - days (rt_worker_days c)"
  have batch: "1 \<le> rt_batch_size c" using assms(1) by (auto simp: retention_init_def and_then_Inr_iff guard_else_Inr_iff)
  have "delete_jobs c w (retention_cutoffs c now) db =
      Some (Inr (length (filter (job_expired c now) (jobs db))), without_expired_jobs c now db)"
    using jobs.batches_delete_all [of c db now 0 0] batch assms(2,4) by (simp add: delete_jobs_def undisturbed_def)
  moreover have "workers (without_expired_jobs c now db) = workers db" by (simp add: without_expired_jobs_def)
  then have "delete_workers c w (aware_utc ?cutoff) (without_expired_jobs c now db) =
      Some (Inr (length (filter (worker_expired ?cutoff) (workers db))),
        without_expired_workers ?cutoff (without_expired_jobs c now db))"
    using workers.batches_delete_all [of "rt_batch_size c" "without_expired_jobs c now db" ?cutoff 0 0] batch assms(2,5)
    by (simp add: delete_workers_def undisturbed_def)
  ultimately show ?thesis
    using False by (simp add: run_retention_def run_deletions_def assms(3) expired_counts cleanup_counts_def)
qed (simp add: run_retention_def assms(3) expired_counts cleanup_counts_def)

definition small_retention :: retention where
  "small_retention = \<lparr> rt_succeeded_days = 1, rt_failed_days = 2, rt_cancelled_days = 1, rt_worker_days = 1, rt_batch_size = 1 \<rparr>"

definition night :: retention_world where
  "night = \<lparr> rw_clock = DateTime (days 2) (Some 0), rw_job_others = (\<lambda>_ s. s), rw_locked = (\<lambda>_. {}),
     rw_worker_others = (\<lambda>_ s. s) \<rparr>"

definition night_db :: db where
  "night_db = sample_queue [sample_job 1 1 SUCCEEDED LOW 1, sample_job 2 1 FAILED LOW 1, sample_job 3 1 CANCELLED LOW 0,
       sample_job 4 1 RUNNING LOW 1]
     \<lparr> workers := [\<lparr> wk_worker_id = ''w1'', wk_status = WORKER_RUNNING, wk_started_at = 0, wk_heartbeat_at = 0,
         wk_stopped_at = None \<rparr>] \<rparr>"

theorem retention_ends_witness:
  "\<exists>r. run_retention small_retention (night \<lparr> rw_locked := (\<lambda>k. if k = 0 then {1} else {}) \<rparr>) False night_db = Some r"
  by (rule retention_ends) (simp add: adds_no_rows_def night_def)

theorem retention_deletes_what_is_due_witness:
  "run_retention small_retention night False night_db =
     Some (Inr (cleanup_counts 2 1 False), without_expired_workers (days 1) (without_expired_jobs small_retention (days 2) night_db)) \<and>
   map job_id (jobs (without_expired_jobs small_retention (days 2) night_db)) = [2, 4]"
proof -
  have "retention_init small_retention = Inr small_retention" "undisturbed night"
    "maintenance_now ''cleanup'' (rw_clock night) = Inr (days 2)"
    by (simp_all add: retention_init_def small_retention_def guard_else_def undisturbed_def night_def maintenance_now_def)
  moreover have "distinct (map job_id (jobs night_db))" "distinct (map wk_worker_id (workers night_db))"
    by (simp_all add: night_db_def sample_queue_def)
  moreover have "map job_id (filter (job_expired small_retention (days 2)) (jobs night_db)) = [1, 3]"
    "length (filter (worker_expired (days 2 - days (rt_worker_days small_retention))) (workers night_db)) = 1"
    "map job_id (jobs (without_expired_jobs small_retention (days 2) night_db)) = [2, 4]" by code_simp+
  moreover from this(1) have "length (filter (job_expired small_retention (days 2)) (jobs night_db)) = 2"
    by (metis length_map list.size(3) list.size(4) numeral_2_eq_2 One_nat_def add_0 Suc_eq_plus1)
  moreover have "days 2 - days (rt_worker_days small_retention) = days 1" by (simp add: days_def seconds_def small_retention_def)
  ultimately show ?thesis
    using retention_deletes_what_is_due [of small_retention small_retention night "days 2" night_db False] by simp
qed

end
