(* ===== verification/Storage_Upkeep.thy ===== *)
theory Storage_Upkeep
  imports Retention File_Routes
begin

text \<open>
  The maintenance commands over the object store: \<open>maintenance/orphan_cleanup.py\<close> and
  \<open>maintenance/storage_integrity.py\<close>.  A command goes through the organizations; for each it reads
  the database, calls the store and, when asked to, deletes objects or rewrites a counter.  What
  other processes do to the database and the store between these steps is an argument.
\<close>

section \<open>Objects without a row\<close>

text \<open>
  The surroundings of a command over the object store: the clock, and what other processes do to
  the database and the store before the \<open>k\<close>-th step for the \<open>i\<close>-th organization.
\<close>

record 's store_world =
  sw_clock :: datetime
  sw_others :: "nat \<Rightarrow> nat \<Rightarrow> db \<times> 's \<Rightarrow> db \<times> 's"

definition candidates_of :: "'s provider \<Rightarrow> uuid \<Rightarrow> instant \<Rightarrow> int \<Rightarrow> ('s, object_candidate list) route" where
  "candidates_of pv org cutoff limit st = (pv_list_older_than pv (uuid_text org) cutoff limit (snd st), st)"

definition delete_stored_object :: "'s provider \<Rightarrow> string \<Rightarrow> ('s, unit) route" where
  "delete_stored_object pv k st = (case pv_delete pv k (snd st) of (r, s') \<Rightarrow> (r, (fst st, s')))"

text \<open>The loop over the candidates of a tenant; it counts those without a row and the deleted ones.\<close>

fun sweep_candidates ::
  "'s provider \<Rightarrow> (nat \<Rightarrow> db \<times> 's \<Rightarrow> db \<times> 's) \<Rightarrow> bool \<Rightarrow> string set \<Rightarrow> nat \<Rightarrow> object_candidate list \<Rightarrow>
   nat \<times> nat \<Rightarrow> ('s, nat \<times> nat) route" where
  "sweep_candidates pv others deleting kept k [] counts st = (Inr counts, st)"
| "sweep_candidates pv others deleting kept k (c # cs) counts st =
     (if oc_storage_key c \<in> kept
      then sweep_candidates pv others deleting kept (Suc k) cs counts (others k st)
      else if deleting
      then (case delete_stored_object pv (oc_storage_key c) (others k st) of
          (Inl e, st') \<Rightarrow> (Inl e, st')
        | (Inr _, st') \<Rightarrow>
            sweep_candidates pv others deleting kept (Suc k) cs (fst counts + 1, snd counts + 1) st')
      else sweep_candidates pv others deleting kept (Suc k) cs (fst counts + 1, snd counts) (others k st))"

section \<open>\<open>AbandonedUploadCleanup\<close>\<close>

record upload_cleanup =
  up_retention_hours :: int
  up_batch_size :: int

definition upload_cleanup_init :: "upload_cleanup \<Rightarrow> upload_cleanup outcome" where
  "upload_cleanup_init c =
     and_then (guard_else (1 \<le> up_retention_hours c \<and> 1 \<le> up_batch_size c)
       (ValueError ''retention_hours and batch_size must be positive'')) (\<lambda>_.
     Inr c)"

record orphan_cleanup_result =
  or_eligible_objects :: nat
  or_deleted_objects :: nat
  or_dry_run :: bool

definition hours :: "int \<Rightarrow> int" where
  "hours n = seconds (n * 3600)"

definition clean_organization ::
  "'s provider \<Rightarrow> upload_cleanup \<Rightarrow> 's store_world \<Rightarrow> bool \<Rightarrow> instant \<Rightarrow> nat \<Rightarrow> uuid \<Rightarrow> nat \<times> nat \<Rightarrow> ('s, nat \<times> nat) route" where
  "clean_organization pv c w dry_run cutoff i org counts st =
     (case candidates_of pv org cutoff (up_batch_size c) (sw_others w i 0 st) of
        (Inl e, st1) \<Rightarrow> (Inl e, st1)
      | (Inr candidates, st1) \<Rightarrow>
          let st2 = sw_others w i 1 st1 in
          sweep_candidates pv (sw_others w i) (\<not> dry_run) (referenced_storage_keys org (fst st2)) 2 candidates counts st2)"

fun clean_organizations ::
  "'s provider \<Rightarrow> upload_cleanup \<Rightarrow> 's store_world \<Rightarrow> bool \<Rightarrow> instant \<Rightarrow> nat \<Rightarrow> uuid list \<Rightarrow> nat \<times> nat \<Rightarrow> ('s, nat \<times> nat) route" where
  "clean_organizations pv c w dry_run cutoff i [] counts st = (Inr counts, st)"
| "clean_organizations pv c w dry_run cutoff i (org # orgs) counts st =
     (case clean_organization pv c w dry_run cutoff i org counts st of
        (Inl e, st') \<Rightarrow> (Inl e, st')
      | (Inr counts', st') \<Rightarrow> clean_organizations pv c w dry_run cutoff (Suc i) orgs counts' st')"

definition run_upload_cleanup ::
  "'s provider \<Rightarrow> upload_cleanup \<Rightarrow> 's store_world \<Rightarrow> bool \<Rightarrow> ('s, orphan_cleanup_result) route" where
  "run_upload_cleanup pv c w dry_run st =
     (case maintenance_now ''cleanup'' (sw_clock w) of
        Inl e \<Rightarrow> (Inl e, st)
      | Inr now \<Rightarrow>
          (case clean_organizations pv c w dry_run (now - hours (up_retention_hours c)) 0 (list_ids (fst st)) (0, 0) st of
             (Inl e, st') \<Rightarrow> (Inl e, st')
           | (Inr (found, deleted), st') \<Rightarrow>
               (Inr \<lparr> or_eligible_objects = found, or_deleted_objects = deleted, or_dry_run = dry_run \<rparr>, st')))"

section \<open>\<open>StorageIntegrityVerifier\<close>\<close>

record verifier =
  vf_grace_hours :: int
  vf_batch_size :: int

definition verifier_init :: "verifier \<Rightarrow> verifier outcome" where
  "verifier_init c =
     and_then (guard_else (1 \<le> vf_grace_hours c \<and> 1 \<le> vf_batch_size c)
       (ValueError ''grace_hours and batch_size must be positive'')) (\<lambda>_.
     Inr c)"

record integrity_result =
  ir_checked_records :: nat
  ir_missing_objects :: nat
  ir_mismatched_objects :: nat
  ir_abandoned_objects :: nat
  ir_usage_mismatches :: nat
  ir_deleted_objects :: nat
  ir_repaired_usage_counters :: nat
  ir_repair :: bool

text \<open>The counter of an organization against its files; the new value is committed at once.\<close>

definition check_usage :: "bool \<Rightarrow> uuid \<Rightarrow> integrity_result \<Rightarrow> (db, integrity_result) task" where
  "check_usage repair org r db =
     (case get_organization org db of
        Inl e \<Rightarrow> (Inl e, db)
      | Inr organization \<Rightarrow>
          let expected = total_stored_size org db in
          if org_storage_used_bytes organization = expected then (Inr r, db)
          else if repair
          then (case save_organization (organization \<lparr> org_storage_used_bytes := expected \<rparr>) db of
              Inl e \<Rightarrow> (Inl e, db)
            | Inr (_, db') \<Rightarrow>
                (Inr (r \<lparr> ir_usage_mismatches := ir_usage_mismatches r + 1,
                    ir_repaired_usage_counters := ir_repaired_usage_counters r + 1 \<rparr>), db'))
          else (Inr (r \<lparr> ir_usage_mismatches := ir_usage_mismatches r + 1 \<rparr>), db))"

fun check_object :: "'s provider \<Rightarrow> 's \<Rightarrow> source_file \<Rightarrow> integrity_result \<Rightarrow> integrity_result outcome" where
  "check_object pv s f r =
     (let r1 = r \<lparr> ir_checked_records := ir_checked_records r + 1 \<rparr> in
      case pv_stat pv (case file_storage_key f of None \<Rightarrow> [] | Some k \<Rightarrow> k) s of
        Inl e \<Rightarrow>
          if e = storage_error ''StorageNotFoundError''
          then Inr (r1 \<lparr> ir_missing_objects := ir_missing_objects r1 + 1 \<rparr>) else Inl e
      | Inr m \<Rightarrow>
          if om_size_bytes m \<noteq> file_size_bytes f \<or>
            (case om_checksum_sha256 m of None \<Rightarrow> False | Some x \<Rightarrow> x \<noteq> file_checksum_sha256 f)
          then Inr (r1 \<lparr> ir_mismatched_objects := ir_mismatched_objects r1 + 1 \<rparr>)
          else Inr r1)"

definition verify_organization ::
  "'s provider \<Rightarrow> verifier \<Rightarrow> 's store_world \<Rightarrow> bool \<Rightarrow> instant \<Rightarrow> nat \<Rightarrow> uuid \<Rightarrow> integrity_result \<Rightarrow> ('s, integrity_result) route" where
  "verify_organization pv c w repair cutoff i org r st =
     (let (db, s) = sw_others w i 0 st;
          records = list_stored_files org (vf_batch_size c) db;
          kept = referenced_storage_keys org db in
      case check_usage repair org r db of
        (Inl e, db') \<Rightarrow> (Inl e, (db', s))
      | (Inr r1, db') \<Rightarrow>
          let st1 = sw_others w i 1 (db', s) in
          (case fold_err (check_object pv (snd st1)) records r1 of
             Inl e \<Rightarrow> (Inl e, st1)
           | Inr r2 \<Rightarrow>
               (case candidates_of pv org cutoff (vf_batch_size c) (sw_others w i 2 st1) of
                  (Inl e, st2) \<Rightarrow> (Inl e, st2)
                | (Inr candidates, st2) \<Rightarrow>
                    (case sweep_candidates pv (sw_others w i) repair kept 3 candidates
                        (ir_abandoned_objects r2, ir_deleted_objects r2) st2 of
                       (Inl e, st3) \<Rightarrow> (Inl e, st3)
                     | (Inr (abandoned, deleted), st3) \<Rightarrow>
                         (Inr (r2 \<lparr> ir_abandoned_objects := abandoned, ir_deleted_objects := deleted \<rparr>), st3)))))"

fun verify_organizations ::
  "'s provider \<Rightarrow> verifier \<Rightarrow> 's store_world \<Rightarrow> bool \<Rightarrow> instant \<Rightarrow> nat \<Rightarrow> uuid list \<Rightarrow> integrity_result \<Rightarrow> ('s, integrity_result) route" where
  "verify_organizations pv c w repair cutoff i [] r st = (Inr r, st)"
| "verify_organizations pv c w repair cutoff i (org # orgs) r st =
     (case verify_organization pv c w repair cutoff i org r st of
        (Inl e, st') \<Rightarrow> (Inl e, st')
      | (Inr r', st') \<Rightarrow> verify_organizations pv c w repair cutoff (Suc i) orgs r' st')"

definition run_verifier :: "'s provider \<Rightarrow> verifier \<Rightarrow> 's store_world \<Rightarrow> bool \<Rightarrow> ('s, integrity_result) route" where
  "run_verifier pv c w repair st =
     (case maintenance_now ''verification'' (sw_clock w) of
        Inl e \<Rightarrow> (Inl e, st)
      | Inr now \<Rightarrow>
          verify_organizations pv c w repair (now - hours (vf_grace_hours c)) 0 (list_ids (fst st))
            \<lparr> ir_checked_records = 0, ir_missing_objects = 0, ir_mismatched_objects = 0, ir_abandoned_objects = 0,
              ir_usage_mismatches = 0, ir_deleted_objects = 0, ir_repaired_usage_counters = 0, ir_repair = repair \<rparr> st)"

section \<open>What a sweep deletes\<close>

definition calm :: "'s store_world \<Rightarrow> bool" where
  "calm w \<longleftrightarrow> sw_others w = (\<lambda>_ _ st. st)"

text \<open>The namespaces of the tenants have no key in common.\<close>

definition tenants_apart :: "(string \<Rightarrow> string \<Rightarrow> bool outcome) \<Rightarrow> db \<Rightarrow> bool" where
  "tenants_apart inside db \<longleftrightarrow>
     (\<forall>a \<in> set (list_ids db). \<forall>b \<in> set (map run_organization_id (runs db)). \<forall>k.
        inside k (uuid_text a) = Inr True \<longrightarrow> inside k (uuid_text b) = Inr True \<longrightarrow> a = b)"

lemma sweep_db: "fst (snd (sweep_candidates pv (\<lambda>_ st. st) deleting kept k cs counts st)) = fst st"
  by (induction cs arbitrary: k counts st) (auto simp: delete_stored_object_def split: prod.split sum.split)

lemma referenced_key:
  "f \<in> set (source_files db) \<Longrightarrow> file_storage_key f = Some k \<Longrightarrow> run_of_tenant (file_run_id f) org db \<Longrightarrow>
   k \<in> referenced_storage_keys org db"
  by (force simp: referenced_storage_keys_def List.map_filter_def)

text \<open>A store that lists only objects of the namespace it was asked for.\<close>

locale listing_storage = file_storage +
  assumes listed: "pv_list_older_than pv ns cutoff limit s = Inr cs \<Longrightarrow> c \<in> set cs \<Longrightarrow>
      pv_belongs_to_namespace pv (oc_storage_key c) ns = Inr True"
begin

lemma sweep_contents:
  "contents (snd (snd (sweep_candidates pv (\<lambda>_ st. st) deleting kept k cs counts st))) j = contents (snd st) j \<or>
   j \<in> oc_storage_key ` set cs \<and> j \<notin> kept"
proof (induction cs arbitrary: k counts st)
  case (Cons c cs)
  show ?case
  proof (cases "oc_storage_key c \<notin> kept \<and> deleting")
    case True
    obtain r s' where d: "pv_delete pv (oc_storage_key c) (snd st) = (r, s')" by (cases "pv_delete pv (oc_storage_key c) (snd st)")
    have "contents s' j = contents (snd st) j \<or> j = oc_storage_key c" using deleted_only [of "oc_storage_key c" "snd st" j] d by auto
    with True d Cons.IH [of "Suc k" "(fst counts + 1, snd counts + 1)" "(fst st, s')"] show ?thesis
      by (cases r) (auto simp: delete_stored_object_def)
  next
    case False
    with Cons.IH [of "Suc k" counts st] Cons.IH [of "Suc k" "(fst counts + 1, snd counts)" st] show ?thesis by auto
  qed
qed simp

text \<open>A sweep over the candidates of one tenant leaves the objects of all rows in place.\<close>

lemma sweep_keeps_backed:
  assumes "backed (pv_belongs_to_namespace pv) (contents (snd st)) (fst st)"
    and "tenants_apart (pv_belongs_to_namespace pv) (fst st)" and "org \<in> set (list_ids (fst st))"
    and "pv_list_older_than pv (uuid_text org) cutoff limit (snd st) = Inr cs" and "kept = referenced_storage_keys org (fst st)"
  shows "backed (pv_belongs_to_namespace pv)
      (contents (snd (snd (sweep_candidates pv (\<lambda>_ st. st) deleting kept k cs counts st)))) (fst st)"
proof (rule backed_contents [OF assms(1)])
  fix j
  assume "j \<in> set (stored_keys (fst st))"
  then obtain f where f: "f \<in> set (source_files (fst st))" "file_storage_key f = Some j" by (auto simp: in_stored_keys)
  with assms(1) obtain b where b: "run_of_tenant (file_run_id f) b (fst st)" "pv_belongs_to_namespace pv j (uuid_text b) = Inr True"
    by (auto simp: backed_def object_for_def)
  have "j \<in> kept" if "j \<in> oc_storage_key ` set cs"
  proof -
    from that listed [OF assms(4)] have "pv_belongs_to_namespace pv j (uuid_text org) = Inr True" by auto
    moreover have "b \<in> set (map run_organization_id (runs (fst st)))" using b(1) by (auto simp: run_of_tenant_def list_ex_iff)
    ultimately have "org = b" using assms(2,3) b(2) by (auto simp: tenants_apart_def)
    with b(1) f assms(5) show ?thesis by (simp add: referenced_key)
  qed
  with sweep_contents [of deleting kept k cs counts st j]
  show "contents (snd (snd (sweep_candidates pv (\<lambda>_ st. st) deleting kept k cs counts st))) j = contents (snd st) j" by blast
qed

lemma clean_organizations_keep_backed:
  assumes "calm w" and "backed (pv_belongs_to_namespace pv) (contents (snd st)) (fst st)"
    and "tenants_apart (pv_belongs_to_namespace pv) (fst st)" and "set orgs \<subseteq> set (list_ids (fst st))"
    and "clean_organizations pv c w dry_run cutoff i orgs counts st = (r, st')"
  shows "fst st' = fst st \<and> backed (pv_belongs_to_namespace pv) (contents (snd st')) (fst st')"
  using assms
proof (induction orgs arbitrary: i counts st)
  case (Cons org orgs)
  obtain x st1 where one: "clean_organization pv c w dry_run cutoff i org counts st = (x, st1)"
    by (cases "clean_organization pv c w dry_run cutoff i org counts st")
  have first: "fst st1 = fst st \<and> backed (pv_belongs_to_namespace pv) (contents (snd st1)) (fst st1)"
  proof (cases "pv_list_older_than pv (uuid_text org) cutoff (up_batch_size c) (snd st)")
    case (Inl e)
    with one Cons.prems(1,2) show ?thesis by (auto simp: clean_organization_def candidates_of_def calm_def)
  next
    case (Inr cs)
    with one Cons.prems(1) have st1: "st1 = snd (sweep_candidates pv (\<lambda>_ st. st) (\<not> dry_run)
        (referenced_storage_keys org (fst st)) 2 cs counts st)"
      by (auto simp: clean_organization_def candidates_of_def calm_def Let_def)
    moreover have "org \<in> set (list_ids (fst st))" using Cons.prems(4) by simp
    ultimately show ?thesis using sweep_keeps_backed [OF Cons.prems(2,3) _ Inr refl] by (simp add: sweep_db)
  qed
  show ?case
  proof (cases x)
    case (Inr y)
    with Cons.prems(5) one have rest: "clean_organizations pv c w dry_run cutoff (Suc i) orgs y st1 = (r, st')" by simp
    have "set orgs \<subseteq> set (list_ids (fst st1))" using first Cons.prems(4) by simp
    with first Cons.prems(3) Cons.IH [OF Cons.prems(1) _ _ _ rest] show ?thesis by auto
  qed (use first one Cons.prems(5) in auto)
qed simp

end

lemma older_than_take:
  "older_than start cutoff room d = take room (map (\<lambda>(k, ob). \<lparr> oc_storage_key = k, oc_last_modified = obj_modified ob \<rparr>)
     (filter (\<lambda>(k, ob). starts_with (start @ ''-'') k \<and> storage_key_ok k \<and> obj_modified ob \<le> cutoff) d))"
  by (induction start cutoff room d rule: older_than.induct) (auto simp: take_Cons' split: if_splits)

interpretation local_listing: listing_storage "local_provider saving reading deleting" local_contents "unused_name saving"
proof unfold_locales
  fix ns cutoff limit s cs c
  assume "pv_list_older_than (local_provider saving reading deleting) ns cutoff limit s = Inr cs" and "c \<in> set cs"
  then have "starts_with (namespace_prefix (dk_sha reading) ns @ ''-'') (oc_storage_key c) \<and> storage_key_ok (oc_storage_key c)"
    by (auto simp: local_provider_def list_older_than_def older_than_take dest!: in_set_takeD split: if_splits)
  then show "pv_belongs_to_namespace (local_provider saving reading deleting) (oc_storage_key c) ns = Inr True"
    by (simp add: local_provider_def belongs_to_namespace_def resolve_key_def guard_else_def)
qed

section \<open>What a verification repairs\<close>

definition accounted_for :: "uuid set \<Rightarrow> db \<Rightarrow> bool" where
  "accounted_for orgs db \<longleftrightarrow>
     (\<forall>x \<in> set (organizations db). org_id x \<in> orgs \<longrightarrow> org_storage_used_bytes x = total_stored_size (org_id x) db)"

text \<open>The rows a verification may touch are those of the organizations.\<close>

definition same_files :: "db \<Rightarrow> db \<Rightarrow> bool" where
  "same_files db db' \<longleftrightarrow> source_files db' = source_files db \<and> runs db' = runs db \<and> list_ids db' = list_ids db"

lemma same_files_facts:
  assumes "same_files db db'"
  shows "total_stored_size i db' = total_stored_size i db" and "referenced_storage_keys i db' = referenced_storage_keys i db"
    and "tenants_apart inside db' = tenants_apart inside db" and "backed inside contents db' = backed inside contents db"
  using assms total_size_cong [of db' db]
  by (auto simp: same_files_def referenced_storage_keys_def run_of_tenant_def tenants_apart_def backed_db backed_db [of _ _ db' db])

lemma check_usage_effect:
  assumes "check_usage repair org r db = (x, db')" and "distinct (list_ids db)"
  shows "same_files db db'" and "accounted_for settled db \<Longrightarrow> accounted_for settled db'"
    and "x = Inr r' \<Longrightarrow> repair \<Longrightarrow> accounted_for {org} db'"
proof -
  from assms(1) consider "db' = db" "x \<noteq> Inr r' \<or> \<not> repair \<or>
      (\<exists>y. get_organization org db = Inr y \<and> org_storage_used_bytes y = total_stored_size org db)"
    | y where "get_organization org db = Inr y" "organization_row_ok (y \<lparr> org_storage_used_bytes := total_stored_size org db \<rparr>)"
        "db' = db \<lparr> organizations := put_row org_id (y \<lparr> org_storage_used_bytes := total_stored_size org db \<rparr>) (organizations db) \<rparr>"
    by (auto simp: check_usage_def save_organization_def Let_def split: sum.splits if_splits)
  then have "same_files db db' \<and> (accounted_for settled db \<longrightarrow> accounted_for settled db') \<and>
      (x = Inr r' \<longrightarrow> repair \<longrightarrow> accounted_for {org} db')"
  proof cases
    case 1
    have "accounted_for {org} db" if "get_organization org db = Inr y" "org_storage_used_bytes y = total_stored_size org db" for y
    proof -
      have "z = y" if "z \<in> set (organizations db)" "org_id z = org" for z
        using that get_organization_Inr [OF \<open>get_organization org db = Inr y\<close>] assms(2)
        by (auto simp: list_ids_def distinct_map dest: inj_onD)
      with that(2) show ?thesis by (auto simp: accounted_for_def)
    qed
    with 1 show ?thesis by (auto simp: same_files_def)
  next
    case (2 y)
    let ?y = "y \<lparr> org_storage_used_bytes := total_stored_size org db \<rparr>"
    note y = get_organization_Inr [OF 2(1)]
    have same: "same_files db db'" using 2(3) by (simp add: same_files_def list_ids_def)
    have rows: "z = ?y \<or> z \<in> set (organizations db) \<and> org_id z \<noteq> org" if "z \<in> set (organizations db')" for z
      using that y by (auto simp: 2(3) dest!: in_put_row)
    have "org_storage_used_bytes z = total_stored_size (org_id z) db'"
      if "z \<in> set (organizations db')" "accounted_for settled db \<and> org_id z \<in> settled \<or> org_id z = org" for z settled
      using rows [OF that(1)] that(2) y same_files_facts(1) [OF same] by (auto simp: accounted_for_def)
    then show ?thesis using same by (auto simp: accounted_for_def)
  qed
  then show "same_files db db'" "accounted_for settled db \<Longrightarrow> accounted_for settled db'"
    "x = Inr r' \<Longrightarrow> repair \<Longrightarrow> accounted_for {org} db'" by auto
qed

text \<open>The verification of one organization: its usage is checked first, then its objects are swept.\<close>

lemma verify_organization_cases:
  assumes "calm w" and "verify_organization pv c w repair cutoff i org r st = (x, st')"
  obtains y db' where "check_usage repair org r (fst st) = (y, db')" "st' = (db', snd st)" "\<And>z. x \<noteq> Inr z \<or> (\<exists>r1. y = Inr r1)"
    | r1 db' cs counts z where "check_usage repair org r (fst st) = (Inr r1, db')"
        "pv_list_older_than pv (uuid_text org) cutoff (vf_batch_size c) (snd st) = Inr cs"
        "sweep_candidates pv (\<lambda>_ st. st) repair (referenced_storage_keys org (fst st)) 3 cs counts (db', snd st) = (z, st')"
  using assms
  by (auto simp: verify_organization_def calm_def candidates_of_def Let_def split: prod.splits sum.splits)

lemma verify_organization_accounts:
  assumes "calm w" and "verify_organization pv c w repair cutoff i org r st = (x, st')" and "distinct (list_ids (fst st))"
  shows "same_files (fst st) (fst st')" and "accounted_for settled (fst st) \<Longrightarrow> accounted_for settled (fst st')"
    and "x = Inr r' \<Longrightarrow> repair \<Longrightarrow> accounted_for {org} (fst st')"
proof -
  from verify_organization_cases [OF assms(1,2)] obtain y db'
    where "check_usage repair org r (fst st) = (y, db')" "fst st' = db'" "x \<noteq> Inr r' \<or> (\<exists>r1. y = Inr r1)"
    using sweep_db [of pv repair "referenced_storage_keys org (fst st)" 3] by cases (auto, metis fst_conv snd_conv)
  with check_usage_effect [OF _ assms(3)]
  show "same_files (fst st) (fst st')" "accounted_for settled (fst st) \<Longrightarrow> accounted_for settled (fst st')"
    "x = Inr r' \<Longrightarrow> repair \<Longrightarrow> accounted_for {org} (fst st')" by blast+
qed

lemma verify_organizations_accounts:
  assumes "calm w" and "verify_organizations pv c w repair cutoff i orgs r st = (x, st')" and "distinct (list_ids (fst st))"
    and "accounted_for settled (fst st)"
  shows "same_files (fst st) (fst st')" and "x = Inr r' \<Longrightarrow> repair \<Longrightarrow> accounted_for (settled \<union> set orgs) (fst st')"
proof -
  have "same_files (fst st) (fst st') \<and> (x = Inr r' \<longrightarrow> repair \<longrightarrow> accounted_for (settled \<union> set orgs) (fst st'))"
    using assms(2-)
  proof (induction orgs arbitrary: i r st settled)
    case (Cons org orgs)
    obtain y st1 where one: "verify_organization pv c w repair cutoff i org r st = (y, st1)"
      by (cases "verify_organization pv c w repair cutoff i org r st")
    note first = verify_organization_accounts [OF assms(1) one Cons.prems(2)]
    show ?case
    proof (cases y)
      case (Inl e)
      with Cons.prems(1) one first(1) show ?thesis by auto
    next
      case (Inr r1)
      with Cons.prems(1) one have rest: "verify_organizations pv c w repair cutoff (Suc i) orgs r1 st1 = (x, st')" by simp
      have ids: "distinct (list_ids (fst st1))" using first(1) Cons.prems(2) by (simp add: same_files_def)
      let ?settled = "if repair then insert org settled else settled"
      have "accounted_for ?settled (fst st1)"
        using first(2) [OF Cons.prems(3)] first(3) [OF Inr] by (auto simp: accounted_for_def)
      from Cons.IH [OF rest ids this] first(1) show ?thesis by (auto simp: same_files_def)
    qed
  qed (auto simp: same_files_def)
  then show "same_files (fst st) (fst st')" "x = Inr r' \<Longrightarrow> repair \<Longrightarrow> accounted_for (settled \<union> set orgs) (fst st')" by auto
qed

context listing_storage
begin

lemma verify_organizations_keep_backed:
  assumes "calm w" and "verify_organizations pv c w repair cutoff i orgs r st = (x, st')"
    and "backed (pv_belongs_to_namespace pv) (contents (snd st)) (fst st)"
    and "tenants_apart (pv_belongs_to_namespace pv) (fst st)" and "set orgs \<subseteq> set (list_ids (fst st))"
    and "distinct (list_ids (fst st))"
  shows "backed (pv_belongs_to_namespace pv) (contents (snd st')) (fst st')"
  using assms(2-)
proof (induction orgs arbitrary: i r st)
  case (Cons org orgs)
  obtain y st1 where one: "verify_organization pv c w repair cutoff i org r st = (y, st1)"
    by (cases "verify_organization pv c w repair cutoff i org r st")
  have same: "same_files (fst st) (fst st1)" by (rule verify_organization_accounts [OF assms(1) one Cons.prems(5)])
  have first: "backed (pv_belongs_to_namespace pv) (contents (snd st1)) (fst st1)"
    using assms(1) one
  proof (cases rule: verify_organization_cases)
    case 1
    with same Cons.prems(2) show ?thesis by (simp add: same_files_facts(4))
  next
    case (2 r1 db' cs counts z)
    let ?run = "sweep_candidates pv (\<lambda>_ st. st) repair (referenced_storage_keys org (fst st)) 3 cs counts (db', snd st)"
    have st1: "st1 = snd ?run" using 2(3) by simp
    then have db': "fst st1 = db'" using sweep_db [of pv repair _ 3 cs counts "(db', snd st)"] by simp
    note facts = same_files_facts [OF same [unfolded db']]
    have "backed (pv_belongs_to_namespace pv) (contents (snd (snd ?run))) (fst (db', snd st))"
    proof (rule sweep_keeps_backed)
      show "backed (pv_belongs_to_namespace pv) (contents (snd (db', snd st))) (fst (db', snd st))"
        using Cons.prems(2) by (simp add: facts(4))
      show "tenants_apart (pv_belongs_to_namespace pv) (fst (db', snd st))" using Cons.prems(3) by (simp add: facts(3))
      show "org \<in> set (list_ids (fst (db', snd st)))" using Cons.prems(4) same db' by (simp add: same_files_def)
      show "pv_list_older_than pv (uuid_text org) cutoff (vf_batch_size c) (snd (db', snd st)) = Inr cs" using 2(2) by simp
      show "referenced_storage_keys org (fst st) = referenced_storage_keys org (fst (db', snd st))" by (simp add: facts(2))
    qed
    then show ?thesis by (simp add: st1 [symmetric] db')
  qed
  show ?case
  proof (cases y)
    case (Inr r1)
    with Cons.prems(1) one have rest: "verify_organizations pv c w repair cutoff (Suc i) orgs r1 st1 = (x, st')" by simp
    from Cons.IH [OF rest first] same Cons.prems(3-5) same_files_facts(3) [OF same]
    show ?thesis by (simp add: same_files_def)
  qed (use first one Cons.prems(1) in auto)
qed simp

end

section \<open>Properties of the storage commands\<close>

definition tenant_prefixes_differ :: "(string \<Rightarrow> string) \<Rightarrow> db \<Rightarrow> bool" where
  "tenant_prefixes_differ sha db \<longleftrightarrow>
     inj_on (\<lambda>org. namespace_prefix sha (uuid_text org)) (set (list_ids db) \<union> set (map run_organization_id (runs db)))"

lemma local_tenants_apart:
  assumes "hex_digest sha" and "tenant_prefixes_differ sha db"
  shows "tenants_apart (belongs_to_namespace sha) db"
proof -
  have "take 16 k = namespace_prefix sha t" if "belongs_to_namespace sha k t = Inr True" for k t
    using that assms(1) by (auto simp: belongs_to_namespace_def and_then_Inr_iff starts_with_iff namespace_prefix_def hex_digest_def)
  then show ?thesis using assms(2) unfolding tenants_apart_def tenant_prefixes_differ_def by (metis UnCI inj_onD)
qed



text \<open>The objects of a tenant a cleanup may look at.\<close>

definition due_object :: "(string \<Rightarrow> string) \<Rightarrow> uuid \<Rightarrow> instant \<Rightarrow> string \<times> stored_object \<Rightarrow> bool" where
  "due_object sha org cutoff p \<longleftrightarrow>
     starts_with (namespace_prefix sha (uuid_text org) @ ''-'') (fst p) \<and> storage_key_ok (fst p) \<and> obj_modified (snd p) \<le> cutoff"

lemma sweep_kept:
  "list_all (\<lambda>c. oc_storage_key c \<in> kept) cs \<Longrightarrow>
   sweep_candidates pv (\<lambda>_ st. st) deleting kept k cs counts st = (Inr counts, st)"
  by (induction cs arbitrary: k) auto

text \<open>
  Kept objects hide abandoned ones.  When the first old objects of each tenant, as many as the
  batch has, all belong to rows, a cleanup deletes nothing and finds nothing, however many
  abandoned objects come after them; and so does every later one.
\<close>

theorem kept_objects_hide_abandoned_ones:
  assumes "calm w" and "maintenance_now ''cleanup'' (sw_clock w) = Inr now" and "\<not> dk_fault reading"
    and "list_all (\<lambda>org. list_all (\<lambda>p. fst p \<in> referenced_storage_keys org db)
        (take (nat (up_batch_size c)) (filter (due_object (dk_sha reading) org (now - hours (up_retention_hours c))) d))) (list_ids db)"
  shows "run_upload_cleanup (local_provider saving reading deleting) c w dry_run (db, d) =
    (Inr \<lparr> or_eligible_objects = 0, or_deleted_objects = 0, or_dry_run = dry_run \<rparr>, (db, d))"
proof -
  let ?cutoff = "now - hours (up_retention_hours c)"
  have "clean_organization (local_provider saving reading deleting) c w dry_run ?cutoff i org (0, 0) (db, d) = (Inr (0, 0), (db, d))"
    if "list_all (\<lambda>p. fst p \<in> referenced_storage_keys org db)
        (take (nat (up_batch_size c)) (filter (due_object (dk_sha reading) org ?cutoff) d))" for i org
  proof -
    have due: "due_object (dk_sha reading) org ?cutoff = (\<lambda>(k, ob). starts_with (namespace_prefix (dk_sha reading) (uuid_text org) @ ''-'') k \<and>
        storage_key_ok k \<and> obj_modified ob \<le> ?cutoff)"
      by (auto simp: due_object_def)
    let ?cs = "older_than (namespace_prefix (dk_sha reading) (uuid_text org)) ?cutoff (nat (up_batch_size c)) d"
    have "list_all (\<lambda>c. oc_storage_key c \<in> referenced_storage_keys org db) ?cs"
      using that by (simp add: older_than_take due take_map list_all_iff case_prod_beta)
    with assms(1,3) show ?thesis
      by (simp add: clean_organization_def candidates_of_def calm_def local_provider_def list_older_than_def Let_def sweep_kept)
  qed
  then have "clean_organizations (local_provider saving reading deleting) c w dry_run ?cutoff i orgs (0, 0) (db, d) =
      (Inr (0, 0), (db, d))"
    if "list_all (\<lambda>org. list_all (\<lambda>p. fst p \<in> referenced_storage_keys org db)
        (take (nat (up_batch_size c)) (filter (due_object (dk_sha reading) org ?cutoff) d))) orgs" for i orgs
    using that by (induction orgs arbitrary: i) simp_all
  from this [OF assms(4)] assms(2) show ?thesis by (simp add: run_upload_cleanup_def)
qed

definition depot_key :: string where
  "depot_key = new_key (sample_disk \<lparr> dk_new_id := 99 \<rparr>) (Some (uuid_text 1)) ''.csv''"

definition kept_key :: string where
  "kept_key = new_key sample_disk (Some (uuid_text 1)) ''.csv''"

definition kept_file :: source_file where
  "kept_file =
     \<lparr> file_id = 8, file_run_id = 3, file_source_type = BANK_TRANSACTIONS, file_original_filename = ''march.csv'',
       file_content_type = Some ''text/csv'', file_checksum_sha256 = replicate 64 (CHR ''a''), file_size_bytes = 4,
       file_row_count = None, file_storage_key = Some kept_key, file_created_at = 10 \<rparr>"

text \<open>A tenant with one file and one abandoned object, both old.\<close>

definition littered :: "db \<times> directory" where
  "littered =
     (depot_db \<lparr> source_files := [kept_file] \<rparr>,
      [(kept_key, \<lparr> obj_bytes = ''a,b,'', obj_modified = 100 \<rparr>), (depot_key, \<lparr> obj_bytes = ''left'', obj_modified = 100 \<rparr>)])"

definition janitor :: "directory store_world" where
  "janitor = \<lparr> sw_clock = DateTime (hours 2) (Some 0), sw_others = (\<lambda>_ _ st. st) \<rparr>"

theorem kept_objects_hide_abandoned_ones_witness:
  "run_upload_cleanup (local_provider sample_disk sample_disk sample_disk) \<lparr> up_retention_hours = 1, up_batch_size = 1 \<rparr>
      janitor False (fst littered, snd littered) =
     (Inr \<lparr> or_eligible_objects = 0, or_deleted_objects = 0, or_dry_run = False \<rparr>, (fst littered, snd littered)) \<and>
   map_of (snd littered) depot_key \<noteq> None \<and> depot_key \<notin> referenced_storage_keys 1 (fst littered)"
proof -
  have "calm janitor" "maintenance_now ''cleanup'' (sw_clock janitor) = Inr (hours 2)" "\<not> dk_fault sample_disk"
    by (simp_all add: calm_def janitor_def maintenance_now_def sample_disk_def)
  moreover have "list_ids (fst littered) = [1]"
    and "list_all (\<lambda>p. fst p \<in> referenced_storage_keys 1 (fst littered))
        (take (nat 1) (filter (due_object (dk_sha sample_disk) 1 (hours 2 - hours 1)) (snd littered)))"
    by code_simp+
  moreover have "map_of (snd littered) depot_key \<noteq> None \<and> depot_key \<notin> referenced_storage_keys 1 (fst littered)" by code_simp
  ultimately show ?thesis
    using kept_objects_hide_abandoned_ones [of janitor "hours 2" sample_disk "fst littered"
        "\<lparr> up_retention_hours = 1, up_batch_size = 1 \<rparr>" "snd littered" sample_disk sample_disk False] by simp
qed

lemma littered_facts:
  "list_ids (fst littered) = [1]" "map run_organization_id (runs (fst littered)) = [1]"
  by code_simp+

lemma littered_backed: "backed (belongs_to_namespace (dk_sha sample_disk)) (local_contents (snd littered)) (fst littered)"
proof -
  have "belongs_to_namespace (dk_sha sample_disk) kept_key (uuid_text 1) = Inr True" by code_simp
  moreover have "local_contents (snd littered) kept_key = Some ''a,b,''" by (simp add: littered_def local_contents_def)
  moreover have "run_of_tenant 3 1 (fst littered)" by code_simp
  ultimately show ?thesis
    by (auto simp: backed_def object_for_def stored_keys_def List.map_filter_def littered_def kept_file_def
        depot_db_def intro!: exI [of _ 1])
qed



end
