(* ===== verification/Csv_Files.thy ===== *)
theory Csv_Files
  imports Flow_Prelude
begin

text \<open>
  CSV as the module \<open>csv\<close> of Python's standard library reads and writes it with its default
  dialect: comma, double quotes that are doubled inside a quoted field, quotes only where needed,
  records ended by CR LF.  The reader is the state machine of the library over the lines of a file
  opened with \<open>newline=""\<close>; the end of a line is a step of its own.  What was written is read
  back.
\<close>

section \<open>The reader\<close>

datatype csv_state = START_RECORD | START_FIELD | IN_FIELD | IN_QUOTED_FIELD | QUOTE_IN_QUOTED_FIELD | EAT_CRNL

record csv_reader =
  csv_state :: csv_state
  csv_field :: string
  csv_fields :: "string list"

definition line_feed :: char where "line_feed = CHR 0x0A"
definition carriage_return :: char where "carriage_return = CHR 0x0D"
definition quote_char :: char where "quote_char = CHR 0x22"

definition is_newline :: "char \<Rightarrow> bool" where
  "is_newline c \<longleftrightarrow> c = line_feed \<or> c = carriage_return"

definition new_record :: csv_reader where
  "new_record = \<lparr> csv_state = START_RECORD, csv_field = [], csv_fields = [] \<rparr>"

definition csv_field_limit :: int where "csv_field_limit = 131072"

definition add_char :: "char \<Rightarrow> csv_state \<Rightarrow> csv_reader \<Rightarrow> csv_reader outcome" where
  "add_char c s p =
     (if csv_field_limit \<le> int (length (csv_field p)) then Inl (CsvError ''field larger than field limit (131072)'')
      else Inr (p \<lparr> csv_field := csv_field p @ [c], csv_state := s \<rparr>))"

definition save_field :: "csv_state \<Rightarrow> csv_reader \<Rightarrow> csv_reader" where
  "save_field s p = p \<lparr> csv_fields := csv_fields p @ [csv_field p], csv_field := [], csv_state := s \<rparr>"

text \<open>One character; \<open>None\<close> is the end of the line.\<close>

definition start_field :: "char option \<Rightarrow> csv_reader \<Rightarrow> csv_reader outcome" where
  "start_field ch p =
     (case ch of
        None \<Rightarrow> Inr (save_field START_RECORD p)
      | Some c \<Rightarrow>
          if is_newline c then Inr (save_field EAT_CRNL p)
          else if c = quote_char then Inr (p \<lparr> csv_state := IN_QUOTED_FIELD \<rparr>)
          else if c = CHR '','' then Inr (save_field START_FIELD p)
          else add_char c IN_FIELD p)"

definition csv_char :: "char option \<Rightarrow> csv_reader \<Rightarrow> csv_reader outcome" where
  "csv_char ch p =
     (case csv_state p of
        START_RECORD \<Rightarrow>
          (case ch of
             None \<Rightarrow> Inr p
           | Some c \<Rightarrow> if is_newline c then Inr (p \<lparr> csv_state := EAT_CRNL \<rparr>) else start_field ch p)
      | START_FIELD \<Rightarrow> start_field ch p
      | IN_FIELD \<Rightarrow>
          (case ch of
             None \<Rightarrow> Inr (save_field START_RECORD p)
           | Some c \<Rightarrow>
               if is_newline c then Inr (save_field EAT_CRNL p)
               else if c = CHR '','' then Inr (save_field START_FIELD p)
               else add_char c IN_FIELD p)
      | IN_QUOTED_FIELD \<Rightarrow>
          (case ch of
             None \<Rightarrow> Inr p
           | Some c \<Rightarrow>
               if c = quote_char then Inr (p \<lparr> csv_state := QUOTE_IN_QUOTED_FIELD \<rparr>)
               else add_char c IN_QUOTED_FIELD p)
      | QUOTE_IN_QUOTED_FIELD \<Rightarrow>
          (case ch of
             None \<Rightarrow> Inr (save_field START_RECORD p)
           | Some c \<Rightarrow>
               if c = quote_char then add_char c IN_QUOTED_FIELD p
               else if c = CHR '','' then Inr (save_field START_FIELD p)
               else if is_newline c then Inr (save_field EAT_CRNL p)
               else add_char c IN_FIELD p)
      | EAT_CRNL \<Rightarrow>
          (case ch of
             None \<Rightarrow> Inr (p \<lparr> csv_state := START_RECORD \<rparr>)
           | Some c \<Rightarrow>
               if is_newline c then Inr p
               else Inl (CsvError ''new-line character seen in unquoted field'')))"

text \<open>The lines of a file, each with its end: LF, CR or CR LF.\<close>

fun file_lines :: "string \<Rightarrow> string list" where
  "file_lines [] = []"
| "file_lines (c # cs) =
     (if c = line_feed then [c] # file_lines cs
      else if c = carriage_return
      then (if cs \<noteq> [] \<and> hd cs = line_feed then [c, line_feed] # file_lines (tl cs) else [c] # file_lines cs)
      else (case file_lines cs of [] \<Rightarrow> [[c]] | l # ls \<Rightarrow> (c # l) # ls))"

definition csv_line :: "string \<Rightarrow> csv_reader \<Rightarrow> csv_reader outcome" where
  "csv_line l p = and_then (fold_err (\<lambda>c. csv_char (Some c)) l p) (csv_char None)"

fun csv_records :: "string list \<Rightarrow> csv_reader \<Rightarrow> string list list outcome" where
  "csv_records [] p =
     Inr (if csv_field p \<noteq> [] \<or> csv_state p = IN_QUOTED_FIELD then [csv_fields p @ [csv_field p]] else [])"
| "csv_records (l # ls) p =
     and_then (csv_line l p) (\<lambda>p'.
     if csv_state p' = START_RECORD
     then and_then (csv_records ls new_record) (\<lambda>rs. Inr (csv_fields p' # rs))
     else csv_records ls p')"

definition csv_read :: "string \<Rightarrow> string list list outcome" where
  "csv_read contents = csv_records (file_lines contents) new_record"

section \<open>The writer\<close>

definition csv_special :: "char \<Rightarrow> bool" where
  "csv_special c \<longleftrightarrow> c = CHR '','' \<or> c = quote_char \<or> is_newline c"

fun doubled :: "string \<Rightarrow> string" where
  "doubled [] = []"
| "doubled (c # cs) = (if c = quote_char then [c, c] else [c]) @ doubled cs"

definition csv_text :: "string \<Rightarrow> string" where
  "csv_text s = (if list_ex csv_special s then [quote_char] @ doubled s @ [quote_char] else s)"

fun comma_separated :: "string list \<Rightarrow> string" where
  "comma_separated [] = []"
| "comma_separated [s] = s"
| "comma_separated (s # ss) = s @ CHR '','' # comma_separated ss"

definition csv_row :: "string list \<Rightarrow> string" where
  "csv_row fs =
     (if fs = [[]] then [quote_char, quote_char] else comma_separated (map csv_text fs)) @ [carriage_return, line_feed]"

definition csv_write :: "string list list \<Rightarrow> string" where
  "csv_write rows = concat (map csv_row rows)"

section \<open>Reading back what was written\<close>

text \<open>Reading on from the middle of a line.\<close>

definition rest_of :: "string \<Rightarrow> csv_reader \<Rightarrow> string list list outcome" where
  "rest_of cs p = csv_records (if file_lines cs = [] then [[]] else file_lines cs) p"

lemma file_lines_empty [simp]: "file_lines cs = [] \<longleftrightarrow> cs = []"
  by (cases cs) (auto split: list.splits)

lemma csv_line_Cons: "csv_line (c # l) p = and_then (csv_char (Some c) p) (csv_line l)"
  by (simp add: csv_line_def [abs_def] and_then_assoc)

lemma csv_records_Cons:
  "csv_records ((c # l) # ls) p = and_then (csv_char (Some c) p) (\<lambda>p'. csv_records (l # ls) p')"
  by (simp add: csv_line_Cons and_then_assoc)

lemma rest_of_Cons: "\<not> is_newline c \<Longrightarrow> rest_of (c # cs) p = and_then (csv_char (Some c) p) (rest_of cs)"
  by (cases "file_lines cs")
    (auto simp: rest_of_def [abs_def] is_newline_def csv_records_Cons simp del: csv_records.simps)

lemma not_newline [simp]: "\<not> is_newline quote_char" "\<not> is_newline (CHR '','')" "quote_char \<noteq> CHR '',''"
  by (simp_all add: is_newline_def line_feed_def carriage_return_def quote_char_def)

lemma unchanged_reader [simp]:
  "csv_state p = st \<Longrightarrow> p \<lparr> csv_state := st \<rparr> = p"
  "csv_state p = st \<Longrightarrow> p \<lparr> csv_field := x, csv_state := st \<rparr> = p \<lparr> csv_field := x \<rparr>"
  "p \<lparr> csv_state := st, csv_field := x \<rparr> = p \<lparr> csv_field := x, csv_state := st \<rparr>"
  "csv_field p = x \<Longrightarrow> p \<lparr> csv_field := x \<rparr> = p"
  by (cases p; simp)+

text \<open>Inside quotes every other character is kept, ends of lines included.\<close>

lemma add_char_room:
  "int (length (csv_field p)) < csv_field_limit \<Longrightarrow> add_char c s p = Inr (p \<lparr> csv_field := csv_field p @ [c], csv_state := s \<rparr>)"
  by (simp add: add_char_def)

lemma rest_of_quoted:
  assumes "csv_state p = IN_QUOTED_FIELD" and "cs \<noteq> []" and "c \<noteq> quote_char" and "int (length (csv_field p)) + 1 < csv_field_limit"
  shows "rest_of (c # cs) p = rest_of cs (p \<lparr> csv_field := csv_field p @ [c] \<rparr>)"
proof (cases "is_newline c")
  case False
  with assms show ?thesis by (simp add: rest_of_Cons csv_char_def add_char_room)
next
  case True
  then consider "c = line_feed" | "c = carriage_return" "hd cs \<noteq> line_feed" | ds where "c = carriage_return" "cs = line_feed # ds"
    using assms(2) by (cases cs) (auto simp: is_newline_def)
  then show ?thesis
  proof cases
    case (3 ds)
    have "line_feed \<noteq> carriage_return" "line_feed \<noteq> quote_char" by (simp_all add: line_feed_def carriage_return_def quote_char_def)
    with 3 assms show ?thesis by (simp add: rest_of_def csv_line_def csv_char_def add_char_room)
  qed (use assms in \<open>auto simp: rest_of_def csv_line_def csv_char_def add_char_room\<close>)
qed

lemma rest_of_doubled:
  assumes "csv_state p = IN_QUOTED_FIELD" and "int (length (csv_field p) + length s) < csv_field_limit"
  shows "rest_of (doubled s @ quote_char # cs) p = rest_of cs (p \<lparr> csv_field := csv_field p @ s, csv_state := QUOTE_IN_QUOTED_FIELD \<rparr>)"
  using assms
proof (induction s arbitrary: p)
  case Nil
  then show ?case by (simp add: rest_of_Cons csv_char_def)
next
  case (Cons c s)
  let ?p = "p \<lparr> csv_field := csv_field p @ [c] \<rparr>"
  have "rest_of (doubled (c # s) @ quote_char # cs) p = rest_of (doubled s @ quote_char # cs) ?p"
  proof (cases "c = quote_char")
    case True
    with Cons.prems show ?thesis by (simp add: rest_of_Cons csv_char_def add_char_room)
  next
    case False
    with Cons.prems rest_of_quoted [of p "doubled s @ quote_char # cs" c] show ?thesis by simp
  qed
  with Cons.IH [of ?p] Cons.prems show ?case by simp
qed

lemma rest_of_plain:
  assumes "csv_state p = IN_FIELD" and "int (length (csv_field p) + length s) < csv_field_limit" and "\<not> list_ex csv_special s"
  shows "rest_of (s @ cs) p = rest_of cs (p \<lparr> csv_field := csv_field p @ s \<rparr>)"
  using assms
proof (induction s arbitrary: p)
  case (Cons c s)
  then have "rest_of (c # s @ cs) p = rest_of (s @ cs) (p \<lparr> csv_field := csv_field p @ [c] \<rparr>)"
    by (simp add: rest_of_Cons csv_char_def add_char_room csv_special_def)
  with Cons.IH [of "p \<lparr> csv_field := csv_field p @ [c] \<rparr>"] Cons.prems show ?case by simp
qed simp

text \<open>One written field, up to the comma or the end of the record.\<close>

lemma rest_of_field:
  assumes "csv_state p = START_RECORD \<or> csv_state p = START_FIELD" and "csv_field p = []" and "int (length s) < csv_field_limit"
  obtains st where "\<And>cs. rest_of (csv_text s @ cs) p = rest_of cs (p \<lparr> csv_field := s, csv_state := st \<rparr>)"
    "st \<in> {IN_FIELD, QUOTE_IN_QUOTED_FIELD} \<or> s = [] \<and> st = csv_state p"
proof (cases "list_ex csv_special s")
  case True
  have "rest_of (csv_text s @ cs) p = rest_of cs (p \<lparr> csv_field := s, csv_state := QUOTE_IN_QUOTED_FIELD \<rparr>)" for cs
    using assms True rest_of_doubled [of "p \<lparr> csv_state := IN_QUOTED_FIELD \<rparr>" s cs]
    by (auto simp: csv_text_def rest_of_Cons csv_char_def start_field_def)
  then show ?thesis by (rule that) simp
next
  case False
  show ?thesis
  proof (cases s)
    case Nil
    with assms that [of "csv_state p"] show ?thesis by (simp add: csv_text_def)
  next
    case (Cons c s')
    have "rest_of (csv_text s @ cs) p = rest_of cs (p \<lparr> csv_field := s, csv_state := IN_FIELD \<rparr>)" for cs
      using assms False Cons rest_of_plain [of "p \<lparr> csv_field := [c], csv_state := IN_FIELD \<rparr>" s' cs]
      by (auto simp: csv_text_def rest_of_Cons csv_char_def start_field_def add_char_room csv_special_def)
    then show ?thesis by (rule that) simp
  qed
qed

text \<open>The end of a record, after a field or where an empty one begins.\<close>

lemma rest_of_end:
  assumes "csv_state p \<in> {START_FIELD, IN_FIELD, QUOTE_IN_QUOTED_FIELD}"
  shows "rest_of (carriage_return # line_feed # cs) p =
    and_then (csv_records (file_lines cs) new_record) (\<lambda>rs. Inr ((csv_fields p @ [csv_field p]) # rs))"
proof -
  have lines: "file_lines (carriage_return # line_feed # cs) = [carriage_return, line_feed] # file_lines cs"
    by (simp add: carriage_return_def line_feed_def)
  have line: "rest_of (carriage_return # line_feed # cs) p = csv_records ([carriage_return, line_feed] # file_lines cs) p"
    unfolding rest_of_def lines by simp
  have newlines: "is_newline carriage_return" "is_newline line_feed" "carriage_return \<noteq> quote_char" "carriage_return \<noteq> CHR '',''"
    by (simp_all add: is_newline_def carriage_return_def quote_char_def)
  from assms consider "csv_state p = START_FIELD" | "csv_state p = IN_FIELD" | "csv_state p = QUOTE_IN_QUOTED_FIELD" by blast
  then show ?thesis
    by cases (simp_all add: line csv_line_def csv_char_def start_field_def save_field_def newlines)
qed

lemma rest_of_comma:
  assumes "csv_state p \<noteq> IN_QUOTED_FIELD" and "csv_state p \<noteq> EAT_CRNL"
  shows "rest_of (CHR '','' # cs) p = rest_of cs (save_field START_FIELD p)"
  using assms not_newline(3) [symmetric] by (cases "csv_state p") (auto simp: rest_of_Cons csv_char_def start_field_def)

lemma rest_of_fields:
  assumes "fs \<noteq> []" and "list_all (\<lambda>s. int (length s) < csv_field_limit) fs" and "csv_field p = []"
    and "csv_state p = START_FIELD \<or> csv_state p = START_RECORD \<and> fs \<noteq> [[]]"
  shows "rest_of (comma_separated (map csv_text fs) @ carriage_return # line_feed # cs) p =
    and_then (csv_records (file_lines cs) new_record) (\<lambda>rs. Inr ((csv_fields p @ fs) # rs))"
  using assms
proof (induction fs arbitrary: p)
  case (Cons s fs)
  then have start: "csv_state p = START_RECORD \<or> csv_state p = START_FIELD" "csv_field p = []" "int (length s) < csv_field_limit" by auto
  from rest_of_field [OF start] obtain st
    where field: "\<And>cs. rest_of (csv_text s @ cs) p = rest_of cs (p \<lparr> csv_field := s, csv_state := st \<rparr>)"
      and st: "st \<in> {IN_FIELD, QUOTE_IN_QUOTED_FIELD} \<or> s = [] \<and> st = csv_state p" by blast
  let ?p = "p \<lparr> csv_field := s, csv_state := st \<rparr>"
  show ?case
  proof (cases fs)
    case Nil
    with st Cons.prems(4) have "csv_state ?p \<in> {START_FIELD, IN_FIELD, QUOTE_IN_QUOTED_FIELD}" by auto
    from rest_of_end [OF this] Nil show ?thesis by (simp add: field)
  next
    case (Cons t ts)
    have "csv_state ?p \<noteq> IN_QUOTED_FIELD" "csv_state ?p \<noteq> EAT_CRNL" using st start(1) by auto
    note comma = rest_of_comma [OF this]
    have "rest_of (comma_separated (map csv_text (s # fs)) @ carriage_return # line_feed # cs) p =
        rest_of (comma_separated (map csv_text fs) @ carriage_return # line_feed # cs) (save_field START_FIELD ?p)"
      using Cons by (simp add: field comma)
    also have "\<dots> = and_then (csv_records (file_lines cs) new_record) (\<lambda>rs. Inr ((csv_fields p @ s # fs) # rs))"
      using Cons Cons.prems(2) Cons.IH [of "save_field START_FIELD ?p"] by (simp add: save_field_def)
    finally show ?thesis .
  qed
qed simp

lemma csv_records_row:
  assumes "fs \<noteq> []" and "list_all (\<lambda>s. int (length s) < csv_field_limit) fs"
  shows "csv_records (file_lines (csv_row fs @ cs)) new_record =
    and_then (csv_records (file_lines cs) new_record) (\<lambda>rs. Inr (fs # rs))"
proof -
  have "csv_records (file_lines (csv_row fs @ cs)) new_record = rest_of (csv_row fs @ cs) new_record"
    by (simp add: rest_of_def csv_row_def)
  also have "\<dots> = and_then (csv_records (file_lines cs) new_record) (\<lambda>rs. Inr (fs # rs))"
  proof (cases "fs = [[]]")
    case True
    have "rest_of (quote_char # quote_char # carriage_return # line_feed # cs) new_record =
        rest_of (carriage_return # line_feed # cs) (new_record \<lparr> csv_state := QUOTE_IN_QUOTED_FIELD \<rparr>)"
      by (simp add: rest_of_Cons csv_char_def start_field_def new_record_def)
    also have "\<dots> = and_then (csv_records (file_lines cs) new_record) (\<lambda>rs. Inr (fs # rs))"
      by (subst rest_of_end) (simp_all add: True new_record_def)
    finally show ?thesis by (simp add: csv_row_def True)
  next
    case False
    with rest_of_fields [OF assms, of new_record cs] show ?thesis
      by (simp add: csv_row_def) (simp add: new_record_def)
  qed
  finally show ?thesis .
qed

text \<open>Any rows of any texts, with commas, quotes and line breaks in them or empty, up to the limit of the reader.\<close>

lemma csv_read_write:
  assumes "list_all (\<lambda>fs. fs \<noteq> [] \<and> list_all (\<lambda>s. int (length s) < csv_field_limit) fs) rows"
  shows "csv_read (csv_write rows) = Inr rows"
proof -
  have "csv_records (file_lines (csv_write rows)) new_record = Inr rows"
    using assms
  proof (induction rows)
    case (Cons fs rows)
    then show ?case by (simp add: csv_write_def csv_records_row)
  qed (simp add: csv_write_def new_record_def)
  then show ?thesis by (simp add: csv_read_def)
qed

end
