(* ===== verification/Result_Export.thy ===== *)
theory Result_Export
  imports Csv_Files Run_Processor
begin

text \<open>
  Writing results to a file: \<open>exporting/results.py\<close>.  The disk is a map from paths to entries; whether
  the directory can be made and what a failing write leaves behind are part of the surroundings.
  A CSV file is its decoded text (the byte order mark of \<open>utf-8-sig\<close> is left out); the bytes of a
  workbook are what the given library makes of its cells, unless it refuses them.
\<close>

section \<open>The rows\<close>

definition RESULT_COLUMNS :: "string list" where
  "RESULT_COLUMNS =
     [''result_id'', ''status'', ''rule'', ''bank_source_record_ids'', ''erp_invoice_ids'', ''gateway_source_record_ids'',
      ''expected_amount'', ''actual_amount'', ''amount_difference'', ''currency'', ''explanation'', ''requires_review'']"

definition decimal_text :: "decimal option \<Rightarrow> json" where
  "decimal_text v = (case v of None \<Rightarrow> JNull | Some d \<Rightarrow> JText (dec_fixed d))"

fun bar_joined :: "string list \<Rightarrow> string" where
  "bar_joined [] = []"
| "bar_joined [s] = s"
| "bar_joined (s # ss) = s @ CHR ''|'' # bar_joined ss"

definition result_to_dict :: "reconciliation_result \<Rightarrow> (string \<times> json) list" where
  "result_to_dict r =
     [(''result_id'', JText (res_result_id r)), (''status'', JText (result_status_text (res_status r))),
      (''rule'', JText (res_rule r)), (''bank_source_record_ids'', JText (bar_joined (res_bank_ids r))),
      (''erp_invoice_ids'', JText (bar_joined (res_invoice_ids r))),
      (''gateway_source_record_ids'', JText (bar_joined (res_gateway_ids r))),
      (''expected_amount'', decimal_text (res_expected_amount r)),
      (''actual_amount'', decimal_text (res_actual_amount r)),
      (''amount_difference'', decimal_text (res_amount_difference r)),
      (''currency'', case res_currency r of None \<Rightarrow> JNull | Some c \<Rightarrow> JText c),
      (''explanation'', JText (res_explanation r)), (''requires_review'', JBool (res_requires_review r))]"

definition results_to_dicts :: "reconciliation_result list \<Rightarrow> (string \<times> json) list list" where
  "results_to_dicts rs = map result_to_dict rs"

section \<open>The disk\<close>

datatype disk_entry = Directory | File string

record output_disk =
  od_entries :: "string \<Rightarrow> disk_entry option"
  od_mkdir_fails :: bool
  od_write_leaves :: "string option option"

text \<open>
  \<open>od_write_leaves\<close> is \<open>None\<close> when a write succeeds; otherwise what the failing one leaves: nothing new,
  when the file cannot be opened, or some text.
\<close>

text \<open>\<open>Path(p).suffix\<close>: from the last dot of the name, which is neither its first nor its last character.\<close>

definition path_suffix :: "string \<Rightarrow> string" where
  "path_suffix p =
     (let name = path_name p; ending = takeWhile (\<lambda>c. c \<noteq> CHR ''.'') (rev name)
      in if CHR ''.'' \<in> set name \<and> ending \<noteq> [] \<and> length ending + 1 < length name
         then CHR ''.'' # rev ending else [])"

definition prepare_output :: "string \<Rightarrow> string \<Rightarrow> bool \<Rightarrow> output_disk \<Rightarrow> string outcome" where
  "prepare_output path expected_suffix overwrite dk =
     and_then (guard_else (casefold (path_suffix path) = expected_suffix)
       (ResultExportError (''output path must use the '' @ expected_suffix @ '' extension: '' @ path))) (\<lambda>_.
     and_then (case od_entries dk path of
         None \<Rightarrow> Inr ()
       | Some Directory \<Rightarrow> Inl (ResultExportError (''output path is a directory: '' @ path))
       | Some (File _) \<Rightarrow> guard_else overwrite
           (FileExistsError (''output already exists; pass overwrite=True to replace it: '' @ path))) (\<lambda>_.
     and_then (guard_else (\<not> od_mkdir_fails dk) (ResultExportError (''cannot create output directory of '' @ path))) (\<lambda>_.
     Inr path)))"

text \<open>Replacing the contents of a file, and what is raised when that fails.\<close>

definition write_output :: "string \<Rightarrow> string \<Rightarrow> string \<Rightarrow> (output_disk, string) task" where
  "write_output path contents message dk =
     (case od_write_leaves dk of
        None \<Rightarrow> (Inr path, dk \<lparr> od_entries := (od_entries dk)(path \<mapsto> File contents) \<rparr>)
      | Some None \<Rightarrow> (Inl (ResultExportError (message @ path)), dk)
      | Some (Some left) \<Rightarrow>
          (Inl (ResultExportError (message @ path)), dk \<lparr> od_entries := (od_entries dk)(path \<mapsto> File left) \<rparr>))"

section \<open>Exports\<close>

text \<open>The text of a value in a CSV field; a missing value is empty.\<close>

fun csv_value :: "json \<Rightarrow> string" where
  "csv_value (JText s) = s"
| "csv_value (JBool b) = (if b then ''True'' else ''False'')"
| "csv_value _ = []"

definition dict_cells :: "(string \<times> json) list \<Rightarrow> json list" where
  "dict_cells row = map (\<lambda>c. case map_of row c of None \<Rightarrow> JNull | Some v \<Rightarrow> v) RESULT_COLUMNS"

definition export_results_csv :: "reconciliation_result list \<Rightarrow> string \<Rightarrow> bool \<Rightarrow> (output_disk, string) task" where
  "export_results_csv rs path overwrite dk =
     (case prepare_output path ''.csv'' overwrite dk of
        Inl e \<Rightarrow> (Inl e, dk)
      | Inr output \<Rightarrow>
          write_output output
            (csv_write (RESULT_COLUMNS # map (\<lambda>row. map csv_value (dict_cells row)) (results_to_dicts rs)))
            ''cannot write CSV output '' dk)"

definition export_results_xlsx ::
  "(json list list \<Rightarrow> string outcome) \<Rightarrow> reconciliation_result list \<Rightarrow> string \<Rightarrow> bool \<Rightarrow> (output_disk, string) task" where
  "export_results_xlsx workbook rs path overwrite dk =
     (case prepare_output path ''.xlsx'' overwrite dk of
        Inl e \<Rightarrow> (Inl e, dk)
      | Inr output \<Rightarrow>
          (case workbook (map JText RESULT_COLUMNS # map dict_cells (results_to_dicts rs)) of
             Inl e \<Rightarrow> (Inl e, dk)
           | Inr contents \<Rightarrow> write_output output contents ''cannot write XLSX output '' dk))"

section \<open>Properties\<close>

text \<open>The fields of a result in the file.\<close>

definition result_fields :: "reconciliation_result \<Rightarrow> string list" where
  "result_fields r =
     [res_result_id r, result_status_text (res_status r), res_rule r, bar_joined (res_bank_ids r), bar_joined (res_invoice_ids r),
      bar_joined (res_gateway_ids r), case res_expected_amount r of None \<Rightarrow> [] | Some d \<Rightarrow> dec_fixed d,
      case res_actual_amount r of None \<Rightarrow> [] | Some d \<Rightarrow> dec_fixed d,
      case res_amount_difference r of None \<Rightarrow> [] | Some d \<Rightarrow> dec_fixed d,
      case res_currency r of None \<Rightarrow> [] | Some c \<Rightarrow> c, res_explanation r,
      if res_requires_review r then ''True'' else ''False'']"

lemma exported_row: "map csv_value (dict_cells (result_to_dict r)) = result_fields r"
  by (simp add: dict_cells_def RESULT_COLUMNS_def result_to_dict_def result_fields_def decimal_text_def split: option.split)

text \<open>
  C40: An export is the results and nothing else.  A CSV export that succeeds leaves a file that
  reads back, with the reader of the ingestion, as the header and one row per result with its
  texts and the exact digits of its amounts, and no other file has changed.
\<close>

theorem exported_results_are_read_back:
  assumes "export_results_csv rs path overwrite dk = (Inr out, dk')"
    and "list_all (\<lambda>r. list_all (\<lambda>s. int (length s) < csv_field_limit) (result_fields r)) rs"
  shows "\<exists>contents. od_entries dk' = (od_entries dk)(path \<mapsto> File contents) \<and>
    csv_read contents = Inr (RESULT_COLUMNS # map result_fields rs)"
proof -
  let ?rows = "RESULT_COLUMNS # map result_fields rs"
  have rows: "RESULT_COLUMNS # map (\<lambda>row. map csv_value (dict_cells row)) (results_to_dicts rs) = ?rows"
    by (simp add: results_to_dicts_def exported_row)
  have "csv_read (csv_write ?rows) = Inr ?rows"
    using assms(2) by (intro csv_read_write) (auto simp: list_all_iff RESULT_COLUMNS_def csv_field_limit_def result_fields_def)
  moreover have "od_entries dk' = (od_entries dk)(path \<mapsto> File (csv_write ?rows))"
    using assms(1) unfolding export_results_csv_def rows
    by (auto simp: write_output_def prepare_output_def and_then_Inr_iff split: sum.splits option.splits disk_entry.splits)
  ultimately show ?thesis by blast
qed

text \<open>
  Nothing is overwritten by accident.  An export to a path where a directory or, without
  permission to overwrite, a file exists raises and changes nothing, in either format.
\<close>

theorem export_respects_existing_files:
  assumes "od_entries dk path = Some entry" and "entry = Directory \<or> \<not> overwrite"
  shows "\<exists>e e'. export_results_csv rs path overwrite dk = (Inl e, dk) \<and>
    export_results_xlsx workbook rs path overwrite dk = (Inl e', dk)"
  using assms
  by (cases entry) (auto simp: export_results_csv_def export_results_xlsx_def prepare_output_def guard_else_def split: sum.split)


section \<open>Concrete exports\<close>

definition sample_output :: output_disk where
  "sample_output = \<lparr> od_entries = (\<lambda>_. None)(''old.csv'' \<mapsto> File ''x''), od_mkdir_fails = False, od_write_leaves = None \<rparr>"

definition sample_report :: reconciliation_result where
  "sample_report = \<lparr> res_result_id = ''r1'', res_status = EXACT_MATCH, res_rule = ''EXACT'', res_bank_ids = [''b1'', ''b2''],
     res_invoice_ids = [''i1''], res_gateway_ids = [], res_expected_amount = Some (Dec 150 (- 2)),
     res_actual_amount = Some (Dec 150 (- 2)), res_amount_difference = Some (Dec 0 (- 2)), res_currency = Some ''EUR'',
     res_explanation = ''says \"paid\", twice'', res_requires_review = False \<rparr>"

theorem exported_results_are_read_back_witness:
  "\<exists>dk' contents. export_results_csv [sample_report] ''out/r.csv'' False sample_output = (Inr ''out/r.csv'', dk') \<and>
    od_entries dk' ''out/r.csv'' = Some (File contents) \<and> od_entries dk' ''old.csv'' = Some (File ''x'') \<and>
    csv_read contents = Inr [RESULT_COLUMNS, [''r1'', ''EXACT_MATCH'', ''EXACT'', ''b1|b2'', ''i1'', [], ''1.50'', ''1.50'',
      ''0.00'', ''EUR'', ''says \"paid\", twice'', ''False'']]"
proof -
  let ?run = "export_results_csv [sample_report] ''out/r.csv'' False sample_output"
  have fields: "result_fields sample_report = [''r1'', ''EXACT_MATCH'', ''EXACT'', ''b1|b2'', ''i1'', [], ''1.50'', ''1.50'',
      ''0.00'', ''EUR'', ''says \"paid\", twice'', ''False'']"
    by code_simp
  have "prepare_output ''out/r.csv'' ''.csv'' False sample_output = Inr ''out/r.csv''"
    by code_simp
  then obtain dk' where run: "?run = (Inr ''out/r.csv'', dk')"
    by (simp add: export_results_csv_def write_output_def sample_output_def)
  have "list_all (\<lambda>r. list_all (\<lambda>s. int (length s) < csv_field_limit) (result_fields r)) [sample_report]"
    by (simp add: fields csv_field_limit_def)
  from exported_results_are_read_back [OF run this] run show ?thesis
    by (auto simp: fields sample_output_def)
qed

theorem export_respects_existing_files_witness:
  "\<exists>e e'. export_results_csv [sample_report] ''old.csv'' False sample_output = (Inl e, sample_output) \<and>
    export_results_xlsx (\<lambda>_. Inr []) [sample_report] ''old.csv'' False sample_output = (Inl e', sample_output)"
  by (rule export_respects_existing_files [of sample_output "''old.csv''" "File ''x''"]) (simp_all add: sample_output_def)

end
