(* ===== verification/File_Workflow.thy ===== *)
theory File_Workflow
  imports Result_Export
begin

text \<open>
  A whole run from files to a file: \<open>workflow.py\<close>.  The state is the disk of the outputs and the
  run's trail.  The loaders of the inputs are those of the surroundings, which read files of
  their own; the clock is read once per event.
\<close>

section \<open>The summary of a run\<close>

record run_summary =
  sm_bank_transactions_loaded :: int
  sm_erp_invoices_loaded :: int
  sm_gateway_entries_loaded :: int
  sm_reconciliation_results :: int
  sm_result_counts_by_status :: "(string \<times> int) list"
  sm_results_requiring_review :: int
  sm_output_format :: string
  sm_output_path :: string
  sm_audit_record :: audit_record

definition summary_post_init :: "run_summary \<Rightarrow> run_summary" where
  "summary_post_init m = m \<lparr> sm_result_counts_by_status := sort_key fst (sm_result_counts_by_status m) \<rparr>"

section \<open>The workflow\<close>

definition output_suffix :: "string \<Rightarrow> string" where
  "output_suffix path = casefold (path_suffix path)"

definition output_format_of :: "string \<Rightarrow> string" where
  "output_format_of suffix =
     (if suffix = ''.csv'' then ''CSV'' else if suffix = ''.xlsx'' then ''XLSX'' else ''UNSUPPORTED'')"

text \<open>A step on the disk, and a step on the trail that can fail.\<close>

definition on_disk :: "(output_disk, 'a) task \<Rightarrow> (output_disk, 'a) logged" where
  "on_disk m s = (case m (fst s) of (r, dk) \<Rightarrow> (r, (dk, snd s)))"

definition log_export :: "surroundings \<Rightarrow> ('s, unit) logged" where
  "log_export sr s =
     (case export_completed (sr_stamp sr (length (tr_events (snd s)))) (snd s) of
        Inl e \<Rightarrow> (Inl e, s) | Inr t \<Rightarrow> (Inr (), (fst s, t)))"

definition export_stage ::
  "surroundings \<Rightarrow> (json list list \<Rightarrow> string outcome) \<Rightarrow> string \<Rightarrow> bool \<Rightarrow> reconciliation_result list \<Rightarrow>
     (output_disk, string) logged" where
  "export_stage sr workbook path overwrite rs =
     and_also (log_stage ''export'') (\<lambda>_.
     and_also (on_disk (if output_suffix path = ''.csv'' then export_results_csv rs path overwrite
                        else export_results_xlsx workbook rs path overwrite)) (\<lambda>written.
     and_also (log_export sr) (\<lambda>_.
     give written)))"

definition finish_trail :: "surroundings \<Rightarrow> ('s, audit_record) logged" where
  "finish_trail sr s =
     (case succeed_trail (sr_stamp sr (length (tr_events (snd s)))) (sr_ns sr 1) (snd s) of
        (r, t) \<Rightarrow> (r, (fst s, t)))"

text \<open>The body of the \<open>try\<close>.\<close>

definition workflow_body ::
  "surroundings \<Rightarrow> (json list list \<Rightarrow> string outcome) \<Rightarrow> config \<Rightarrow> string \<Rightarrow> string \<Rightarrow> string option \<Rightarrow> string \<Rightarrow>
     bool \<Rightarrow> (output_disk, run_summary) logged" where
  "workflow_body sr workbook cfg bank_path erp_path gateway_path output_path overwrite =
     and_also (lift_outcome (guard_else (output_suffix output_path \<in> {''.csv'', ''.xlsx''})
       (ValueError ''output_path must use a .csv or .xlsx extension''))) (\<lambda>_.
     and_also (ingest sr ''bank_ingestion'' BANK_SOURCE (sr_load_banks sr bank_path)) (\<lambda>banks.
     and_also (ingest sr ''erp_ingestion'' ERP_SOURCE (sr_load_invoices sr erp_path)) (\<lambda>invoices.
     and_also (ingest_gateways sr gateway_path) (\<lambda>gateways.
     and_also (reconcile_stage sr cfg banks invoices gateways) (\<lambda>rs.
     and_also (export_stage sr workbook output_path overwrite rs) (\<lambda>written.
     and_also (finish_trail sr) (\<lambda>audit.
     give (summary_post_init
       \<lparr> sm_bank_transactions_loaded = int (length banks), sm_erp_invoices_loaded = int (length invoices),
         sm_gateway_entries_loaded = int (length gateways), sm_reconciliation_results = int (length rs),
         sm_result_counts_by_status = status_counts rs, sm_results_requiring_review = review_count rs,
         sm_output_format = output_format_of (output_suffix output_path), sm_output_path = written,
         sm_audit_record = audit \<rparr>))))))))"

text \<open>The \<open>except\<close> clause: what \<open>fail\<close> raises, if anything, takes the place of the error.\<close>

definition fail_and_raise :: "surroundings \<Rightarrow> py_error \<Rightarrow> ('s, 'a) logged" where
  "fail_and_raise sr err s =
     (case fail_trail (sr_stamp sr (length (tr_events (snd s)))) (sr_ns sr 2) err (snd s) of
        (Inl e, t) \<Rightarrow> (Inl e, (fst s, t)) | (Inr _, t) \<Rightarrow> (Inl err, (fst s, t)))"

definition run_reconciliation_workflow ::
  "surroundings \<Rightarrow> (json list list \<Rightarrow> string outcome) \<Rightarrow> config option \<Rightarrow> string \<Rightarrow> string \<Rightarrow> string option \<Rightarrow>
     string \<Rightarrow> bool \<Rightarrow> (output_disk, run_summary) logged" where
  "run_reconciliation_workflow sr workbook reconciliation bank_path erp_path gateway_path output_path overwrite s =
     (let cfg = (case reconciliation of None \<Rightarrow> default_config | Some c \<Rightarrow> c)
      in case start_trail (sr_stamp sr 0) (sr_ns sr 0) bank_path erp_path gateway_path output_path
          (output_format_of (output_suffix output_path)) cfg (snd s) of
        Inl e \<Rightarrow> (Inl e, s)
      | Inr t \<Rightarrow> on_error (workflow_body sr workbook cfg bank_path erp_path gateway_path output_path overwrite)
          (fail_and_raise sr) (fst s, t))"

section \<open>The steps\<close>

text \<open>What an export does to the disk.\<close>

definition half_written :: "string \<Rightarrow> output_disk \<Rightarrow> output_disk \<Rightarrow> bool" where
  "half_written path dk dk' \<longleftrightarrow> (\<exists>left. od_write_leaves dk = Some (Some left) \<and>
     dk' = dk \<lparr> od_entries := (od_entries dk)(path \<mapsto> File left) \<rparr>)"

lemma prepare_output_Inr: "prepare_output path suffix overwrite dk = Inr out \<Longrightarrow> out = path"
  by (auto simp: prepare_output_def and_then_Inr_iff guard_else_Inr_iff split: option.splits disk_entry.splits)

lemma export_Inl:
  "export_results_csv rs path overwrite dk = (Inl e, dk') \<Longrightarrow> dk' = dk \<or> half_written path dk dk'"
  "export_results_xlsx workbook rs path overwrite dk = (Inl e, dk') \<Longrightarrow> dk' = dk \<or> half_written path dk dk'"
  by (auto simp: export_results_csv_def export_results_xlsx_def write_output_def half_written_def
      split: sum.splits option.splits dest!: prepare_output_Inr)

text \<open>The file an export is to leave, by its format.\<close>

definition report_contents :: "(json list list \<Rightarrow> string outcome) \<Rightarrow> string \<Rightarrow> reconciliation_result list \<Rightarrow> string outcome" where
  "report_contents workbook path rs =
     (if output_suffix path = ''.csv'' then Inr (csv_write (RESULT_COLUMNS # map result_fields rs))
      else workbook (map JText RESULT_COLUMNS # map (dict_cells \<circ> result_to_dict) rs))"

lemma export_Inr:
  assumes "(if output_suffix path = ''.csv'' then export_results_csv rs path overwrite
            else export_results_xlsx workbook rs path overwrite) dk = (Inr out, dk')"
  shows "out = path" "\<exists>contents. report_contents workbook path rs = Inr contents \<and>
    dk' = dk \<lparr> od_entries := (od_entries dk)(path \<mapsto> File contents) \<rparr>"
  using assms
  by (auto simp: export_results_csv_def export_results_xlsx_def write_output_def report_contents_def results_to_dicts_def
      exported_row comp_def split: if_splits sum.splits option.splits dest!: prepare_output_Inr)

lemma export_stage_cases:
  assumes "export_stage sr workbook path overwrite rs s = (r, s')" and "trail_live (snd s)"
  shows "trail_live (snd s')"
    "r = Inl e \<Longrightarrow> fst s' = fst s \<or> half_written path (fst s) (fst s') \<and> tr_stage (snd s') = ''export''"
    "r = Inr out \<Longrightarrow> out = path \<and> event_types (snd s') = event_types (snd s) @ [EXPORT_COMPLETED] \<and>
      (\<exists>contents. report_contents workbook path rs = Inr contents \<and>
        fst s' = (fst s) \<lparr> od_entries := (od_entries (fst s))(path \<mapsto> File contents) \<rparr>)"
proof -
  let ?m = "if output_suffix path = ''.csv'' then export_results_csv rs path overwrite
            else export_results_xlsx workbook rs path overwrite"
  let ?t = "begin_stage ''export'' (snd s)"
  obtain r1 dk where m: "?m (fst s) = (r1, dk)" by (rule prod.exhaust)
  have live: "trail_live ?t" using assms(2) by (simp add: trail_live_def trail_ok_stage) (simp add: begin_stage_def)
  have step: "export_stage sr workbook path overwrite rs s =
      (case r1 of Inl e \<Rightarrow> (Inl e, (dk, ?t)) | Inr written \<Rightarrow> and_also (log_export sr) (\<lambda>_. give written) (dk, ?t))"
    using m by (simp add: export_stage_def and_also_def log_stage_def on_disk_def split: sum.split)
  have "trail_live (snd s') \<and>
    (r = Inl e \<longrightarrow> fst s' = fst s \<or> half_written path (fst s) (fst s') \<and> tr_stage (snd s') = ''export'') \<and>
    (r = Inr out \<longrightarrow> out = path \<and> event_types (snd s') = event_types (snd s) @ [EXPORT_COMPLETED] \<and>
      (\<exists>contents. report_contents workbook path rs = Inr contents \<and>
        fst s' = (fst s) \<lparr> od_entries := (od_entries (fst s))(path \<mapsto> File contents) \<rparr>))"
  proof (cases r1)
    case (Inl e1)
    then have "dk = fst s \<or> half_written path (fst s) dk" using m by (auto split: if_splits dest: export_Inl)
    with step Inl assms(1) live show ?thesis by (auto simp: begin_stage_def)
  next
    case (Inr written)
    obtain md where md: "tr_metadata ?t = Some md" using live by (auto simp: trail_live_def trail_ok_def)
    let ?t' = "emit (sr_stamp sr (length (tr_events ?t))) EXPORT_COMPLETED [(''output_format'', JText (tm_output_format md)),
        (''output_filename'', JText (tm_output_filename md))] ?t"
    have "s' = (dk, ?t')" "r = Inr written"
      using assms(1) unfolding step Inr by (auto simp: and_also_def log_export_def export_completed_def md give_def)
    moreover have "trail_live ?t'" using live by (simp add: trail_live_def trail_ok_emit)
    ultimately show ?thesis using export_Inr [OF m [unfolded Inr]] by auto
  qed
  then show "trail_live (snd s')"
    "r = Inl e \<Longrightarrow> fst s' = fst s \<or> half_written path (fst s) (fst s') \<and> tr_stage (snd s') = ''export''"
    "r = Inr out \<Longrightarrow> out = path \<and> event_types (snd s') = event_types (snd s) @ [EXPORT_COMPLETED] \<and>
      (\<exists>contents. report_contents workbook path rs = Inr contents \<and>
        fst s' = (fst s) \<lparr> od_entries := (od_entries (fst s))(path \<mapsto> File contents) \<rparr>)"
    by blast+
qed


text \<open>Every other step leaves the disk alone and keeps a started trail in good order.\<close>

definition off_disk :: "'s \<times> trail \<Rightarrow> 's \<times> trail \<Rightarrow> bool" where
  "off_disk s s' \<longleftrightarrow> fst s' = fst s \<and> keeps_live s s'"

lemma off_disk_order: "transp off_disk" "reflp off_disk"
  by (auto simp: off_disk_def keeps_live_def transp_def reflp_def)

lemma off_disk_log: "task_rel off_disk (log_stage stage)"
  "(\<And>now t. trail_live t \<Longrightarrow> trail_live (f now t)) \<Longrightarrow> task_rel off_disk (log_with sr f)"
  by (auto simp: task_rel_def off_disk_def log_steps log_with_live)
    (simp_all add: log_stage_def log_with_def)

lemmas off_disk_rules = task_rel_and_also off_disk_order task_rel_simple off_disk_log trail_live_steps

lemma off_disk_ingest: "task_rel off_disk (ingest sr stage source load)"
  unfolding ingest_def by (intro off_disk_rules)

lemma off_disk_stages:
  "task_rel off_disk (ingest_gateways sr path)" "task_rel off_disk (reconcile_stage sr cfg bs es gs)"
proof -
  show "task_rel off_disk (ingest_gateways sr path)"
    unfolding ingest_gateways_def by (cases path) (auto intro!: off_disk_rules off_disk_ingest)
  show "task_rel off_disk (reconcile_stage sr cfg bs es gs)"
    unfolding reconcile_stage_def by (intro off_disk_rules)
qed

lemma finish_trail_live:
  assumes "trail_live (snd s)"
  obtains r t where "finish_trail sr s = (Inr r, (fst s, t))" "ar_status r = AUDIT_SUCCEEDED" "tr_record t = Some r"
    "event_types t = event_types (snd s) @ [AUDIT_RUN_SUCCEEDED]"
proof -
  let ?now = "sr_stamp sr (length (tr_events (snd s)))"
  obtain r t where rt: "succeed_trail ?now (sr_ns sr 1) (snd s) = (Inr r, t)" "ar_status r = AUDIT_SUCCEEDED"
    "event_types t = event_types (snd s) @ [AUDIT_RUN_SUCCEEDED]"
    by (rule succeed_trail_started [of "snd s" ?now "sr_ns sr 1"]) (use assms in \<open>auto simp: trail_live_def\<close>)
  moreover have "tr_record t = Some r" using rt(1) by (auto simp: succeed_trail_def Let_def split: sum.splits)
  ultimately show ?thesis using that by (simp add: finish_trail_def)
qed

section \<open>Runs that fail\<close>

text \<open>
  A task fails cleanly when a failure leaves the trail in good order and the disk as it was,
  except for an export that broke off while it wrote.
\<close>

definition clean_failure :: "string \<Rightarrow> output_disk \<times> trail \<Rightarrow> output_disk \<times> trail \<Rightarrow> bool" where
  "clean_failure path s s' \<longleftrightarrow> trail_live (snd s') \<and>
     (fst s' = fst s \<or> half_written path (fst s) (fst s') \<and> tr_stage (snd s') = ''export'')"

definition fails_cleanly :: "string \<Rightarrow> (output_disk, 'a) logged \<Rightarrow> bool" where
  "fails_cleanly path m \<longleftrightarrow> (\<forall>s e s'. trail_live (snd s) \<longrightarrow> m s = (Inl e, s') \<longrightarrow> clean_failure path s s')"

lemma fails_cleanly_and_also:
  assumes "task_rel off_disk m" and "\<And>x. fails_cleanly path (f x)"
  shows "fails_cleanly path (and_also m f)"
  unfolding fails_cleanly_def
proof (intro allI impI)
  fix s e s'
  assume live: "trail_live (snd s)" and run: "and_also m f s = (Inl e, s')"
  obtain r1 s1 where m: "m s = (r1, s1)" by (rule prod.exhaust)
  then have s1: "fst s1 = fst s" "trail_live (snd s1)"
    using task_relD [OF assms(1), of s] live by (auto simp: off_disk_def keeps_live_def)
  show "clean_failure path s s'"
  proof (cases r1)
    case (Inl e1)
    with run m s1 show ?thesis by (simp add: and_also_def clean_failure_def)
  next
    case (Inr x)
    with run m have "f x s1 = (Inl e, s')" by (simp add: and_also_def)
    with assms(2) [of x] s1 have "clean_failure path s1 s'" unfolding fails_cleanly_def by blast
    with s1 show ?thesis by (simp add: clean_failure_def)
  qed
qed

lemma fails_cleanly_export:
  "fails_cleanly path (and_also (export_stage sr workbook path overwrite rs) (\<lambda>written.
     and_also (finish_trail sr) (\<lambda>audit. give (f written audit))))"
  unfolding fails_cleanly_def
proof (intro allI impI)
  fix s e s'
  assume live: "trail_live (snd s)" and run: "and_also (export_stage sr workbook path overwrite rs) (\<lambda>written.
     and_also (finish_trail sr) (\<lambda>audit. give (f written audit))) s = (Inl e, s')"
  obtain r1 s1 where ex: "export_stage sr workbook path overwrite rs s = (r1, s1)" by (rule prod.exhaust)
  note cases = export_stage_cases [OF ex live]
  show "clean_failure path s s'"
  proof (cases r1)
    case (Inl e1)
    with run ex cases(1) cases(2) [OF Inl] show ?thesis by (auto simp: and_also_def clean_failure_def)
  next
    case (Inr x)
    obtain r t where "finish_trail sr s1 = (Inr r, (fst s1, t))" by (rule finish_trail_live [OF cases(1)])
    with run ex Inr show ?thesis by (simp add: and_also_def give_def)
  qed
qed

lemma workflow_body_fails_cleanly:
  "fails_cleanly output_path (workflow_body sr workbook cfg bank_path erp_path gateway_path output_path overwrite)"
  unfolding workflow_body_def
  by (intro fails_cleanly_and_also fails_cleanly_export off_disk_rules off_disk_ingest off_disk_stages)

lemma fail_trail_record:
  assumes "trail_live t"
  obtains r t' where "fail_trail now ns err t = (Inr r, t')" "tr_record t' = Some r" "ar_status r = AUDIT_FAILED"
    "ar_failure_type r = Some (error_name err)" "ar_failure_stage r = Some (tr_stage t)"
    "event_types t' = event_types t @ [AUDIT_RUN_FAILED]"
  using assms
  by (auto simp: trail_live_def trail_ok_def fail_trail_def finish_record_def audit_record_post_init_def Let_def)


section \<open>Runs that succeed\<close>

lemma off_disk_Inr:
  assumes "m s = (Inr x, s1)" and "task_rel off_disk m" and "trail_live (snd s)"
  shows "fst s1 = fst s" "trail_live (snd s1)"
  using task_relD [OF assms(2), of s] assms(1,3) by (auto simp: off_disk_def keeps_live_def)

lemma workflow_body_Inr:
  assumes "workflow_body sr workbook cfg bank_path erp_path gateway_path output_path overwrite s = (Inr summary, s')"
    and "trail_live (snd s)"
  obtains bs es gs rs audit contents where "sr_load_banks sr bank_path = Inr bs" "sr_load_invoices sr erp_path = Inr es"
    "gateways_loaded sr gateway_path gs" "reconcile cfg bs es gs = Inr rs"
    "report_contents workbook output_path rs = Inr contents"
    "fst s' = (fst s) \<lparr> od_entries := (od_entries (fst s))(output_path \<mapsto> File contents) \<rparr>"
    "event_types (snd s') = event_types (snd s) @ [BANK_INGESTION_COMPLETED, ERP_INGESTION_COMPLETED,
       gateway_event gateway_path, RECONCILIATION_COMPLETED, EXPORT_COMPLETED, AUDIT_RUN_SUCCEEDED]"
    "tr_record (snd s') = Some audit" "ar_status audit = AUDIT_SUCCEEDED"
    "summary = summary_post_init
       \<lparr> sm_bank_transactions_loaded = int (length bs), sm_erp_invoices_loaded = int (length es),
         sm_gateway_entries_loaded = int (length gs), sm_reconciliation_results = int (length rs),
         sm_result_counts_by_status = status_counts rs, sm_results_requiring_review = review_count rs,
         sm_output_format = output_format_of (output_suffix output_path), sm_output_path = output_path,
         sm_audit_record = audit \<rparr>"
proof -
  from assms(1) obtain s0 bs s1 es s2 gs s3 rs s4 written s5 audit s6 where
    g0: "lift_outcome (guard_else (output_suffix output_path \<in> {''.csv'', ''.xlsx''})
       (ValueError ''output_path must use a .csv or .xlsx extension'')) s = (Inr (), s0)"
    and b: "ingest sr ''bank_ingestion'' BANK_SOURCE (sr_load_banks sr bank_path) s0 = (Inr bs, s1)"
    and i: "ingest sr ''erp_ingestion'' ERP_SOURCE (sr_load_invoices sr erp_path) s1 = (Inr es, s2)"
    and g: "ingest_gateways sr gateway_path s2 = (Inr gs, s3)"
    and r: "reconcile_stage sr cfg bs es gs s3 = (Inr rs, s4)"
    and x: "export_stage sr workbook output_path overwrite rs s4 = (Inr written, s5)"
    and f: "finish_trail sr s5 = (Inr audit, s6)"
    and fin: "give (summary_post_init
       \<lparr> sm_bank_transactions_loaded = int (length bs), sm_erp_invoices_loaded = int (length es),
         sm_gateway_entries_loaded = int (length gs), sm_reconciliation_results = int (length rs),
         sm_result_counts_by_status = status_counts rs, sm_results_requiring_review = review_count rs,
         sm_output_format = output_format_of (output_suffix output_path), sm_output_path = written,
         sm_audit_record = audit \<rparr>) s6 = (Inr summary, s')"
    unfolding workflow_body_def by (elim and_also_Inr) simp
  have s0: "s0 = s" using g0 by (simp add: lift_outcome_def)
  note l1 = off_disk_Inr [OF b off_disk_ingest assms(2) [folded s0]]
  note l2 = off_disk_Inr [OF i off_disk_ingest l1(2)]
  note l3 = off_disk_Inr [OF g off_disk_stages(1) l2(2)]
  note l4 = off_disk_Inr [OF r off_disk_stages(2) l3(2)]
  note ex = export_stage_cases [OF x l4(2)]
  obtain contents where contents: "report_contents workbook output_path rs = Inr contents"
    "fst s5 = (fst s4) \<lparr> od_entries := (od_entries (fst s4))(output_path \<mapsto> File contents) \<rparr>"
    using ex(3) [OF refl] by blast
  obtain a t where "finish_trail sr s5 = (Inr a, (fst s5, t))" "ar_status a = AUDIT_SUCCEEDED" "tr_record t = Some a"
    "event_types t = event_types (snd s5) @ [AUDIT_RUN_SUCCEEDED]"
    by (rule finish_trail_live [OF ex(1)])
  with f fin have "s' = (fst s5, t)" "audit = a" "ar_status a = AUDIT_SUCCEEDED" "tr_record t = Some a"
    "event_types t = event_types (snd s5) @ [AUDIT_RUN_SUCCEEDED]" by (simp_all add: give_def)
  then show ?thesis
    using that [of bs es gs rs contents audit] contents ex(3) [OF refl] l1(1) l2(1) l3(1) l4(1) s0 fin
      ingest_Inr [OF b] ingest_Inr [OF i] ingest_gateways_Inr [OF g] reconcile_stage_Inr [OF r]
    by (simp add: give_def)
qed

text \<open>
  C10: A run that returns has reported what it loaded.  The inputs have loaded, the file at the
  output path, and no other, is new and holds the engine's results on them in the format of its
  suffix, the summary counts records, results, statuses and reviews as they are, the events are
  those of a complete run in order, and the record in the summary is the successful one the
  trail ended with.
\<close>

theorem workflow_reports_what_it_loaded:
  assumes "run_reconciliation_workflow sr workbook reconciliation bank_path erp_path gateway_path output_path overwrite
      (dk, t) = (Inr summary, (dk', t'))"
    and "trail_ok t"
  shows "\<exists>bs es gs rs contents.
    sr_load_banks sr bank_path = Inr bs \<and> sr_load_invoices sr erp_path = Inr es \<and>
    gateways_loaded sr gateway_path gs \<and>
    reconcile (case reconciliation of None \<Rightarrow> default_config | Some c \<Rightarrow> c) bs es gs = Inr rs \<and>
    report_contents workbook output_path rs = Inr contents \<and>
    od_entries dk' = (od_entries dk)(output_path \<mapsto> File contents) \<and>
    sm_bank_transactions_loaded summary = int (length bs) \<and> sm_erp_invoices_loaded summary = int (length es) \<and>
    sm_gateway_entries_loaded summary = int (length gs) \<and> sm_reconciliation_results summary = int (length rs) \<and>
    sm_result_counts_by_status summary = sort_key fst (status_counts rs) \<and>
    sm_results_requiring_review summary = review_count rs \<and> sm_output_path summary = output_path \<and>
    event_types t' = [RUN_STARTED, BANK_INGESTION_COMPLETED, ERP_INGESTION_COMPLETED,
       gateway_event gateway_path, RECONCILIATION_COMPLETED, EXPORT_COMPLETED, AUDIT_RUN_SUCCEEDED] \<and>
    tr_record t' = Some (sm_audit_record summary) \<and> ar_status (sm_audit_record summary) = AUDIT_SUCCEEDED"
proof -
  define cfg where "cfg = (case reconciliation of None \<Rightarrow> default_config | Some c \<Rightarrow> c)"
  note run = assms(1) [unfolded run_reconciliation_workflow_def cfg_def [symmetric] Let_def]
  obtain t0 where st: "start_trail (sr_stamp sr 0) (sr_ns sr 0) bank_path erp_path gateway_path output_path
      (output_format_of (output_suffix output_path)) cfg t = Inr t0"
    using run by (auto split: sum.splits)
  have t0: "trail_live (snd (dk, t0))" "event_types t0 = [RUN_STARTED]"
    using start_trail_Inr [OF st assms(2)] by (simp_all add: trail_live_def)
  have body: "workflow_body sr workbook cfg bank_path erp_path gateway_path output_path overwrite (dk, t0) = (Inr summary, (dk', t'))"
    using run st by (auto simp: on_error_def fail_and_raise_def split: prod.splits sum.splits)
  show ?thesis
    unfolding cfg_def [symmetric]
    apply (rule workflow_body_Inr [OF body t0(1)])
    subgoal for bs es gs rs audit contents
      by (intro exI [of _ bs] exI [of _ es] exI [of _ gs] exI [of _ rs] exI [of _ contents])
        (simp add: summary_post_init_def t0(2))
    done
qed


section \<open>Concrete runs\<close>

definition sample_disk :: "string option option \<Rightarrow> output_disk" where
  "sample_disk leaves = \<lparr> od_entries = (\<lambda>_. None)(''old.csv'' \<mapsto> File ''x''), od_mkdir_fails = False, od_write_leaves = leaves \<rparr>"

theorem workflow_reports_what_it_loaded_witness:
  "\<exists>dk' t' summary. run_reconciliation_workflow (sample_surroundings (Inr [sample_bank ''B1'' ''x'' (Dec 100 0)]))
      (\<lambda>_. Inr []) None ''b.csv'' ''e.csv'' None ''out/r.csv'' False (sample_disk None, new_trail 7) = (Inr summary, (dk', t')) \<and>
    sm_reconciliation_results summary = 1 \<and> last (event_types t') = AUDIT_RUN_SUCCEEDED"
proof -
  let ?run = "run_reconciliation_workflow (sample_surroundings (Inr [sample_bank ''B1'' ''x'' (Dec 100 0)]))
      (\<lambda>_. Inr []) None ''b.csv'' ''e.csv'' None ''out/r.csv'' False (sample_disk None, new_trail 7)"
  have "case ?run of (Inr m, _) \<Rightarrow> sm_reconciliation_results m = 1 | (Inl _, _) \<Rightarrow> False"
    by code_simp
  moreover obtain r dk' t' where run: "?run = (r, (dk', t'))" by (metis surj_pair)
  ultimately obtain m where ok: "r = Inr m" "sm_reconciliation_results m = 1" by (cases r) simp_all
  from workflow_reports_what_it_loaded [OF run [unfolded ok(1)] trail_ok_new] ok run show ?thesis by fastforce
qed


end
