(* ===== verification/Spec2Isabelle.thy ===== *)
theory Spec2Isabelle
  imports Account_Life File_Routes Run_Routes AI_Usage Suggestions Suggestion_Workflow Storage_Upkeep File_Workflow
begin

text \<open>
  A verification library for ReconcileFlow, the Python service under \<open>src/backend\<close> that
  reconciles bank transactions, ERP invoices and gateway settlements for many organizations.
  Paths below are relative to \<open>src/backend/src/reconcileflow\<close>.

  The program.  Users register and log in, belong to organizations with a role, upload files
  for a reconciliation run and queue a background job for it.  A worker claims jobs from a
  table of the database, runs the reconciliation engine over the parsed files while it
  reports progress, and commits the results, the audit rows and the status of the run.  All
  state is in the database; every request or worker step is one or more transactions.

  How it is modelled.  A table is a list of rows and a row a record (\<open>Schema\<close>); the check
  constraints of a table are a predicate on its rows, checked with uniqueness and the foreign
  keys where a row is written.  A repository method is a function from the database to an
  error or a value and a new database.  \<open>unit_of_work\<close> commits or rolls back a whole body; a
  sequence of transactions is a task, whose database survives an error.  Exceptions are the
  constructors of \<open>py_error\<close>.  Clock readings, identifiers drawn by \<open>uuid4\<close>, rows locked by
  another transaction and what other processes do between two transactions are arguments, so
  the theorems hold for every value of them.  Instants are integers in microseconds of UTC,
  texts are lists of 8-bit characters, amounts are decimals with Python's rules.

  The theories, and what their lemmas show.

    \<^item> \<open>Flow_Prelude\<close>: errors and their sequencing, loops that may raise, text, grouping,
      sorting, combinations, tasks, the text of a UUID.
    \<^item> \<open>Decimals\<close>: \<open>decimal.Decimal\<close> with the default context, as far as the code uses it.
    \<^item> \<open>Domain_Models\<close>: the dataclasses of \<open>models/\<close>; their constructors accept exactly the
      rows that satisfy the stated validity predicates.
    \<^item> \<open>Engine\<close>: \<open>reconciliation/\<close>, one definition per rule; the report names every input
      row, its lines satisfy what their rule promises, its ids are distinct and it does not
      depend on the order of the inputs.
    \<^item> \<open>Schema\<close>: \<open>persistence/models.py\<close>, \<open>unit_of_work.py\<close>, pagination; the interface
      \<open>tenant_table\<close> of a table whose rows belong to tenants.
    \<^item> \<open>Runs\<close>, \<open>Source_Files\<close>, \<open>Job_Queue\<close>: the repositories of \<open>persistence/repositories.py\<close>
      for runs, results, audit rows, source files and the job queue.
    \<^item> \<open>Queue_Life\<close>: the queue as a step relation: its invariant, the life cycle of a job,
      which job is claimed, recovery, retention, isolation of tenants, bounds on attempts.
    \<^item> \<open>Audit_Trail\<close>: \<open>audit/\<close>.  \<open>Worker_Service\<close>: \<open>worker/service.py\<close>.  \<open>Run_Processor\<close>:
      \<open>worker/reconciliation.py\<close>; what a finished, failed or cancelled job leaves behind,
      whatever other processes do meanwhile.
    \<^item> \<open>Identifiers\<close>: reading a UUID from text, the inverse of writing it.
    \<^item> \<open>Tenancy\<close>: organizations, users, memberships, the security trail, the tenant context
      (\<open>api/auth_dependencies.py\<close>) and the routes of organizations and members.  The interface
      \<open>member_operation\<close> is what a request may do to the members; the last owner survives,
      admins cannot touch owners, quotas hold.
    \<^item> \<open>Tokens\<close>: \<open>auth/\<close> and the refresh tokens.  \<open>Accounts\<close>: \<open>api/routes/auth.py\<close>.
      \<open>Account_Life\<close>: sessions refine a small specification (\<open>session_step\<close>), reuse of a
      token ends its session, wrong passwords lock an account, registration succeeds.

    \<^item> \<open>Local_Storage\<close>: \<open>storage/local.py\<close> over a directory of files; the interface
      \<open>file_storage\<close> is what the clients of a provider rely on.  File names are safe, keys
      valid, and what was saved is read back.
    \<^item> \<open>File_Routes\<close>: \<open>api/routes/files.py\<close> over the database and the store of a provider; the
      counters of the organizations and the objects of the rows stay right through every
      request, failed ones and their compensation included.
    \<^item> \<open>Run_Routes\<close>: \<open>api/routes/runs.py\<close>, \<open>execution.py\<close>, \<open>jobs.py\<close>; an accepted execution
      queues one job, and the requests refine the step relation of \<open>Queue_Life\<close>.
    \<^item> \<open>AI_Usage\<close>: the budget of hosted inference (\<open>ai/usage.py\<close> and its repositories); the
      interface \<open>budget_window\<close> is a day or a month, and no window exceeds its limit.
    \<^item> \<open>Suggestions\<close>: advisory matches and their decisions; the interface
      \<open>suggestion_client\<close> is what may change them.  Decisions are final, and the hashed text of
      a fingerprint identifies the proposed records.
    \<^item> \<open>Inference\<close>: \<open>ai/inference.py\<close>, with doubles as exact rationals rounded to 53 bits.
      \<open>Candidates\<close>: \<open>ai/candidates.py\<close>, the ratio of \<open>difflib\<close> included; the candidates are
      exactly those of the eligible pairs, ranked.
    \<^item> \<open>Suggestion_Workflow\<close>: \<open>ai/workflow.py\<close> and the route that generates suggestions; a
      generation adds all its suggestions or none and settles the reservations it made.
    \<^item> \<open>Retention\<close>: \<open>maintenance/cleanup.py\<close>; the interface \<open>batch_deletion\<close> is one batch of a
      deletion.  The loops end, and delete what is due and nothing else.
    \<^item> \<open>Storage_Upkeep\<close>: \<open>maintenance/orphan_cleanup.py\<close> and \<open>storage_integrity.py\<close>; the
      interface \<open>listing_storage\<close> is a store that lists the objects of a tenant.  No row loses
      its object, and a repair makes the counters right.
    \<^item> \<open>Csv_Files\<close>: the reader and writer of \<open>csv\<close>; what is written is read back.
      \<open>Result_Export\<close>: \<open>exporting/results.py\<close>.  \<open>File_Workflow\<close>: \<open>workflow.py\<close>; a run reports
      what it loaded, or leaves no report.

  Bounds.  Every loop of the code is structural here except the search of a free slug and the
  batches of a cleanup, which are partial functions whose termination is a theorem, and two
  recursions on decreasing numbers.

  Assumptions.  The JWT library decodes what it encoded (\<open>jwt_round_trip\<close>); identifiers drawn
  for new rows are unused; a login draws an unused family of tokens.  Rows are read and
  written by one transaction at a time, except where interleaving is an argument
  (\<open>Worker_Service\<close>, \<open>Run_Processor\<close>) or the subject of a theorem.

  Not modelled.  The ingestion of files (\<open>ingestion/core.py\<close>) is a parameter of its callers.
  The HTTP client of the model provider, the S3 backend, process entry points, settings,
  logging and the response schemas are input and output or framework glue.  \<open>updated_at\<close>
  columns, lengths of text columns and rounding of percentages to floats are left out.
\<close>

end
